(* ===== verification/Prelude.thy ===== *)
theory Prelude
  imports Complex_Main "HOL-Library.Word"
begin

text \<open>
  Shared vocabulary of the development: the machine integer types of the firmware, the
  result type of operations that can throw, trip an assertion or reach undefined
  behaviour, the Arduino \<open>constrain\<close> macro, C's truncating division and the named
  collections the component theories add their facts to.
\<close>

named_theorems inv_intros \<open>introduction rules for component invariants\<close>
named_theorems step_simps \<open>equations that unfold one step of a component\<close>

section \<open>Machine integers\<close>

type_synonym u8 = "8 word"
type_synonym u16 = "16 word"
type_synonym u32 = "32 word"
type_synonym u64 = "64 word"

text \<open>
  C promotes \<open>uint8_t\<close> and \<open>uint16_t\<close> operands to \<open>int\<close> before it computes. The model
  reads such a value with \<^const>\<open>uint\<close> (or \<^const>\<open>sint\<close>), computes on \<^typ>\<open>int\<close>, and
  truncates with \<^const>\<open>word_of_int\<close> where the code stores the result. 64 bit and 32 bit
  unsigned arithmetic is done on the words themselves, where it wraps.
\<close>

lemma uint_u16_range [simp]: "0 \<le> uint (w :: u16)" "uint (w :: u16) < 65536"
  using uint_lt2p [of w] by simp_all

lemma uint_u16_le [simp]: "uint (w :: u16) \<le> 65535"
  using uint_u16_range(2) [of w] by linarith

lemma uint_u8_range [simp]: "0 \<le> uint (w :: u8)" "uint (w :: u8) < 256"
  using uint_lt2p [of w] by simp_all

lemma unsigned_rat_nonneg [simp]: "0 \<le> (unsigned (w :: 'a::len word) :: rat)"
  by (metis of_nat_0_le_iff of_nat_unat)

lemma uint_of_int_u16: "0 \<le> i \<Longrightarrow> i < 65536 \<Longrightarrow> uint (word_of_int i :: u16) = i"
  by (simp add: uint_word_of_int)

lemma uint_ucast_u16_u32 [simp]: "uint (ucast (w :: u16) :: u32) = uint w"
proof -
  have "uint w < 2 ^ 32" using uint_u16_range(2) [of w] by (simp del: uint_u16_range)
  then show ?thesis by (simp add: unsigned_ucast_eq take_bit_int_eq_self del: uint_u16_range)
qed

lemma u16_zero_iff: "w = 0 \<longleftrightarrow> uint (w :: u16) = 0"
  by (simp add: unsigned_eq_0_iff)

lemma sint_s16_range: "- 32768 \<le> sint (w :: u16)" "sint (w :: u16) < 32768"
  using sint_ge [of w] sint_lt [of w] by simp_all

lemma sint_of_int_s16:
  "- 32768 \<le> i \<Longrightarrow> i < 32768 \<Longrightarrow> sint (word_of_int i :: u16) = i"
  by (simp add: sint_sbintrunc' signed_take_bit_int_eq_self)

definition trunc_div :: "int \<Rightarrow> int \<Rightarrow> int" where
  \<comment> \<open>C integer division rounds towards zero.\<close>
  "trunc_div a b = sgn a * sgn b * (\<bar>a\<bar> div \<bar>b\<bar>)"

lemma trunc_div_nonneg: "0 \<le> a \<Longrightarrow> 0 < b \<Longrightarrow> trunc_div a b = a div b"
  by (cases "a = 0") (simp_all add: trunc_div_def)

lemma le_div_iff_int: "0 < c \<Longrightarrow> a \<le> b div c \<longleftrightarrow> a * c \<le> (b :: int)"
proof
  assume c: "0 < c" and "a \<le> b div c"
  then have "a * c \<le> b div c * c" by (simp add: mult_right_mono)
  then show "a * c \<le> b" using div_mult_mod_eq [of b c] pos_mod_sign [OF c, of b] by linarith
next
  assume c: "0 < c" and "a * c \<le> b"
  then show "a \<le> b div c" using zdiv_mono1 [of "a * c" b c] by simp
qed

lemma div_less_iff_int: "0 < c \<Longrightarrow> b div c < a \<longleftrightarrow> (b :: int) < a * c"
  using le_div_iff_int [of c a b] by linarith

section \<open>Results\<close>

datatype err =
    Throw string      \<comment> \<open>a C++ exception\<close>
  | AssertFail        \<comment> \<open>a failed \<open>assert\<close>: the device panics and reboots\<close>
  | Undefined         \<comment> \<open>a conversion the C++ standard leaves undefined\<close>

type_synonym 'a res = "err + 'a"

abbreviation bindE :: "'a res \<Rightarrow> ('a \<Rightarrow> 'b res) \<Rightarrow> 'b res" where
  "bindE r k \<equiv> case_sum Inl k r"

lemma bindE_Inr_iff: "bindE r k = Inr b \<longleftrightarrow> (\<exists>a. r = Inr a \<and> k a = Inr b)"
  by (cases r) auto

definition assert_throw :: "bool \<Rightarrow> string \<Rightarrow> unit res" where
  "assert_throw c msg = (if c then Inr () else Inl (Throw msg))"

lemma assert_throw_simps [simp]:
  "assert_throw True msg = Inr ()" "assert_throw False msg = Inl (Throw msg)"
  by (simp_all add: assert_throw_def)

lemma assert_throw_Inr [simp]: "assert_throw c msg = Inr u \<longleftrightarrow> c"
  by (simp add: assert_throw_def)

text \<open>Elimination rules for evaluated results; the witnesses use them.\<close>

abbreviation resD :: "'a res \<Rightarrow> ('a \<Rightarrow> bool) \<Rightarrow> bool" where
  "resD r P \<equiv> case_sum (\<lambda>_. False) P r"

lemma resD_E: "resD r P \<Longrightarrow> (\<And>a. r = Inr a \<Longrightarrow> P a \<Longrightarrow> thesis) \<Longrightarrow> thesis"
  by (cases r) auto

lemma resD_pairE:
  "resD r P \<Longrightarrow> (\<And>a b. r = Inr (a, b) \<Longrightarrow> P (a, b) \<Longrightarrow> thesis) \<Longrightarrow> thesis"
  by (cases r) auto

section \<open>The Arduino \<open>constrain\<close> macro on integers\<close>

definition constrain :: "int \<Rightarrow> int \<Rightarrow> int \<Rightarrow> int" where
  "constrain amt low high = (if amt < low then low else if amt > high then high else amt)"

lemma constrain_le_high: "low \<le> high \<Longrightarrow> constrain amt low high \<le> high"
  by (simp add: constrain_def)

lemma constrain_ge_low: "low \<le> high \<Longrightarrow> low \<le> constrain amt low high"
  by (simp add: constrain_def)

lemma constrain_id: "low \<le> amt \<Longrightarrow> amt \<le> high \<Longrightarrow> constrain amt low high = amt"
  by (simp add: constrain_def)

lemma constrain_mono: "a \<le> b \<Longrightarrow> low \<le> high \<Longrightarrow> constrain a low high \<le> constrain b low high"
  by (simp add: constrain_def)

end
