(* ===== verification/Floats.thy ===== *)
theory Floats
  imports Prelude "HOL-Library.Log_Nat"
begin

text \<open>
  IEEE 754 binary32 and binary64 as the firmware's \<open>float\<close> and \<open>double\<close>: exact values are
  rationals, every operation rounds to nearest, ties to even, with gradual underflow,
  overflow to infinity, signed zeros and one quiet NaN. Everything computes, so a
  concrete operation is evaluated by \<open>code_simp\<close>. The facts shown are what the component
  proofs need: rounding is monotone, idempotent and exact on representable values, and
  the comparisons order all values but NaN.
\<close>

section \<open>Powers of two\<close>

definition pow2 :: "int \<Rightarrow> rat" where "pow2 k = 2 powi k"

lemma pow2_pos [simp]: "0 < pow2 k" by (simp add: pow2_def)
lemma pow2_nonneg [simp]: "0 \<le> pow2 k" by (simp add: pow2_def)
lemma pow2_nz [simp]: "pow2 k \<noteq> 0" by (simp add: pow2_def)
lemma pow2_add: "pow2 (a + b) = pow2 a * pow2 b" by (simp add: pow2_def power_int_add)
lemma pow2_diff: "pow2 (a - b) = pow2 a / pow2 b" by (simp add: pow2_def power_int_diff)
lemma pow2_0 [simp]: "pow2 0 = 1" by (simp add: pow2_def)
lemma pow2_1 [simp]: "pow2 1 = 2" by (simp add: pow2_def)
lemma pow2_nat: "0 \<le> a \<Longrightarrow> pow2 a = of_int (2 ^ nat a)" by (simp add: pow2_def power_int_def)
lemma pow2_mono: "a \<le> b \<Longrightarrow> pow2 a \<le> pow2 b" by (simp add: pow2_def power_int_increasing)
lemma pow2_strict: "a < b \<Longrightarrow> pow2 a < pow2 b" by (simp add: pow2_def power_int_strict_increasing)
lemma pow2_less_iff [simp]: "pow2 a < pow2 b \<longleftrightarrow> a < b"
  by (meson linorder_not_less pow2_mono pow2_strict)
lemma pow2_le_iff [simp]: "pow2 a \<le> pow2 b \<longleftrightarrow> a \<le> b"
  by (meson linorder_not_less pow2_mono pow2_strict)

section \<open>Exponents\<close>

definition ilog2 :: "rat \<Rightarrow> int" where
 "ilog2 q = (let (n, d) = quotient_of q; k = bitlen n - bitlen d in if pow2 k \<le> q then k else k - 1)"

lemma bitlen_bounds_rat:
  assumes "0 < n"
  shows "pow2 (bitlen n - 1) \<le> of_int n" and "of_int n < pow2 (bitlen n)"
proof -
  have b: "2 ^ nat (bitlen n - 1) \<le> n \<and> n < 2 ^ nat (bitlen n)" using bitlen_bounds[OF assms] .
  have "0 \<le> bitlen n - 1" using assms by (simp add: bitlen_def floorlog_def) 
  then show "pow2 (bitlen n - 1) \<le> of_int n" using b pow2_nat of_int_le_iff by metis
  have "0 \<le> bitlen n" by (rule bitlen_nonneg)
  then show "of_int n < pow2 (bitlen n)" using b pow2_nat of_int_less_iff by metis
qed

lemma ilog2_bounds:
  assumes "0 < q"
  shows "pow2 (ilog2 q) \<le> q" and "q < pow2 (ilog2 q + 1)"
proof -
  obtain n d where nd: "quotient_of q = (n, d)" by (cases "quotient_of q")
  have d: "0 < d" using quotient_of_denom_pos[OF nd] .
  have q: "q = of_int n / of_int d" using quotient_of_div[OF nd] .
  have n: "0 < n" using assms d q by (simp add: zero_less_divide_iff)
  let ?k = "bitlen n - bitlen d"
  have "pow2 (?k - 1) = pow2 (bitlen n - 1) / pow2 (bitlen d)"
    by (simp flip: pow2_diff add: algebra_simps)
  also have "\<dots> \<le> of_int n / of_int d"
    using bitlen_bounds_rat[OF n] bitlen_bounds_rat[OF d] d
    by (intro frac_le) (use n in auto)
  finally have lo: "pow2 (?k - 1) \<le> q" using q by simp
  have "of_int n / of_int d < pow2 (bitlen n) / pow2 (bitlen d - 1)"
    using bitlen_bounds_rat[OF n] bitlen_bounds_rat[OF d] n
    by (intro frac_less) auto
  also have "\<dots> = pow2 (?k + 1)"
    by (simp flip: pow2_diff add: algebra_simps)
  finally have hi: "q < pow2 (?k + 1)" using q by simp
  show "pow2 (ilog2 q) \<le> q" and "q < pow2 (ilog2 q + 1)"
    using lo hi by (auto simp: ilog2_def nd Let_def)
qed

lemma ilog2_unique:
  assumes "pow2 k \<le> q" "q < pow2 (k + 1)"
  shows "ilog2 q = k"
proof -
  have "0 < q" using assms(1) pow2_pos[of k] by linarith
  note b = ilog2_bounds[OF this]
  have "pow2 k < pow2 (ilog2 q + 1)" using b assms by linarith
  moreover have "pow2 (ilog2 q) < pow2 (k + 1)" using b assms by linarith
  ultimately show ?thesis by simp
qed

lemma ilog2_mono: assumes "0 < x" "x \<le> y" shows "ilog2 x \<le> ilog2 y"
proof -
  have "pow2 (ilog2 x) < pow2 (ilog2 y + 1)"
    using ilog2_bounds[of x] ilog2_bounds[of y] assms by linarith
  then show ?thesis by simp
qed

section \<open>Round half to even\<close>

definition rne :: "rat \<Rightarrow> int" where
 "rne x = (let f = \<lfloor>x\<rfloor>; r = x - of_int f in if r < 1/2 then f else if r > 1/2 then f + 1 else if even f then f else f + 1)"

lemma rne_of_int [simp]: "rne (of_int n) = n" by (simp add: rne_def)

lemma rne_err: "\<bar>of_int (rne x) - x\<bar> \<le> 1/2"
proof -
  have "of_int \<lfloor>x\<rfloor> \<le> x" "x < of_int \<lfloor>x\<rfloor> + 1" by linarith+
  then show ?thesis by (auto simp: rne_def Let_def abs_le_iff field_simps)
qed

lemma rne_mono: assumes "x \<le> y" shows "rne x \<le> rne y"
proof (cases "\<lfloor>x\<rfloor> = \<lfloor>y\<rfloor>")
  case True
  then show ?thesis using assms by (auto simp: rne_def Let_def)
next
  case False
  then have "\<lfloor>x\<rfloor> + 1 \<le> \<lfloor>y\<rfloor>" using floor_mono[OF assms] by linarith
  then show ?thesis by (auto simp: rne_def Let_def)
qed

lemma rne_le_of_int: "x \<le> of_int n \<Longrightarrow> rne x \<le> n" using rne_mono[of x "of_int n"] by simp
lemma rne_ge_of_int: "of_int n \<le> x \<Longrightarrow> n \<le> rne x" using rne_mono[of "of_int n" x] by simp

lemma floor_minus_nonint: "x \<noteq> of_int \<lfloor>x\<rfloor> \<Longrightarrow> \<lfloor>- x\<rfloor> = - \<lfloor>x\<rfloor> - (1::int)" for x :: rat
  by linarith

lemma rne_minus: "rne (- x) = - rne x"
proof (cases "x = of_int \<lfloor>x\<rfloor>")
  case True
  then have "- x = of_int (- \<lfloor>x\<rfloor>)" by simp
  then show ?thesis using True rne_of_int by metis
next
  case False
  then show ?thesis by (simp add: rne_def Let_def floor_minus_nonint)
qed


section \<open>Formats and rounding\<close>

datatype fmt = F32 | F64

fun prec :: "fmt \<Rightarrow> int" where "prec F32 = 24" | "prec F64 = 53"
fun emin :: "fmt \<Rightarrow> int" where "emin F32 = - 149" | "emin F64 = - 1074"
fun emax :: "fmt \<Rightarrow> int" where "emax F32 = 128" | "emax F64 = 1024"

definition ulp_exp :: "fmt \<Rightarrow> rat \<Rightarrow> int" where
  "ulp_exp f q = max (emin f) (ilog2 \<bar>q\<bar> - (prec f - 1))"

definition rnd :: "fmt \<Rightarrow> rat \<Rightarrow> rat" where
  "rnd f q = (if q = 0 then 0 else of_int (rne (q / pow2 (ulp_exp f q))) * pow2 (ulp_exp f q))"

lemma prec_pos [simp]: "0 < prec f" by (cases f) auto

lemma pow2_prec: "pow2 (prec f) = of_int (2 ^ nat (prec f))"
  by (rule pow2_nat) (simp add: less_imp_le)

lemma rnd_0 [simp]: "rnd f 0 = 0" by (simp add: rnd_def)
lemma ulp_exp_minus [simp]: "ulp_exp f (- q) = ulp_exp f q" by (simp add: ulp_exp_def)
lemma rnd_minus: "rnd f (- q) = - rnd f q" by (simp add: rnd_def rne_minus)

lemma rnd_repr:
  assumes "q = of_int m * pow2 e" "\<bar>m\<bar> < 2 ^ nat (prec f)" "emin f \<le> e"
  shows "rnd f q = q"
proof (cases "q = 0")
  case True then show ?thesis by simp
next
  case False
  then have m: "m \<noteq> 0" using assms(1) by auto
  have abs: "\<bar>q\<bar> = of_int \<bar>m\<bar> * pow2 e" by (simp add: assms(1) abs_mult)
  have "of_int \<bar>m\<bar> < pow2 (prec f)"
    using assms(2) prec_pos[of f] pow2_nat[of "prec f"] by (metis less_imp_le of_int_less_iff)
  then have "\<bar>q\<bar> < pow2 (prec f + e)" unfolding abs pow2_add by (simp add: mult_strict_right_mono)
  then have "pow2 (ilog2 \<bar>q\<bar>) < pow2 (prec f + e)" using ilog2_bounds(1)[of "\<bar>q\<bar>"] False by linarith
  then have u: "ulp_exp f q \<le> e" using assms(3) by (simp add: ulp_exp_def)
  let ?u = "ulp_exp f q"
  have "q / pow2 ?u = of_int m * pow2 (e - ?u)" by (simp add: assms(1) pow2_diff)
  also have "\<dots> = of_int (m * 2 ^ nat (e - ?u))" using u by (simp add: pow2_nat)
  finally have eq: "q / pow2 ?u = of_int (m * 2 ^ nat (e - ?u))" .
  then have "of_int (rne (q / pow2 ?u)) = q / pow2 ?u" by (simp only: rne_of_int)
  then show ?thesis using False by (simp add: rnd_def)
qed

lemma rnd_pow2: "emin f \<le> e \<Longrightarrow> rnd f (pow2 e) = pow2 e"
  using rnd_repr[of "pow2 e" 1 e f] by (simp add: one_less_power)

lemma ulp_exp_mono: "0 < x \<Longrightarrow> x \<le> y \<Longrightarrow> ulp_exp f x \<le> ulp_exp f y"
  using ilog2_mono[of x y] by (simp add: ulp_exp_def)

lemma scaled_bound:
  assumes "0 < q" shows "q / pow2 (ulp_exp f q) < of_int (2 ^ nat (prec f))"
proof -
  have "q < pow2 (ilog2 q + 1)" by (rule ilog2_bounds(2)[OF assms])
  also have "\<dots> \<le> pow2 (prec f + ulp_exp f q)" using assms by (simp add: ulp_exp_def)
  finally show ?thesis
    by (simp add: pow2_add divide_less_eq less_imp_le pow2_nat)
qed

lemma rnd_le_next:
  assumes "0 < q" shows "rnd f q \<le> pow2 (prec f + ulp_exp f q)"
proof -
  have "rne (q / pow2 (ulp_exp f q)) \<le> 2 ^ nat (prec f)"
    by (rule rne_le_of_int) (use scaled_bound[OF assms, of f] in simp)
  then have "rat_of_int (rne (q / pow2 (ulp_exp f q))) \<le> of_int (2 ^ nat (prec f))"
    by (simp only: of_int_le_iff)
  then have "rat_of_int (rne (q / pow2 (ulp_exp f q))) \<le> pow2 (prec f)"
    by (simp add: pow2_prec)
  then show ?thesis using assms by (simp add: rnd_def pow2_add mult_right_mono)
qed

lemma rnd_mono_pos:
  assumes "0 < x" "x \<le> y" shows "rnd f x \<le> rnd f y"
proof (cases "ulp_exp f x = ulp_exp f y")
  case True
  have "rne (x / pow2 (ulp_exp f y)) \<le> rne (y / pow2 (ulp_exp f y))"
    by (rule rne_mono) (simp add: assms divide_right_mono)
  then show ?thesis using assms True by (simp add: rnd_def mult_right_mono)
next
  case False
  then have lt: "ulp_exp f x < ulp_exp f y" using ulp_exp_mono[OF assms, of f] by simp
  have y: "0 < y" using assms by simp
  from lt have uy: "ulp_exp f y = ilog2 y - (prec f - 1)" using y assms(1)
    by (auto simp: ulp_exp_def max_def split: if_splits)
  have "rnd f x \<le> pow2 (prec f + ulp_exp f x)" by (rule rnd_le_next[OF assms(1)])
  also have "\<dots> \<le> pow2 (ilog2 y)" using lt uy by simp
  also have "\<dots> \<le> rnd f y"
  proof -
    have "pow2 (ilog2 y) / pow2 (ulp_exp f y) \<le> y / pow2 (ulp_exp f y)"
      using ilog2_bounds(1)[OF y] by (simp add: divide_right_mono)
    moreover have "pow2 (ilog2 y) / pow2 (ulp_exp f y) = of_int (2 ^ nat (prec f - 1))"
      using uy prec_pos[of f] by (simp flip: pow2_diff add: pow2_nat)
    ultimately have "2 ^ nat (prec f - 1) \<le> rne (y / pow2 (ulp_exp f y))"
      by (intro rne_ge_of_int) simp
    then have "rat_of_int (2 ^ nat (prec f - 1)) \<le> of_int (rne (y / pow2 (ulp_exp f y)))"
      by (simp only: of_int_le_iff)
    then have "pow2 (prec f - 1) \<le> of_int (rne (y / pow2 (ulp_exp f y)))"
      using prec_pos[of f] by (simp add: pow2_nat)
    then have "pow2 (prec f - 1) * pow2 (ulp_exp f y) \<le> of_int (rne (y / pow2 (ulp_exp f y))) * pow2 (ulp_exp f y)"
      by (simp add: mult_right_mono)
    then show ?thesis using y uy by (simp add: rnd_def flip: pow2_add)
  qed
  finally show ?thesis .
qed

lemma rnd_nonneg: assumes "0 \<le> q" shows "0 \<le> rnd f q"
proof (cases "q = 0")
  case False
  have "0 \<le> rne (q / pow2 (ulp_exp f q))" by (rule rne_ge_of_int) (use assms in simp)
  then show ?thesis by (simp add: rnd_def)
qed simp

lemma rnd_mono: assumes "x \<le> y" shows "rnd f x \<le> rnd f y"
proof -
  consider "0 < x" | "x \<le> 0" "0 \<le> y" | "y < 0" using assms by linarith
  then show ?thesis
  proof cases
    case 1 then show ?thesis by (rule rnd_mono_pos[OF _ assms])
  next
    case 2
    have "0 \<le> rnd f (- x)" using 2 by (intro rnd_nonneg) simp
    then have "rnd f x \<le> 0" by (simp add: rnd_minus)
    also have "0 \<le> rnd f y" using 2 by (intro rnd_nonneg)
    finally show ?thesis .
  next
    case 3
    have "rnd f (- y) \<le> rnd f (- x)" using 3 assms by (intro rnd_mono_pos) auto
    then show ?thesis by (simp add: rnd_minus)
  qed
qed

lemma rnd_idem: "rnd f (rnd f q) = rnd f q"
proof -
  have pos: "rnd f (rnd f q) = rnd f q" if "0 < q" for q
  proof -
    let ?u = "ulp_exp f q" let ?m = "rne (q / pow2 ?u)"
    have eq: "rnd f q = of_int ?m * pow2 ?u" using that by (simp add: rnd_def)
    have le: "?m \<le> 2 ^ nat (prec f)" by (rule rne_le_of_int) (use scaled_bound[OF that, of f] in simp)
    have ge: "0 \<le> ?m" by (rule rne_ge_of_int) (use that in simp)
    have em: "emin f \<le> ?u" by (simp add: ulp_exp_def)
    show ?thesis
    proof (cases "?m = 2 ^ nat (prec f)")
      case True
      then have "rnd f q = pow2 (prec f + ?u)" using eq by (simp add: pow2_add pow2_nat less_imp_le)
      then show ?thesis using em prec_pos[of f] rnd_pow2[of f "prec f + ?u"] by (simp add: less_imp_le add_increasing)
    next
      case False
      then show ?thesis using eq le ge em by (intro rnd_repr[of _ ?m ?u]) auto
    qed
  qed
  consider "0 < q" | "q = 0" | "0 < - q" by linarith
  then show ?thesis
  proof cases
    case 3
    from pos[OF this] show ?thesis by (simp add: rnd_minus)
  qed (auto intro: pos)
qed

lemma rnd_err: "\<bar>rnd f q - q\<bar> \<le> pow2 (ulp_exp f q) / 2"
proof (cases "q = 0")
  case False
  let ?p = "pow2 (ulp_exp f q)"
  have "rnd f q - q = (of_int (rne (q / ?p)) - q / ?p) * ?p" using False by (simp add: rnd_def algebra_simps)
  then have "\<bar>rnd f q - q\<bar> = \<bar>of_int (rne (q / ?p)) - q / ?p\<bar> * ?p" by (simp add: abs_mult)
  also have "\<dots> \<le> 1/2 * ?p" by (intro mult_right_mono rne_err) simp
  finally show ?thesis by simp
qed simp

section \<open>Values\<close>

datatype fl =
    NaN
  | Inf bool    \<comment> \<open>\<open>True\<close>: negative infinity\<close>
  | NZero       \<comment> \<open>negative zero\<close>
  | Fin rat     \<comment> \<open>any other number; \<open>Fin 0\<close> is positive zero\<close>

fun val :: "fl \<Rightarrow> rat" where
  "val (Fin q) = q"
| "val _ = 0"

fun isnan :: "fl \<Rightarrow> bool" where
  "isnan NaN = True"
| "isnan _ = False"

fun isfinite :: "fl \<Rightarrow> bool" where
  "isfinite NaN = False"
| "isfinite (Inf _) = False"
| "isfinite _ = True"

fun signbit :: "fl \<Rightarrow> bool" where
  "signbit NaN = False"
| "signbit (Inf s) = s"
| "signbit NZero = True"
| "signbit (Fin q) = (q < 0)"

definition iszero :: "fl \<Rightarrow> bool" where
  "iszero x = (isfinite x \<and> val x = 0)"

definition mk :: "fmt \<Rightarrow> bool \<Rightarrow> rat \<Rightarrow> fl" where
  \<comment> \<open>rounds an exact result; \<open>z\<close> is the sign of an exact zero\<close>
  "mk f z q = (let r = rnd f q in
     if q = 0 then (if z then NZero else Fin 0)
     else if r = 0 then (if q < 0 then NZero else Fin 0)
     else if pow2 (emax f) \<le> \<bar>r\<bar> then Inf (q < 0)
     else Fin r)"

definition fl_ok :: "fmt \<Rightarrow> fl \<Rightarrow> bool" where
  \<comment> \<open>the value is one of the format\<close>
  "fl_ok f x = (case x of Fin q \<Rightarrow> rnd f q = q \<and> \<bar>q\<bar> < pow2 (emax f) | _ \<Rightarrow> True)"

abbreviation f32 :: "rat \<Rightarrow> fl" where "f32 \<equiv> mk F32 False"   \<comment> \<open>a \<open>float\<close> literal\<close>
abbreviation f64 :: "rat \<Rightarrow> fl" where "f64 \<equiv> mk F64 False"   \<comment> \<open>a \<open>double\<close> literal\<close>

lemma isfinite_not_nan: "isfinite x \<Longrightarrow> \<not> isnan x"
  by (cases x) auto

lemma isfinite_cases [consumes 1, case_names NZero Fin]:
  assumes "isfinite x" obtains "x = NZero" | q where "x = Fin q"
  using assms by (cases x) auto

lemma mk_not_nan [simp]: "\<not> isnan (mk f z q)" "mk f z q \<noteq> NaN"
  by (auto simp: mk_def Let_def)

lemma fl_ok_mk [simp]: "fl_ok f (mk f z q)"
  by (simp add: mk_def fl_ok_def Let_def rnd_idem)

lemma fl_ok_simps [simp]:
  "fl_ok f NaN" "fl_ok f (Inf s)" "fl_ok f NZero" "fl_ok f (Fin 0)"
  by (simp_all add: fl_ok_def)

lemma isfinite_mk: "isfinite (mk f z q) \<longleftrightarrow> \<bar>rnd f q\<bar> < pow2 (emax f)"
  by (auto simp: mk_def Let_def not_le)

lemma val_mk: "isfinite (mk f z q) \<Longrightarrow> val (mk f z q) = rnd f q"
  by (auto simp: mk_def Let_def split: if_splits)

lemma mk_exact:
  assumes "rnd f q = q" "\<bar>q\<bar> < pow2 (emax f)" "q \<noteq> 0"
  shows "mk f z q = Fin q"
  using assms by (simp add: mk_def Let_def not_le)

lemma mk_0 [simp]: "mk f False 0 = Fin 0" "mk f True 0 = NZero"
  by (simp_all add: mk_def)

lemma fl_ok_rnd: "isfinite x \<Longrightarrow> fl_ok f x \<Longrightarrow> rnd f (val x) = val x"
  by (cases x) (auto simp: fl_ok_def)

lemma fl_ok_bound: "isfinite x \<Longrightarrow> fl_ok f x \<Longrightarrow> \<bar>val x\<bar> < pow2 (emax f)"
  by (cases x) (auto simp: fl_ok_def)

section \<open>Arithmetic\<close>

fun fneg :: "fl \<Rightarrow> fl" where
  "fneg NaN = NaN"
| "fneg (Inf s) = Inf (\<not> s)"
| "fneg NZero = Fin 0"
| "fneg (Fin q) = (if q = 0 then NZero else Fin (- q))"

fun fabs :: "fl \<Rightarrow> fl" where
  "fabs NaN = NaN"
| "fabs (Inf s) = Inf False"
| "fabs NZero = Fin 0"
| "fabs (Fin q) = Fin \<bar>q\<bar>"

definition gadd :: "fmt \<Rightarrow> fl \<Rightarrow> fl \<Rightarrow> fl" where
  "gadd f x y = (case (x, y) of
     (NaN, _) \<Rightarrow> NaN
   | (_, NaN) \<Rightarrow> NaN
   | (Inf s, Inf t) \<Rightarrow> (if s = t then Inf s else NaN)
   | (Inf s, _) \<Rightarrow> Inf s
   | (_, Inf t) \<Rightarrow> Inf t
   | (NZero, NZero) \<Rightarrow> NZero
   | _ \<Rightarrow> mk f False (val x + val y))"

definition gsub :: "fmt \<Rightarrow> fl \<Rightarrow> fl \<Rightarrow> fl" where
  "gsub f x y = gadd f x (fneg y)"

definition gmul :: "fmt \<Rightarrow> fl \<Rightarrow> fl \<Rightarrow> fl" where
  "gmul f x y =
    (if isnan x \<or> isnan y then NaN
     else if isfinite x \<and> isfinite y
       then mk f (signbit x \<noteq> signbit y) (val x * val y)
     else if iszero x \<or> iszero y then NaN
     else Inf (signbit x \<noteq> signbit y))"

definition gdiv :: "fmt \<Rightarrow> fl \<Rightarrow> fl \<Rightarrow> fl" where
  "gdiv f x y =
    (if isnan x \<or> isnan y then NaN
     else if iszero y then (if iszero x then NaN else Inf (signbit x \<noteq> signbit y))
     else if \<not> isfinite y then
       (if \<not> isfinite x then NaN else mk f (signbit x \<noteq> signbit y) 0)
     else if \<not> isfinite x then Inf (signbit x \<noteq> signbit y)
     else mk f (signbit x \<noteq> signbit y) (val x / val y))"

definition cvt :: "fmt \<Rightarrow> fl \<Rightarrow> fl" where
  \<comment> \<open>conversion of a value to the format\<close>
  "cvt f x = (case x of Fin q \<Rightarrow> mk f False q | _ \<Rightarrow> x)"

abbreviation fadd :: "fl \<Rightarrow> fl \<Rightarrow> fl" where "fadd \<equiv> gadd F32"
abbreviation fsub :: "fl \<Rightarrow> fl \<Rightarrow> fl" where "fsub \<equiv> gsub F32"
abbreviation fmul :: "fl \<Rightarrow> fl \<Rightarrow> fl" where "fmul \<equiv> gmul F32"
abbreviation fdiv :: "fl \<Rightarrow> fl \<Rightarrow> fl" where "fdiv \<equiv> gdiv F32"
abbreviation dadd :: "fl \<Rightarrow> fl \<Rightarrow> fl" where "dadd \<equiv> gadd F64"
abbreviation dsub :: "fl \<Rightarrow> fl \<Rightarrow> fl" where "dsub \<equiv> gsub F64"
abbreviation dmul :: "fl \<Rightarrow> fl \<Rightarrow> fl" where "dmul \<equiv> gmul F64"
abbreviation ddiv :: "fl \<Rightarrow> fl \<Rightarrow> fl" where "ddiv \<equiv> gdiv F64"

section \<open>Comparisons\<close>

fun rank :: "fl \<Rightarrow> int" where
  "rank (Inf s) = (if s then - 1 else 1)"
| "rank _ = 0"

definition flt :: "fl \<Rightarrow> fl \<Rightarrow> bool" where
  "flt x y = (\<not> isnan x \<and> \<not> isnan y \<and>
     (rank x < rank y \<or> rank x = rank y \<and> val x < val y))"

definition fle :: "fl \<Rightarrow> fl \<Rightarrow> bool" where
  "fle x y = (\<not> isnan x \<and> \<not> isnan y \<and>
     (rank x < rank y \<or> rank x = rank y \<and> val x \<le> val y))"

definition feq :: "fl \<Rightarrow> fl \<Rightarrow> bool" where
  "feq x y = (\<not> isnan x \<and> \<not> isnan y \<and> rank x = rank y \<and> val x = val y)"

abbreviation fgt :: "fl \<Rightarrow> fl \<Rightarrow> bool" where "fgt x y \<equiv> flt y x"
abbreviation fge :: "fl \<Rightarrow> fl \<Rightarrow> bool" where "fge x y \<equiv> fle y x"

text \<open>\<open>fminf\<close> and \<open>fmaxf\<close> drop a NaN operand; \<open>std::min\<close> and \<open>std::max\<close> compare only.\<close>

definition fminf :: "fl \<Rightarrow> fl \<Rightarrow> fl" where
  "fminf x y = (if isnan x then y else if isnan y then x else if flt y x then y else x)"

definition fmaxf :: "fl \<Rightarrow> fl \<Rightarrow> fl" where
  "fmaxf x y = (if isnan x then y else if isnan y then x else if flt x y then y else x)"

definition std_min :: "fl \<Rightarrow> fl \<Rightarrow> fl" where
  "std_min a b = (if flt b a then b else a)"

definition std_max :: "fl \<Rightarrow> fl \<Rightarrow> fl" where
  "std_max a b = (if flt a b then b else a)"

definition fconstrain :: "fl \<Rightarrow> fl \<Rightarrow> fl \<Rightarrow> fl" where
  "fconstrain amt low high = (if flt amt low then low else if flt high amt then high else amt)"

section \<open>Conversions from and to integers\<close>

definition to_float :: "int \<Rightarrow> fl" where
  "to_float n = mk F32 False (of_int n)"

definition trunc_int :: "fl \<Rightarrow> int" where
  "trunc_int x = (if 0 \<le> val x then \<lfloor>val x\<rfloor> else - \<lfloor>- val x\<rfloor>)"

definition lround_int :: "fl \<Rightarrow> int" where
  \<comment> \<open>\<open>std::lround\<close>: half away from zero\<close>
  "lround_int x = (if 0 \<le> val x then \<lfloor>val x + 1/2\<rfloor> else - \<lfloor>- val x + 1/2\<rfloor>)"

definition cast_int :: "int \<Rightarrow> int \<Rightarrow> fl \<Rightarrow> int res" where
  \<comment> \<open>\<open>(T) x\<close> for an integer type with the range \<open>lo..hi\<close>\<close>
  "cast_int lo hi x =
    (if isfinite x \<and> lo \<le> trunc_int x \<and> trunc_int x \<le> hi then Inr (trunc_int x)
     else Inl Undefined)"

definition lround_long :: "fl \<Rightarrow> int res" where
  \<comment> \<open>\<open>std::lround\<close> on the target, whose \<open>long\<close> has 32 bits\<close>
  "lround_long x =
    (if isfinite x \<and> - (2 ^ 31) \<le> lround_int x \<and> lround_int x < 2 ^ 31 then Inr (lround_int x)
     else Inl Undefined)"

section \<open>Order\<close>

lemma flt_finite [simp]:
  "isfinite x \<Longrightarrow> isfinite y \<Longrightarrow> flt x y \<longleftrightarrow> val x < val y"
  by (cases x; cases y) (auto simp: flt_def)

lemma fle_finite [simp]:
  "isfinite x \<Longrightarrow> isfinite y \<Longrightarrow> fle x y \<longleftrightarrow> val x \<le> val y"
  by (cases x; cases y) (auto simp: fle_def)

lemma flt_NaN [simp]: "\<not> flt NaN y" "\<not> flt x NaN"
  by (simp_all add: flt_def)

lemma fle_NaN [simp]: "\<not> fle NaN y" "\<not> fle x NaN"
  by (simp_all add: fle_def)

lemma fle_refl: "\<not> isnan x \<Longrightarrow> fle x x"
  by (simp add: fle_def)

lemma fle_trans: "fle x y \<Longrightarrow> fle y z \<Longrightarrow> fle x z"
  by (auto simp: fle_def)

lemma flt_fle_trans: "flt x y \<Longrightarrow> fle y z \<Longrightarrow> flt x z"
  by (auto simp: fle_def flt_def)

lemma fle_flt_trans: "fle x y \<Longrightarrow> flt y z \<Longrightarrow> flt x z"
  by (auto simp: fle_def flt_def)

lemma flt_trans: "flt x y \<Longrightarrow> flt y z \<Longrightarrow> flt x z"
  by (auto simp: flt_def)

lemma flt_irrefl [simp]: "\<not> flt x x"
  by (simp add: flt_def)

lemma flt_imp_fle: "flt x y \<Longrightarrow> fle x y"
  by (auto simp: fle_def flt_def)

lemma flt_asym: "flt x y \<Longrightarrow> \<not> flt y x"
  by (auto simp: flt_def)

lemma fle_not_flt: "fle x y \<Longrightarrow> \<not> flt y x"
  by (auto simp: fle_def flt_def)

lemma not_flt_fle: "\<not> flt y x \<Longrightarrow> \<not> isnan x \<Longrightarrow> \<not> isnan y \<Longrightarrow> fle x y"
  by (auto simp: fle_def flt_def)

lemma flt_not_nan: "flt x y \<Longrightarrow> \<not> isnan x \<and> \<not> isnan y"
  by (simp add: flt_def)

lemma fle_not_nan: "fle x y \<Longrightarrow> \<not> isnan x \<and> \<not> isnan y"
  by (simp add: fle_def)

lemma flt_PInf [simp]: "flt x (Inf False) \<longleftrightarrow> \<not> isnan x \<and> x \<noteq> Inf False"
  by (cases x) (auto simp: flt_def)

lemma fle_PInf [simp]: "fle x (Inf False) \<longleftrightarrow> \<not> isnan x"
  by (cases x) (auto simp: fle_def)

lemma fle_Inf_iff:
  "fle (Inf s) x \<longleftrightarrow> (if s then \<not> isnan x else x = Inf False)"
  "fle x (Inf s) \<longleftrightarrow> (if s then x = Inf True else \<not> isnan x)"
  by (cases x; auto simp: fle_def split: if_splits)+

lemma fle_between_finite:
  "fle lo x \<Longrightarrow> fle x hi \<Longrightarrow> isfinite lo \<Longrightarrow> isfinite hi \<Longrightarrow> isfinite x"
  by (cases lo; cases hi; cases x) (auto simp: fle_def split: if_splits)

lemma fminf_le: "\<not> isnan x \<Longrightarrow> fle (fminf x y) x" "\<not> isnan y \<Longrightarrow> fle (fminf x y) y"
  by (auto simp: fminf_def fle_refl not_flt_fle flt_imp_fle)

lemma fmaxf_ge: "\<not> isnan x \<Longrightarrow> fle x (fmaxf x y)" "\<not> isnan y \<Longrightarrow> fle y (fmaxf x y)"
  by (auto simp: fmaxf_def fle_refl not_flt_fle flt_imp_fle)

lemma fminf_cases: "fminf x y = x \<or> fminf x y = y"
  by (simp add: fminf_def)

lemma fmaxf_cases: "fmaxf x y = x \<or> fmaxf x y = y"
  by (simp add: fmaxf_def)

lemma isnan_fminf [simp]: "isnan (fminf x y) \<longleftrightarrow> isnan x \<and> isnan y"
  by (auto simp: fminf_def)

lemma isnan_fmaxf [simp]: "isnan (fmaxf x y) \<longleftrightarrow> isnan x \<and> isnan y"
  by (auto simp: fmaxf_def)

lemma std_min_cases: "std_min x y = x \<or> std_min x y = y"
  by (simp add: std_min_def)

lemma std_min_le1: "\<not> isnan x \<Longrightarrow> fle (std_min x y) x"
  by (simp add: std_min_def fle_refl flt_imp_fle)

lemma std_min_le2: "\<not> isnan x \<Longrightarrow> \<not> isnan y \<Longrightarrow> fle (std_min x y) y"
  by (simp add: std_min_def fle_refl not_flt_fle)

lemma fconstrain_le_high:
  "fle low high \<Longrightarrow> \<not> isnan amt \<Longrightarrow> fle (fconstrain amt low high) high"
  by (auto simp: fconstrain_def fle_not_nan fle_refl not_flt_fle)

lemma fconstrain_ge_low:
  "fle low high \<Longrightarrow> \<not> isnan amt \<Longrightarrow> fle low (fconstrain amt low high)"
  by (auto simp: fconstrain_def fle_not_nan fle_refl not_flt_fle)

section \<open>Results of the operations\<close>

lemma mk_mono: "a \<le> b \<Longrightarrow> fle (mk f s a) (mk f t b)"
proof -
  assume ab: "a \<le> b"
  have le: "rnd f a \<le> rnd f b" by (rule rnd_mono [OF ab])
  have sa: "0 < a \<Longrightarrow> 0 \<le> rnd f a" "a < 0 \<Longrightarrow> rnd f a \<le> 0"
    using rnd_mono [of 0 a f] rnd_mono [of a 0 f] by simp_all
  have sb: "0 < b \<Longrightarrow> 0 \<le> rnd f b" "b < 0 \<Longrightarrow> rnd f b \<le> 0"
    using rnd_mono [of 0 b f] rnd_mono [of b 0 f] by simp_all
  show ?thesis
    using ab le sa sb pow2_pos [of "emax f"]
    by (cases "a = 0"; cases "b = 0") (auto simp: mk_def fle_def Let_def split: if_splits)
qed

lemma gadd_finite_eq:
  "isfinite x \<Longrightarrow> isfinite y \<Longrightarrow>
   gadd f x y = mk f (x = NZero \<and> y = NZero) (val x + val y)"
  by (cases x; cases y) (auto simp: gadd_def)

lemma isfinite_fneg [simp]: "isfinite (fneg x) = isfinite x"
  by (cases x) auto

lemma isnan_fneg [simp]: "isnan (fneg x) = isnan x"
  by (cases x) auto

lemma val_fneg [simp]: "val (fneg x) = - val x"
  by (cases x) auto

lemma rank_fneg [simp]: "rank (fneg x) = - rank x"
  by (cases x) auto

lemma fle_fneg: "fle (fneg x) (fneg y) = fle y x"
  by (auto simp: fle_def)

lemma val_fabs: "isfinite x \<Longrightarrow> val (fabs x) = \<bar>val x\<bar>"
  by (cases x) auto

lemma isfinite_fabs [simp]: "isfinite (fabs x) = isfinite x"
  by (cases x) auto

lemma isnan_fabs [simp]: "isnan (fabs x) = isnan x"
  by (cases x) auto

lemma val_gadd:
  "isfinite x \<Longrightarrow> isfinite y \<Longrightarrow> isfinite (gadd f x y) \<Longrightarrow>
   val (gadd f x y) = rnd f (val x + val y)"
  by (simp add: gadd_finite_eq val_mk)

lemma gsub_finite_eq:
  "isfinite x \<Longrightarrow> isfinite y \<Longrightarrow> gsub f x y = mk f (x = NZero \<and> y = Fin 0) (val x - val y)"
proof -
  assume "isfinite x" "isfinite y"
  moreover have "fneg y = NZero \<longleftrightarrow> y = Fin 0" by (cases y) auto
  ultimately show ?thesis by (simp add: gsub_def gadd_finite_eq)
qed

lemma val_gsub:
  "isfinite x \<Longrightarrow> isfinite y \<Longrightarrow> isfinite (gsub f x y) \<Longrightarrow>
   val (gsub f x y) = rnd f (val x - val y)"
  by (simp add: gsub_finite_eq val_mk)

lemma gmul_finite_eq:
  "isfinite x \<Longrightarrow> isfinite y \<Longrightarrow>
   gmul f x y = mk f (signbit x \<noteq> signbit y) (val x * val y)"
  by (simp add: gmul_def isfinite_not_nan)

lemma val_gmul:
  "isfinite x \<Longrightarrow> isfinite y \<Longrightarrow> isfinite (gmul f x y) \<Longrightarrow>
   val (gmul f x y) = rnd f (val x * val y)"
  by (simp add: gmul_finite_eq val_mk)

lemma gdiv_finite_eq:
  "isfinite x \<Longrightarrow> isfinite y \<Longrightarrow> val y \<noteq> 0 \<Longrightarrow>
   gdiv f x y = mk f (signbit x \<noteq> signbit y) (val x / val y)"
  by (simp add: gdiv_def isfinite_not_nan iszero_def)

lemma val_gdiv:
  "isfinite x \<Longrightarrow> isfinite y \<Longrightarrow> val y \<noteq> 0 \<Longrightarrow> isfinite (gdiv f x y) \<Longrightarrow>
   val (gdiv f x y) = rnd f (val x / val y)"
  by (simp add: gdiv_finite_eq val_mk)

lemma gadd_NaN [simp]: "gadd f NaN y = NaN" "gadd f x NaN = NaN"
  by (cases x; auto simp: gadd_def)+

lemma gsub_NaN [simp]: "gsub f NaN y = NaN" "gsub f x NaN = NaN"
  by (simp_all add: gsub_def)

lemma gmul_NaN [simp]: "gmul f NaN y = NaN" "gmul f x NaN = NaN"
  by (simp_all add: gmul_def)

lemma gdiv_NaN [simp]: "gdiv f NaN y = NaN" "gdiv f x NaN = NaN"
  by (simp_all add: gdiv_def)

lemma fl_ok_gadd [simp]: "fl_ok f (gadd f x y)"
  by (cases x; cases y) (auto simp: gadd_def)

lemma fl_ok_gsub [simp]: "fl_ok f (gsub f x y)"
  by (simp add: gsub_def)

lemma fl_ok_gmul [simp]: "fl_ok f (gmul f x y)"
  by (simp add: gmul_def)

lemma fl_ok_gdiv [simp]: "fl_ok f (gdiv f x y)"
  by (simp add: gdiv_def)

lemma fl_ok_fneg [simp]: "fl_ok f (fneg x) = fl_ok f x"
  by (cases x) (auto simp: fl_ok_def rnd_minus)

section \<open>Exact values and monotone operations\<close>

lemma rnd_of_int:
  assumes "\<bar>n\<bar> < 2 ^ nat (prec f)" shows "rnd f (of_int n) = of_int n"
proof (rule rnd_repr [where m = n and e = 0])
  show "emin f \<le> 0" by (cases f) auto
qed (use assms in auto)

lemma to_float_exact:
  assumes "\<bar>n\<bar> < 2 ^ 24" shows "to_float n = Fin (of_int n)"
proof (cases "n = 0")
  case False
  have "rnd F32 (of_int n) = of_int n" using assms by (intro rnd_of_int) simp
  moreover have "\<bar>rat_of_int n\<bar> < pow2 128"
  proof -
    have "\<bar>rat_of_int n\<bar> < of_int (2 ^ 24)"
      using assms by (simp only: of_int_abs [symmetric] of_int_less_iff)
    also have "\<dots> \<le> pow2 128" by (simp add: pow2_def)
    finally show ?thesis .
  qed
  ultimately show ?thesis using False by (simp add: to_float_def mk_exact)
qed (simp add: to_float_def)

lemma val_to_float_exact: "\<bar>n\<bar> < 2 ^ 24 \<Longrightarrow> val (to_float n) = of_int n"
  by (simp add: to_float_exact)

lemma to_float_u16: "to_float (uint (w :: u16)) = Fin (of_int (uint w))"
proof (rule to_float_exact)
  have "uint w < 65536" "0 \<le> uint w" by simp_all
  then have "\<bar>uint w\<bar> < 16777216" by linarith
  then show "\<bar>uint w\<bar> < 2 ^ 24" by simp
qed

lemma isfinite_to_float_u16 [simp]: "isfinite (to_float (uint (w :: u16)))"
  by (simp add: to_float_u16)

lemma to_float_mono: "m \<le> n \<Longrightarrow> fle (to_float m) (to_float n)"
  unfolding to_float_def by (rule mk_mono) simp

lemma to_float_0 [simp]: "to_float 0 = Fin 0"
  by (simp add: to_float_def)

lemma cast_int_Inr:
  "cast_int lo hi x = Inr n \<longleftrightarrow> isfinite x \<and> lo \<le> n \<and> n \<le> hi \<and> n = trunc_int x"
  by (auto simp: cast_int_def)

lemma trunc_int_bounds: "\<bar>rat_of_int (trunc_int x)\<bar> \<le> \<bar>val x\<bar>"
proof (cases "0 \<le> val x")
  case True
  then have "0 \<le> \<lfloor>val x\<rfloor>" "rat_of_int \<lfloor>val x\<rfloor> \<le> val x" by linarith+
  then show ?thesis using True by (simp add: trunc_int_def)
next
  case False
  then have "0 \<le> \<lfloor>- val x\<rfloor>" "rat_of_int \<lfloor>- val x\<rfloor> \<le> - val x" by linarith+
  then show ?thesis using False by (simp add: trunc_int_def)
qed

lemma trunc_int_frac: "\<bar>val x - of_int (trunc_int x)\<bar> < 1"
  unfolding trunc_int_def by (auto simp: abs_less_iff) linarith+

lemma trunc_int_of_int: "val x = of_int n \<Longrightarrow> trunc_int x = n"
  by (simp add: trunc_int_def flip: of_int_minus)

lemma gadd_mono:
  assumes "fle x x'" "fle y y'" "\<not> isnan (gadd f x y)" "\<not> isnan (gadd f x' y')"
  shows "fle (gadd f x y) (gadd f x' y')"
proof (cases "isfinite x \<and> isfinite y \<and> isfinite x' \<and> isfinite y'")
  case True
  then show ?thesis using assms by (simp add: gadd_finite_eq) (intro mk_mono, simp)
next
  case False
  then show ?thesis using assms
    by (cases x; cases y; cases x'; cases y') (auto simp: gadd_def fle_Inf_iff split: if_splits)
qed

lemma gmul_mono_nonneg:
  assumes "isfinite c" "0 \<le> val c" "isfinite x" "isfinite y" "val x \<le> val y"
  shows "fle (gmul f c x) (gmul f c y)"
  using assms by (simp add: gmul_finite_eq) (intro mk_mono mult_left_mono, auto)

lemma gmul_comm: "gmul f x y = gmul f y x"
proof -
  have "(signbit x \<noteq> signbit y) = (signbit y \<noteq> signbit x)" by blast
  then show ?thesis by (simp add: gmul_def mult.commute [of "val x"] disj_commute conj_commute)
qed

lemma gadd_comm: "gadd f x y = gadd f y x"
  by (cases x; cases y) (auto simp: gadd_def add.commute)

lemma rnd_le_repr: "x \<le> y \<Longrightarrow> rnd f y = y \<Longrightarrow> rnd f x \<le> y"
  using rnd_mono [of x y f] by simp

lemma rnd_ge_repr: "x \<le> y \<Longrightarrow> rnd f x = x \<Longrightarrow> x \<le> rnd f y"
  using rnd_mono [of x y f] by simp

section \<open>Rounding at the edges of a binade\<close>

lemma pow2_numerals:
  "pow2 (- 24) = 1 / 16777216" "pow2 (- 25) = 1 / 33554432" "pow2 (- 23) = 1 / 8388608" "pow2 23 = 8388608"
  by (code_simp)+

lemma ulp_exp_ge: "pow2 e \<le> \<bar>q\<bar> \<Longrightarrow> e - (prec f - 1) \<le> ulp_exp f q"
proof -
  assume a: "pow2 e \<le> \<bar>q\<bar>"
  then have "0 < \<bar>q\<bar>" using pow2_pos [of e] by linarith
  then have "pow2 e < pow2 (ilog2 \<bar>q\<bar> + 1)" using ilog2_bounds(2) [of "\<bar>q\<bar>"] a by linarith
  then have "e \<le> ilog2 \<bar>q\<bar>" by simp
  then show ?thesis by (simp add: ulp_exp_def)
qed

lemma ulp_exp_le: "q \<noteq> 0 \<Longrightarrow> \<bar>q\<bar> < pow2 e \<Longrightarrow> emin f \<le> e - prec f \<Longrightarrow> ulp_exp f q \<le> e - prec f"
proof -
  assume a: "q \<noteq> 0" "\<bar>q\<bar> < pow2 e" "emin f \<le> e - prec f"
  then have "pow2 (ilog2 \<bar>q\<bar>) < pow2 e" using ilog2_bounds(1) [of "\<bar>q\<bar>"] by linarith
  then have "ilog2 \<bar>q\<bar> + 1 \<le> e" by simp
  then show ?thesis using a by (simp add: ulp_exp_def)
qed

lemma rnd_scale:
  assumes "rnd f q = q" "emin f \<le> ulp_exp f q + k"
  shows "rnd f (q * pow2 k) = q * pow2 k"
proof (cases "q = 0")
  case False
  let ?u = "ulp_exp f q" and ?m = "rne (q / pow2 (ulp_exp f q))"
  have q: "q = of_int ?m * pow2 ?u" using assms(1) False by (simp add: rnd_def)
  then have qk: "q * pow2 k = of_int ?m * pow2 (?u + k)" by (simp add: pow2_add)
  have "\<bar>q / pow2 ?u\<bar> < of_int (2 ^ nat (prec f))"
  proof -
    have "\<bar>q\<bar> / pow2 (ulp_exp f \<bar>q\<bar>) < of_int (2 ^ nat (prec f))"
      by (rule scaled_bound) (use False in simp)
    then show ?thesis by (simp add: abs_divide ulp_exp_def)
  qed
  moreover have eq: "q / pow2 ?u = of_int ?m" using q by (metis nonzero_mult_div_cancel_right pow2_nz)
  ultimately have "\<bar>?m\<bar> < 2 ^ nat (prec f)"
    by (metis of_int_abs of_int_less_iff)
  then show ?thesis using qk assms(2) by (intro rnd_repr [where m = ?m]) auto
qed simp

lemma repr_below_one:
  assumes "rnd F32 a = a" "a < 1" shows "a \<le> 1 - pow2 (- 24)"
proof (cases "a < 1/2")
  case True then show ?thesis by (simp add: pow2_numerals)
next
  case False
  have "ilog2 a = - 1" by (rule ilog2_unique) (use False assms(2) in \<open>auto simp: pow2_def power_int_def\<close>)
  then have u: "ulp_exp F32 a = - 24" using False by (simp add: ulp_exp_def)
  let ?m = "rne (a / pow2 (- 24))"
  have a: "a = of_int ?m * pow2 (- 24)" using assms(1) False u by (simp add: rnd_def split: if_splits)
  have "of_int ?m * pow2 (- 24) < 1" using a assms(2) by simp
  then have "rat_of_int ?m < of_int (2 ^ 24)" by (simp add: pow2_def power_int_def field_simps)
  then have "?m < 2 ^ 24" by (simp only: of_int_less_iff)
  then have "?m \<le> 2 ^ 24 - 1" by simp
  then have "rat_of_int ?m \<le> of_int (2 ^ 24 - 1)" by (simp only: of_int_le_iff)
  then show ?thesis using a by (simp add: pow2_def power_int_def field_simps)
qed

lemma rnd_near_pow2:
  assumes "q \<le> pow2 k * (1 + pow2 (- 25))" "- 126 \<le> k"
  shows "rnd F32 q \<le> pow2 k"
proof -
  let ?q = "pow2 k * (1 + pow2 (- 25))"
  have il: "ilog2 ?q = k"
    by (rule ilog2_unique) (simp_all add: pow2_add pow2_numerals)
  then have u: "ulp_exp F32 ?q = k - 23" using assms(2) by (simp add: ulp_exp_def abs_mult)
  have eq: "?q / pow2 (k - 23) = 8388608 + 1/4"
    by (simp add: pow2_diff pow2_numerals)
  have "rne (?q / pow2 (k - 23)) = 8388608"
    unfolding eq by code_simp
  moreover have "?q \<noteq> 0" using pow2_pos [of k] pow2_pos [of "- 25"] by (simp add: add_nonneg_eq_0_iff)
  ultimately have "rnd F32 ?q = of_int 8388608 * pow2 (k - 23)" using u
    by (simp only: rnd_def if_False)
  also have "\<dots> = pow2 k" by (simp add: pow2_diff pow2_numerals)
  finally show ?thesis using rnd_mono [OF assms(1), of F32] by simp
qed

lemma mk_between:
  assumes "rnd f lo = lo" "rnd f hi = hi" "lo \<le> q" "q \<le> hi" "- pow2 (emax f) < lo" "hi < pow2 (emax f)"
  shows "isfinite (mk f z q)" "lo \<le> val (mk f z q)" "val (mk f z q) \<le> hi"
proof -
  have b: "lo \<le> rnd f q" "rnd f q \<le> hi" using rnd_ge_repr rnd_le_repr assms by blast+
  then show fin: "isfinite (mk f z q)" using assms by (simp add: isfinite_mk abs_less_iff)
  show "lo \<le> val (mk f z q)" "val (mk f z q) \<le> hi" using b val_mk [OF fin] by auto
qed

lemma std_max_fle: "\<not> isnan x \<Longrightarrow> \<not> isnan y \<Longrightarrow> fle (std_max x y) h \<longleftrightarrow> fle x h \<and> fle y h"
  by (auto simp: std_max_def fle_def flt_def)

lemma std_min_fle: "\<not> isnan x \<Longrightarrow> \<not> isnan y \<Longrightarrow> fle (std_min x y) h \<longleftrightarrow> fle x h \<or> fle y h"
  by (auto simp: std_min_def fle_def flt_def)

lemma fle_std_max: "\<not> isnan x \<Longrightarrow> \<not> isnan y \<Longrightarrow> fle h (std_max x y) \<longleftrightarrow> fle h x \<or> fle h y"
  by (auto simp: std_max_def fle_def flt_def)

lemma fle_std_min: "\<not> isnan x \<Longrightarrow> \<not> isnan y \<Longrightarrow> fle h (std_min x y) \<longleftrightarrow> fle h x \<and> fle h y"
  by (auto simp: std_min_def fle_def flt_def)

lemma isnan_std_max: "\<not> isnan x \<Longrightarrow> \<not> isnan y \<Longrightarrow> \<not> isnan (std_max x y)"
  by (simp add: std_max_def)

lemma isnan_std_min: "\<not> isnan x \<Longrightarrow> \<not> isnan y \<Longrightarrow> \<not> isnan (std_min x y)"
  by (simp add: std_min_def)

lemmas minmax_thresholds = std_max_fle std_min_fle fle_std_max fle_std_min isnan_std_max isnan_std_min

lemma mk_finite_bound:
  assumes "\<bar>q\<bar> \<le> pow2 k" "emin f \<le> k" "k < emax f"
  shows "isfinite (mk f z q)" "\<bar>val (mk f z q)\<bar> \<le> pow2 k"
proof -
  have r: "rnd f (pow2 k) = pow2 k" by (rule rnd_pow2 [OF assms(2)])
  have lt: "pow2 k < pow2 (emax f)" using assms(3) by simp
  have r': "rnd f (- pow2 k) = - pow2 k" by (simp add: rnd_minus r)
  have "- pow2 k \<le> q" "q \<le> pow2 k" using assms(1) by linarith+
  note b = mk_between [where f = f and z = z, OF r' r this]
  show "isfinite (mk f z q)" using b(1) lt pow2_pos [of "emax f"] by simp
  show "\<bar>val (mk f z q)\<bar> \<le> pow2 k" using b(2,3) lt by simp
qed

lemma val_mk_nonneg: "0 \<le> q \<Longrightarrow> 0 \<le> val (mk f z q)"
  using rnd_nonneg [of q f] by (auto simp: mk_def Let_def)

lemma fle_zero_mk: "0 \<le> q \<Longrightarrow> fle (Fin 0) (mk f z q)"
  using mk_mono [of 0 q f False z] by simp

lemma gsub_sign:
  "fle x y \<Longrightarrow> \<not> isnan (gsub f y x) \<Longrightarrow> fle (Fin 0) (gsub f y x)"
  "fle y x \<Longrightarrow> \<not> isnan (gsub f y x) \<Longrightarrow> fle (gsub f y x) (Fin 0)"
proof -
  have z: "mk f False 0 = Fin 0" by simp
  have up: "isfinite x \<Longrightarrow> isfinite y \<Longrightarrow> val x \<le> val y \<Longrightarrow> fle (Fin 0) (gsub f y x)"
    using fle_zero_mk [of "val y - val x" f] by (simp add: gsub_finite_eq)
  have down: "isfinite x \<Longrightarrow> isfinite y \<Longrightarrow> val y \<le> val x \<Longrightarrow> fle (gsub f y x) (Fin 0)"
    using mk_mono [of "val y - val x" 0 f _ False] by (simp add: gsub_finite_eq)
  show "fle x y \<Longrightarrow> \<not> isnan (gsub f y x) \<Longrightarrow> fle (Fin 0) (gsub f y x)"
    using up by (cases x; cases y) (auto simp: gsub_def gadd_def fle_Inf_iff split: if_splits)
  show "fle y x \<Longrightarrow> \<not> isnan (gsub f y x) \<Longrightarrow> fle (gsub f y x) (Fin 0)"
    using down by (cases x; cases y) (auto simp: gsub_def gadd_def fle_Inf_iff split: if_splits)
qed

lemma fle_cvt: "fle (Fin 0) x \<Longrightarrow> fle (Fin 0) (cvt f x)"
  by (cases x) (auto simp: cvt_def fle_Inf_iff intro: fle_zero_mk)

lemma gadd_zero_right: "isfinite v \<Longrightarrow> fl_ok f v \<Longrightarrow> val (gadd f v (Fin 0)) = val v \<and> isfinite (gadd f v (Fin 0))"
  by (cases v) (auto simp: gadd_def fl_ok_def mk_def Let_def)

lemma gadd_nonneg_ge:
  assumes "isfinite v" "fl_ok f v" "fle (Fin 0) a"
  shows "fle v (gadd f v a)"
proof -
  have na: "\<not> isnan a" using assms(3) by (auto simp: fle_def)
  have "\<not> isnan (gadd f v a)" using na assms by (cases v; cases a) (auto simp: gadd_def fle_Inf_iff)
  moreover have "\<not> isnan (gadd f v (Fin 0))" using gadd_zero_right [OF assms(1,2)] isfinite_not_nan by blast
  ultimately have "fle (gadd f v (Fin 0)) (gadd f v a)"
    using gadd_mono [OF fle_refl assms(3)] assms(1) isfinite_not_nan by blast
  moreover have "fle v (gadd f v (Fin 0))" using gadd_zero_right [OF assms(1,2)] assms(1) by simp
  ultimately show ?thesis by (rule fle_trans [rotated])
qed

lemma gmul_nonneg:
  "isfinite x \<Longrightarrow> isfinite y \<Longrightarrow> 0 \<le> val x \<Longrightarrow> 0 \<le> val y \<Longrightarrow> fle (Fin 0) (gmul f x y)"
  by (simp add: gmul_finite_eq fle_zero_mk)

lemma to_float_u64:
  "isfinite (to_float (uint (w :: u64)))" "0 \<le> val (to_float (uint w))" "val (to_float (uint w)) \<le> pow2 64"
proof -
  have "uint w \<le> 2 ^ 64" using uint_lt2p [of w] by simp
  then have "rat_of_int (uint w) \<le> of_int (2 ^ 64)" by (simp only: of_int_le_iff)
  moreover have "0 \<le> rat_of_int (uint w)" by (rule of_int_nonneg) simp
  moreover have "rat_of_int (2 ^ 64) = pow2 64" by (simp add: pow2_def)
  ultimately have b: "\<bar>rat_of_int (uint w)\<bar> \<le> pow2 64" by linarith
  note m = mk_finite_bound [where f = F32 and z = False, OF b]
  show "isfinite (to_float (uint w))" "val (to_float (uint w)) \<le> pow2 64"
    unfolding to_float_def using m by (simp, simp add: abs_le_iff)
  show "0 \<le> val (to_float (uint w))" unfolding to_float_def by (rule val_mk_nonneg) simp
qed

lemma fl_ok_repr:
  assumes "rnd f q = q"
  shows "\<exists>m e. q = of_int m * pow2 e \<and> \<bar>m\<bar> < 2 ^ nat (prec f) \<and> emin f \<le> e"
proof (cases "q = 0")
  case True
  then show ?thesis by (intro exI [of _ 0] exI [of _ "emin f"]) simp
next
  case False
  let ?u = "ulp_exp f q" and ?m = "rne (q / pow2 (ulp_exp f q))"
  have q: "q = of_int ?m * pow2 ?u" using assms False by (simp add: rnd_def)
  have "ulp_exp f \<bar>q\<bar> = ?u" by (simp add: ulp_exp_def)
  then have "\<bar>q\<bar> / pow2 ?u < of_int (2 ^ nat (prec f))" using scaled_bound [of "\<bar>q\<bar>" f] False by simp
  moreover have "\<bar>q\<bar> = of_int \<bar>?m\<bar> * pow2 ?u" by (subst (1) q) (simp add: abs_mult)
  then have "\<bar>q\<bar> / pow2 ?u = of_int \<bar>?m\<bar>" by (simp add: nonzero_divide_eq_eq)
  ultimately have "rat_of_int \<bar>?m\<bar> < of_int (2 ^ nat (prec f))" by simp
  then have "\<bar>?m\<bar> < 2 ^ nat (prec f)" by (simp only: of_int_less_iff)
  moreover have "emin f \<le> ?u" by (simp add: ulp_exp_def)
  ultimately show ?thesis using q by blast
qed

lemma rnd_frac:
  assumes "rnd f (val x) = val x"
  shows "rnd f (val x - of_int (trunc_int x)) = val x - of_int (trunc_int x)"
proof -
  let ?i = "trunc_int x"
  obtain m e where me: "val x = of_int m * pow2 e" "\<bar>m\<bar> < 2 ^ nat (prec f)" "emin f \<le> e"
    using fl_ok_repr [OF assms] by blast
  show ?thesis
  proof (cases "0 \<le> e")
    case True
    then have "val x = of_int (m * 2 ^ nat e)" using me(1) by (simp add: pow2_nat)
    then have "?i = m * 2 ^ nat e" by (rule trunc_int_of_int)
    then show ?thesis using \<open>val x = of_int (m * 2 ^ nat e)\<close> by simp
  next
    case False
    let ?k = "m - ?i * 2 ^ nat (- e)"
    have p: "rat_of_int (2 ^ nat (- e)) * pow2 e = 1"
      using False pow2_nat [of "- e"] pow2_add [of "- e" e] by simp
    then have eq: "val x - of_int ?i = of_int ?k * pow2 e" using me(1) by (simp add: left_diff_distrib mult.assoc)
    have "\<bar>val x - of_int ?i\<bar> \<le> \<bar>val x\<bar>"
      by (cases "0 \<le> val x") (auto simp: trunc_int_def abs_le_iff; linarith)+
    moreover have "\<bar>val x - of_int ?i\<bar> = of_int \<bar>?k\<bar> * pow2 e" unfolding eq by (simp only: abs_mult of_int_abs pow2_pos abs_of_pos)
    moreover have "\<bar>val x\<bar> = of_int \<bar>m\<bar> * pow2 e" unfolding me(1) by (simp only: abs_mult of_int_abs pow2_pos abs_of_pos)
    ultimately have "of_int \<bar>?k\<bar> * pow2 e \<le> of_int \<bar>m\<bar> * pow2 e" by simp
    then have "rat_of_int \<bar>?k\<bar> \<le> of_int \<bar>m\<bar>" by (rule mult_right_le_imp_le) simp
    then have "\<bar>?k\<bar> \<le> \<bar>m\<bar>" by (simp only: of_int_le_iff)
    then show ?thesis using eq me by (intro rnd_repr [of _ ?k e]) auto
  qed
qed

lemma mk_abs_le:
  assumes "\<bar>q\<bar> \<le> b" "rnd f b = b" "b < pow2 (emax f)"
  shows "isfinite (mk f z q) \<and> \<bar>val (mk f z q)\<bar> \<le> b"
proof -
  have r: "rnd f (- b) = - b" using assms(2) by (simp add: rnd_minus)
  have "- b \<le> q" "q \<le> b" using assms(1) by linarith+
  note m = mk_between [where f = f and z = z, OF r assms(2) this]
  show ?thesis using m assms(1,3) pow2_pos [of "emax f"] by (auto simp: abs_le_iff)
qed

lemma frac_exact:
  assumes "isfinite x" "fl_ok f x" "\<bar>trunc_int x\<bar> < 2 ^ 24" "f = F32"
  shows "isfinite (gsub f x (to_float (trunc_int x))) \<and> val (gsub f x (to_float (trunc_int x))) = val x - of_int (trunc_int x)"
proof -
  let ?d = "val x - of_int (trunc_int x)"
  have t: "to_float (trunc_int x) = Fin (of_int (trunc_int x))" by (rule to_float_exact [OF assms(3)])
  have r: "rnd f ?d = ?d" by (rule rnd_frac [OF fl_ok_rnd [OF assms(1,2)]])
  have "\<bar>?d\<bar> < 1" by (rule trunc_int_frac)
  also have "(1 :: rat) < pow2 (emax f)" using pow2_strict [of 0 "emax f"] assms(4) by simp
  finally have "isfinite (mk f z ?d)" for z using r by (simp add: isfinite_mk)
  then show ?thesis using assms(1) t r by (simp add: gsub_finite_eq val_mk)
qed

section \<open>Evaluation\<close>

text \<open>Code equations that evaluate the operations on integers, without reducing fractions.\<close>

lemma pow2_code [code]:
  "pow2 k = (if 0 \<le> k then of_int (2 ^ nat k) else Fract 1 (2 ^ nat (- k)))"
  by (simp add: pow2_def power_int_def power_one_over Fract_of_int_quotient)

definition rne_frac :: "int \<Rightarrow> int \<Rightarrow> int" where
  \<comment> \<open>\<^const>\<open>rne\<close> of a fraction by one integer division\<close>
  "rne_frac n d =
    (let k = n div d; r = 2 * (n - k * d)
     in if r < d then k else if d < r then k + 1 else if even k then k else k + 1)"

lemma rne_frac: "0 < d \<Longrightarrow> rne (of_int n / of_int d) = rne_frac n d"
proof -
  assume d: "0 < d"
  let ?k = "n div d"
  have fl: "\<lfloor>rat_of_int n / of_int d\<rfloor> = ?k" by (rule floor_divide_of_int_eq)
  have c: "rat_of_int n / of_int d - of_int ?k = of_int (n - ?k * d) / of_int d"
    using d by (simp add: field_simps)
  have lt: "rat_of_int (n - ?k * d) / of_int d < 1/2 \<longleftrightarrow> 2 * (n - ?k * d) < d"
  proof -
    have "rat_of_int (n - ?k * d) / of_int d < 1/2 \<longleftrightarrow> rat_of_int (2 * (n - ?k * d)) < of_int d"
      using d by (simp only: of_int_mult) (simp add: field_simps)
    then show ?thesis by (simp only: of_int_less_iff)
  qed
  have gt: "1/2 < rat_of_int (n - ?k * d) / of_int d \<longleftrightarrow> d < 2 * (n - ?k * d)"
  proof -
    have "1/2 < rat_of_int (n - ?k * d) / of_int d \<longleftrightarrow> of_int d < rat_of_int (2 * (n - ?k * d))"
      using d by (simp only: of_int_mult) (simp add: field_simps)
    then show ?thesis by (simp only: of_int_less_iff)
  qed
  show ?thesis unfolding rne_def rne_frac_def Let_def fl c lt gt ..
qed

definition ilog2_frac :: "int \<Rightarrow> int \<Rightarrow> int" where
  "ilog2_frac n d =
    (let k = bitlen n - bitlen d
     in if (if 0 \<le> k then d * 2 ^ nat k \<le> n else d \<le> n * 2 ^ nat (- k)) then k else k - 1)"

lemma pow2_neg: "k < 0 \<Longrightarrow> pow2 k = 1 / of_int (2 ^ nat (- k))"
  using pow2_nat [of "- k"] by (simp add: pow2_def power_int_minus field_simps)

lemma pow2_le_frac:
  "0 < d \<Longrightarrow> pow2 k \<le> of_int n / of_int d \<longleftrightarrow> (if 0 \<le> k then d * 2 ^ nat k \<le> n else d \<le> n * 2 ^ nat (- k))"
proof -
  assume d: "0 < d"
  show ?thesis
  proof (cases "0 \<le> k")
    case True
    then have "pow2 k \<le> of_int n / of_int d \<longleftrightarrow> rat_of_int (d * 2 ^ nat k) \<le> of_int n"
      using d by (simp add: pow2_nat le_divide_eq mult.commute)
    also have "\<dots> \<longleftrightarrow> d * 2 ^ nat k \<le> n" by (simp only: of_int_le_iff)
    finally show ?thesis using True by simp
  next
    case False
    then have "pow2 k \<le> of_int n / of_int d \<longleftrightarrow> rat_of_int d \<le> of_int (n * 2 ^ nat (- k))"
      using d by (simp add: pow2_neg field_simps)
    also have "\<dots> \<longleftrightarrow> d \<le> n * 2 ^ nat (- k)" by (simp only: of_int_le_iff)
    finally show ?thesis using False by simp
  qed
qed

lemma ilog2_frac:
  assumes "0 < n" "0 < d" shows "ilog2 (of_int n / of_int d) = ilog2_frac n d"
proof -
  let ?k = "bitlen n - bitlen d" and ?q = "rat_of_int n / of_int d"
  have "pow2 (?k - 1) = pow2 (bitlen n - 1) / pow2 (bitlen d)" by (simp flip: pow2_diff add: algebra_simps)
  also have "\<dots> \<le> ?q"
    using bitlen_bounds_rat [OF assms(1)] bitlen_bounds_rat [OF assms(2)] assms by (intro frac_le) auto
  finally have lo: "pow2 (?k - 1) \<le> ?q" .
  have "?q < pow2 (bitlen n) / pow2 (bitlen d - 1)"
    using bitlen_bounds_rat [OF assms(1)] bitlen_bounds_rat [OF assms(2)] assms by (intro frac_less) auto
  also have "\<dots> = pow2 (?k + 1)" by (simp flip: pow2_diff add: algebra_simps)
  finally have hi: "?q < pow2 (?k + 1)" .
  show ?thesis unfolding ilog2_frac_def Let_def pow2_le_frac [OF assms(2), symmetric]
    using lo hi by (auto intro: ilog2_unique)
qed

definition mk_frac :: "fmt \<Rightarrow> bool \<Rightarrow> int \<Rightarrow> int \<Rightarrow> fl" where
  \<comment> \<open>\<^const>\<open>mk\<close> of a fraction that need not be reduced\<close>
  "mk_frac f z n d = mk f z (of_int n / of_int d)"

fun dyadic_norm :: "int \<Rightarrow> nat \<Rightarrow> int \<times> int" where
  "dyadic_norm m 0 = (m, 1)"
| "dyadic_norm m (Suc k) =
     (if m = 0 then (0, 1) else if even m then dyadic_norm (m div 2) k else (m, 2 ^ Suc k))"

definition dyadic :: "int \<Rightarrow> nat \<Rightarrow> rat" where
  "dyadic m k = of_int m / 2 ^ k"

lemma dyadic_norm [code abstract]: "quotient_of (dyadic m k) = dyadic_norm m k"
proof (induction m k rule: dyadic_norm.induct)
  case (1 m)
  then show ?case by (simp add: dyadic_def)
next
  case IH: (2 m k)
  consider "m = 0" | "m \<noteq> 0" "even m" | "odd m" by blast
  then show ?case
  proof cases
    case 1
    then show ?thesis by (simp add: dyadic_def)
  next
    case 2
    then have "dyadic m (Suc k) = dyadic (m div 2) k"
      by (auto simp: dyadic_def field_simps elim!: evenE)
    then show ?thesis using 2 IH by simp
  next
    case 3
    have "gcd m (2 ^ Suc k) = 1" using 3 by (simp flip: coprime_iff_gcd_eq_1 add: coprime_commute)
    moreover have "dyadic m (Suc k) = Fract m (2 ^ Suc k)" by (simp add: dyadic_def Fract_of_int_quotient)
    ultimately show ?thesis using 3 by (simp only: quotient_of_Fract) (auto simp: Rat.normalize_def Let_def)
  qed
qed

lemma rnd_bound: "\<bar>rnd f q\<bar> \<le> pow2 (prec f + ulp_exp f q)"
proof -
  consider "0 < q" | "q = 0" | "0 < - q" by linarith
  then show ?thesis
  proof cases
    case 1
    then show ?thesis using rnd_le_next [of q f] rnd_nonneg [of q f] by simp
  next
    case 3
    then show ?thesis using rnd_le_next [of "- q" f] rnd_nonneg [of "- q" f] by (simp add: rnd_minus)
  qed simp
qed

definition round_exp :: "fmt \<Rightarrow> int \<Rightarrow> int \<Rightarrow> int" where
  "round_exp f n d = max (emin f) (ilog2_frac \<bar>n\<bar> d - (prec f - 1))"

lemma mk_frac_pos:
  "mk_frac f z n d =
    (if n = 0 then (if z then NZero else Fin 0)
     else let e = round_exp f n d in
       if 0 \<le> e then
         let m = rne_frac n (d * 2 ^ nat e) in
           if m = 0 then (if n < 0 then NZero else Fin 0)
           else if 2 ^ nat (emax f) \<le> \<bar>m\<bar> * 2 ^ nat e then Inf (n < 0)
           else Fin (of_int (m * 2 ^ nat e))
       else
         let m = rne_frac (n * 2 ^ nat (- e)) d in
           if m = 0 then (if n < 0 then NZero else Fin 0) else Fin (dyadic m (nat (- e))))"
  if "0 < d"
proof (cases "n = 0")
  case True
  then show ?thesis by (simp add: mk_frac_def mk_def)
next
  case n: False
  define q where "q = rat_of_int n / of_int d"
  define e where "e = round_exp f n d"
  have q0: "q \<noteq> 0" using n that by (simp add: q_def)
  have sg: "q < 0 \<longleftrightarrow> n < 0" using that by (simp add: q_def divide_less_0_iff)
  have "\<bar>q\<bar> = of_int \<bar>n\<bar> / of_int d" using that by (simp add: q_def abs_divide)
  then have e: "ulp_exp f q = e"
    using ilog2_frac [of "\<bar>n\<bar>" d] n that by (simp add: ulp_exp_def e_def round_exp_def)
  show ?thesis
  proof (cases "0 \<le> e")
    case True
    then have p: "pow2 e = of_int (2 ^ nat e)" by (rule pow2_nat)
    define m where "m = rne_frac n (d * 2 ^ nat e)"
    have "q / pow2 e = of_int n / of_int (d * 2 ^ nat e)" unfolding p q_def by simp
    then have "rne (q / pow2 e) = m" unfolding m_def using that by (simp only:) (rule rne_frac, simp)
    then have r: "rnd f q = of_int (m * 2 ^ nat e)" using q0 by (simp add: rnd_def e p)
    have "pow2 (emax f) \<le> \<bar>rnd f q\<bar> \<longleftrightarrow> 2 ^ nat (emax f) \<le> \<bar>m\<bar> * 2 ^ nat e"
    proof -
      have "pow2 (emax f) = of_int (2 ^ nat (emax f))" by (rule pow2_nat) (cases f, auto)
      moreover have "\<bar>rnd f q\<bar> = of_int (\<bar>m\<bar> * 2 ^ nat e)" unfolding r by (simp add: abs_mult)
      ultimately show ?thesis by (simp only: of_int_le_iff)
    qed
    then show ?thesis using n q0 True r sg
      by (simp add: mk_frac_def mk_def Let_def flip: q_def e_def m_def)
  next
    case False
    then have p: "pow2 e = 1 / of_int (2 ^ nat (- e))" using pow2_neg by simp
    define m where "m = rne_frac (n * 2 ^ nat (- e)) d"
    have "q / pow2 e = of_int (n * 2 ^ nat (- e)) / of_int d" unfolding p q_def by simp
    then have "rne (q / pow2 e) = m" unfolding m_def using that by (simp only:) (rule rne_frac)
    then have r: "rnd f q = dyadic m (nat (- e))" using q0 by (simp add: rnd_def e p dyadic_def)
    have "\<bar>rnd f q\<bar> \<le> pow2 (prec f + e)" using rnd_bound [of f q] by (simp add: e)
    also have "\<dots> < pow2 (emax f)" using False by (cases f) auto
    finally have "\<not> pow2 (emax f) \<le> \<bar>rnd f q\<bar>" by simp
    moreover have "rnd f q = 0 \<longleftrightarrow> m = 0" unfolding r by (simp add: dyadic_def)
    ultimately show ?thesis using n q0 False r sg
      by (simp add: mk_frac_def mk_def Let_def flip: q_def e_def m_def)
  qed
qed
lemma mk_frac_code [code]:
  "mk_frac f z n d = (if d \<le> 0 then mk f z (of_int n / of_int d) else
    (if n = 0 then (if z then NZero else Fin 0)
     else let e = round_exp f n d in
       if 0 \<le> e then
         let m = rne_frac n (d * 2 ^ nat e) in
           if m = 0 then (if n < 0 then NZero else Fin 0)
           else if 2 ^ nat (emax f) \<le> \<bar>m\<bar> * 2 ^ nat e then Inf (n < 0)
           else Fin (of_int (m * 2 ^ nat e))
       else
         let m = rne_frac (n * 2 ^ nat (- e)) d in
           if m = 0 then (if n < 0 then NZero else Fin 0) else Fin (dyadic m (nat (- e)))))"
  using mk_frac_pos [of d f z n] by (simp add: mk_frac_def)

lemma mk_code [code]: "mk f z q = (let (n, d) = quotient_of q in mk_frac f z n d)"
proof -
  obtain n d where nd: "quotient_of q = (n, d)" by (cases "quotient_of q")
  show ?thesis unfolding nd Let_def prod.case mk_frac_def by (simp add: quotient_of_div [OF nd])
qed

lemma gmul_code [code]:
  "gmul f x y =
    (if isnan x \<or> isnan y then NaN
     else if isfinite x \<and> isfinite y
       then (let (a, b) = quotient_of (val x); (c, d) = quotient_of (val y)
             in mk_frac f (signbit x \<noteq> signbit y) (a * c) (b * d))
     else if iszero x \<or> iszero y then NaN
     else Inf (signbit x \<noteq> signbit y))"
proof -
  obtain a b where ab: "quotient_of (val x) = (a, b)" by (cases "quotient_of (val x)")
  obtain c d where cd: "quotient_of (val y) = (c, d)" by (cases "quotient_of (val y)")
  have "val x * val y = of_int (a * c) / of_int (b * d)"
    using quotient_of_div [OF ab] quotient_of_div [OF cd] by simp
  then show ?thesis by (simp add: gmul_def ab cd mk_frac_def)
qed

lemma gdiv_code [code]:
  "gdiv f x y =
    (if isnan x \<or> isnan y then NaN
     else if iszero y then (if iszero x then NaN else Inf (signbit x \<noteq> signbit y))
     else if \<not> isfinite y then
       (if \<not> isfinite x then NaN else mk f (signbit x \<noteq> signbit y) 0)
     else if \<not> isfinite x then Inf (signbit x \<noteq> signbit y)
     else (let (a, b) = quotient_of (val x); (c, d) = quotient_of (val y)
           in mk_frac f (signbit x \<noteq> signbit y) (a * d * sgn c) (b * \<bar>c\<bar>)))"
proof -
  obtain a b where ab: "quotient_of (val x) = (a, b)" by (cases "quotient_of (val x)")
  obtain c d where cd: "quotient_of (val y) = (c, d)" by (cases "quotient_of (val y)")
  have "val x / val y = of_int (a * d * sgn c) / of_int (b * \<bar>c\<bar>)" if "c \<noteq> 0"
  proof -
    have "of_int (a * d * sgn c) / of_int (b * \<bar>c\<bar>) = (rat_of_int a / of_int b) * (of_int d / of_int c)"
      using that by (cases "0 < c") simp_all
    also have "\<dots> = val x / val y"
      unfolding quotient_of_div [OF ab] quotient_of_div [OF cd] by simp
    finally show ?thesis by simp
  qed
  moreover have "c \<noteq> 0" if "isfinite y" "\<not> iszero y"
    using quotient_of_div [OF cd] that by (auto simp: iszero_def)
  ultimately show ?thesis by (simp add: gdiv_def ab cd mk_frac_def)
qed

lemma gadd_code [code]:
  "gadd f x y =
    (if isfinite x \<and> isfinite y then
       (let (a, b) = quotient_of (val x); (c, d) = quotient_of (val y)
        in mk_frac f (x = NZero \<and> y = NZero) (if b = d then a + c else a * d + c * b) (if b = d then b else b * d))
     else case x of
       NaN \<Rightarrow> NaN
     | Inf s \<Rightarrow> (case y of NaN \<Rightarrow> NaN | Inf t \<Rightarrow> (if s = t then Inf s else NaN) | _ \<Rightarrow> Inf s)
     | _ \<Rightarrow> y)"
proof (cases "isfinite x \<and> isfinite y")
  case True
  obtain a b where ab: "quotient_of (val x) = (a, b)" by (cases "quotient_of (val x)")
  obtain c d where cd: "quotient_of (val y) = (c, d)" by (cases "quotient_of (val y)")
  have pos: "0 < b" "0 < d" using quotient_of_denom_pos [OF cd] quotient_of_denom_pos [OF ab] by auto
  have eq: "val x + val y = of_int (if b = d then a + c else a * d + c * b) / of_int (if b = d then b else b * d)"
  proof (cases "b = d")
    case True
    then show ?thesis unfolding quotient_of_div [OF ab] quotient_of_div [OF cd] by (simp add: add_divide_distrib)
  next
    case False
    then show ?thesis using pos unfolding quotient_of_div [OF ab] quotient_of_div [OF cd]
      by (simp add: add_frac_eq)
  qed
  show ?thesis using True by (simp only: gadd_finite_eq ab cd mk_frac_def eq if_True Let_def prod.case simp_thms)
next
  case False
  then show ?thesis by (cases x; cases y) (auto simp: gadd_def)
qed

end
