(* ===== verification/StatMath.thy ===== *)
theory StatMath
  imports Floats "HOL-Library.Multiset"
begin

text \<open>
  \<open>src/src/math/statmath.h\<close>: the filters and accumulators every other component uses.
  \<open>EWMA\<close>, \<open>EWMA_N\<close>, \<open>EWMA_nPass\<close> and \<open>EWM\<close> are exponential averages that ignore NaN
  samples, \<open>RunningMedian3/5\<close> are the burst filters, \<open>MeanAccumulator\<close> and
  \<open>TrapezoidalIntegrator\<close> are the accumulators of the tracker and of the energy and
  charge counters. The locale \<open>nan_filter\<close> is the contract the exponential filters share.
\<close>

section \<open>EWMA\<close>

record ewma =
  ew_alpha :: fl
  ew_y :: fl

definition ewma_alpha_of :: "fl \<Rightarrow> fl" where
  \<comment> \<open>\<open>updateSpan(float span)\<close>\<close>
  "ewma_alpha_of sp = fdiv (Fin 2) (fadd sp (Fin 1))"

definition ewma_updateSpan :: "fl \<Rightarrow> ewma \<Rightarrow> ewma" where
  "ewma_updateSpan sp e = e\<lparr>ew_alpha := ewma_alpha_of sp\<rparr>"

definition ewma_new :: "u32 \<Rightarrow> ewma" where
  "ewma_new sp = \<lparr>ew_alpha = ewma_alpha_of (to_float (uint sp)), ew_y = NaN\<rparr>"

definition ewma_step :: "fl \<Rightarrow> fl \<Rightarrow> fl \<Rightarrow> fl" where
  \<comment> \<open>\<open>(1 - alpha) * y + alpha * x\<close>\<close>
  "ewma_step a y x = fadd (fmul (fsub (Fin 1) a) y) (fmul a x)"

definition ewma_upd :: "fl \<Rightarrow> fl \<Rightarrow> fl \<Rightarrow> fl" where
  "ewma_upd a y x = (if isnan x then y else ewma_step a (if isnan y then x else y) x)"

definition ewma_add :: "fl \<Rightarrow> ewma \<Rightarrow> ewma" where
  "ewma_add x e = e\<lparr>ew_y := ewma_upd (ew_alpha e) (ew_y e) x\<rparr>"

definition ewma_get :: "ewma \<Rightarrow> fl" where
  "ewma_get e = ew_y e"

definition ewma_reset :: "ewma \<Rightarrow> ewma" where
  "ewma_reset e = e\<lparr>ew_y := NaN\<rparr>"

definition ewma_span :: "ewma \<Rightarrow> u32 res" where
  "ewma_span e = bindE (cast_int 0 4294967295 (fdiv (Fin 2) (ew_alpha e)))
     (\<lambda>n. Inr (word_of_int n - 1))"

section \<open>\<open>EWMA_N\<close>: the span is a template argument\<close>

definition ewman_alpha :: "nat \<Rightarrow> fl" where
  "ewman_alpha sp = fdiv (Fin 2) (to_float (int sp + 1))"

definition ewman_add :: "nat \<Rightarrow> fl \<Rightarrow> fl \<Rightarrow> fl" where
  "ewman_add sp x y = ewma_upd (ewman_alpha sp) y x"

section \<open>\<open>EWMA_nPass\<close>\<close>

record npass =
  np_alpha :: fl
  np_y :: "fl list"

fun npass_go :: "fl \<Rightarrow> fl \<Rightarrow> fl list \<Rightarrow> fl list" where
  "npass_go a x [] = []"
| "npass_go a x (y # ys) =
     (if isnan x then y # ys
      else let y' = ewma_step a (if isnan y then x else y) x in y' # npass_go a y' ys)"

definition npass_updateSpan :: "fl \<Rightarrow> npass \<Rightarrow> npass" where
  "npass_updateSpan sp e = e\<lparr>np_alpha := ewma_alpha_of sp\<rparr>"

definition npass_new :: "nat \<Rightarrow> u32 \<Rightarrow> npass" where
  \<comment> \<open>\<open>float_t y[passes] = {NaN}\<close> sets the first element only; the others are zero\<close>
  "npass_new passes sp =
    \<lparr>np_alpha = ewma_alpha_of (to_float (uint sp)), np_y = NaN # replicate (passes - 1) (Fin 0)\<rparr>"

definition npass_add :: "fl \<Rightarrow> npass \<Rightarrow> npass" where
  "npass_add x e = e\<lparr>np_y := npass_go (np_alpha e) x (np_y e)\<rparr>"

definition npass_get :: "npass \<Rightarrow> fl" where
  "npass_get e = last (np_y e)"

definition npass_reset :: "npass \<Rightarrow> npass" where
  "npass_reset e = e\<lparr>np_y := replicate (length (np_y e)) NaN\<rparr>"

section \<open>\<open>EWM\<close>: average and normalised variance\<close>

record ewm =
  wm_last_x :: fl
  wm_avg :: npass
  wm_std :: ewma

definition ewm_new :: "u32 \<Rightarrow> ewm" where
  "ewm_new sp = \<lparr>wm_last_x = NaN, wm_avg = npass_new 2 sp, wm_std = ewma_new sp\<rparr>"

definition ewm_updateSpan :: "fl \<Rightarrow> ewm \<Rightarrow> ewm" where
  "ewm_updateSpan sp w =
    w\<lparr>wm_avg := npass_updateSpan sp (wm_avg w), wm_std := ewma_updateSpan sp (wm_std w)\<rparr>"

definition ewm_reset :: "bool \<Rightarrow> ewm \<Rightarrow> ewm" where
  "ewm_reset meanVar w =
    (let w' = w\<lparr>wm_avg := npass_reset (wm_avg w), wm_std := ewma_reset (wm_std w)\<rparr>
     in if meanVar then w' else w'\<lparr>wm_last_x := NaN\<rparr>)"

definition ewm_regularisation :: fl where
  "ewm_regularisation = f32 (1 / 10000)"

definition ewm_add :: "bool \<Rightarrow> fl \<Rightarrow> ewm \<Rightarrow> ewm" where
  "ewm_add meanVar x w =
    (let avg' = npass_add x (wm_avg w);
         ex = (if meanVar then npass_get avg' else wm_last_x w);
         std' = (if isnan ex then wm_std w
                 else let pct = fdiv (fsub x ex) (fadd (fabs (npass_get avg')) ewm_regularisation)
                      in if isfinite pct then ewma_add (fmul pct pct) (wm_std w) else wm_std w)
     in \<lparr>wm_last_x = (if meanVar then wm_last_x w else x), wm_avg = avg', wm_std = std'\<rparr>)"

definition ewm_nvar :: "ewm \<Rightarrow> fl" where
  "ewm_nvar w = ewma_get (wm_std w)"

definition pctchange_next :: "fl \<Rightarrow> fl \<Rightarrow> fl \<times> fl" where
  \<comment> \<open>\<open>PctChange::next\<close>: the result and the new \<open>_last\<close>\<close>
  "pctchange_next prev x = (fdiv (fsub x prev) prev, x)"

section \<open>Medians\<close>

definition median_of_three :: "fl \<Rightarrow> fl \<Rightarrow> fl \<Rightarrow> fl" where
  \<comment> \<open>instantiated with \<open>greaterThan\<close>\<close>
  "median_of_three a b c =
    (if fgt a b then (if fgt b c then b else if fgt a c then c else a)
     else if fgt c b then b else if fgt c a then c else a)"

definition median3 :: "fl \<Rightarrow> fl \<Rightarrow> fl \<Rightarrow> fl" where
  "median3 a b c = std_max (std_min a b) (std_min c (std_max a b))"

definition median5 :: "fl \<Rightarrow> fl \<Rightarrow> fl \<Rightarrow> fl \<Rightarrow> fl \<Rightarrow> fl" where
  "median5 a b c d e =
    (let f = std_max (std_min a b) (std_min c d);
         g = std_min (std_max a b) (std_max c d)
     in median3 e f g)"

record rmed3 =
  r3_s1 :: fl
  r3_s2 :: fl
  r3_last :: fl

definition rmed3_reset :: "rmed3" where
  "rmed3_reset = \<lparr>r3_s1 = NaN, r3_s2 = NaN, r3_last = NaN\<rparr>"

definition rmed3_next :: "fl \<Rightarrow> rmed3 \<Rightarrow> rmed3" where
  "rmed3_next s r = \<lparr>r3_s1 = s, r3_s2 = r3_s1 r, r3_last = median_of_three s (r3_s1 r) (r3_s2 r)\<rparr>"

record rmed5 =
  r5_b :: "fl list"
  r5_last :: fl
  r5_pos :: nat

definition rmed5_new :: rmed5 where
  "rmed5_new = \<lparr>r5_b = replicate 5 NaN, r5_last = NaN, r5_pos = 0\<rparr>"

definition rmed5_next :: "fl \<Rightarrow> rmed5 \<Rightarrow> rmed5" where
  "rmed5_next s r =
    (let b = (r5_b r)[r5_pos r := s]
     in \<lparr>r5_b = b, r5_last = median5 (b ! 0) (b ! 1) (b ! 2) (b ! 3) (b ! 4),
         r5_pos = (r5_pos r + 1) mod 5\<rparr>)"

definition rmed5_get :: "rmed5 \<Rightarrow> fl" where
  "rmed5_get r = r5_last r"

definition rmed5_reset :: "rmed5 \<Rightarrow> rmed5" where
  "rmed5_reset r = r\<lparr>r5_b := map (\<lambda>_. NaN) (r5_b r), r5_last := NaN\<rparr>"

section \<open>\<open>MeanAccumulator\<close>\<close>

record macc =
  ma_sum :: fl
  ma_num :: u16

definition macc_clear :: macc where
  "macc_clear = \<lparr>ma_sum = Fin 0, ma_num = 0\<rparr>"

definition macc_mean :: "macc \<Rightarrow> fl" where
  "macc_mean m = fdiv (ma_sum m) (to_float (uint (ma_num m)))"

definition macc_add :: "fl \<Rightarrow> macc \<Rightarrow> macc res" where
  "macc_add x m =
    (if uint (ma_num m) < 65535
     then Inr \<lparr>ma_sum = fadd (ma_sum m) x, ma_num = ma_num m + 1\<rparr>
     else Inl AssertFail)"

definition macc_pop :: "macc \<Rightarrow> fl \<times> macc" where
  "macc_pop m = (macc_mean m, macc_clear)"

section \<open>\<open>TrapezoidalIntegrator\<close>\<close>

text \<open>\<open>F = float\<close>, \<open>T = time_us\<close>; the accumulator type \<open>D\<close> is the format argument.\<close>

record trap =
  tr_timeFactor :: fl
  tr_maxDt :: u64
  tr_lastTime :: u64
  tr_lastX :: fl
  tr_value :: fl

definition trap_new :: "fl \<Rightarrow> u64 \<Rightarrow> trap" where
  "trap_new tf maxDt =
    \<lparr>tr_timeFactor = tf, tr_maxDt = maxDt, tr_lastTime = 0, tr_lastX = Fin 0, tr_value = Fin 0\<rparr>"

definition trap_area :: "trap \<Rightarrow> fl \<Rightarrow> u64 \<Rightarrow> fl" where
  "trap_area t x dt =
    fmul (fmul (fadd (tr_lastX t) x) (Fin (1/2))) (fmul (to_float (uint dt)) (tr_timeFactor t))"

definition trap_add :: "fmt \<Rightarrow> fl \<Rightarrow> u64 \<Rightarrow> trap \<Rightarrow> trap" where
  "trap_add D x now t =
    (let dt = now - tr_lastTime t;
         v = (if dt < tr_maxDt t \<and> isfinite (tr_lastX t) \<and> isfinite x
              then gadd D (tr_value t) (cvt D (trap_area t x dt)) else tr_value t)
     in t\<lparr>tr_value := v, tr_lastTime := now, tr_lastX := x\<rparr>)"

definition trap_reset :: "trap \<Rightarrow> trap" where
  "trap_reset t = t\<lparr>tr_lastTime := 0, tr_lastX := Fin 0, tr_value := Fin 0\<rparr>"

definition trap_restore :: "fl \<Rightarrow> trap \<Rightarrow> trap res" where
  "trap_restore v t =
    (if feq (tr_value t) (Fin 0)
     then Inr (if isfinite v then t\<lparr>tr_value := v\<rparr> else t) else Inl AssertFail)"

section \<open>The exponential step never amplifies\<close>

definition alpha_ok :: "fl \<Rightarrow> bool" where
  "alpha_ok a = (isfinite a \<and> fl_ok F32 a \<and> pow2 (- 60) \<le> val a \<and> val a \<le> 1)"

lemma one_minus_alpha:
  assumes "alpha_ok a"
  defines "c \<equiv> rnd F32 (1 - val a)"
  shows "0 \<le> c" "c \<le> 1" "c + val a \<le> 1 + pow2 (- 25)" "c = 0 \<or> pow2 (- 24) \<le> c"
    "isfinite (fsub (Fin 1) a)" "val (fsub (Fin 1) a) = c"
proof -
  have a: "isfinite a" "rnd F32 (val a) = val a" "0 < val a" "val a \<le> 1"
    using assms(1) less_le_trans [OF pow2_pos [of "- 60"]] fl_ok_rnd by (auto simp: alpha_ok_def)
  have r1: "rnd F32 1 = 1" using rnd_of_int [of 1 F32] by simp
  show c0: "0 \<le> c" unfolding c_def by (rule rnd_nonneg) (use a in simp)
  show c1: "c \<le> 1" unfolding c_def by (rule rnd_le_repr [OF _ r1]) (use a in simp)
  have "\<bar>c - (1 - val a)\<bar> \<le> pow2 (- 25)"
  proof (cases "val a = 1")
    case False
    have "ulp_exp F32 (1 - val a) \<le> 0 - prec F32" by (rule ulp_exp_le) (use a False in auto)
    then have "pow2 (ulp_exp F32 (1 - val a)) \<le> pow2 (- 24)" by simp
    then show ?thesis using rnd_err [of F32 "1 - val a"] by (simp add: c_def pow2_numerals)
  qed (simp add: c_def)
  then show "c + val a \<le> 1 + pow2 (- 25)" by linarith
  show "c = 0 \<or> pow2 (- 24) \<le> c"
  proof (cases "val a = 1")
    case False
    have "pow2 (- 24) \<le> 1 - val a" using repr_below_one [OF a(2)] a False by linarith
    then show ?thesis unfolding c_def using rnd_ge_repr [OF _ rnd_pow2 [of F32 "- 24"]] by simp
  qed (simp add: c_def)
  have "\<bar>c\<bar> < pow2 128" using c0 c1 by (simp add: pow2_def)
  then show fin: "isfinite (fsub (Fin 1) a)"
    using a by (simp add: gsub_finite_eq isfinite_mk c_def)
  then show "val (fsub (Fin 1) a) = c"
    using a by (simp add: val_gsub c_def)
qed

lemma scaled_product_bound:
  assumes "0 \<le> c" "c = 0 \<or> pow2 (- 60) \<le> c" "rnd F32 c = c" "\<bar>y\<bar> \<le> pow2 k" "- 60 \<le> k"
  shows "\<bar>rnd F32 (c * y)\<bar> \<le> c * pow2 k"
proof (cases "c = 0")
  case False
  then have "- 60 - 23 \<le> ulp_exp F32 c" using ulp_exp_ge [of "- 60" c F32] assms by simp
  then have r: "rnd F32 (c * pow2 k) = c * pow2 k" using assms by (intro rnd_scale) auto
  have up: "rnd F32 (c * y') \<le> c * pow2 k" if "y' \<le> pow2 k" for y'
    by (rule rnd_le_repr [OF _ r]) (use that assms in \<open>simp add: mult_left_mono\<close>)
  have "rnd F32 (c * y) \<le> c * pow2 k" "rnd F32 (c * - y) \<le> c * pow2 k"
    by (rule up; use assms(4) in linarith)+
  then show ?thesis by (simp add: abs_le_iff rnd_minus)
qed simp

lemma ewma_step_bounded:
  assumes "alpha_ok a" "isfinite y" "isfinite x" "\<bar>val y\<bar> \<le> pow2 k" "\<bar>val x\<bar> \<le> pow2 k"
    and k: "- 60 \<le> k" "k \<le> 126"
  shows "isfinite (ewma_step a y x) \<and> \<bar>val (ewma_step a y x)\<bar> \<le> pow2 k"
proof -
  define c where "c = rnd F32 (1 - val a)"
  note oma = one_minus_alpha [OF assms(1), folded c_def]
  have a: "isfinite a" "rnd F32 (val a) = val a" "pow2 (- 60) \<le> val a" "val a \<le> 1"
    using assms(1) fl_ok_rnd by (auto simp: alpha_ok_def)
  have a0: "0 \<le> val a" using a(3) pow2_pos [of "- 60"] by linarith
  have rc: "rnd F32 c = c" by (simp add: c_def rnd_idem)
  have c60: "c = 0 \<or> pow2 (- 60) \<le> c" using oma(4) pow2_mono [of "- 60" "- 24"] by linarith
  have big: "pow2 k \<le> pow2 126" using k by simp
  have lt: "pow2 126 < pow2 128" by simp
  let ?p = "fmul (fsub (Fin 1) a) y" and ?q = "fmul a x"
  have pb: "\<bar>rnd F32 (c * val y)\<bar> \<le> c * pow2 k" by (rule scaled_product_bound [OF oma(1) c60 rc assms(4) k(1)])
  have qb: "\<bar>rnd F32 (val a * val x)\<bar> \<le> val a * pow2 k"
    by (rule scaled_product_bound [OF a0 _ a(2) assms(5) k(1)]) (use a in simp)
  have "c * pow2 k \<le> 1 * pow2 k" by (rule mult_right_mono) (use oma in auto)
  then have "\<bar>rnd F32 (c * val y)\<bar> < pow2 128" using pb big lt by linarith
  then have pfin: "isfinite ?p" using assms(2) oma(5,6) by (simp add: gmul_finite_eq isfinite_mk)
  have "val a * pow2 k \<le> 1 * pow2 k" by (rule mult_right_mono) (use a in auto)
  then have "\<bar>rnd F32 (val a * val x)\<bar> < pow2 128" using qb big lt by linarith
  then have qfin: "isfinite ?q" using assms(3) a(1) by (simp add: gmul_finite_eq isfinite_mk)
  have vp: "val ?p = rnd F32 (c * val y)" using val_gmul [OF oma(5) assms(2) pfin] oma(6) by simp
  have vq: "val ?q = rnd F32 (val a * val x)" using val_gmul [OF a(1) assms(3) qfin] by simp
  have "\<bar>val ?p + val ?q\<bar> \<le> (c + val a) * pow2 k" using pb qb vp vq by (simp add: algebra_simps)
  also have "\<dots> \<le> (1 + pow2 (- 25)) * pow2 k" by (rule mult_right_mono [OF oma(3)]) simp
  finally have s: "\<bar>val ?p + val ?q\<bar> \<le> pow2 k * (1 + pow2 (- 25))" by (simp add: mult.commute)
  have "rnd F32 (val ?p + val ?q) \<le> pow2 k" "rnd F32 (- (val ?p + val ?q)) \<le> pow2 k"
    by (rule rnd_near_pow2; use s k in linarith)+
  then have rb: "\<bar>rnd F32 (val ?p + val ?q)\<bar> \<le> pow2 k" unfolding rnd_minus by linarith
  then have "\<bar>rnd F32 (val ?p + val ?q)\<bar> < pow2 128" using big lt by linarith
  then have "isfinite (ewma_step a y x)" using pfin qfin
    by (simp add: ewma_step_def gadd_finite_eq isfinite_mk)
  then show ?thesis using rb val_gadd [OF pfin qfin, of F32] by (simp add: ewma_step_def)
qed


lemma alpha_ok_of_span:
  assumes "1 \<le> n" "n < 2 ^ 32"
  shows "alpha_ok (ewma_alpha_of (to_float n))"
proof -
  have r1: "rnd F32 1 = 1" "rnd F32 2 = 2" using rnd_of_int [of 1 F32] rnd_of_int [of 2 F32] by auto
  have r32: "rnd F32 (pow2 32) = pow2 32" "rnd F32 (pow2 33) = pow2 33" "rnd F32 (pow2 (- 32)) = pow2 (- 32)"
    by (rule rnd_pow2; simp)+
  have n: "1 \<le> rat_of_int n" "rat_of_int n \<le> pow2 32" using assms
  proof -
    show "1 \<le> rat_of_int n" using assms by simp
    have "n \<le> 2 ^ 32" using assms by simp
    then have "rat_of_int n \<le> of_int (2 ^ 32)" by (simp only: of_int_le_iff)
    then show "rat_of_int n \<le> pow2 32" by (simp add: pow2_def)
  qed
  have em: "1 < pow2 128" "2 < pow2 128" "pow2 33 < pow2 128" "0 < pow2 128" by (simp_all add: pow2_def)
  note a = mk_between [where f = F32 and z = False, OF r1(1) r32(1) n]
  have fa: "isfinite (to_float n)" "1 \<le> val (to_float n)" "val (to_float n) \<le> pow2 32"
    unfolding to_float_def using a em by simp_all
  have "pow2 33 = pow2 32 * 2" by (simp add: pow2_def)
  then have s: "2 \<le> val (to_float n) + 1" "val (to_float n) + 1 \<le> pow2 33" using fa by (auto simp: pow2_def)
  note b = mk_between [where f = F32 and z = False, OF r1(2) r32(2) s]
  let ?s = "fadd (to_float n) (Fin 1)"
  have fb: "isfinite ?s" "2 \<le> val ?s" "val ?s \<le> pow2 33"
    using b em fa by (simp_all add: gadd_finite_eq)
  have q: "pow2 (- 32) \<le> 2 / val ?s" "2 / val ?s \<le> 1" using fb
    by (auto simp: le_divide_eq divide_le_eq pow2_def power_int_def field_simps)
  note c = mk_between [where f = F32 and z = "signbit (Fin 2) \<noteq> signbit ?s", OF r32(3) r1(1) q]
  have lo: "- pow2 128 < pow2 (- 32)" using em pow2_pos [of "- 32"] by linarith
  have "isfinite (ewma_alpha_of (to_float n))" "pow2 (- 32) \<le> val (ewma_alpha_of (to_float n))"
       "val (ewma_alpha_of (to_float n)) \<le> 1"
    using c em lo fb by (simp_all add: ewma_alpha_of_def gdiv_finite_eq)
  moreover have "pow2 (- 60) \<le> pow2 (- 32)" by simp
  ultimately show ?thesis by (simp add: alpha_ok_def ewma_alpha_of_def del: pow2_le_iff)
qed


section \<open>Medians by threshold decomposition\<close>

lemma median5_majority:
  assumes "\<forall>x \<in> set [a, b, c, d, e]. \<not> isnan x"
  shows "fle (median5 a b c d e) h \<longleftrightarrow> 3 \<le> length (filter (\<lambda>x. fle x h) [a, b, c, d, e])"
    and "fle h (median5 a b c d e) \<longleftrightarrow> 3 \<le> length (filter (\<lambda>x. fle h x) [a, b, c, d, e])"
  using assms
  by (auto simp: median5_def median3_def Let_def minmax_thresholds)

section \<open>The contract of the exponential filters\<close>

definition in_bound :: "int \<Rightarrow> fl \<Rightarrow> bool" where
  "in_bound k x = (isfinite x \<and> \<bar>val x\<bar> \<le> pow2 k)"

definition nan_or_bound :: "int \<Rightarrow> fl \<Rightarrow> bool" where
  "nan_or_bound k x = (isnan x \<or> in_bound k x)"

locale bounded_filter =
  fixes add :: "fl \<Rightarrow> 's \<Rightarrow> 's" and get :: "'s \<Rightarrow> fl" and reset :: "'s \<Rightarrow> 's"
    and wf :: "'s \<Rightarrow> bool" and bnd :: "int \<Rightarrow> 's \<Rightarrow> bool"
  assumes wf_add: "wf s \<Longrightarrow> wf (add x s)"
    and wf_reset: "wf s \<Longrightarrow> wf (reset s)"
    and get_reset: "wf s \<Longrightarrow> isnan (get (reset s))"
    and bnd_reset: "wf s \<Longrightarrow> bnd k (reset s)"
    and bnd_add: "wf s \<Longrightarrow> bnd k s \<Longrightarrow> - 60 \<le> k \<Longrightarrow> k \<le> 126 \<Longrightarrow> nan_or_bound k x \<Longrightarrow> bnd k (add x s)"
    and bnd_get: "wf s \<Longrightarrow> bnd k s \<Longrightarrow> nan_or_bound k (get s)"
begin

lemma run_wf: "wf s \<Longrightarrow> wf (fold add xs s)"
  by (induction xs arbitrary: s) (auto intro: wf_add)

lemma run_bnd:
  "wf s \<Longrightarrow> bnd k s \<Longrightarrow> - 60 \<le> k \<Longrightarrow> k \<le> 126 \<Longrightarrow> \<forall>x \<in> set xs. nan_or_bound k x \<Longrightarrow>
   bnd k (fold add xs s)"
  by (induction xs arbitrary: s) (auto intro: wf_add bnd_add)

lemma run_bounded:
  assumes "wf s" "- 60 \<le> k" "k \<le> 126" "\<forall>x \<in> set xs. nan_or_bound k x"
  shows "nan_or_bound k (get (fold add xs (reset s)))"
  using assms by (intro bnd_get run_wf run_bnd wf_reset bnd_reset)

end

locale nan_filter = bounded_filter +
  assumes add_nan: "isnan x \<Longrightarrow> add x s = s"
begin

lemma run_ignores_nan: "fold add xs s = fold add (filter (\<lambda>x. \<not> isnan x) xs) s"
  by (induction xs arbitrary: s) (auto simp: add_nan)

end

lemma ewma_upd_bound:
  assumes "alpha_ok a" "- 60 \<le> k" "k \<le> 126" "nan_or_bound k y" "nan_or_bound k x"
  shows "nan_or_bound k (ewma_upd a y x)"
  using assms ewma_step_bounded [of a "if isnan y then x else y" x k]
  by (auto simp: ewma_upd_def nan_or_bound_def in_bound_def)

lemma ewma_upd_nan [simp]: "isnan x \<Longrightarrow> ewma_upd a y x = y"
  by (simp add: ewma_upd_def)

lemma nan_or_bound_NaN [simp]: "nan_or_bound k NaN"
  by (simp add: nan_or_bound_def)

interpretation ewma_f: nan_filter ewma_add ewma_get ewma_reset
  "\<lambda>e. alpha_ok (ew_alpha e)" "\<lambda>k e. nan_or_bound k (ew_y e)"
  by unfold_locales (auto simp: ewma_add_def ewma_get_def ewma_reset_def intro: ewma_upd_bound)

lemma alpha_ok_ewman4: "alpha_ok (ewman_alpha 4)"
  by code_simp

interpretation ewma4_f: nan_filter "ewman_add 4" "\<lambda>y. y" "\<lambda>_. NaN" "\<lambda>_. True" nan_or_bound
  by unfold_locales (auto simp: ewman_add_def intro: ewma_upd_bound alpha_ok_ewman4)

lemma npass_go_length [simp]: "length (npass_go a x ys) = length ys"
  by (induction ys arbitrary: x) (auto simp: Let_def)

lemma npass_go_nan: "isnan x \<Longrightarrow> npass_go a x ys = ys"
  by (cases ys) auto

lemma npass_go_bound:
  assumes "alpha_ok a" "- 60 \<le> k" "k \<le> 126"
  shows "list_all (nan_or_bound k) ys \<Longrightarrow> nan_or_bound k x \<Longrightarrow> list_all (nan_or_bound k) (npass_go a x ys)"
proof (induction ys arbitrary: x)
  case (Cons y ys)
  have "nan_or_bound k (ewma_upd a y x)" using Cons.prems assms by (intro ewma_upd_bound) auto
  then show ?case using Cons by (auto simp: Let_def ewma_upd_def)
qed simp

lemma npass_reset_nan: "np_y e \<noteq> [] \<Longrightarrow> isnan (npass_get (npass_reset e))"
  by (simp add: npass_get_def npass_reset_def last_conv_nth)

lemma npass_get_bound:
  "np_y e \<noteq> [] \<Longrightarrow> list_all (nan_or_bound k) (np_y e) \<Longrightarrow> nan_or_bound k (npass_get e)"
  by (simp add: npass_get_def list_all_iff)

lemma npass_fields [simp]:
  "np_alpha (npass_add x e) = np_alpha e" "np_alpha (npass_reset e) = np_alpha e"
  "np_y (npass_add x e) = [] \<longleftrightarrow> np_y e = []" "np_y (npass_reset e) = [] \<longleftrightarrow> np_y e = []"
  "list_all (nan_or_bound k) (np_y (npass_reset e))"
  using length_0_conv [of "npass_go (np_alpha e) x (np_y e)"]
  by (auto simp: npass_add_def npass_reset_def list_all_iff)

lemma npass_add_bound:
  "alpha_ok (np_alpha e) \<Longrightarrow> - 60 \<le> k \<Longrightarrow> k \<le> 126 \<Longrightarrow> list_all (nan_or_bound k) (np_y e) \<Longrightarrow>
   nan_or_bound k x \<Longrightarrow> list_all (nan_or_bound k) (np_y (npass_add x e))"
  by (simp add: npass_add_def npass_go_bound)

interpretation npass_f: nan_filter npass_add npass_get npass_reset
  "\<lambda>e. alpha_ok (np_alpha e) \<and> np_y e \<noteq> []" "\<lambda>k e. list_all (nan_or_bound k) (np_y e)"
  by unfold_locales
    (simp_all add: npass_reset_nan npass_get_bound npass_add_bound, simp add: npass_add_def npass_go_nan)

lemma ewm_fields [simp]:
  "wm_avg (ewm_add m x w) = npass_add x (wm_avg w)"
  "wm_avg (ewm_reset m w) = npass_reset (wm_avg w)"
  by (simp_all add: ewm_add_def ewm_reset_def Let_def)

interpretation ewm_f: bounded_filter "ewm_add m" "\<lambda>w. npass_get (wm_avg w)" "ewm_reset m"
  "\<lambda>w. alpha_ok (np_alpha (wm_avg w)) \<and> np_y (wm_avg w) \<noteq> []"
  "\<lambda>k w. list_all (nan_or_bound k) (np_y (wm_avg w))"
  by unfold_locales (simp_all add: npass_reset_nan npass_get_bound npass_add_bound)

section \<open>\<open>RunningMedian5\<close> is the median of its last five samples\<close>

lemma ring_slot:
  fixes i n :: nat
  assumes "i < n" "n \<le> i + 4" shows "n mod 5 \<noteq> i mod 5"
proof
  assume "n mod 5 = i mod 5"
  then have "5 dvd n - i" using assms(1) by (simp add: mod_eq_dvd_iff_nat)
  then have "5 \<le> n - i" using assms(1) by (intro dvd_imp_le) auto
  then show False using assms(2) by simp
qed

definition rmed5_inv :: "fl list \<Rightarrow> rmed5 \<Rightarrow> bool" where
  "rmed5_inv xs r \<longleftrightarrow> length (r5_b r) = 5 \<and> r5_pos r = length xs mod 5 \<and>
    (\<forall>i < length xs. length xs \<le> i + 5 \<longrightarrow> r5_b r ! (i mod 5) = xs ! i)"

lemma rmed5_inv_new: "rmed5_inv [] rmed5_new"
  by (simp add: rmed5_inv_def rmed5_new_def)

lemma rmed5_inv_next:
  assumes "rmed5_inv xs r" shows "rmed5_inv (xs @ [x]) (rmed5_next x r)"
proof -
  have len: "length (r5_b r) = 5" and pos: "r5_pos r = length xs mod 5"
    and buf: "i < length xs \<Longrightarrow> length xs \<le> i + 5 \<Longrightarrow> r5_b r ! (i mod 5) = xs ! i" for i
    using assms by (auto simp: rmed5_inv_def)
  have "(r5_b r)[length xs mod 5 := x] ! (i mod 5) = (xs @ [x]) ! i"
    if "i < Suc (length xs)" "Suc (length xs) \<le> i + 5" for i
  proof (cases "i = length xs")
    case True
    then show ?thesis using len by simp
  next
    case False
    with that have i: "i < length xs" by simp
    then have "length xs mod 5 \<noteq> i mod 5" using that by (intro ring_slot) auto
    then show ?thesis using buf [OF i] that i by (simp add: nth_append)
  qed
  moreover have "(length xs mod 5 + 1) mod 5 = Suc (length xs) mod 5" by (simp add: mod_Suc_eq)
  ultimately show ?thesis using len pos by (simp add: rmed5_inv_def rmed5_next_def Let_def)
qed

lemma rmed5_inv_run: "rmed5_inv xs (fold rmed5_next xs rmed5_new)"
  by (induction xs rule: rev_induct) (simp_all add: rmed5_inv_new rmed5_inv_next)

lemma rmed5_last:
  "xs \<noteq> [] \<Longrightarrow> r = fold rmed5_next xs rmed5_new \<Longrightarrow>
   r5_last r = median5 (r5_b r ! 0) (r5_b r ! 1) (r5_b r ! 2) (r5_b r ! 3) (r5_b r ! 4)"
  by (cases xs rule: rev_cases) (simp_all add: rmed5_next_def Let_def)

lemma list5_eq: "length b = 5 \<Longrightarrow> [b ! 0, b ! 1, b ! 2, b ! 3, b ! 4] = b"
  by (simp add: numeral_eq_Suc length_Suc_conv) (auto simp: nth_Cons')

lemma rmed5_window:
  assumes "rmed5_inv xs r" "5 \<le> length xs"
  shows "mset (r5_b r) = mset (drop (length xs - 5) xs)"
proof -
  let ?n = "length xs"
  have bij: "bij_betw (\<lambda>i. i mod 5) {?n - 5 ..< ?n} {0 ..< 5}"
  proof (rule bij_betw_imageI)
    show inj: "inj_on (\<lambda>i. i mod 5) {?n - 5 ..< ?n}" 
    proof (rule inj_onI)
      fix i j assume "i \<in> {?n - 5 ..< ?n}" "j \<in> {?n - 5 ..< ?n}" "i mod 5 = j mod 5"
      moreover from this have "j \<le> i + 4" "i \<le> j + 4" using assms(2) by auto
      ultimately show "i = j" using ring_slot [of i j] ring_slot [of j i]
        by (cases i j rule: linorder_cases) auto
    qed
    show "(\<lambda>i. i mod 5) ` {?n - 5 ..< ?n} = {0 ..< 5}"
      by (rule card_subset_eq) (use assms(2) inj in \<open>auto simp: card_image\<close>)
  qed
  have "mset (r5_b r) = image_mset (\<lambda>i. r5_b r ! i) (mset_set {0 ..< 5})"
    using assms(1) by (simp add: rmed5_inv_def flip: mset_map) (metis map_nth mset_map mset_upt)
  also have "\<dots> = image_mset (\<lambda>i. r5_b r ! (i mod 5)) (mset_set {?n - 5 ..< ?n})"
  proof -
    have "mset_set {0 ..< 5} = image_mset (\<lambda>i. i mod 5) (mset_set {?n - 5 ..< ?n})"
      using bij by (simp only: bij_betw_def image_mset_mset_set)
    then show ?thesis by (simp add: multiset.map_comp comp_def del: image_mset_mset_set)
  qed
  also have "\<dots> = image_mset (\<lambda>i. xs ! i) (mset_set {?n - 5 ..< ?n})"
    by (rule image_mset_cong) (use assms(1) in \<open>auto simp: rmed5_inv_def\<close>)
  also have "\<dots> = mset (map ((!) xs) [?n - 5 ..< ?n])" by simp
  also have "map ((!) xs) [?n - 5 ..< ?n] = drop (?n - 5) xs"
    by (metis diff_le_self drop_map drop_upt map_nth plus_nat.add_0)
  finally show ?thesis .
qed

lemma rmed5_output:
  assumes "5 \<le> length xs" "\<forall>x \<in> set (drop (length xs - 5) xs). \<not> isnan x"
  defines "m \<equiv> rmed5_get (fold rmed5_next xs rmed5_new)"
  shows "fle m h \<longleftrightarrow> 3 \<le> length (filter (\<lambda>x. fle x h) (drop (length xs - 5) xs))"
    and "fle h m \<longleftrightarrow> 3 \<le> length (filter (\<lambda>x. fle h x) (drop (length xs - 5) xs))"
proof -
  define r where "r = fold rmed5_next xs rmed5_new"
  have inv: "rmed5_inv xs r" unfolding r_def by (rule rmed5_inv_run)
  have ms: "mset (r5_b r) = mset (drop (length xs - 5) xs)" by (rule rmed5_window [OF inv assms(1)])
  have b5: "[r5_b r ! 0, r5_b r ! 1, r5_b r ! 2, r5_b r ! 3, r5_b r ! 4] = r5_b r"
    by (rule list5_eq) (use inv in \<open>simp add: rmed5_inv_def\<close>)
  have m: "m = median5 (r5_b r ! 0) (r5_b r ! 1) (r5_b r ! 2) (r5_b r ! 3) (r5_b r ! 4)"
    unfolding m_def rmed5_get_def r_def [symmetric]
    by (rule rmed5_last) (use assms(1) in \<open>auto simp: r_def\<close>)
  have nn: "\<forall>x \<in> set (r5_b r). \<not> isnan x" using assms(2) mset_eq_setD [OF ms] by simp
  have cnt: "length (filter P (r5_b r)) = length (filter P (drop (length xs - 5) xs))" for P
    using ms by (metis mset_filter size_mset)
  show "fle m h \<longleftrightarrow> 3 \<le> length (filter (\<lambda>x. fle x h) (drop (length xs - 5) xs))"
    unfolding m cnt [symmetric] using nn by (subst median5_majority(1)) (simp_all only: b5)
  show "fle h m \<longleftrightarrow> 3 \<le> length (filter (\<lambda>x. fle h x) (drop (length xs - 5) xs))"
    unfolding m cnt [symmetric] using nn by (subst median5_majority(2)) (simp_all only: b5)
qed

section \<open>The accumulators\<close>

definition trap_pre :: "fmt \<Rightarrow> trap \<Rightarrow> bool" where
  "trap_pre D t = (isfinite (tr_timeFactor t) \<and> 0 \<le> val (tr_timeFactor t) \<and> val (tr_timeFactor t) \<le> 1 \<and>
     fl_ok D (tr_value t) \<and> in_bound 126 (tr_lastX t) \<and> 0 \<le> val (tr_lastX t))"

lemma trap_area_nonneg:
  assumes "trap_pre D t" "in_bound 126 x" "0 \<le> val x"
  shows "fle (Fin 0) (trap_area t x dt)"
proof -
  have tf: "isfinite (tr_timeFactor t)" "0 \<le> val (tr_timeFactor t)" "val (tr_timeFactor t) \<le> 1"
    and l: "isfinite (tr_lastX t)" "\<bar>val (tr_lastX t)\<bar> \<le> pow2 126" "0 \<le> val (tr_lastX t)"
    and x: "isfinite x" "\<bar>val x\<bar> \<le> pow2 126" "0 \<le> val x"
    using assms by (auto simp: trap_pre_def in_bound_def)
  let ?s = "fadd (tr_lastX t) x" and ?d = "to_float (uint dt)"
  have "pow2 127 = pow2 126 + pow2 126" by (simp add: pow2_def)
  then have "\<bar>val (tr_lastX t) + val x\<bar> \<le> pow2 127" using l x by linarith
  note s = mk_finite_bound [where f = F32, OF this]
  have fs: "isfinite ?s" "\<bar>val ?s\<bar> \<le> pow2 127" "0 \<le> val ?s"
    using s l x by (auto simp: gadd_finite_eq intro: val_mk_nonneg)
  have "\<bar>val ?s * (1/2)\<bar> \<le> pow2 127" using fs by simp
  note h = mk_finite_bound [where f = F32, OF this]
  have fh: "isfinite (fmul ?s (Fin (1/2)))" "0 \<le> val (fmul ?s (Fin (1/2)))"
    using h fs by (auto simp: gmul_finite_eq intro: val_mk_nonneg)
  have "val ?d * val (tr_timeFactor t) \<le> pow2 64 * 1"
    using to_float_u64 [of dt] tf by (intro mult_mono) auto
  then have "\<bar>val ?d * val (tr_timeFactor t)\<bar> \<le> pow2 64" using to_float_u64 [of dt] tf by simp
  note m = mk_finite_bound [where f = F32, OF this]
  have fm: "isfinite (fmul ?d (tr_timeFactor t))" "0 \<le> val (fmul ?d (tr_timeFactor t))"
    using m to_float_u64 [of dt] tf by (auto simp: gmul_finite_eq intro: val_mk_nonneg)
  show ?thesis unfolding trap_area_def by (rule gmul_nonneg [OF fh(1) fm(1) fh(2) fm(2)])
qed

lemma trap_add_mono:
  assumes "trap_pre D t" "in_bound 126 x" "0 \<le> val x" "isfinite (tr_value t)"
  shows "fle (tr_value t) (tr_value (trap_add D x now t))" "trap_pre D (trap_add D x now t)"
proof -
  have ok: "fl_ok D (tr_value t)" using assms(1) by (simp add: trap_pre_def)
  show "fle (tr_value t) (tr_value (trap_add D x now t))"
    using gadd_nonneg_ge [OF assms(4) ok fle_cvt [OF trap_area_nonneg [OF assms(1-3)]]]
      fle_refl [OF isfinite_not_nan [OF assms(4)]]
    by (simp add: trap_add_def Let_def)
  show "trap_pre D (trap_add D x now t)" using assms by (simp add: trap_add_def trap_pre_def Let_def)
qed

lemma macc_add_num:
  "macc_add x m = Inr m' \<Longrightarrow> uint (ma_num m') = uint (ma_num m) + 1"
  by (auto simp: macc_add_def uint_word_ariths split: if_splits)

lemma macc_add_ok: "(\<exists>m'. macc_add x m = Inr m') \<longleftrightarrow> uint (ma_num m) < 65535"
  by (simp add: macc_add_def)

section \<open>Properties\<close>

text \<open>the exponential filters never amplify. For every span but 0 and every sequence of samples, NaN
  samples included, the single-pass filter and every n-pass filter after a reset output NaN or a value
  within the power-of-two bound of the samples, in rounded binary32 arithmetic.\<close>
theorem filters_never_amplify:
  assumes "1 \<le> uint sp" "1 \<le> n" "- 60 \<le> k" "k \<le> 126" "\<forall>x \<in> set xs. nan_or_bound k x"
  shows "nan_or_bound k (ewma_get (fold ewma_add xs (ewma_reset (ewma_new sp)))) \<and>
    nan_or_bound k (npass_get (fold npass_add xs (npass_reset (npass_new n sp)))) \<and>
    fold npass_add xs (npass_new n sp) = fold npass_add (filter (\<lambda>x. \<not> isnan x) xs) (npass_new n sp)"
proof -
  have a: "alpha_ok (ewma_alpha_of (to_float (uint sp)))" by (rule alpha_ok_of_span) (use assms uint_lt2p [of sp] in auto)
  show ?thesis
    using ewma_f.run_bounded [of "ewma_new sp" k xs] npass_f.run_bounded [of "npass_new n sp" k xs]
      npass_f.run_ignores_nan [of xs "npass_new n sp"] a assms
    by (simp add: ewma_new_def npass_new_def)
qed

lemma filters_never_amplify_witness:
  "nan_or_bound 6 (npass_get (fold npass_add [Fin 12, NaN, Fin 60] (npass_reset (npass_new 3 60))))"
proof -
  have "nan_or_bound 6 (Fin 12) \<and> nan_or_bound 6 NaN \<and> nan_or_bound 6 (Fin 60)" by code_simp
  then show ?thesis using filters_never_amplify [of 60 3 6 "[Fin 12, NaN, Fin 60]"] by simp
qed

text \<open>C36: once five samples have arrived the running median is the median of exactly the last five, whatever
  the ring position: its output is at most \<open>h\<close> iff at least three of them are, and at least \<open>h\<close> iff at least
  three of them are, so up to two outliers per window never pass.\<close>
theorem running_median5_window:
  assumes "5 \<le> length xs" "\<forall>x \<in> set (drop (length xs - 5) xs). \<not> isnan x"
  shows "let m = rmed5_get (fold rmed5_next xs rmed5_new); w = drop (length xs - 5) xs
    in (fle m h \<longleftrightarrow> 3 \<le> length (filter (\<lambda>x. fle x h) w)) \<and> (fle h m \<longleftrightarrow> 3 \<le> length (filter (\<lambda>x. fle h x) w))"
  using rmed5_output [OF assms] by (simp add: Let_def)

lemma running_median5_window_witness:
  "fle (rmed5_get (fold rmed5_next [Fin 9, Fin 10, Fin 99, Fin 11, Fin (- 50), Fin 12] rmed5_new)) (Fin 12)"
proof -
  let ?xs = "[Fin 9, Fin 10, Fin 99, Fin 11, Fin (- 50), Fin 12]"
  have "\<forall>x \<in> set (drop (length ?xs - 5) ?xs). \<not> isnan x" by simp
  from running_median5_window [OF _ this, of "Fin 12"] show ?thesis by (simp add: Let_def)
qed

text \<open>a freshly constructed two-pass filter does not start from its first sample. The initialiser
  \<open>y[passes] = {NaN}\<close> leaves every pass but the first at zero, so the first output is alpha times the sample
  and not the sample; after \<open>reset()\<close> the first output is the sample's first filter step, as intended.\<close>
theorem npass_fresh_starts_at_zero:
  assumes "1 \<le> uint sp" "isfinite x" "\<bar>val x\<bar> \<le> pow2 100" 
  shows "let y = ewma_step (ewma_alpha_of (to_float (uint sp))) x x; a = ewma_alpha_of (to_float (uint sp))
    in npass_get (npass_add x (npass_new 2 sp)) = ewma_step a (Fin 0) y \<and>
       npass_get (npass_add x (npass_reset (npass_new 2 sp))) = ewma_step a y y"
proof -
  have a: "alpha_ok (ewma_alpha_of (to_float (uint sp)))" by (rule alpha_ok_of_span) (use assms uint_lt2p [of sp] in auto)
  have x: "\<not> isnan x" by (rule isfinite_not_nan [OF assms(2)])
  have "isfinite (ewma_step (ewma_alpha_of (to_float (uint sp))) x x)"
    using ewma_step_bounded [OF a assms(2,2,3,3)] by simp
  then have "\<not> isnan (ewma_step (ewma_alpha_of (to_float (uint sp))) x x)" by (rule isfinite_not_nan)
  with x show ?thesis
    by (simp add: npass_get_def npass_add_def npass_new_def npass_reset_def Let_def numeral_2_eq_2)
qed

lemma npass_fresh_starts_at_zero_witness:
  "fle (npass_get (npass_add (Fin 50) (npass_new 2 99))) (Fin 2) \<and>
   fle (Fin 49) (npass_get (npass_add (Fin 50) (npass_reset (npass_new 2 99))))"
proof -
  have b: "1 \<le> uint (99 :: u32)" "isfinite (Fin 50)" "\<bar>val (Fin 50)\<bar> \<le> pow2 100" by (simp_all add: pow2_def)
  have "(let a = ewma_alpha_of (to_float (uint (99 :: u32))); y = ewma_step a (Fin 50) (Fin 50)
    in fle (ewma_step a (Fin 0) y) (Fin 2) \<and> fle (Fin 49) (ewma_step a y y))" by code_simp
  then show ?thesis using npass_fresh_starts_at_zero [OF b] by (simp only: Let_def)
qed

end
