(* ===== verification/Glide.thy ===== *)
theory Glide
  imports Floats
begin

text \<open>
  \<open>src/src/etc/linear_glide.h\<close>: \<open>LinearGlide\<close>, the time-bounded interpolation the charger
  uses when it falls back from the BMS voltage to the converter's own. Lemmas: the value
  starts at \<open>from\<close>, rises (falls) monotonically with time and is \<open>to\<close> once the duration is over.
\<close>

record glide =
  gl_dur :: u32
  gl_start :: u64    \<comment> \<open>0: inactive\<close>
  gl_from :: fl
  gl_to :: fl

definition glide_new :: "u32 \<Rightarrow> glide" where
  "glide_new dur = \<lparr>gl_dur = dur, gl_start = 0, gl_from = NaN, gl_to = NaN\<rparr>"

definition glide_start :: "fl \<Rightarrow> fl \<Rightarrow> u64 \<Rightarrow> glide \<Rightarrow> glide" where
  "glide_start from to now g = g\<lparr>gl_from := from, gl_to := to, gl_start := now\<rparr>"

definition glide_active :: "glide \<Rightarrow> bool" where
  "glide_active g = (gl_start g \<noteq> 0)"

definition glide_value :: "glide \<Rightarrow> u64 \<Rightarrow> fl" where
  "glide_value g now =
    (let dt = now - gl_start g
     in if uint (gl_dur g) \<le> uint dt then gl_to g
        else fadd (gl_from g) (fmul (fsub (gl_to g) (gl_from g))
               (fdiv (to_float (uint dt)) (to_float (uint (gl_dur g))))))"

definition glide_reset :: "glide \<Rightarrow> glide" where
  "glide_reset g = g\<lparr>gl_start := 0\<rparr>"

section \<open>The interpolation factor\<close>

definition glide_frac :: "int \<Rightarrow> int \<Rightarrow> fl" where
  "glide_frac dt dur = fdiv (to_float dt) (to_float dur)"

lemma to_float_small:
  assumes "0 \<le> n" "n < 2 ^ 33"
  shows "isfinite (to_float n)" "0 \<le> val (to_float n)" "0 < n \<Longrightarrow> 1 \<le> val (to_float n)"
proof -
  have "rat_of_int n \<le> of_int (2 ^ 33)" using assms by (simp only: of_int_le_iff) 
  then have b: "\<bar>rat_of_int n\<bar> \<le> pow2 33" using assms by (simp add: pow2_def)
  show fin: "isfinite (to_float n)" unfolding to_float_def
    by (rule mk_finite_bound(1) [OF b]) simp_all
  show "0 \<le> val (to_float n)" unfolding to_float_def by (rule val_mk_nonneg) (use assms in simp)
  assume "0 < n"
  then have "1 \<le> rat_of_int n" by simp
  then have "1 \<le> rnd F32 (of_int n)" by (rule rnd_ge_repr) (use rnd_of_int [of 1 F32] in simp)
  then show "1 \<le> val (to_float n)" using fin by (simp add: to_float_def val_mk)
qed

lemma glide_frac_bounds:
  assumes "0 \<le> dt" "dt < dur" "dur < 2 ^ 33"
  shows "isfinite (glide_frac dt dur)" "0 \<le> val (glide_frac dt dur)" "val (glide_frac dt dur) \<le> 1"
proof -
  have d: "isfinite (to_float dur)" "1 \<le> val (to_float dur)"
    using to_float_small [of dur] assms by auto
  have n: "isfinite (to_float dt)" "0 \<le> val (to_float dt)" using to_float_small [of dt] assms by auto
  have le: "val (to_float dt) \<le> val (to_float dur)"
    using to_float_mono [of dt dur] assms d n by simp
  have q: "0 \<le> val (to_float dt) / val (to_float dur)" "val (to_float dt) / val (to_float dur) \<le> 1"
    using d n le by (auto simp: divide_le_eq)
  have r1: "rnd F32 1 = 1" using rnd_of_int [of 1 F32] by simp
  have eq: "glide_frac dt dur =
      mk F32 (signbit (to_float dt) \<noteq> signbit (to_float dur)) (val (to_float dt) / val (to_float dur))"
    unfolding glide_frac_def by (rule gdiv_finite_eq) (use d n in auto)
  have lim: "- pow2 (emax F32) < 0" "1 < pow2 (emax F32)" by (simp_all add: pow2_def)
  show "isfinite (glide_frac dt dur)" "0 \<le> val (glide_frac dt dur)" "val (glide_frac dt dur) \<le> 1"
    unfolding eq by (rule mk_between [OF rnd_0 r1 q lim])+
qed

lemma glide_frac_mono:
  assumes "0 \<le> a" "a \<le> b" "b < dur" "dur < 2 ^ 33"
  shows "val (glide_frac a dur) \<le> val (glide_frac b dur)"
proof -
  have d: "isfinite (to_float dur)" "1 \<le> val (to_float dur)"
    using to_float_small [of dur] assms by auto
  have n: "isfinite (to_float a)" "isfinite (to_float b)" using to_float_small(1) assms by auto
  then have "val (to_float a) \<le> val (to_float b)" using to_float_mono [OF assms(2)] by simp
  then have "val (to_float a) / val (to_float dur) \<le> val (to_float b) / val (to_float dur)"
    using d by (simp add: divide_right_mono)
  then have "fle (glide_frac a dur) (glide_frac b dur)"
    using d n by (simp add: glide_frac_def gdiv_finite_eq mk_mono)
  then show ?thesis using glide_frac_bounds [of a dur] glide_frac_bounds [of b dur] assms by simp
qed

section \<open>Monotone interpolation\<close>

definition glide_point :: "fl \<Rightarrow> fl \<Rightarrow> fl \<Rightarrow> fl" where
  "glide_point from to r = fadd from (fmul (fsub to from) r)"

lemma glide_diff:
  assumes "isfinite x" "isfinite y" "\<bar>val x\<bar> \<le> pow2 120" "\<bar>val y\<bar> \<le> pow2 120"
  shows "isfinite (fsub y x)" "\<bar>val (fsub y x)\<bar> \<le> pow2 121"
    "val x \<le> val y \<Longrightarrow> 0 \<le> val (fsub y x)" 
proof -
  have "pow2 121 = pow2 120 + pow2 120" by (simp add: pow2_def)
  then have "\<bar>val y - val x\<bar> \<le> pow2 121" using assms by linarith
  note b = mk_finite_bound [where f = F32, OF this]
  show "isfinite (fsub y x)" "\<bar>val (fsub y x)\<bar> \<le> pow2 121"
    using b assms by (simp_all add: gsub_finite_eq)
  show "val x \<le> val y \<Longrightarrow> 0 \<le> val (fsub y x)" using assms by (simp add: gsub_finite_eq val_mk_nonneg)
qed

lemma glide_prod:
  assumes "isfinite d" "\<bar>val d\<bar> \<le> pow2 121" "isfinite r" "0 \<le> val r" "val r \<le> 1"
  shows "isfinite (fmul d r)"
proof -
  have "\<bar>val d * val r\<bar> \<le> pow2 121 * 1" unfolding abs_mult using assms by (intro mult_mono) auto
  then have "\<bar>val d * val r\<bar> \<le> pow2 121" by simp
  from mk_finite_bound(1) [where f = F32, OF this] show ?thesis using assms by (simp add: gmul_finite_eq)
qed

lemma glide_point_mono:
  assumes xy: "isfinite x" "isfinite y" "\<bar>val x\<bar> \<le> pow2 120" "\<bar>val y\<bar> \<le> pow2 120" "fl_ok F32 x"
    and up: "val x \<le> val y"
    and r: "isfinite r" "0 \<le> val r" "val r \<le> 1" and s: "isfinite s" "val s \<le> 1" and rs: "val r \<le> val s"
  shows "fle x (glide_point x y r)" "fle (glide_point x y r) (glide_point x y s)"
proof -
  note d = glide_diff [OF xy(1,2,3,4)]
  note d0 = d(3) [OF up]
  have p: "isfinite (fmul (fsub y x) r)" by (rule glide_prod [OF d(1,2) r])
  have q: "isfinite (fmul (fsub y x) s)" by (rule glide_prod [OF d(1,2) s(1)]) (use s rs r in auto)
  have nn: "\<not> isnan (fadd x z)" if "isfinite z" for z
    using that xy(1) by (simp add: gadd_finite_eq)
  show "fle x (glide_point x y r)" unfolding glide_point_def
    by (rule gadd_nonneg_ge [OF xy(1,5) gmul_nonneg [OF d(1) r(1) d0 r(2)]])
  show "fle (glide_point x y r) (glide_point x y s)" unfolding glide_point_def
    by (rule gadd_mono [OF fle_refl [OF isfinite_not_nan [OF xy(1)]]
          gmul_mono_nonneg [OF d(1) d0 r(1) s(1) rs] nn [OF p] nn [OF q]])
qed

lemma glide_value_point:
  "uint (now - gl_start g) < uint (gl_dur g) \<Longrightarrow>
   glide_value g now = glide_point (gl_from g) (gl_to g) (glide_frac (uint (now - gl_start g)) (uint (gl_dur g)))"
  by (simp add: glide_value_def glide_point_def glide_frac_def Let_def)

lemma uint_u32_bound: "uint (w :: u32) < 2 ^ 33"
  using uint_lt2p [of w] by simp

lemma glide_rises:
  assumes "isfinite (gl_from g)" "isfinite (gl_to g)" "fl_ok F32 (gl_from g)"
    "\<bar>val (gl_from g)\<bar> \<le> pow2 120" "\<bar>val (gl_to g)\<bar> \<le> pow2 120" "val (gl_from g) \<le> val (gl_to g)"
    "uint (n1 - gl_start g) \<le> uint (n2 - gl_start g)" "uint (n2 - gl_start g) < uint (gl_dur g)"
  shows "fle (gl_from g) (glide_value g n1) \<and> fle (glide_value g n1) (glide_value g n2)"
proof -
  let ?r = "glide_frac (uint (n1 - gl_start g)) (uint (gl_dur g))"
  let ?s = "glide_frac (uint (n2 - gl_start g)) (uint (gl_dur g))"
  have lt: "uint (n1 - gl_start g) < uint (gl_dur g)" using assms(7,8) by linarith
  note r = glide_frac_bounds [OF uint_ge_0 lt uint_u32_bound]
  note s = glide_frac_bounds [OF uint_ge_0 assms(8) uint_u32_bound]
  have rs: "val ?r \<le> val ?s" by (rule glide_frac_mono [OF uint_ge_0 assms(7,8) uint_u32_bound])
  show ?thesis unfolding glide_value_point [OF lt] glide_value_point [OF assms(8)]
    using glide_point_mono [OF assms(1,2,4,5,3,6) r s(1,3) rs] by blast
qed

section \<open>Properties\<close>

text \<open>an upward glide never undershoots its start and never moves backwards while it runs,
  for every pair of instants inside the duration, including those reached by wrap-around of the clock;
  and from the end of the duration on the value is exactly the target.\<close>
theorem glide_monotone:
  assumes "g = glide_start a b t0 (glide_new dur)"
    "isfinite a" "isfinite b" "fl_ok F32 a" "\<bar>val a\<bar> \<le> pow2 120" "\<bar>val b\<bar> \<le> pow2 120" "val a \<le> val b"
  shows "(uint (n1 - t0) \<le> uint (n2 - t0) \<longrightarrow> uint (n2 - t0) < uint dur \<longrightarrow>
            fle a (glide_value g n1) \<and> fle (glide_value g n1) (glide_value g n2)) \<and>
         (uint dur \<le> uint (n1 - t0) \<longrightarrow> glide_value g n1 = b)"
  using glide_rises [of g n1 n2] assms
  by (simp add: glide_start_def glide_new_def) (simp add: glide_value_def)

lemma glide_monotone_witness:
  "(let g = glide_start (Fin 24) (Fin 28) 1000 (glide_new 5000000)
    in fle (Fin 24) (glide_value g 2001000) \<and> fle (glide_value g 2001000) (glide_value g 3001000) \<and>
       glide_value g 5001000 = Fin 28)"
proof -
  have "fl_ok F32 (Fin 24)" using rnd_of_int [of 24 F32] by (simp add: fl_ok_def pow2_def)
  moreover have "\<bar>24 :: rat\<bar> \<le> pow2 120" "\<bar>28 :: rat\<bar> \<le> pow2 120" by (simp_all add: pow2_def)
  ultimately show ?thesis
    using glide_monotone [OF refl, of "Fin 24" "Fin 28" "2001000" 1000 "3001000" 5000000]
      glide_monotone [OF refl, of "Fin 24" "Fin 28" "5001000" 1000 "5001000" 5000000]
    by (simp add: Let_def)
qed

end
