(* ===== verification/Coulomb.thy ===== *)
theory Coulomb
  imports StatMath
begin

text \<open>
  \<open>src/src/etc/coulomb_counter.h\<close>: \<open>CoulombCounter\<close>, the depth-of-discharge counter. The
  producer (BMS task) integrates the negated battery current, the consumer (loop task)
  reads the published value and asks for a reset. The two threads interleave at whole
  atomic operations; a run is a list of \<open>cc_op\<close>.
\<close>

record coulomb =
  cc_int :: trap
  cc_ah :: fl
  cc_reset :: bool

definition cc_new :: coulomb where
  "cc_new = \<lparr>cc_int = trap_new (fdiv (Fin 1) (f32 3600000000)) 30000000, cc_ah = Fin 0, cc_reset = False\<rparr>"

definition cc_update :: "fl \<Rightarrow> u64 \<Rightarrow> coulomb \<Rightarrow> coulomb" where
  \<comment> \<open>\<open>updateBatCurrent\<close>, producer\<close>
  "cc_update ibat now c =
    (let i = (if cc_reset c then trap_reset (cc_int c) else cc_int c);
         i' = trap_add F64 (fneg ibat) now i
     in \<lparr>cc_int = i', cc_ah = cvt F32 (tr_value i'), cc_reset = False\<rparr>)"

definition cc_ahSinceFull :: "coulomb \<Rightarrow> fl" where
  "cc_ahSinceFull c = (if cc_reset c then Fin 0 else cc_ah c)"

definition cc_markFull :: "coulomb \<Rightarrow> coulomb" where
  "cc_markFull c = c\<lparr>cc_reset := True\<rparr>"

datatype cc_op = Update fl u64 | MarkFull

fun cc_step :: "cc_op \<Rightarrow> coulomb \<Rightarrow> coulomb" where
  "cc_step (Update i t) c = cc_update i t c"
| "cc_step MarkFull c = cc_markFull c"

section \<open>Invariant\<close>

definition discharge :: "cc_op \<Rightarrow> bool" where
  "discharge op = (case op of Update i t \<Rightarrow> in_bound 126 i \<and> val i \<le> 0 | MarkFull \<Rightarrow> True)"

definition cc_inv :: "coulomb \<Rightarrow> bool" where
  "cc_inv c = (trap_pre F64 (cc_int c) \<and> fle (Fin 0) (tr_value (cc_int c)) \<and>
     fle (Fin 0) (cc_ah c) \<and> cc_ah c = cvt F32 (tr_value (cc_int c)))"

lemma cc_inv_new: "cc_inv cc_new"
proof -
  have "isfinite (fdiv (Fin 1) (f32 3600000000)) \<and> 0 \<le> val (fdiv (Fin 1) (f32 3600000000)) \<and>
      val (fdiv (Fin 1) (f32 3600000000)) \<le> 1" by code_simp
  then show ?thesis by (simp add: cc_inv_def cc_new_def trap_pre_def trap_new_def in_bound_def cvt_def)
qed

lemma trap_pre_reset: "trap_pre D t \<Longrightarrow> trap_pre D (trap_reset t)"
  by (simp add: trap_pre_def trap_reset_def in_bound_def)

lemma fle_cvt_mono: "fle x y \<Longrightarrow> fle (cvt f x) (cvt f y)"
proof -
  assume xy: "fle x y"
  have fz: "isfinite z \<Longrightarrow> cvt f z = (if z = NZero then NZero else mk f False (val z))" for z
    by (cases z) (auto simp: cvt_def)
  show ?thesis
  proof (cases "isfinite x \<and> isfinite y")
    case True
    then have le: "val x \<le> val y" using xy by simp
    from True have "fle (mk f (x = NZero) (val x)) (mk f (y = NZero) (val y))" using mk_mono [OF le] by blast
    moreover have "isfinite z \<Longrightarrow> cvt f z = mk f (z = NZero) (val z)" for z
      by (cases z) (auto simp: cvt_def)
    ultimately show ?thesis using True by simp
  next
    case False
    then show ?thesis using xy
      by (cases x; cases y) (auto simp: cvt_def fle_Inf_iff)
  qed
qed

lemma trap_add_ge:
  assumes "trap_pre D t" "in_bound 126 x" "0 \<le> val x" "fle (Fin 0) (tr_value t)"
  shows "fle (tr_value t) (tr_value (trap_add D x now t))" "trap_pre D (trap_add D x now t)"
proof -
  show "trap_pre D (trap_add D x now t)"
    using assms(1-3) by (simp add: trap_add_def trap_pre_def Let_def)
  show "fle (tr_value t) (tr_value (trap_add D x now t))"
  proof (cases "isfinite (tr_value t)")
    case True
    then show ?thesis by (rule trap_add_mono(1) [OF assms(1-3)])
  next
    case False
    then have v: "tr_value t = Inf False" using assms(4) by (cases "tr_value t") (auto simp: fle_Inf_iff)
    have "fle (Fin 0) (cvt D (trap_area t x (now - tr_lastTime t)))"
      by (rule fle_cvt [OF trap_area_nonneg [OF assms(1-3)]])
    then show ?thesis unfolding v trap_add_def Let_def
      by (cases "cvt D (trap_area t x (now - tr_lastTime t))") (auto simp: gadd_def v fle_refl fle_Inf_iff)
  qed
qed

lemma cc_update_inv:
  assumes "cc_inv c" "in_bound 126 i" "val i \<le> 0"
  shows "cc_inv (cc_update i now c)"
    and "\<not> cc_reset c \<Longrightarrow> fle (cc_ah c) (cc_ah (cc_update i now c))"
proof -
  define t where "t = (if cc_reset c then trap_reset (cc_int c) else cc_int c)"
  have t: "trap_pre F64 t" "fle (Fin 0) (tr_value t)"
    using assms(1) trap_pre_reset by (auto simp: t_def cc_inv_def trap_reset_def)
  have x: "in_bound 126 (fneg i)" "0 \<le> val (fneg i)" using assms(2,3) by (auto simp: in_bound_def)
  note a = trap_add_ge [OF t(1) x t(2), of now]
  have c': "cc_update i now c = \<lparr>cc_int = trap_add F64 (fneg i) now t,
      cc_ah = cvt F32 (tr_value (trap_add F64 (fneg i) now t)), cc_reset = False\<rparr>"
    by (simp add: cc_update_def t_def Let_def)
  show "cc_inv (cc_update i now c)" unfolding c' cc_inv_def
    using a fle_trans [OF t(2) a(1)] by (simp add: fle_cvt)
  show "\<not> cc_reset c \<Longrightarrow> fle (cc_ah c) (cc_ah (cc_update i now c))" unfolding c'
    using assms(1) fle_cvt_mono [OF a(1), of F32] by (simp add: cc_inv_def t_def)
qed

lemma cc_step_inv: "cc_inv c \<Longrightarrow> discharge op \<Longrightarrow> cc_inv (cc_step op c)"
  by (cases op) (auto simp: discharge_def cc_update_inv cc_markFull_def cc_inv_def [of "cc_markFull c"] cc_inv_def [of "c\<lparr>cc_reset := True\<rparr>"] cc_inv_def [of c])

lemma cc_run_inv: "cc_inv c \<Longrightarrow> \<forall>op \<in> set ops. discharge op \<Longrightarrow> cc_inv (fold cc_step ops c)"
  by (induction ops arbitrary: c) (auto intro: cc_step_inv)

lemma cc_inv_reading: "cc_inv c \<Longrightarrow> fle (Fin 0) (cc_ahSinceFull c)"
  by (auto simp: cc_inv_def cc_ahSinceFull_def fle_refl)

lemma cc_run_maxDt: "tr_maxDt (cc_int c) = d \<Longrightarrow> tr_maxDt (cc_int (fold cc_step ops c)) = d"
proof (induction ops arbitrary: c)
  case (Cons op ops)
  have "tr_maxDt (cc_int (cc_step op c)) = d"
    using Cons.prems by (cases op) (simp_all add: cc_update_def cc_markFull_def trap_add_def trap_reset_def Let_def)
  then show ?case by (simp add: Cons.IH)
qed simp

section \<open>Properties\<close>

text \<open>while the battery only discharges, the published depth of discharge is never negative and
  never falls from one update to the next unless the consumer has asked for a reset, under every
  interleaving of updates and reset requests.\<close>
theorem coulomb_discharge_monotone:
  assumes "\<forall>op \<in> set ops. discharge op" "in_bound 126 i" "val i \<le> 0"
  shows "(let c = fold cc_step ops cc_new; c' = cc_update i now c
          in fle (Fin 0) (cc_ahSinceFull c) \<and>
             (cc_reset c \<or> fle (cc_ahSinceFull c) (cc_ahSinceFull c')))"
proof -
  have inv: "cc_inv (fold cc_step ops cc_new)" by (rule cc_run_inv [OF cc_inv_new assms(1)])
  then show ?thesis using cc_update_inv(2) [OF inv assms(2,3), of now] cc_inv_reading [OF inv]
    by (simp add: Let_def cc_ahSinceFull_def cc_update_def)
qed

lemma coulomb_discharge_monotone_witness:
  "(let c = fold cc_step [Update (Fin (- 10)) 50000000, MarkFull, Update (Fin (- 10)) 51000000] cc_new;
        c' = cc_update (Fin (- 12)) 52000000 c
    in fle (Fin 0) (cc_ahSinceFull c) \<and> (cc_reset c \<or> fle (cc_ahSinceFull c) (cc_ahSinceFull c')))"
  by (rule coulomb_discharge_monotone) (auto simp: discharge_def in_bound_def pow2_def)

text \<open>After every sequence of updates and reset requests, a full battery reads zero from the moment
  the consumer marks it, and the producer's next update starts a new integration at exactly zero,
  whatever the current (even NaN), once the clock has passed the 30 s drop-out limit: the charge
  counted before never comes back.\<close>
theorem coulomb_mark_full:
  assumes "30000000 \<le> uint now"
  shows "(let c = cc_markFull (fold cc_step ops cc_new)
          in cc_ahSinceFull c = Fin 0 \<and> cc_ahSinceFull (cc_update i now c) = Fin 0)"
proof -
  have "\<not> now < (30000000 :: u64)" using assms by (simp add: word_less_def)
  moreover have "tr_maxDt (cc_int (fold cc_step ops cc_new)) = 30000000"
    by (rule cc_run_maxDt) (simp add: cc_new_def trap_new_def)
  ultimately show ?thesis
    by (simp add: cc_ahSinceFull_def cc_markFull_def cc_update_def trap_add_def trap_reset_def cvt_def Let_def)
qed

lemma coulomb_mark_full_witness:
  "(let c = cc_markFull (fold cc_step [Update (Fin (- 10)) 50000000, Update (Fin (- 10)) 51000000] cc_new)
    in cc_ahSinceFull c = Fin 0 \<and> cc_ahSinceFull (cc_update (Fin (- 10)) 52000000 c) = Fin 0)"
  by (rule coulomb_mark_full) simp

end
