(* ===== verification/PdControl.thy ===== *)
theory PdControl
  imports StatMath
begin

text \<open>
  \<open>src/src/pd_control.h\<close>: the PD controllers of the charger's voltage, current and power loops.
\<close>

record pd =
  pd_Kp :: fl
  pd_Kd :: fl
  pd_normalize :: bool
  pd_prevE :: fl

definition pd_new :: "fl \<Rightarrow> fl \<Rightarrow> bool \<Rightarrow> pd" where
  "pd_new Kp Kd n = \<lparr>pd_Kp = Kp, pd_Kd = Kd, pd_normalize = n, pd_prevE = NaN\<rparr>"

definition pd_reset :: "pd \<Rightarrow> pd" where
  "pd_reset p = p\<lparr>pd_prevE := NaN\<rparr>"

definition pd_error :: "bool \<Rightarrow> fl \<Rightarrow> fl \<Rightarrow> fl" where
  "pd_error nrm measurement setpoint =
    (if nrm then fsub (Fin 1) (fdiv measurement setpoint) else fsub setpoint measurement)"

definition pd_update :: "fl \<Rightarrow> fl \<Rightarrow> pd \<Rightarrow> fl \<times> pd" where
  "pd_update measurement setpoint p =
    (let e = pd_error (pd_normalize p) measurement setpoint;
         de0 = fsub e (pd_prevE p);
         de = (if isnan de0 then Fin 0 else de0)
     in (fadd (fmul (pd_Kp p) e) (fmul (pd_Kd p) de), p\<lparr>pd_prevE := e\<rparr>))"

record pds =
  pds_pd :: pd
  pds_ewma :: ewma

definition pds_new :: "fl \<Rightarrow> fl \<Rightarrow> u32 \<Rightarrow> pds" where
  "pds_new Kp Kd smoothSpan = \<lparr>pds_pd = pd_new Kp Kd True, pds_ewma = ewma_new smoothSpan\<rparr>"

definition pds_update :: "fl \<Rightarrow> fl \<Rightarrow> pds \<Rightarrow> fl \<times> pds" where
  "pds_update actual target p =
    (let w = ewma_add target (pds_ewma p);
         (u, c) = pd_update actual (ewma_get w) (pds_pd p)
     in (u, p\<lparr>pds_pd := c, pds_ewma := w\<rparr>))"

section \<open>Lemmas\<close>

lemma gdiv_gt_one:
  assumes "isfinite m" "isfinite s" "0 < val s" "val s \<le> val m"
  shows "fle (Fin 1) (fdiv m s)"
proof -
  have "(1 :: rat) \<le> val m / val s" using assms by (simp add: le_divide_eq)
  then have "fle (mk F32 False 1) (mk F32 (signbit m \<noteq> signbit s) (val m / val s))" by (rule mk_mono)
  moreover have "mk F32 False 1 = Fin 1" by code_simp
  ultimately show ?thesis using assms by (simp add: gdiv_finite_eq)
qed

lemma gdiv_le_one:
  assumes "isfinite m" "isfinite s" "0 < val s" "val m \<le> val s"
  shows "fle (fdiv m s) (Fin 1)"
proof -
  have "val m / val s \<le> (1 :: rat)" using assms by (simp add: divide_le_eq)
  then have "fle (mk F32 (signbit m \<noteq> signbit s) (val m / val s)) (mk F32 False 1)" by (rule mk_mono)
  moreover have "mk F32 False 1 = Fin 1" by code_simp
  ultimately show ?thesis using assms by (simp add: gdiv_finite_eq)
qed

lemma gsub_one_not_nan: "\<not> isnan q \<Longrightarrow> \<not> isnan (fsub (Fin 1) q)"
  by (cases q) (auto simp: gsub_def gadd_def)

text \<open>The relative error never has the wrong sign: above the set-point it is at most zero.\<close>

lemma pd_error_above:
  assumes "isfinite m" "isfinite s" "0 < val s" "val s \<le> val m"
  shows "fle (pd_error True m s) (Fin 0)"
  using gsub_sign(2) [OF gdiv_gt_one [OF assms]] gsub_one_not_nan [of "fdiv m s"]
    gdiv_gt_one [OF assms] by (auto simp: pd_error_def dest: fle_not_nan)

lemma pd_error_below:
  assumes "isfinite m" "isfinite s" "0 < val s" "val m \<le> val s"
  shows "fle (Fin 0) (pd_error True m s)"
  using gsub_sign(1) [OF gdiv_le_one [OF assms]] gsub_one_not_nan [of "fdiv m s"]
    gdiv_le_one [OF assms] by (auto simp: pd_error_def dest: fle_not_nan)

lemma pd_error_above':
  assumes "isfinite m" "isfinite s" "val s \<le> val m"
  shows "\<not> isnan (fsub s m)" "fle (pd_error False m s) (Fin 0)"
proof -
  show n: "\<not> isnan (fsub s m)" using assms by (simp add: gsub_finite_eq)
  show "fle (pd_error False m s) (Fin 0)"
    using gsub_sign(2) [of s m F32] n assms by (simp add: pd_error_def)
qed

lemma pd_first:
  "pd_update m s (pd_reset p) =
     (fadd (fmul (pd_Kp p) (pd_error (pd_normalize p) m s)) (fmul (pd_Kd p) (Fin 0)),
      p\<lparr>pd_prevE := pd_error (pd_normalize p) m s\<rparr>)"
  by (simp add: pd_update_def pd_reset_def Let_def)

lemma pd_steady_derivative:
  "isfinite (pd_error (pd_normalize p) m s) \<Longrightarrow> pd_prevE p = pd_error (pd_normalize p) m s \<Longrightarrow>
   fst (pd_update m s p) = fadd (fmul (pd_Kp p) (pd_error (pd_normalize p) m s)) (fmul (pd_Kd p) (Fin 0))"
proof -
  assume f: "isfinite (pd_error (pd_normalize p) m s)" and e: "pd_prevE p = pd_error (pd_normalize p) m s"
  let ?e = "pd_error (pd_normalize p) m s"
  have "fsub ?e ?e = Fin 0" using f by (cases ?e) (auto simp: gsub_def gadd_def)
  then show ?thesis using e by (simp add: pd_update_def Let_def)
qed

lemma gmul_nonneg_nonpos:
  assumes "isfinite k" "0 \<le> val k" "fle e (Fin 0)" "\<not> isnan (gmul f k e)"
  shows "fle (gmul f k e) (Fin 0)"
proof (cases "isfinite e")
  case True
  then have "val k * val e \<le> 0" using assms by (intro mult_nonneg_nonpos) auto
  then have "fle (mk f (signbit k \<noteq> signbit e) (val k * val e)) (mk f False 0)" by (rule mk_mono)
  then show ?thesis using True assms by (simp add: gmul_finite_eq)
next
  case False
  then have "e = Inf True" using assms(3) by (cases e) (auto simp: fle_Inf_iff split: if_splits)
  moreover have "val k \<noteq> 0 \<Longrightarrow> \<not> signbit k" using assms(1,2) by (cases k) auto
  ultimately show ?thesis using assms by (auto simp: gmul_def iszero_def isfinite_not_nan fle_Inf_iff)
qed

section \<open>Properties\<close>

text \<open>Right after a reset (and after any NaN error) the controller acts on the proportional term
  alone, its output is then never positive while the measurement is at or above a positive set-point
  in the normalised mode, and one more update with the same reading repeats that output.\<close>
theorem pd_reset_output:
  assumes "isfinite m" "isfinite s" "0 < val s" "val s \<le> val m" "isfinite (fdiv m s)"
    and "isfinite Kp" "isfinite Kd" "0 \<le> val Kp" "\<bar>val Kp\<bar> * \<bar>val (pd_error True m s)\<bar> \<le> pow2 126"
  shows "(let p = pd_reset (pd_new Kp Kd True); (u, p') = pd_update m s p
          in fle u (Fin 0) \<and> fst (pd_update m s p') = u)"
proof -
  let ?e = "pd_error True m s"
  have e: "fle ?e (Fin 0)" by (rule pd_error_above [OF assms(1-4)])
  have le1: "fle (Fin 1) (fdiv m s)" by (rule gdiv_gt_one [OF assms(1-4)])
  show ?thesis
  proof (cases "isfinite ?e")
    case True
    have "\<bar>val Kp * val ?e\<bar> \<le> pow2 126" using assms(9) by (simp add: abs_mult)
    from mk_finite_bound(1) [where f = F32, OF this]
    have pf: "isfinite (fmul Kp ?e)" using True assms by (simp add: gmul_finite_eq)
    then have p0: "fle (fmul Kp ?e) (Fin 0)"
      using gmul_nonneg_nonpos [OF assms(6,8) e] isfinite_not_nan by blast
    have d: "fmul Kd (Fin 0) = Fin 0 \<or> fmul Kd (Fin 0) = NZero"
      using assms(7) by (auto simp: gmul_finite_eq mk_def)
    have "val (fmul Kd (Fin 0)) = 0 \<and> isfinite (fmul Kd (Fin 0))" using d by auto
    then have "fle (fadd (fmul Kp ?e) (fmul Kd (Fin 0))) (mk F32 False 0)"
      using pf p0 by (simp only: gadd_finite_eq, intro mk_mono) simp
    then show ?thesis
      using pd_steady_derivative [of "(pd_new Kp Kd True)\<lparr>pd_prevE := ?e\<rparr>" m s] True
      by (simp add: pd_first Let_def pd_new_def)
  next
    case False
    then have "\<not> isfinite (fsub (Fin 1) (fdiv m s))" by (simp add: pd_error_def)
    moreover have "isfinite (fsub (Fin 1) (fdiv m s))"
    proof -
      have ok: "fl_ok F32 (fdiv m s)" by simp
      have "rnd F32 (val (fdiv m s)) = val (fdiv m s)" by (rule fl_ok_rnd [OF assms(5) ok])
      moreover have "\<bar>val (fdiv m s)\<bar> < pow2 128" using fl_ok_bound [OF assms(5) ok] by simp
      moreover have "1 \<le> val (fdiv m s)" using le1 assms(5) by simp
      ultimately have lo: "rnd F32 (- val (fdiv m s)) = - val (fdiv m s)" "- pow2 128 < - val (fdiv m s)"
          "- val (fdiv m s) \<le> 1 - val (fdiv m s)" "1 - val (fdiv m s) \<le> 0"
        by (simp_all add: rnd_minus)
      show ?thesis using mk_between(1) [of F32 "- val (fdiv m s)" 0, OF lo(1) rnd_0 lo(3,4)] lo(2) assms(5)
        by (simp add: gsub_finite_eq)
    qed
    ultimately show ?thesis by simp
  qed
qed

lemma pd_reset_output_witness:
  "(let p = pd_reset (pd_new (Fin 20) (Fin 5) True); (u, p') = pd_update (Fin 30) (Fin 20) p
    in fle u (Fin 0) \<and> fst (pd_update (Fin 30) (Fin 20) p') = u)"
proof -
  have "isfinite (fdiv (Fin 30) (Fin 20))" by code_simp
  moreover have "\<bar>val (Fin 20)\<bar> * \<bar>val (pd_error True (Fin 30) (Fin 20))\<bar> \<le> pow2 126" by code_simp
  ultimately show ?thesis by (intro pd_reset_output) simp_all
qed

end
