(* ===== verification/TrackerM.thy ===== *)
theory TrackerM
  imports StatMath
begin

text \<open>
  \<open>src/src/tracker.h\<close>: the perturb-and-observe tracker. \<open>trk_update\<close> is \<open>Tracker::update\<close>:
  \<open>trk_tick\<close> is the branch taken when a measurement period is over, \<open>trk_mode\<close> the slow mode
  decision that follows on every call. The wall clock is an argument.
\<close>

record mpp =
  mp_power :: fl
  mp_timestamp :: u64
  mp_dutyCycle :: u16
  mp_vin :: fl

definition mpp_new :: mpp where
  "mpp_new = \<lparr>mp_power = Fin 0, mp_timestamp = 0, mp_dutyCycle = 0, mp_vin = Fin 0\<rparr>"

record tracker =
  tk_minPowerStep :: fl
  tk_minPowerStepRel :: fl
  tk_frequency :: fl
  tk_direction :: bool
  tk_time :: u64
  tk_timeLastReverse :: u64
  tk_curPower :: fl
  tk_lastPower :: fl
  tk_lastVin :: fl
  tk_powerBuf :: macc
  tk_vinBuf :: macc
  tk_mpp :: mpp
  tk_dP :: fl
  tk_slowMode :: bool

definition trk_new :: tracker where
  "trk_new = \<lparr>tk_minPowerStep = Fin 1, tk_minPowerStepRel = Fin 1, tk_frequency = Fin 20,
     tk_direction = False, tk_time = 0, tk_timeLastReverse = 0, tk_curPower = Fin 0,
     tk_lastPower = Fin 0, tk_lastVin = Fin 0, tk_powerBuf = macc_clear, tk_vinBuf = macc_clear,
     tk_mpp = mpp_new, tk_dP = NaN, tk_slowMode = False\<rparr>"

definition trk_resetDirection :: "u64 \<Rightarrow> bool \<Rightarrow> tracker \<Rightarrow> tracker" where
  "trk_resetDirection now dir t = t\<lparr>tk_direction := dir, tk_time := now\<rparr>"

definition mpp_forget :: "mpp \<Rightarrow> mpp" where
  "mpp_forget m = m\<lparr>mp_power := Fin 0, mp_vin := Fin 0\<rparr>"

definition trk_resetTracker :: "u64 \<Rightarrow> fl \<Rightarrow> bool \<Rightarrow> tracker \<Rightarrow> tracker" where
  "trk_resetTracker now pw dir t =
    (trk_resetDirection now dir t)\<lparr>tk_lastPower := pw, tk_mpp := mpp_forget (tk_mpp t)\<rparr>"

definition trk_due :: "u64 \<Rightarrow> tracker \<Rightarrow> bool" where
  "trk_due now t =
    fgt (to_float (uint (now - tk_time t))) (fdiv (Fin 1000) (tk_frequency t))"

definition trk_stepped :: "fl \<Rightarrow> tracker \<Rightarrow> bool" where
  \<comment> \<open>the power changed by more than the absolute or the relative step\<close>
  "trk_stepped dP t =
    (fge (fabs dP) (tk_minPowerStep t) \<or>
     (fgt (fabs (tk_lastPower t)) (fmul (tk_minPowerStep t) (Fin 1)) \<and>
      fgt (fdiv (fabs dP) (fadd (fabs (tk_lastPower t)) (Fin 5))) (tk_minPowerStepRel t)))"

definition trk_vin_moved :: "fl \<Rightarrow> tracker \<Rightarrow> bool" where
  "trk_vin_moved vin t =
    fgt (fdiv (fabs (fsub vin (tk_lastVin t))) (fadd (tk_lastVin t) (f32 (1 / 10)))) (f32 (1 / 20))"

definition trk_observe :: "u64 \<Rightarrow> fl \<Rightarrow> fl \<Rightarrow> tracker \<Rightarrow> tracker" where
  \<comment> \<open>direction and reference power, from the mean power and voltage of the period\<close>
  "trk_observe now pw vin t =
    (let dP = fsub pw (tk_lastPower t);
         t1 = t\<lparr>tk_curPower := pw, tk_dP := dP\<rparr>
     in if flt pw (Fin 1) then t1\<lparr>tk_direction := True\<rparr>
        else
          let stepped = trk_stepped dP t1;
              t2 = (if stepped then t1\<lparr>tk_lastPower := pw\<rparr> else t1);
              rvs = (stepped \<and> flt dP (Fin 0) \<or> trk_vin_moved vin t2)
          in if rvs then t2\<lparr>tk_direction := \<not> tk_direction t2, tk_timeLastReverse := now, tk_lastVin := vin\<rparr>
             else t2)"

definition mpp_expire :: "u64 \<Rightarrow> mpp \<Rightarrow> mpp" where
  "mpp_expire now m =
    (if 300000 < now - mp_timestamp m \<and> fgt (mp_power m) (Fin 0) then mpp_forget m else m)"

definition mpp_drop :: "u64 \<Rightarrow> fl \<Rightarrow> mpp \<Rightarrow> mpp" where
  "mpp_drop now pw m =
    (if flt pw (fmul (mp_power m) (f32 (17 / 20))) \<and> 30000 < now - mp_timestamp m \<and>
        fgt (mp_power m) (Fin 0)
     then mpp_forget m else m)"

definition mpp_capture :: "u64 \<Rightarrow> fl \<Rightarrow> fl \<Rightarrow> u16 \<Rightarrow> mpp \<Rightarrow> mpp" where
  "mpp_capture now pw vin dc m =
    (if fgt pw (fmul (mp_power m) (f32 (201 / 200)))
     then \<lparr>mp_power = pw, mp_timestamp = now, mp_dutyCycle = dc, mp_vin = vin\<rparr> else m)"

definition trk_tick :: "u64 \<Rightarrow> u16 \<Rightarrow> tracker \<Rightarrow> tracker" where
  "trk_tick now dc t =
    (let (pw, pb) = macc_pop (tk_powerBuf t);
         (vin, vb) = macc_pop (tk_vinBuf t);
         t1 = trk_observe now pw vin (t\<lparr>tk_time := now, tk_powerBuf := pb, tk_vinBuf := vb\<rparr>)
     in t1\<lparr>tk_mpp := mpp_capture now pw vin dc (mpp_drop now pw (mpp_expire now (tk_mpp t1)))\<rparr>)"

definition trk_near_mpp :: "u64 \<Rightarrow> fl \<Rightarrow> tracker \<Rightarrow> bool" where
  "trk_near_mpp now powerSample t =
    (fgt powerSample (if tk_slowMode t then f32 (1 / 2) else Fin 2) \<and>
     30000 < now - mp_timestamp (tk_mpp t) \<and> now - tk_timeLastReverse t < 15000)"

definition trk_speed :: "fl \<Rightarrow> tracker \<Rightarrow> fl" where
  "trk_speed v t = (if tk_direction t then v else fneg v)"

definition trk_mode :: "u64 \<Rightarrow> fl \<Rightarrow> u16 \<Rightarrow> tracker \<Rightarrow> fl \<times> tracker" where
  "trk_mode now powerSample dc t =
    (if trk_near_mpp now powerSample t then
       let t1 = t\<lparr>tk_frequency := Fin 2, tk_minPowerStep := f32 (1 / 2),
                  tk_minPowerStepRel := f32 (3 / 2000)\<rparr>
       in if \<not> tk_slowMode t
          then (fsub (to_float (uint (mp_dutyCycle (tk_mpp t)))) (to_float (uint dc)),
                t1\<lparr>tk_slowMode := True\<rparr>)
          else (trk_speed (f32 (1 / 50)) t1, t1)
     else
       let t1 = t\<lparr>tk_frequency := Fin 30, tk_minPowerStep := Fin 1,
                  tk_minPowerStepRel := f32 (3 / 200), tk_slowMode := False\<rparr>
       in (trk_speed (f32 (1 / 2)) t1, t1))"

definition trk_update :: "u64 \<Rightarrow> fl \<Rightarrow> u16 \<Rightarrow> fl \<Rightarrow> tracker \<Rightarrow> (fl \<times> tracker) res" where
  "trk_update now powerSample dc vin t =
    bindE (macc_add powerSample (tk_powerBuf t)) (\<lambda>pb.
    bindE (macc_add vin (tk_vinBuf t)) (\<lambda>vb.
      let t1 = t\<lparr>tk_powerBuf := pb, tk_vinBuf := vb\<rparr>;
          t2 = (if trk_due now t1 then trk_tick now dc t1 else t1)
      in Inr (trk_mode now powerSample dc t2)))"

section \<open>Lemmas\<close>

definition trk_settings_ok :: "tracker \<Rightarrow> bool" where
  \<comment> \<open>the three tuning parameters belong to one of the modes\<close>
  "trk_settings_ok t =
    ((tk_minPowerStep t, tk_minPowerStepRel t, tk_frequency t) =
      (if tk_slowMode t then (f32 (1 / 2), f32 (3 / 2000), Fin 2)
       else (Fin 1, f32 (3 / 200), Fin 30)))"

lemma trk_mode_settings: "trk_settings_ok (snd (trk_mode now p dc t))"
  by (auto simp: trk_mode_def trk_settings_ok_def Let_def)

lemma trk_mode_keeps:
  "tk_mpp (snd (trk_mode now p dc t)) = tk_mpp t" "tk_direction (snd (trk_mode now p dc t)) = tk_direction t"
  "tk_powerBuf (snd (trk_mode now p dc t)) = tk_powerBuf t"
  "tk_curPower (snd (trk_mode now p dc t)) = tk_curPower t"
  "tk_lastPower (snd (trk_mode now p dc t)) = tk_lastPower t"
  by (auto simp: trk_mode_def Let_def)

lemma trk_observe_keeps:
  "tk_mpp (trk_observe now p v t) = tk_mpp t" "tk_curPower (trk_observe now p v t) = p"
  "tk_powerBuf (trk_observe now p v t) = tk_powerBuf t" "tk_time (trk_observe now p v t) = tk_time t"
  "tk_dP (trk_observe now p v t) = fsub p (tk_lastPower t)"
  "tk_slowMode (trk_observe now p v t) = tk_slowMode t"
  by (auto simp: trk_observe_def Let_def)

lemma trk_tick_keeps:
  "tk_curPower (trk_tick now dc t) = macc_mean (tk_powerBuf t)"
  "tk_powerBuf (trk_tick now dc t) = macc_clear" "tk_time (trk_tick now dc t) = now"
  by (simp_all add: trk_tick_def macc_pop_def trk_observe_keeps)

lemma mpp_forget_power: "mp_power (mpp_forget m) = Fin 0"
  by (simp add: mpp_forget_def)

lemma scale_1005_ge:
  assumes "fgt p (Fin 0)" "fl_ok F32 p"
  shows "fle p (fmul p (f32 (201 / 200)))"
proof (cases "isfinite p")
  case True
  have c: "isfinite (f32 (201 / 200))" "1 \<le> val (f32 (201 / 200))" by code_simp+
  have "val p * 1 \<le> val p * val (f32 (201 / 200))" using assms(1) True c by (intro mult_left_mono) auto
  then have le: "val p \<le> val p * val (f32 (201 / 200))" by simp
  have ex: "mk F32 False (val p) = Fin (val p)"
    using fl_ok_rnd [OF True assms(2)] fl_ok_bound [OF True assms(2)] assms(1) True by (intro mk_exact) auto
  have "fle (mk F32 False (val p)) (fmul p (f32 (201 / 200)))"
    using True c by (simp only: gmul_finite_eq) (rule mk_mono [OF le])
  then show ?thesis using ex True by (cases p) (auto simp: fle_def)
next
  case False
  then have "p = Inf False" using assms(1) by (cases p) (auto simp: flt_def)
  moreover have "fmul (Inf False) (f32 (201 / 200)) = Inf False" by code_simp
  ultimately show ?thesis by (simp add: fle_refl)
qed

definition mpp_ok :: "mpp \<Rightarrow> bool" where
  "mpp_ok m = (fl_ok F32 (mp_power m) \<and> fle (Fin 0) (mp_power m))"

lemma mpp_ok_forget: "mpp_ok (mpp_forget m)"
  by (simp add: mpp_ok_def mpp_forget_def)

lemma mpp_ok_prepare: "mpp_ok m \<Longrightarrow> mpp_ok (mpp_drop now p (mpp_expire now m))"
  by (simp add: mpp_drop_def mpp_expire_def mpp_ok_forget)

lemma mpp_scaled_nonneg:
  assumes "mpp_ok m" shows "fle (Fin 0) (fmul (mp_power m) (f32 (201 / 200)))"
proof (cases "isfinite (mp_power m)")
  case True
  have "isfinite (f32 (201 / 200))" "0 \<le> val (f32 (201 / 200))" by code_simp+
  then show ?thesis using assms True by (intro gmul_nonneg) (auto simp: mpp_ok_def)
next
  case False
  then have "mp_power m = Inf False"
    using assms by (cases "mp_power m") (auto simp: mpp_ok_def fle_def split: if_splits)
  moreover have "fmul (Inf False) (f32 (201 / 200)) = Inf False" by code_simp
  ultimately show ?thesis by simp
qed

lemma mpp_capture_ok:
  assumes "mpp_ok m" "fl_ok F32 p"
  shows "mpp_ok (mpp_capture now p v dc m)"
    and "\<not> isnan p \<Longrightarrow> fle p (fmul (mp_power (mpp_capture now p v dc m)) (f32 (201 / 200)))"
proof -
  have pos: "fgt p (fmul (mp_power m) (f32 (201 / 200))) \<Longrightarrow> fgt p (Fin 0)"
    using fle_flt_trans [OF mpp_scaled_nonneg [OF assms(1)]] by blast
  show "mpp_ok (mpp_capture now p v dc m)"
    using assms pos by (auto simp: mpp_capture_def mpp_ok_def intro: flt_imp_fle)
  assume "\<not> isnan p"
  then show "fle p (fmul (mp_power (mpp_capture now p v dc m)) (f32 (201 / 200)))"
    using scale_1005_ge [OF pos assms(2)] mpp_scaled_nonneg [OF assms(1)] not_flt_fle
    by (auto simp: mpp_capture_def dest: fle_not_nan)
qed

definition trk_inv :: "tracker \<Rightarrow> bool" where
  "trk_inv t = (mpp_ok (tk_mpp t))"

lemma fl_ok_mean: "fl_ok F32 (macc_mean m)"
  by (simp add: macc_mean_def)

lemma trk_tick_mpp:
  "tk_mpp (trk_tick now dc t) = mpp_capture now (macc_mean (tk_powerBuf t)) (macc_mean (tk_vinBuf t)) dc
     (mpp_drop now (macc_mean (tk_powerBuf t)) (mpp_expire now (tk_mpp t)))"
  by (simp add: trk_tick_def macc_pop_def trk_observe_keeps Let_def)

lemma trk_update_Inr:
  assumes "trk_update now p dc v t = Inr (s, t')"
  obtains pb vb where "macc_add p (tk_powerBuf t) = Inr pb" "macc_add v (tk_vinBuf t) = Inr vb"
    "trk_mode now p dc (if trk_due now (t\<lparr>tk_powerBuf := pb, tk_vinBuf := vb\<rparr>)
       then trk_tick now dc (t\<lparr>tk_powerBuf := pb, tk_vinBuf := vb\<rparr>)
       else t\<lparr>tk_powerBuf := pb, tk_vinBuf := vb\<rparr>) = (s, t')"
  using assms by (auto simp: trk_update_def bindE_Inr_iff Let_def)

lemma trk_update_mpp:
  assumes "trk_update now p dc v t = Inr (s, t')"
    "macc_add p (tk_powerBuf t) = Inr pb" "macc_add v (tk_vinBuf t) = Inr vb"
  shows "tk_mpp t' = (if trk_due now (t\<lparr>tk_powerBuf := pb, tk_vinBuf := vb\<rparr>)
    then tk_mpp (trk_tick now dc (t\<lparr>tk_powerBuf := pb, tk_vinBuf := vb\<rparr>)) else tk_mpp t)"
  using assms trk_mode_keeps(1) [of now p dc]
  by (elim trk_update_Inr) (auto dest!: arg_cong [where f = "\<lambda>r. tk_mpp (snd r)"] split: if_splits)

lemma trk_update_inv:
  assumes "trk_inv t" "trk_update now p dc v t = Inr (s, t')"
  shows "trk_inv t'"
proof -
  from assms(2) obtain pb vb where b: "macc_add p (tk_powerBuf t) = Inr pb" "macc_add v (tk_vinBuf t) = Inr vb"
    by (rule trk_update_Inr) blast
  show ?thesis using assms(1) trk_update_mpp [OF assms(2) b]
    by (simp add: trk_inv_def trk_tick_mpp mpp_capture_ok(1) mpp_ok_prepare fl_ok_mean)
qed

fun trk_run :: "(u64 \<times> fl \<times> u16 \<times> fl) list \<Rightarrow> tracker \<Rightarrow> tracker res" where
  "trk_run [] t = Inr t"
| "trk_run ((now, p, dc, v) # xs) t = bindE (trk_update now p dc v t) (\<lambda>(s, t'). trk_run xs t')"

lemma trk_run_inv: "trk_inv t \<Longrightarrow> trk_run xs t = Inr t' \<Longrightarrow> trk_inv t'"
proof (induction xs arbitrary: t)
  case (Cons x xs)
  then show ?case by (cases x) (auto simp: bindE_Inr_iff intro: trk_update_inv)
qed simp

lemma trk_inv_new: "trk_inv trk_new"
  by (simp add: trk_inv_def trk_new_def mpp_ok_def mpp_new_def fle_refl)

lemma to_float_u16_diff:
  "fsub (to_float (uint (a :: u16))) (to_float (uint (b :: u16))) = to_float (uint a - uint b)"
  by (subst (1 2) to_float_u16) (simp add: gsub_finite_eq to_float_def)

section \<open>Properties\<close>

text \<open>C11: in every run of the tracker, whenever an update closes a measurement period, the remembered
  maximum power point is never beaten by the power just measured by more than the 0.5 % capture margin,
  also when the same update has just expired or dropped the old maximum; and the remembered power is
  never negative.\<close>
theorem tracker_mpp_dominates:
  assumes "trk_run xs trk_new = Inr t" "trk_update now p dc v t = Inr (s, t')"
    "macc_add p (tk_powerBuf t) = Inr pb" "macc_add v (tk_vinBuf t) = Inr vb"
    "trk_due now (t\<lparr>tk_powerBuf := pb, tk_vinBuf := vb\<rparr>)" "\<not> isnan (macc_mean pb)"
  shows "fle (macc_mean pb) (fmul (mp_power (tk_mpp t')) (f32 (201 / 200))) \<and> fle (Fin 0) (mp_power (tk_mpp t'))"
proof -
  have inv: "trk_inv t" by (rule trk_run_inv [OF trk_inv_new assms(1)])
  have "trk_inv t'" by (rule trk_update_inv [OF inv assms(2)])
  then show ?thesis
    using trk_update_mpp [OF assms(2-4)] inv assms(5,6) mpp_capture_ok(2) [OF mpp_ok_prepare fl_ok_mean]
    by (simp add: trk_tick_mpp trk_inv_def mpp_ok_def)
qed

lemma tracker_mpp_dominates_witness:
  "\<exists>t s t'. trk_run [(100, Fin 60, 500, Fin 30)] trk_new = Inr t \<and>
     trk_update 200 (Fin 70) 510 (Fin 30) t = Inr (s, t') \<and>
     fle (Fin 70) (fmul (mp_power (tk_mpp t')) (f32 (201 / 200)))"
proof -
  have "resD (trk_run [(100, Fin 60, 500, Fin 30)] trk_new) (\<lambda>t.
      resD (trk_update 200 (Fin 70) 510 (Fin 30) t) (\<lambda>_.
      resD (macc_add (Fin 70) (tk_powerBuf t)) (\<lambda>pb. resD (macc_add (Fin 30) (tk_vinBuf t)) (\<lambda>vb.
      trk_due 200 (t\<lparr>tk_powerBuf := pb, tk_vinBuf := vb\<rparr>) \<and> macc_mean pb = Fin 70))))"
    by code_simp
  then obtain t s t' pb vb where "trk_run [(100, Fin 60, 500, Fin 30)] trk_new = Inr t"
    "trk_update 200 (Fin 70) 510 (Fin 30) t = Inr (s, t')" "macc_add (Fin 70) (tk_powerBuf t) = Inr pb"
    "macc_add (Fin 30) (tk_vinBuf t) = Inr vb" "trk_due 200 (t\<lparr>tk_powerBuf := pb, tk_vinBuf := vb\<rparr>)"
    "macc_mean pb = Fin 70"
    by (elim resD_E [where r = "trk_run _ _"] resD_E [where r = "macc_add _ _"] resD_pairE conjE) rule
  then show ?thesis using tracker_mpp_dominates [of "[(100, Fin 60, 500, Fin 30)]" t 200 "Fin 70" 510 "Fin 30" s t' pb vb]
    by (auto simp del: trk_run.simps)
qed

text \<open>entering slow mode returns exactly the signed distance in duty steps from the current duty
  cycle to that of the maximum power point (no rounding), and it happens only with the power above 2 W,
  no new maximum for 30 s and a reversal within the last 15 s; every other call returns the speed of the
  mode that it leaves the tracker in, signed by the direction.\<close>
theorem tracker_slow_entry:
  assumes "trk_update now p dc v t = Inr (s, t')"
  shows "if tk_slowMode t' \<and> \<not> tk_slowMode t
    then s = to_float (uint (mp_dutyCycle (tk_mpp t')) - uint dc) \<and> fgt p (Fin 2) \<and>
         30000 < now - mp_timestamp (tk_mpp t') \<and> now - tk_timeLastReverse t' < 15000
    else s = (let v = if tk_slowMode t' then f32 (1 / 50) else f32 (1 / 2)
              in if tk_direction t' then v else fneg v)"
proof -
  have sm: "tk_slowMode (trk_tick now dc u) = tk_slowMode u" for u
    by (simp add: trk_tick_def macc_pop_def trk_observe_keeps Let_def)
  from assms show ?thesis
    by (elim trk_update_Inr)
      (auto simp: trk_mode_def trk_near_mpp_def trk_speed_def Let_def sm to_float_u16_diff split: if_splits)
qed

lemma tracker_slow_entry_witness:
  "\<exists>s t'. trk_update 100000 (Fin 60) 510 (Fin 30) (trk_new\<lparr>tk_mpp := mpp_new\<lparr>mp_power := Fin 60, mp_timestamp := 1000, mp_dutyCycle := 500\<rparr>,
       tk_time := 100000, tk_timeLastReverse := 99000\<rparr>) = Inr (s, t') \<and> s = to_float (- 10)"
proof -
  let ?t = "trk_new\<lparr>tk_mpp := mpp_new\<lparr>mp_power := Fin 60, mp_timestamp := 1000, mp_dutyCycle := 500\<rparr>,
       tk_time := 100000, tk_timeLastReverse := 99000\<rparr>"
  have "resD (trk_update 100000 (Fin 60) 510 (Fin 30) ?t) (\<lambda>r.
      tk_slowMode (snd r) \<and> uint (mp_dutyCycle (tk_mpp (snd r))) = 500)" by code_simp
  then obtain s t' where u: "trk_update 100000 (Fin 60) 510 (Fin 30) ?t = Inr (s, t')"
    "tk_slowMode t'" "uint (mp_dutyCycle (tk_mpp t')) = 500"
    by (elim resD_pairE) auto
  then show ?thesis using tracker_slow_entry [OF u(1)] by (auto simp: trk_new_def)
qed

text \<open>the hill climbing rule. When an update closes a period with at least 1 W, the direction is kept
  if the power did not fall since the reference and the panel voltage did not move, it is reversed if the
  power fell by at least the mode's power step, and below 1 W the tracker always pumps up.\<close>
theorem tracker_hill_climb:
  assumes "trk_update now p dc v t = Inr (s, t')"
    "macc_add p (tk_powerBuf t) = Inr pb" "macc_add v (tk_vinBuf t) = Inr vb"
    "trk_due now (t\<lparr>tk_powerBuf := pb, tk_vinBuf := vb\<rparr>)"
  shows "(flt (macc_mean pb) (Fin 1) \<longrightarrow> tk_direction t') \<and>
    (fle (Fin 1) (macc_mean pb) \<and> isfinite (tk_lastPower t) \<and> fle (tk_lastPower t) (macc_mean pb) \<and>
       \<not> trk_vin_moved (macc_mean vb) t \<longrightarrow> tk_direction t' = tk_direction t) \<and>
    (fle (Fin 1) (macc_mean pb) \<and> fle (tk_minPowerStep t) (fabs (fsub (macc_mean pb) (tk_lastPower t))) \<and>
       flt (fsub (macc_mean pb) (tk_lastPower t)) (Fin 0) \<longrightarrow>
       tk_direction t' = (\<not> tk_direction t) \<and> tk_lastPower t' = macc_mean pb)"
proof -
  let ?t = "t\<lparr>tk_time := now, tk_powerBuf := macc_clear, tk_vinBuf := macc_clear\<rparr>"
  have d: "tk_direction t' = tk_direction (trk_observe now (macc_mean pb) (macc_mean vb) ?t)"
    and l: "tk_lastPower t' = tk_lastPower (trk_observe now (macc_mean pb) (macc_mean vb) ?t)"
    using assms trk_mode_keeps(2,5) [of now p dc]
    by (auto elim!: trk_update_Inr simp: trk_tick_def macc_pop_def Let_def
        dest!: arg_cong [where f = "\<lambda>r. (tk_direction (snd r), tk_lastPower (snd r))"])
  have up: "\<not> flt (fsub x y) (Fin 0)" if "isfinite y" "fle y x" for x y
    by (rule fle_not_flt [OF gsub_sign(1) [OF that(2)]])
      (use that in \<open>cases x; cases y; auto simp: gsub_def gadd_def\<close>)
  show ?thesis unfolding d l
    using up [of "tk_lastPower t" "macc_mean pb"] fle_not_flt [of "Fin 1" "macc_mean pb"]
    by (auto simp: trk_observe_def Let_def trk_stepped_def trk_vin_moved_def)
qed

lemma tracker_hill_climb_witness:
  "\<exists>s t'. trk_update 100 (Fin 50) 510 (Fin 30) (trk_new\<lparr>tk_lastPower := Fin 60, tk_direction := True\<rparr>) = Inr (s, t') \<and>
     \<not> tk_direction t'"
proof -
  let ?t = "trk_new\<lparr>tk_lastPower := Fin 60, tk_direction := True\<rparr>"
  have "resD (trk_update 100 (Fin 50) 510 (Fin 30) ?t) (\<lambda>_.
      resD (macc_add (Fin 50) (tk_powerBuf ?t)) (\<lambda>pb. resD (macc_add (Fin 30) (tk_vinBuf ?t)) (\<lambda>vb.
      trk_due 100 (?t\<lparr>tk_powerBuf := pb, tk_vinBuf := vb\<rparr>) \<and> macc_mean pb = Fin 50 \<and>
        fle (tk_minPowerStep ?t) (fabs (fsub (macc_mean pb) (tk_lastPower ?t))) \<and>
        flt (fsub (macc_mean pb) (tk_lastPower ?t)) (Fin 0) \<and> fle (Fin 1) (macc_mean pb))))" by code_simp
  then obtain s t' pb vb where u: "trk_update 100 (Fin 50) 510 (Fin 30) ?t = Inr (s, t')"
    "macc_add (Fin 50) (tk_powerBuf ?t) = Inr pb" "macc_add (Fin 30) (tk_vinBuf ?t) = Inr vb"
    "trk_due 100 (?t\<lparr>tk_powerBuf := pb, tk_vinBuf := vb\<rparr>)" "macc_mean pb = Fin 50"
    "fle (tk_minPowerStep ?t) (fabs (fsub (macc_mean pb) (tk_lastPower ?t)))"
    "flt (fsub (macc_mean pb) (tk_lastPower ?t)) (Fin 0)" "fle (Fin 1) (macc_mean pb)"
    by (elim resD_E [where r = "macc_add _ _"] resD_pairE conjE) rule
  have "tk_direction ?t" by simp
  with u show ?thesis using tracker_hill_climb [OF u(1-4)] by blast
qed

end
