(* ===== verification/CString.thy ===== *)
theory CString
  imports Floats
begin

text \<open>
  The parts of the C and C++ string library the configuration code uses, as functions on
  \<^typ>\<open>string\<close>: \<open>trim\<close> of \<open>src/src/conf.h\<close>, \<open>find_first_of\<close>/\<open>substr\<close> with one separator,
  \<open>fgets\<close> on a file's content, \<open>strtol\<close> for the 32 bit \<open>long\<close> of the target and \<open>strtof\<close>.
\<close>

section \<open>White space and separators\<close>

definition isspace :: "char \<Rightarrow> bool" where
  "isspace c = (c \<in> {CHR 0x20, CHR 0x09, CHR 0x0A, CHR 0x0B, CHR 0x0C, CHR 0x0D})"

definition istrim :: "char \<Rightarrow> bool" where
  "istrim c = (isspace c \<or> c = CHR 0x00)"

definition trim :: "string \<Rightarrow> string" where
  "trim s = rev (dropWhile istrim (rev (dropWhile istrim s)))"

definition before :: "char \<Rightarrow> string \<Rightarrow> string" where
  \<comment> \<open>\<open>s.substr(0, s.find_first_of(c))\<close>, all of \<open>s\<close> if there is none\<close>
  "before c s = takeWhile (\<lambda>x. x \<noteq> c) s"

definition after :: "char \<Rightarrow> string \<Rightarrow> string" where
  \<comment> \<open>\<open>s.substr(i + 1)\<close> for the first \<open>c\<close> at \<open>i\<close>\<close>
  "after c s = drop 1 (dropWhile (\<lambda>x. x \<noteq> c) s)"

definition cstr :: "string \<Rightarrow> string" where
  \<comment> \<open>a \<open>std::string\<close> built from a zero terminated buffer\<close>
  "cstr s = takeWhile (\<lambda>x. x \<noteq> CHR 0x00) s"

definition chomp :: "string \<Rightarrow> string" where
  \<comment> \<open>\<open>pop_back\<close> while the last character ends a line\<close>
  "chomp s = rev (dropWhile (\<lambda>c. c = CHR 0x0A \<or> c = CHR 0x0D) (rev s))"

lemma trim_Nil [simp]: "trim [] = []"
  by (simp add: trim_def)

lemma trim_id:
  assumes "s \<noteq> []" "\<not> istrim (hd s)" "\<not> istrim (last s)" shows "trim s = s"
proof -
  have d: "dropWhile istrim s = s" using assms(1,2) by (cases s) auto
  have "dropWhile istrim (rev s) = rev s" using assms(1,3) by (cases s rule: rev_cases) auto
  then show ?thesis by (simp add: trim_def d)
qed

lemma before_split: "c \<notin> set u \<Longrightarrow> before c (u @ c # v) = u"
  by (induction u) (auto simp: before_def)

lemma after_split: "c \<notin> set u \<Longrightarrow> after c (u @ c # v) = v"
  by (induction u) (auto simp: after_def)

lemma before_id: "c \<notin> set u \<Longrightarrow> before c u = u"
  by (simp add: before_def takeWhile_eq_all_conv) blast

lemma trim_prefix_eq:
  \<comment> \<open>trimming the line first does not change the trimmed text before a separator\<close>
  assumes "c \<in> set s" "\<not> istrim c"
  shows "c \<in> set (trim s)" "trim (before c (trim s)) = trim (before c s)"
    "trim (after c (trim s)) = trim (after c s)"
proof -
  obtain u v where s: "s = u @ c # v" "c \<notin> set u" using assms(1) by (meson split_list_first)
  have d: "dropWhile istrim s = dropWhile istrim u @ c # v"
    using s(1) assms(2) by (simp add: dropWhile_append3 dropWhile_append)
  have r: "rev (dropWhile istrim (rev (dropWhile istrim u @ c # v)))
      = dropWhile istrim u @ c # rev (dropWhile istrim (rev v))"
    using assms(2) by (simp add: dropWhile_append)
  have t: "trim s = dropWhile istrim u @ c # rev (dropWhile istrim (rev v))"
    using d r by (simp add: trim_def)
  have nu: "c \<notin> set (dropWhile istrim u)" using s(2) set_dropWhileD by fastforce
  show "c \<in> set (trim s)" using t by simp
  have b: "before c (trim s) = dropWhile istrim u" "before c s = u"
    using nu s t by (auto simp: before_split)
  have i: "dropWhile istrim (dropWhile istrim u) = dropWhile istrim u" by (simp add: dropWhile_idem)
  show "trim (before c (trim s)) = trim (before c s)" unfolding b by (simp add: trim_def i)
  have a: "after c (trim s) = rev (dropWhile istrim (rev v))" "after c s = v"
    using nu s t by (auto simp: after_split)
  show "trim (after c (trim s)) = trim (after c s)" unfolding a
  proof -
    have "trim (rev (dropWhile istrim (rev v))) = trim v" for v
    proof (cases "dropWhile istrim (rev v) = []")
      case True
      then have "dropWhile istrim v = []" by (simp add: dropWhile_eq_Nil_conv)
      then show ?thesis by (simp only: trim_def True rev.simps dropWhile.simps)
    next
      case False
      let ?w = "rev (dropWhile istrim (rev v))"
      obtain z where z: "v = ?w @ z" "\<forall>x \<in> set z. istrim x"
        by (metis rev_append rev_rev_ident set_rev set_takeWhileD takeWhile_dropWhile_id)
      have "\<exists>x \<in> set ?w. \<not> istrim x" using False
        by (metis hd_dropWhile hd_in_set set_rev)
      then have "dropWhile istrim v = dropWhile istrim ?w @ z" using z
        by (metis dropWhile_append1)
      then show ?thesis using z(2)
        by (simp add: trim_def dropWhile_append)
    qed
    then show "trim (rev (dropWhile istrim (rev v))) = trim v" .
  qed
qed

section \<open>\<open>fgets\<close>\<close>

fun fgets1 :: "nat \<Rightarrow> string \<Rightarrow> string \<times> string" where
  "fgets1 0 s = ([], s)"
| "fgets1 (Suc n) [] = ([], [])"
| "fgets1 (Suc n) (c # s) =
     (if c = CHR 0x0A then ([c], s) else (let (a, b) = fgets1 n s in (c # a, b)))"

lemma fgets1_length: "fgets1 n s = (a, b) \<Longrightarrow> length b \<le> length s"
proof (induction n s arbitrary: a b rule: fgets1.induct)
  case (3 n c s)
  then show ?case by (cases "fgets1 n s") (auto split: if_splits)
qed auto

lemma fgets1_progress: "s \<noteq> [] \<Longrightarrow> fgets1 (Suc n) s = (a, b) \<Longrightarrow> length b < length s"
  by (cases s) (auto split: if_splits prod.splits dest: fgets1_length)

function fgets_all :: "nat \<Rightarrow> string \<Rightarrow> string list" where
  \<comment> \<open>every line \<open>while (fgets(buf, n + 2, f))\<close> reads\<close>
  "fgets_all n s = (if s = [] then [] else (let (a, b) = fgets1 (Suc n) s in a # fgets_all n b))"
  by auto
termination
  by (relation "measure (\<lambda>(n, s). length s)") (auto dest!: sym [of "(_, _)"] fgets1_progress)

declare fgets_all.simps [simp del]

definition nlline :: "string \<Rightarrow> string" where
  "nlline l = l @ [CHR 0x0A]"

lemma fgets1_nlline:
  "CHR 0x0A \<notin> set l \<Longrightarrow> length l < n \<Longrightarrow> fgets1 n (nlline l @ s) = (nlline l, s)"
  by (induction l arbitrary: n) (case_tac n; auto simp: nlline_def)+

lemma fgets_all_lines:
  "\<forall>l \<in> set ls. CHR 0x0A \<notin> set l \<and> length l \<le> n \<Longrightarrow> fgets_all n (concat (map nlline ls)) = map nlline ls"
proof (induction ls)
  case (Cons l ls)
  have "fgets1 (Suc n) (nlline l @ concat (map nlline ls)) = (nlline l, concat (map nlline ls))"
    by (rule fgets1_nlline) (use Cons.prems in auto)
  then show ?case using Cons by (simp add: fgets_all.simps [of n "nlline l @ _"]) (simp add: nlline_def)
qed (simp add: fgets_all.simps)

section \<open>\<open>strtol\<close> and \<open>strtof\<close>\<close>

definition digit_val :: "char \<Rightarrow> int" where
  \<comment> \<open>36 for a character that is no digit\<close>
  "digit_val c = (let n = (of_char c :: int) in
     if 48 \<le> n \<and> n \<le> 57 then n - 48
     else if 97 \<le> n \<and> n \<le> 122 then n - 87
     else if 65 \<le> n \<and> n \<le> 90 then n - 55 else 36)"

definition digits :: "int \<Rightarrow> string \<Rightarrow> string" where
  "digits base s = takeWhile (\<lambda>c. digit_val c < base) s"

definition digits_val :: "int \<Rightarrow> string \<Rightarrow> int" where
  "digits_val base ds = foldl (\<lambda>a c. a * base + digit_val c) 0 ds"

definition sign_of :: "string \<Rightarrow> bool \<times> string" where
  "sign_of s = (case s of
     c # t \<Rightarrow> if c = CHR ''-'' then (True, t) else if c = CHR ''+'' then (False, t) else (False, s)
   | [] \<Rightarrow> (False, s))"

definition hex_prefix :: "string \<Rightarrow> bool" where
  "hex_prefix s = (case s of
     z # x # d # _ \<Rightarrow> z = CHR ''0'' \<and> x \<in> {CHR ''x'', CHR ''X''} \<and> digit_val d < 16
   | _ \<Rightarrow> False)"

definition LONG_MAX :: int where "LONG_MAX = 2147483647"

definition strtol :: "int \<Rightarrow> string \<Rightarrow> int \<times> string \<times> bool" where
  \<comment> \<open>the value, the text at \<open>endptr\<close> and whether \<open>errno\<close> was set\<close>
  "strtol base s =
    (let (neg, t) = sign_of (dropWhile isspace s);
         u = (if base = 16 \<and> hex_prefix t then drop 2 t else t);
         ds = digits base u
     in if ds = [] then (0, s, False)
        else let n = digits_val base ds; v = (if neg then - n else n); r = drop (length ds) u
             in if LONG_MAX < v then (LONG_MAX, r, True)
                else if v < - LONG_MAX - 1 then (- LONG_MAX - 1, r, True) else (v, r, False))"

definition lower :: "char \<Rightarrow> char" where
  "lower c = (let n = (of_char c :: int) in if 65 \<le> n \<and> n \<le> 90 then char_of (n + 32) else c)"

definition starts :: "string \<Rightarrow> string \<Rightarrow> bool" where
  "starts p s = (map lower (take (length p) s) = p)"

definition exponent :: "string \<Rightarrow> string \<Rightarrow> int \<times> string" where
  \<comment> \<open>an optional exponent after one of the marks\<close>
  "exponent marks s = (case s of
     m # t \<Rightarrow> (let (neg, u) = sign_of t; ds = digits 10 u in
        if m \<in> set marks \<and> ds \<noteq> []
        then (if neg then - digits_val 10 ds else digits_val 10 ds, drop (length ds) u)
        else (0, s))
   | [] \<Rightarrow> (0, s))"

definition mantissa :: "int \<Rightarrow> string \<Rightarrow> string \<times> string \<times> string" where
  \<comment> \<open>integer digits, fraction digits, rest\<close>
  "mantissa base s =
    (let ip = digits base s; r = drop (length ip) s in
     case r of
       c # t \<Rightarrow> if c = CHR ''.'' \<and> (ip \<noteq> [] \<or> digits base t \<noteq> [])
                then (ip, digits base t, drop (length (digits base t)) t) else (ip, [], r)
     | [] \<Rightarrow> (ip, [], r))"

definition nan_tail :: "string \<Rightarrow> string" where
  \<comment> \<open>after \<open>nan\<close>, an optional parenthesised tag\<close>
  "nan_tail s = (case s of
     c # t \<Rightarrow> (let w = takeWhile (\<lambda>x. digit_val x < 36 \<or> x = CHR ''_'') t; r = drop (length w) t in
        if c = CHR ''('' \<and> r \<noteq> [] \<and> hd r = CHR '')'' then tl r else s)
   | [] \<Rightarrow> s)"

definition scaled :: "bool \<Rightarrow> rat \<Rightarrow> string \<Rightarrow> fl \<times> string \<times> bool" where
  "scaled neg q r =
    (let x = mk F32 neg (if neg then - q else q)
     in (x, r, \<not> isfinite x \<or> (q \<noteq> 0 \<and> val x = 0)))"

definition strtof :: "string \<Rightarrow> fl \<times> string \<times> bool" where
  "strtof s =
    (let (neg, t) = sign_of (dropWhile isspace s) in
     if starts ''infinity'' t then (Inf neg, drop 8 t, False)
     else if starts ''inf'' t then (Inf neg, drop 3 t, False)
     else if starts ''nan'' t then (NaN, nan_tail (drop 3 t), False)
     else if starts ''0x'' t \<and> (let (i, f, _) = mantissa 16 (drop 2 t) in i @ f \<noteq> []) then
       (let (i, f, r) = mantissa 16 (drop 2 t); (e, r') = exponent ''pP'' r
        in scaled neg (of_int (digits_val 16 (i @ f)) * 2 powi (e - 4 * int (length f))) r')
     else
       (let (i, f, r) = mantissa 10 t in
        if i @ f = [] then (Fin 0, s, False)
        else let (e, r') = exponent ''eE'' r
             in scaled neg (of_int (digits_val 10 (i @ f)) * 10 powi (e - int (length f))) r'))"

end
