(* ===== verification/Conf.thy ===== *)
theory Conf
  imports CString
begin

text \<open>
  \<open>src/src/conf.h\<close>: \<open>ConfFile\<close>, the key/value files the firmware is configured with. A file is
  its content (\<open>None\<close> when it does not exist); a device that fills up, cannot be opened or fails to
  sync is described by an \<open>io\<close> record. \<open>conf_add\<close>, \<open>conf_remove\<close> and \<open>conf_addFast\<close> return the
  result (or exception), the new content and the new object. Lemmas: what a rewrite leaves in the
  file is what the next boot reads.
\<close>

record conf =
  cf_map :: "(string \<times> string) list"
  cf_accessed :: "string list"

record io =
  io_can_write :: bool    \<comment> \<open>\<open>fopen\<close> for writing succeeds\<close>
  io_space :: nat         \<comment> \<open>bytes the device accepts\<close>
  io_sync :: bool         \<comment> \<open>\<open>fsync\<close> succeeds (or is compiled out)\<close>

definition conf_find :: "string \<Rightarrow> conf \<Rightarrow> string option" where
  "conf_find k c = map_of (cf_map c) k"

fun kv_set :: "string \<Rightarrow> string \<Rightarrow> (string \<times> string) list \<Rightarrow> (string \<times> string) list" where
  "kv_set k v [] = [(k, v)]"
| "kv_set k v ((k', v') # m) = (if k' = k then (k', v) # m else (k', v') # kv_set k v m)"

definition conf_set :: "string \<Rightarrow> string \<Rightarrow> conf \<Rightarrow> conf" where
  "conf_set k v c = c\<lparr>cf_map := kv_set k v (cf_map c)\<rparr>"

definition conf_mark :: "string \<Rightarrow> conf \<Rightarrow> conf" where
  "conf_mark k c = (if k \<in> set (cf_accessed c) then c else c\<lparr>cf_accessed := cf_accessed c @ [k]\<rparr>)"

definition conf_wasAccessed :: "string \<Rightarrow> conf \<Rightarrow> bool" where
  "conf_wasAccessed k c = (k \<in> set (cf_accessed c))"

section \<open>Reading a file\<close>

definition conf_line :: "string \<Rightarrow> (string \<times> string) option" where
  "conf_line l =
    (let s = trim (before CHR ''#'' l)
     in if s = [] \<or> CHR ''='' \<notin> set s then None
        else Some (trim (before CHR ''='' s), trim (after CHR ''='' s)))"

definition file_lines :: "string option \<Rightarrow> string list" where
  \<comment> \<open>\<open>char buf[256]; while (fgets(buf, sizeof(buf), f)) std::string line(buf)\<close>\<close>
  "file_lines fs = (case fs of None \<Rightarrow> [] | Some s \<Rightarrow> map cstr (fgets_all 254 s))"

definition kv_entries :: "string list \<Rightarrow> (string \<times> string) list" where
  "kv_entries ls = List.map_filter conf_line ls"

definition conf_open :: "string option \<Rightarrow> conf" where
  "conf_open fs = \<lparr>cf_map = fold (\<lambda>(k, v). kv_set k v) (kv_entries (file_lines fs)) [], cf_accessed = []\<rparr>"

section \<open>Rewriting a file\<close>

fun write_lines :: "nat \<Rightarrow> string list \<Rightarrow> string \<times> bool" where
  \<comment> \<open>what reaches the file, and whether no \<open>fwrite\<close> was short\<close>
  "write_lines b [] = ([], True)"
| "write_lines b (l # ls) =
     (if b < length l then (take b l, False)
      else let nl = (if b = length l then [] else [CHR 0x0A]);
               (r, ok) = write_lines (b - length l - length nl) ls
           in (l @ nl @ r, ok))"

definition save_lines :: "io \<Rightarrow> string list \<Rightarrow> string option \<Rightarrow> bool \<times> string option" where
  \<comment> \<open>\<open>fopen(path, "w")\<close>, the loop of writes, \<open>fsync\<close> and \<open>fclose\<close>\<close>
  "save_lines io ls fs =
    (if \<not> io_can_write io then (False, fs)
     else let (s, ok) = write_lines (io_space io) ls in (ok \<and> io_sync io, Some s))"

definition add_line :: "string \<Rightarrow> string \<Rightarrow> string \<Rightarrow> string" where
  "add_line k v comment = k @ ''='' @ v @ (if comment = [] then [] else ''  '' @ comment)"

fun add_lines :: "(string \<times> string) list \<Rightarrow> bool \<Rightarrow> string list \<Rightarrow> string list \<Rightarrow> (string list \<times> string list) res" where
  \<comment> \<open>the lines rewritten and the keys written\<close>
  "add_lines vs ow written [] = Inr ([], written)"
| "add_lines vs ow written (line # rest) =
     (let code = before CHR ''#'' line; comment = dropWhile (\<lambda>c. c \<noteq> CHR ''#'') line in
      if CHR ''='' \<notin> set code
      then bindE (add_lines vs ow written rest) (\<lambda>(o', w). Inr (line # o', w))
      else let key = trim (before CHR ''='' code) in
        case map_of vs key of
          None \<Rightarrow> bindE (add_lines vs ow written rest) (\<lambda>(o', w). Inr (line # o', w))
        | Some v \<Rightarrow>
            if \<not> ow then Inl (Throw (''duplicate key: '' @ key))
            else if key \<in> set written then add_lines vs ow written rest
            else bindE (add_lines vs ow (written @ [key]) rest)
                   (\<lambda>(o', w). Inr (add_line key v comment # o', w)))"

definition add_out :: "(string \<times> string) list \<Rightarrow> bool \<Rightarrow> string list \<Rightarrow> string list res" where
  "add_out vs ow lines =
    bindE (add_lines vs ow [] lines)
      (\<lambda>(out, written). Inr (out @ map (\<lambda>(k, v). k @ ''='' @ v) (filter (\<lambda>(k, v). k \<notin> set written) vs)))"

definition conf_add ::
  "io \<Rightarrow> (string \<times> string) list \<Rightarrow> bool \<Rightarrow> string option \<Rightarrow> conf \<Rightarrow> bool res \<times> string option \<times> conf" where
  "conf_add io vs ow fs c =
    (case add_out vs ow (map chomp (file_lines fs)) of
       Inl e \<Rightarrow> (Inl e, fs, c)
     | Inr out \<Rightarrow>
         (let (ok, fs') = save_lines io out fs
          in (Inr ok, fs', if ok then fold (\<lambda>(k, v). conf_set k v) vs c else c)))"

definition line_has_key :: "string \<Rightarrow> string \<Rightarrow> bool" where
  "line_has_key key line =
    (let code = before CHR ''#'' line
     in CHR ''='' \<in> set code \<and> trim (before CHR ''='' code) = key)"

definition conf_remove :: "io \<Rightarrow> string \<Rightarrow> string option \<Rightarrow> conf \<Rightarrow> bool \<times> string option \<times> conf" where
  "conf_remove io key fs c =
    (let lines = map chomp (file_lines fs);
         out = filter (\<lambda>l. \<not> line_has_key key l) lines;
         c' = c\<lparr>cf_map := filter (\<lambda>p. fst p \<noteq> key) (cf_map c)\<rparr>
     in if \<not> list_ex (line_has_key key) lines then (False, fs, c')
        else let (ok, fs') = save_lines io out fs in (ok, fs', c'))"

section \<open>Appending\<close>

definition fwrite_ok :: "nat \<Rightarrow> string \<Rightarrow> bool" where
  \<comment> \<open>\<open>fwrite(s, length, 1, f) == 1\<close>: no item is written when the length is 0\<close>
  "fwrite_ok b s = (s \<noteq> [] \<and> length s \<le> b)"

fun append_go :: "nat \<Rightarrow> bool \<Rightarrow> conf \<Rightarrow> (string \<times> string) list \<Rightarrow> bool res \<times> string" where
  "append_go b ow c [] = (Inr True, [])"
| "append_go b ow c ((k, v) # vs) =
     (if conf_find k c \<noteq> None \<and> \<not> ow then (Inl (Throw (''duplicate key: '' @ k)), [])
      else let nl = (if b = 0 then [] else [CHR 0x0A]); b1 = b - length nl in
        if \<not> fwrite_ok b1 k then (Inr False, nl @ take b1 k)
        else let b2 = b1 - length k in
          if \<not> fwrite_ok b2 ''='' then (Inr False, nl @ k)
          else let b3 = b2 - 1 in
            if \<not> fwrite_ok b3 v then (Inr False, nl @ k @ ''='' @ take b3 v)
            else let (r, s) = append_go (b3 - length v) ow c vs in (r, nl @ k @ ''='' @ v @ s))"

definition conf_addFast ::
  "io \<Rightarrow> (string \<times> string) list \<Rightarrow> bool \<Rightarrow> string option \<Rightarrow> conf \<Rightarrow> bool res \<times> string option \<times> conf" where
  "conf_addFast io vs ow fs c =
    (if \<not> io_can_write io then (Inr False, fs, c)
     else let (r, s) = append_go (io_space io) ow c vs;
              fs' = Some ((case fs of None \<Rightarrow> [] | Some t \<Rightarrow> t) @ s)
          in case r of
               Inl e \<Rightarrow> (Inl e, fs', c)
             | Inr ok \<Rightarrow> if ok \<and> io_sync io then (Inr True, fs', fold (\<lambda>(k, v). conf_set k v) vs c)
                       else (Inr False, fs', c))"

section \<open>Typed access\<close>

definition conf_getX :: "string \<Rightarrow> 'a \<Rightarrow> ('a \<Rightarrow> bool) \<Rightarrow> (string \<Rightarrow> 'a \<times> string \<times> bool) \<Rightarrow> bool \<Rightarrow> conf \<Rightarrow> 'a res" where
  \<comment> \<open>the value; the access mark is \<^term>\<open>conf_mark\<close>\<close>
  "conf_getX key dflt ismax strto noDef c =
    (case conf_find key c of
       Some v \<Rightarrow>
         if v = [] then Inl (Throw (''empty value for key: '' @ key))
         else (case strto v of (x, tail, er) \<Rightarrow>
                 if er then Inl (Throw (''strto_ error '' @ v))
                 else if tail \<noteq> [] then Inl (Throw (''additional chars '' @ v))
                 else Inr x)
     | None \<Rightarrow> if \<not> noDef \<and> ismax dflt then Inl (Throw (''key not found: '' @ key)) else Inr dflt)"

definition strtol_2_8_10_16 :: "string \<Rightarrow> int \<times> string \<times> bool" where
  "strtol_2_8_10_16 s =
    (if length s > 2 \<and> take 2 s = ''0b'' then strtol 2 (drop 2 s)
     else if length s > 2 \<and> take 2 s = ''0x'' then strtol 16 (drop 2 s)
     else if length s > 1 \<and> s ! 0 = CHR ''0'' \<and> CHR ''.'' \<notin> set s \<and> CHR ''e'' \<notin> set s then strtol 8 (drop 1 s)
     else strtol 10 s)"

definition conf_getLong :: "string \<Rightarrow> int \<Rightarrow> conf \<Rightarrow> int res" where
  "conf_getLong key dflt c = conf_getX key dflt (\<lambda>x. x = LONG_MAX) strtol_2_8_10_16 False c"

definition conf_getLongBase :: "string \<Rightarrow> int \<Rightarrow> int \<Rightarrow> conf \<Rightarrow> int res" where
  "conf_getLongBase key base dflt c = conf_getX key dflt (\<lambda>x. x = LONG_MAX) (strtol base) False c"

definition conf_getByteOr255 :: "string \<Rightarrow> conf \<Rightarrow> u8 res" where
  "conf_getByteOr255 key c =
    bindE (conf_getX key 255 (\<lambda>x. x = LONG_MAX) strtol_2_8_10_16 True c) (\<lambda>n. Inr (word_of_int n))"

definition conf_getByte :: "string \<Rightarrow> u8 \<Rightarrow> conf \<Rightarrow> u8 res" where
  "conf_getByte key dflt c =
    bindE (conf_getX key (uint dflt) (\<lambda>x. x = LONG_MAX) strtol_2_8_10_16 False c) (\<lambda>n. Inr (word_of_int n))"

definition FLT_MAX :: fl where "FLT_MAX = Fin ((2 ^ 24 - 1) * 2 ^ 104)"

definition conf_getFloat :: "string \<Rightarrow> fl \<Rightarrow> conf \<Rightarrow> fl res" where
  "conf_getFloat key dflt c = conf_getX key dflt (\<lambda>x. feq x FLT_MAX) strtof False c"

definition conf_getString :: "string \<Rightarrow> conf \<Rightarrow> string res" where
  "conf_getString key c =
    (case conf_find key c of Some v \<Rightarrow> Inr v | None \<Rightarrow> Inl (Throw (''key not found: '' @ key)))"

definition conf_getStringDef :: "string \<Rightarrow> string \<Rightarrow> conf \<Rightarrow> string" where
  "conf_getStringDef key dflt c = (case conf_find key c of Some v \<Rightarrow> v | None \<Rightarrow> dflt)"

definition conf_keys :: "conf \<Rightarrow> string list" where
  "conf_keys c = map fst (cf_map c)"

definition conf_unknown :: "conf \<Rightarrow> string list" where
  \<comment> \<open>the keys \<open>warnUnknownKeys\<close> reports\<close>
  "conf_unknown c = filter (\<lambda>k. \<not> conf_wasAccessed k c) (conf_keys c)"

section \<open>The map\<close>

lemma map_of_kv_set [simp]: "map_of (kv_set k v m) = (map_of m)(k \<mapsto> v)"
  by (induction k v m rule: kv_set.induct) auto

lemma kv_set_distinct: "distinct (map fst m) \<Longrightarrow> distinct (map fst (kv_set k v m))"
proof (induction k v m rule: kv_set.induct)
  case (2 k v k' v' m)
  have "set (map fst (kv_set k v m)) = insert k (set (map fst m))" for k v m
    by (induction k v m rule: kv_set.induct) auto
  then show ?case using 2 by auto
qed simp

lemma map_of_fold_kv_set: "map_of (fold (\<lambda>(k, v). kv_set k v) kvs m) = map_of m ++ map_of (rev kvs)"
  by (induction kvs arbitrary: m) (auto simp: map_add_def fun_eq_iff split: option.splits)

lemma conf_find_open: "conf_find k (conf_open fs) = map_of (rev (kv_entries (file_lines fs))) k"
  by (simp add: conf_find_def conf_open_def map_of_fold_kv_set)

lemma conf_open_distinct: "distinct (map fst (cf_map (conf_open fs)))"
proof -
  have "distinct (map fst m) \<Longrightarrow> distinct (map fst (fold (\<lambda>(k, v). kv_set k v) kvs m))" for kvs m
    by (induction kvs arbitrary: m) (auto intro: kv_set_distinct)
  then show ?thesis by (simp add: conf_open_def)
qed

lemma conf_find_set [simp]: "conf_find k' (conf_set k v c) = (if k' = k then Some v else conf_find k' c)"
  by (simp add: conf_find_def conf_set_def)

lemma conf_find_fold_set:
  "distinct (map fst vs) \<Longrightarrow>
   conf_find k (fold (\<lambda>(k, v). conf_set k v) vs c) = (case map_of vs k of Some v \<Rightarrow> Some v | None \<Rightarrow> conf_find k c)"
  by (induction vs arbitrary: c) (auto split: option.splits simp: map_of_eq_None_iff image_iff)

section \<open>Lines\<close>

lemma istrim_simps [simp]:
  "\<not> istrim (CHR ''='')" "\<not> istrim (CHR ''#'')" "istrim (CHR 0x0A)" "istrim (CHR 0x20)" "istrim (CHR 0x0D)"
  by (simp_all add: istrim_def isspace_def)

lemma trim_append_blank: "\<forall>x \<in> set z. istrim x \<Longrightarrow> trim (s @ z) = trim s"
proof (cases "dropWhile istrim s = []")
  case True
  assume z: "\<forall>x \<in> set z. istrim x"
  then have "dropWhile istrim (s @ z) = []" using True by (auto simp: dropWhile_eq_Nil_conv)
  then show ?thesis by (simp only: trim_def True)
next
  case False
  assume z: "\<forall>x \<in> set z. istrim x"
  have "\<exists>x \<in> set s. \<not> istrim x" using False by (auto simp: dropWhile_eq_Nil_conv)
  then have "dropWhile istrim (s @ z) = dropWhile istrim s @ z" by (metis dropWhile_append1)
  then show ?thesis using z by (simp add: trim_def dropWhile_append)
qed

lemma before_append: "before c (s @ z) = (if c \<in> set s then before c s else s @ before c z)"
  by (induction s) (auto simp: before_def)

lemma conf_line_blank:
  assumes "\<forall>x \<in> set z. istrim x" "CHR ''#'' \<notin> set z"
  shows "conf_line (l @ z) = conf_line l"
  using assms trim_append_blank [of z l]
  by (simp add: conf_line_def before_append before_id)

lemma chomp_decomp: "\<exists>z. s = chomp s @ z \<and> (\<forall>x \<in> set z. x = CHR 0x0A \<or> x = CHR 0x0D)"
proof -
  let ?P = "\<lambda>c. c = CHR 0x0A \<or> c = CHR 0x0D"
  have "rev (takeWhile ?P (rev s) @ dropWhile ?P (rev s)) = s" by (simp only: takeWhile_dropWhile_id rev_rev_ident)
  then have "s = chomp s @ rev (takeWhile ?P (rev s))" unfolding rev_append chomp_def by (rule sym)
  moreover have "\<forall>x \<in> set (rev (takeWhile ?P (rev s))). ?P x" by (auto dest: set_takeWhileD)
  ultimately show ?thesis by blast
qed

lemma conf_line_chomp: "conf_line (chomp l) = conf_line l"
proof -
  obtain z where z: "l = chomp l @ z" "\<forall>x \<in> set z. x = CHR 0x0A \<or> x = CHR 0x0D" using chomp_decomp by blast
  have i: "istrim x \<and> x \<noteq> CHR ''#''" if "x \<in> set z" for x
    using bspec [OF z(2) that] by (elim disjE) simp_all
  then have b: "\<forall>x \<in> set z. istrim x" "CHR ''#'' \<notin> set z" by blast+
  have "conf_line l = conf_line (chomp l @ z)" by (rule arg_cong [OF z(1)])
  also have "\<dots> = conf_line (chomp l)" by (rule conf_line_blank [OF b])
  finally show ?thesis by (rule sym)
qed

lemma conf_line_code:
  defines "code \<equiv> \<lambda>l. before CHR ''#'' l"
  shows "conf_line l = (if CHR ''='' \<in> set (code l)
     then Some (trim (before CHR ''='' (code l)), trim (after CHR ''='' (code l))) else None)"
proof (cases "CHR ''='' \<in> set (code l)")
  case True
  then show ?thesis using trim_prefix_eq [OF True]
    unfolding conf_line_def code_def Let_def by auto
next
  case False
  have "set (trim s) \<subseteq> set s" for s
    unfolding trim_def by (metis set_dropWhileD set_rev subsetI)
  then have "CHR ''='' \<notin> set (trim (code l))" using False by blast
  then show ?thesis using False by (simp add: conf_line_def code_def)
qed

lemma line_has_key_iff: "line_has_key k l \<longleftrightarrow> (\<exists>v. conf_line l = Some (k, v))"
  by (auto simp: line_has_key_def conf_line_code Let_def)

definition clean_key :: "string \<Rightarrow> bool" where
  "clean_key k = (trim k = k \<and> (\<forall>c \<in> {CHR ''#'', CHR ''='', CHR 0x0A, CHR 0x00}. c \<notin> set k))"

definition clean_val :: "string \<Rightarrow> bool" where
  "clean_val v = (trim v = v \<and> (\<forall>c \<in> {CHR ''#'', CHR 0x0A, CHR 0x00}. c \<notin> set v))"

lemma conf_line_written:
  assumes "clean_key k" "clean_val v" "comment = [] \<or> hd comment = CHR ''#''"
  shows "conf_line (add_line k v comment) = Some (k, v)"
proof -
  let ?sp = "if comment = [] then [] else ''  ''"
  have b: "before CHR ''#'' (add_line k v comment) = k @ CHR ''='' # v @ ?sp"
  proof (cases comment)
    case Nil
    then show ?thesis using assms by (auto simp: add_line_def clean_key_def clean_val_def intro: before_id)
  next
    case (Cons c r)
    then have "add_line k v comment = (k @ CHR ''='' # v @ ''  '') @ CHR ''#'' # r"
      using assms(3) by (simp add: add_line_def)
    then show ?thesis using Cons assms(1,2)
      by (simp only:) (rule before_split [THEN trans], auto simp: clean_key_def clean_val_def)
  qed
  have "before CHR ''='' (k @ CHR ''='' # v @ ?sp) = k" "after CHR ''='' (k @ CHR ''='' # v @ ?sp) = v @ ?sp"
    using assms by (auto simp: clean_key_def intro!: before_split after_split)
  moreover have "trim (v @ ?sp) = v" using assms trim_append_blank [of ?sp v] by (simp add: clean_val_def)
  ultimately show ?thesis unfolding conf_line_code b using assms by (simp add: clean_key_def)
qed

lemma kv_entries_simps [simp]:
  "kv_entries [] = []"
  "kv_entries (l # ls) = (case conf_line l of None \<Rightarrow> kv_entries ls | Some p \<Rightarrow> p # kv_entries ls)"
  "kv_entries (ls @ ls') = kv_entries ls @ kv_entries ls'"
  by (simp_all add: kv_entries_def List.map_filter_def split: option.splits)

lemma kv_entries_chomp: "kv_entries (map chomp ls) = kv_entries ls"
  by (induction ls) (auto simp: conf_line_chomp split: option.splits)

section \<open>What a rewrite keeps and what it changes\<close>

definition key_entries :: "string \<Rightarrow> string list \<Rightarrow> (string \<times> string) list" where
  "key_entries k ls = filter (\<lambda>e. fst e = k) (kv_entries ls)"

lemma key_entries_simps [simp]:
  "key_entries k [] = []"
  "key_entries k (l # ls) = (case conf_line l of None \<Rightarrow> key_entries k ls
     | Some p \<Rightarrow> if fst p = k then p # key_entries k ls else key_entries k ls)"
  "key_entries k (ls @ ls') = key_entries k ls @ key_entries k ls'"
  by (simp_all add: key_entries_def split: option.splits)

lemma map_of_rev_key: "map_of (rev kvs) k = map_of (rev (filter (\<lambda>e. fst e = k) kvs)) k"
  by (induction kvs) (auto simp: map_add_def split: option.splits)

lemma conf_find_key_entries: "conf_find k (conf_open fs) = map_of (rev (key_entries k (file_lines fs))) k"
  unfolding conf_find_open key_entries_def by (rule map_of_rev_key)

definition clean_kvs :: "(string \<times> string) list \<Rightarrow> bool" where
  "clean_kvs vs = (distinct (map fst vs) \<and> (\<forall>(k, v) \<in> set vs. clean_key k \<and> clean_val v))"

lemma clean_kvs_of: "clean_kvs vs \<Longrightarrow> map_of vs k = Some v \<Longrightarrow> clean_key k \<and> clean_val v"
  by (auto simp: clean_kvs_def dest: map_of_SomeD)

lemma comment_hd: "dropWhile (\<lambda>c. c \<noteq> CHR ''#'') l = [] \<or> hd (dropWhile (\<lambda>c. c \<noteq> CHR ''#'') l) = CHR ''#''"
  using hd_dropWhile [of "\<lambda>c. c \<noteq> CHR ''#''" l] by blast

lemma add_lines_keys:
  assumes "clean_kvs vs" "add_lines vs ow w ls = Inr (out, w')"
  shows "k \<in> set w' \<longleftrightarrow> k \<in> set w \<or> (map_of vs k \<noteq> None \<and> key_entries k ls \<noteq> [])"
    and "map_of vs k = None \<Longrightarrow> key_entries k out = key_entries k ls"
    and "map_of vs k = Some v \<Longrightarrow>
      key_entries k out = (if k \<in> set w \<or> key_entries k ls = [] then [] else [(k, v)])"
proof -
  have "(k \<in> set w' \<longleftrightarrow> k \<in> set w \<or> (map_of vs k \<noteq> None \<and> key_entries k ls \<noteq> [])) \<and>
    (map_of vs k = None \<longrightarrow> key_entries k out = key_entries k ls) \<and>
    (\<forall>v. map_of vs k = Some v \<longrightarrow>
      key_entries k out = (if k \<in> set w \<or> key_entries k ls = [] then [] else [(k, v)]))"
    using assms(2)
  proof (induction ls arbitrary: w out)
    case (Cons l ls)
    show ?case
    proof (cases "CHR ''='' \<in> set (before CHR ''#'' l)")
      case False
      then show ?thesis using Cons by (auto simp: Let_def bindE_Inr_iff conf_line_code)
    next
      case True
      let ?k = "trim (before CHR ''='' (before CHR ''#'' l))"
      have cl: "conf_line l = Some (?k, trim (after CHR ''='' (before CHR ''#'' l)))"
        using True by (simp add: conf_line_code)
      show ?thesis
      proof (cases "map_of vs ?k")
        case None
        then show ?thesis using Cons True cl by (auto simp: Let_def bindE_Inr_iff)
      next
        case (Some v)
        then have ow: "ow" using Cons.prems True by (auto simp: Let_def split: if_splits)
        note wr = conf_line_written [OF clean_kvs_of [OF assms(1) Some, THEN conjunct1]
            clean_kvs_of [OF assms(1) Some, THEN conjunct2] comment_hd [of l]]
        show ?thesis
        proof (cases "?k \<in> set w")
          case True
          then have "add_lines vs ow w ls = Inr (out, w')"
            using Cons.prems Some ow \<open>CHR ''='' \<in> set (before CHR ''#'' l)\<close> by (simp add: Let_def)
          from Cons.IH [OF this] show ?thesis using True Some cl by auto
        next
          case False
          then obtain o' where o': "add_lines vs ow (w @ [?k]) ls = Inr (o', w')"
            "out = add_line ?k v (dropWhile (\<lambda>c. c \<noteq> CHR ''#'') l) # o'"
            using Cons.prems Some ow True by (auto simp: Let_def bindE_Inr_iff)
          from Cons.IH [OF o'(1)] show ?thesis using False Some cl o'(2) wr by auto
        qed
      qed
    qed
  qed auto
  then show "k \<in> set w' \<longleftrightarrow> k \<in> set w \<or> (map_of vs k \<noteq> None \<and> key_entries k ls \<noteq> [])"
    and "map_of vs k = None \<Longrightarrow> key_entries k out = key_entries k ls"
    and "map_of vs k = Some v \<Longrightarrow>
      key_entries k out = (if k \<in> set w \<or> key_entries k ls = [] then [] else [(k, v)])" by auto
qed

lemma key_entries_new:
  assumes "clean_kvs vs"
  shows "key_entries k (map (\<lambda>(k, v). k @ ''='' @ v) (filter (\<lambda>(k, v). k \<notin> W) vs)) =
    (case map_of vs k of Some v \<Rightarrow> if k \<in> W then [] else [(k, v)] | None \<Rightarrow> [])"
  using assms
proof (induction vs)
  case (Cons p vs)
  obtain k0 v0 where p: "p = (k0, v0)" by (cases p)
  have ih: "clean_kvs vs" "k0 \<notin> set (map fst vs)" "clean_key k0" "clean_val v0"
    using Cons.prems by (auto simp: clean_kvs_def p)
  have "conf_line (add_line k0 v0 []) = Some (k0, v0)" by (rule conf_line_written) (use ih in auto)
  then have l: "conf_line (k0 @ CHR ''='' # v0) = Some (k0, v0)" by (simp add: add_line_def)
  have "map_of vs k0 = None" using ih(2) by (auto simp: map_of_eq_None_iff)
  then show ?case using Cons.IH [OF ih(1)] l by (auto simp: p split: option.splits)
qed simp

lemma add_out_key_entries:
  assumes "clean_kvs vs" "add_out vs ow ls = Inr out"
  shows "key_entries k out = (case map_of vs k of Some v \<Rightarrow> [(k, v)] | None \<Rightarrow> key_entries k ls)"
proof -
  from assms(2) obtain o1 w where o: "add_lines vs ow [] ls = Inr (o1, w)"
    "out = o1 @ map (\<lambda>(k, v). k @ ''='' @ v) (filter (\<lambda>(k, v). k \<notin> set w) vs)"
    by (auto simp: add_out_def bindE_Inr_iff)
  note a = add_lines_keys [OF assms(1) o(1), of k]
  show ?thesis unfolding o(2) key_entries_simps key_entries_new [OF assms(1)]
    using a by (auto split: option.splits)
qed

section \<open>Reading back what was written\<close>

lemma fgets1_plain: "CHR 0x0A \<notin> set l \<Longrightarrow> length l \<le> n \<Longrightarrow> fgets1 n l = (l, [])"
proof (induction l arbitrary: n)
  case Nil
  then show ?case by (cases n) auto
next
  case (Cons c l)
  then obtain m where "n = Suc m" by (cases n) auto
  then show ?case using Cons by auto
qed

lemma fgets_all_append_lines:
  "\<forall>l \<in> set ls. CHR 0x0A \<notin> set l \<and> length l \<le> n \<Longrightarrow>
   fgets_all n (concat (map nlline ls) @ t) = map nlline ls @ fgets_all n t"
proof (induction ls)
  case (Cons l ls)
  have "fgets1 (Suc n) (nlline l @ concat (map nlline ls) @ t) = (nlline l, concat (map nlline ls) @ t)"
    by (rule fgets1_nlline) (use Cons.prems in auto)
  then show ?case using Cons by (simp add: fgets_all.simps [of n "nlline l @ _"]) (simp add: nlline_def)
qed simp

lemma fgets_all_plain:
  "CHR 0x0A \<notin> set l \<Longrightarrow> length l \<le> n \<Longrightarrow> fgets_all n l = (if l = [] then [] else [l])"
  using fgets1_plain [of l "Suc n"] by (simp add: fgets_all.simps [of n l] fgets_all.simps [of n "[]"])

lemma write_lines_ok:
  "write_lines b ls = (s, True) \<Longrightarrow>
   s = concat (map nlline ls) \<or> (\<exists>xs l m. ls = xs @ l # replicate m [] \<and> s = concat (map nlline xs) @ l)"
proof (induction b ls arbitrary: s rule: write_lines.induct)
  case (2 b l ls)
  have full: "write_lines 0 ls = (r, True) \<Longrightarrow> ls = replicate (length ls) [] \<and> r = []" for ls r
  proof (induction ls arbitrary: r)
    case (Cons l ls)
    then have "l = []" by (cases l) simp_all
    with Cons show ?case by (cases "write_lines 0 ls") simp
  qed simp
  show ?case
  proof (cases "b = length l")
    case True
    then obtain r where "write_lines 0 ls = (r, True)" "s = l @ r"
      using 2(2) by (auto split: prod.splits)
    then have "l # ls = [] @ l # replicate (length ls) [] \<and> s = concat (map nlline []) @ l" using full by auto
    then show ?thesis by blast
  next
    case False
    then obtain r where r: "write_lines (b - length l - 1) ls = (r, True)" "s = nlline l @ r"
      using 2(2) by (auto split: prod.splits if_splits simp: nlline_def)
    have "\<not> b < length l" using 2(2) by (auto split: if_splits)
    from 2(1) [OF this refl] r(1) False
    consider "r = concat (map nlline ls)"
      | xs l' m where "ls = xs @ l' # replicate m []" "r = concat (map nlline xs) @ l'" by auto
    then show ?thesis
    proof cases
      case 1
      then show ?thesis using r(2) by simp
    next
      case 2
      then have "l # ls = (l # xs) @ l' # replicate m [] \<and> s = concat (map nlline (l # xs)) @ l'"
        using r(2) by simp
      then show ?thesis by blast
    qed
  qed
qed simp

definition line_ok :: "string \<Rightarrow> bool" where
  "line_ok l = (CHR 0x0A \<notin> set l \<and> CHR 0x00 \<notin> set l \<and> length l \<le> 254)"

lemma cstr_id: "CHR 0x00 \<notin> set l \<Longrightarrow> cstr l = l" "CHR 0x00 \<notin> set l \<Longrightarrow> cstr (nlline l) = nlline l"
proof -
  show a: "CHR 0x00 \<notin> set l \<Longrightarrow> cstr l = l" for l
    by (simp add: cstr_def takeWhile_eq_all_conv) blast
  show "CHR 0x00 \<notin> set l \<Longrightarrow> cstr (nlline l) = nlline l" by (rule a) (simp add: nlline_def)
qed

lemma conf_line_nlline: "conf_line (nlline l) = conf_line l"
  unfolding nlline_def by (rule conf_line_blank) auto

lemma kv_entries_nlline: "kv_entries (map nlline ls) = kv_entries ls"
  by (induction ls) (auto simp: conf_line_nlline split: option.splits)

lemma conf_line_Nil [simp]: "conf_line [] = None"
  by (simp add: conf_line_def before_def)

lemma kv_entries_replicate_Nil [simp]: "kv_entries (replicate m []) = []"
  by (induction m) auto

lemma reread_entries:
  assumes "\<forall>l \<in> set ls. line_ok l" "write_lines b ls = (s, True)"
  shows "kv_entries (file_lines (Some s)) = kv_entries ls"
proof -
  have cs: "map cstr (map nlline xs) = map nlline xs" if "\<forall>l \<in> set xs. line_ok l" for xs
    using that by (induction xs) (auto simp: line_ok_def cstr_id)
  from write_lines_ok [OF assms(2)] consider "s = concat (map nlline ls)"
    | xs l m where "ls = xs @ l # replicate m []" "s = concat (map nlline xs) @ l" by blast
  then show ?thesis
  proof cases
    case 1
    have "fgets_all 254 s = map nlline ls" unfolding 1
      by (rule fgets_all_lines) (use assms(1) in \<open>auto simp: line_ok_def\<close>)
    then show ?thesis using cs [OF assms(1)] by (simp only: file_lines_def option.case kv_entries_nlline)
  next
    case 2
    have ok: "\<forall>l \<in> set xs. line_ok l" "line_ok l" using assms(1) 2(1) by auto
    have "fgets_all 254 s = map nlline xs @ fgets_all 254 l" unfolding 2(2)
      by (rule fgets_all_append_lines) (use ok in \<open>auto simp: line_ok_def\<close>)
    also have "fgets_all 254 l = (if l = [] then [] else [l])"
      by (rule fgets_all_plain) (use ok in \<open>auto simp: line_ok_def\<close>)
    finally have "kv_entries (map cstr (fgets_all 254 s)) = kv_entries xs @ kv_entries (if l = [] then [] else [l])"
      using cs [OF ok(1)] ok(2) by (simp add: cstr_id line_ok_def kv_entries_nlline del: map_map)
    then show ?thesis unfolding 2(1) file_lines_def by (simp split: option.splits)
  qed
qed

lemma fgets1_newline: "fgets1 n s = (a, b) \<Longrightarrow> CHR 0x0A \<notin> set (butlast a)"
proof (induction n s arbitrary: a b rule: fgets1.induct)
  case (3 n c s)
  then show ?case by (cases "fgets1 n s") (auto split: if_splits)
qed auto

lemma fgets_all_newline: "l \<in> set (fgets_all n s) \<Longrightarrow> CHR 0x0A \<notin> set (butlast l)"
proof (induction n s rule: fgets_all.induct)
  case (1 n s)
  obtain a b where ab: "fgets1 (Suc n) s = (a, b)" by (cases "fgets1 (Suc n) s")
  show ?case
  proof (cases "s = []")
    case True
    then show ?thesis using 1(2) by (simp add: fgets_all.simps [of n "[]"])
  next
    case False
    then have "l = a \<or> l \<in> set (fgets_all n b)" using 1(2) ab by (simp add: fgets_all.simps [of n s])
    then show ?thesis using fgets1_newline [OF ab] 1(1) [OF False ab [symmetric] refl] by blast
  qed
qed

lemma set_takeWhile_butlast: "x \<in> set (butlast (takeWhile P l)) \<Longrightarrow> x \<in> set (butlast l)"
  by (induction l) (auto split: if_splits)

lemma chomp_no_newline:
  assumes "CHR 0x0A \<notin> set (butlast l)" shows "CHR 0x0A \<notin> set (chomp l)"
proof (cases l rule: rev_cases)
  case (snoc u c)
  have sub: "set (dropWhile P xs) \<subseteq> set xs" for P and xs :: string by (meson set_dropWhileD subsetI)
  show ?thesis
  proof (cases "c = CHR 0x0A \<or> c = CHR 0x0D")
    case True
    then have "set (chomp l) \<subseteq> set u"
      using sub [of _ "rev u"] by (auto simp: chomp_def snoc)
    then show ?thesis using assms snoc by auto
  next
    case False
    then have "chomp l = l" by (auto simp: chomp_def snoc)
    then show ?thesis using assms snoc False by auto
  qed
qed (simp add: chomp_def)

lemma chomp_sub: "set (chomp l) \<subseteq> set l" "length (chomp l) \<le> length l"
proof -
  show "set (chomp l) \<subseteq> set l" unfolding chomp_def by (metis set_dropWhileD set_rev subsetI)
  show "length (chomp l) \<le> length l" unfolding chomp_def
    by (metis length_dropWhile_le length_rev)
qed

lemma file_lines_ok:
  assumes "l \<in> set (file_lines fs)" "length l \<le> 254" shows "line_ok (chomp l)"
proof -
  from assms(1) obtain s l0 where "fs = Some s" "l0 \<in> set (fgets_all 254 s)" "l = cstr l0"
    by (auto simp: file_lines_def split: option.splits)
  moreover from this have "CHR 0x0A \<notin> set (butlast l)" "CHR 0x00 \<notin> set l"
    using fgets_all_newline set_takeWhile_butlast unfolding cstr_def by (fastforce dest: set_takeWhileD)+
  ultimately show ?thesis
    using chomp_no_newline [of l] chomp_sub [of l] assms(2) by (auto simp: line_ok_def)
qed

definition fits :: "(string \<times> string) list \<Rightarrow> string list \<Rightarrow> bool" where
  \<comment> \<open>no line of the new file is longer than the line buffer\<close>
  "fits vs ls = ((\<forall>l \<in> set ls. length l \<le> 254) \<and> (\<forall>(k, v) \<in> set vs. length k + length v \<le> 253) \<and>
     (\<forall>l \<in> set ls. \<forall>(k, v) \<in> set vs. length l + length k + length v \<le> 251))"

lemma add_line_ok:
  assumes "clean_key k" "clean_val v" "line_ok l" "length l + length k + length v \<le> 251"
  shows "line_ok (add_line k v (dropWhile (\<lambda>c. c \<noteq> CHR ''#'') l))"
proof -
  have "set (dropWhile (\<lambda>c. c \<noteq> CHR ''#'') l) \<subseteq> set l" by (meson set_dropWhileD subsetI)
  moreover have "length (dropWhile (\<lambda>c. c \<noteq> CHR ''#'') l) \<le> length l" by (rule length_dropWhile_le)
  ultimately show ?thesis
    using assms unfolding line_ok_def add_line_def clean_key_def clean_val_def by auto
qed

lemma add_lines_ok:
  assumes "clean_kvs vs" "\<forall>l \<in> set ls. line_ok l" "\<forall>l \<in> set ls. \<forall>(k, v) \<in> set vs. length l + length k + length v \<le> 251"
  shows "add_lines vs ow w ls = Inr (out, w') \<Longrightarrow> \<forall>l \<in> set out. line_ok l"
  using assms(2,3)
proof (induction ls arbitrary: w out)
  case (Cons l ls)
  have al: "line_ok (add_line k v (dropWhile (\<lambda>c. c \<noteq> CHR ''#'') l))" if "map_of vs k = Some v" for k v
    using clean_kvs_of [OF assms(1) that] Cons.prems(2,3) map_of_SomeD [OF that]
    by (intro add_line_ok) auto
  show ?case using Cons.IH Cons.prems al
    by (auto simp: Let_def bindE_Inr_iff split: if_splits option.splits)
qed simp

lemma add_out_ok:
  assumes "clean_kvs vs" "fits vs ls" "\<forall>l \<in> set ls. line_ok l" "add_out vs ow ls = Inr out"
  shows "\<forall>l \<in> set out. line_ok l"
proof -
  from assms(4) obtain o1 w where o: "add_lines vs ow [] ls = Inr (o1, w)"
    "out = o1 @ map (\<lambda>(k, v). k @ ''='' @ v) (filter (\<lambda>(k, v). k \<notin> set w) vs)"
    by (auto simp: add_out_def bindE_Inr_iff)
  have "\<forall>l \<in> set o1. line_ok l"
    by (rule add_lines_ok [OF assms(1,3) _ o(1)]) (use assms(2) in \<open>simp add: fits_def\<close>)
  moreover have "line_ok (k @ ''='' @ v)" if "(k, v) \<in> set vs" for k v
    using that assms(1,2) by (auto simp: line_ok_def clean_kvs_def fits_def clean_key_def clean_val_def)
  ultimately show ?thesis unfolding o(2) by auto
qed

lemma fits_chomp: "fits vs ls \<Longrightarrow> fits vs (map chomp ls)"
proof -
  assume f: "fits vs ls"
  have "length (chomp l) \<le> 254" if "l \<in> set ls" for l
    using f that chomp_sub(2) [of l] by (auto simp: fits_def)
  moreover have "length (chomp l) + length k + length v \<le> 251" if "l \<in> set ls" "(k, v) \<in> set vs" for l k v
    using f that chomp_sub(2) [of l] by (fastforce simp: fits_def)
  moreover have "length k + length v \<le> 253" if "(k, v) \<in> set vs" for k v
    using f that by (auto simp: fits_def)
  ultimately show ?thesis by (auto simp: fits_def)
qed

section \<open>Properties\<close>

lemma conf_add_reread:
  assumes "clean_kvs vs" "fits vs (file_lines fs)" "conf_add io vs ow fs (conf_open fs) = (Inr True, fs', c')"
  shows "conf_find k (conf_open fs') =
           (case map_of vs k of Some v \<Rightarrow> Some v | None \<Rightarrow> conf_find k (conf_open fs)) \<and>
         conf_find k c' = conf_find k (conf_open fs') \<and>
         (k \<in> fst ` set vs \<longrightarrow> length (filter (\<lambda>e. fst e = k) (kv_entries (file_lines fs'))) = 1)"
proof -
  let ?ls = "map chomp (file_lines fs)"
  from assms(3) obtain out where out: "add_out vs ow ?ls = Inr out"
    by (auto simp: conf_add_def split: sum.splits)
  with assms(3) have sv: "save_lines io out fs = (True, fs')" "c' = fold (\<lambda>(k, v). conf_set k v) vs (conf_open fs)"
    by (auto simp: conf_add_def split: prod.splits)
  then obtain s where s: "write_lines (io_space io) out = (s, True)" "fs' = Some s"
    by (auto simp: save_lines_def split: if_splits prod.splits)
  have lok: "\<forall>l \<in> set ?ls. line_ok l" using assms(2) file_lines_ok by (auto simp: fits_def)
  have ok: "\<forall>l \<in> set out. line_ok l" by (rule add_out_ok [OF assms(1) fits_chomp [OF assms(2)] lok out])
  have ke: "key_entries k (file_lines fs') = key_entries k out" for k
    unfolding s(2) key_entries_def reread_entries [OF ok s(1)] ..
  have old: "key_entries k ?ls = key_entries k (file_lines fs)" for k
    by (simp add: key_entries_def kv_entries_chomp)
  note new = ke [of k] add_out_key_entries [OF assms(1) out, of k] old [of k]
  have f: "conf_find k (conf_open fs') = (case map_of vs k of Some v \<Rightarrow> Some v | None \<Rightarrow> conf_find k (conf_open fs))"
    unfolding conf_find_key_entries new by (auto split: option.splits)
  moreover have "distinct (map fst vs)" using assms(1) by (simp add: clean_kvs_def)
  moreover have "k \<in> fst ` set vs \<longrightarrow> (\<exists>v. map_of vs k = Some v)"
    by (metis domIff dom_map_of_conv_image_fst not_None_eq)
  ultimately show ?thesis using new(1,2)
    by (auto simp: sv(2) conf_find_fold_set key_entries_def)
qed



text \<open>without the overwrite flag a rewrite throws exactly when the file on the device already defines
  one of the keys, and then neither the file nor the object has changed.\<close>
theorem conf_add_no_overwrite:
  "case conf_add io vs False fs c of
     (Inl e, fs', c') \<Rightarrow> fs' = fs \<and> c' = c \<and> list_ex (\<lambda>(k, v). conf_find k (conf_open fs) \<noteq> None) vs
   | (Inr ok, fs', c') \<Rightarrow> \<not> list_ex (\<lambda>(k, v). conf_find k (conf_open fs) \<noteq> None) vs"
proof -
  let ?ls = "map chomp (file_lines fs)"
  have nil: "key_entries k ls = [] \<longleftrightarrow> map_of (rev (key_entries k ls)) k = None" for k ls
  proof -
    have "\<forall>e \<in> set (key_entries k ls). fst e = k" by (auto simp: key_entries_def)
    then show ?thesis by (cases "key_entries k ls") (auto simp: map_of_eq_None_iff)
  qed
  have old: "key_entries k ?ls = key_entries k (file_lines fs)" for k
    by (simp add: key_entries_def kv_entries_chomp)
  have go: "(\<exists>e. add_lines vs False w ls = Inl e) \<longleftrightarrow> (\<exists>k. map_of vs k \<noteq> None \<and> key_entries k ls \<noteq> [])" for w ls
  proof (induction ls)
    case (Cons l ls)
    show ?case
    proof (cases "CHR ''='' \<in> set (before CHR ''#'' l)")
      case False
      then show ?thesis using Cons by (auto simp: conf_line_code Let_def split: sum.splits)
    next
      case True
      let ?k = "trim (before CHR ''='' (before CHR ''#'' l))"
      show ?thesis
      proof (cases "map_of vs ?k")
        case None
        then have "key_entries k (l # ls) = key_entries k ls" if "map_of vs k \<noteq> None" for k
          using True that by (auto simp: conf_line_code)
        then show ?thesis using Cons None True by (auto simp: Let_def split: sum.splits)
      next
        case (Some v)
        moreover have "key_entries ?k (l # ls) \<noteq> []" using True by (simp add: conf_line_code)
        ultimately show ?thesis using True by (auto simp: Let_def simp del: key_entries_simps)
      qed
    qed
  qed simp
  have lex: "(\<exists>k. map_of vs k \<noteq> None \<and> Q k) \<longleftrightarrow> list_ex (\<lambda>(k, v). Q k) vs" for Q
    by (force simp: map_of_eq_None_iff list_ex_iff)
  have ex: "(\<exists>k. map_of vs k \<noteq> None \<and> key_entries k ?ls \<noteq> []) \<longleftrightarrow>
      list_ex (\<lambda>(k, v). conf_find k (conf_open fs) \<noteq> None) vs"
    unfolding conf_find_key_entries old nil [of _ "file_lines fs"] by (rule lex)
  have "(\<exists>e. add_out vs False ?ls = Inl e) \<longleftrightarrow> (\<exists>e. add_lines vs False [] ?ls = Inl e)"
    by (auto simp: add_out_def split: sum.splits)
  also have "\<dots> \<longleftrightarrow> list_ex (\<lambda>(k, v). conf_find k (conf_open fs) \<noteq> None) vs"
    unfolding go by (rule ex)
  finally show ?thesis
    by (cases "add_out vs False ?ls") (simp_all add: conf_add_def split: prod.splits)
qed

text \<open>\<open>addFast\<close> cannot store an empty value: on a device with room it writes the line break, the key
  and the equals sign, then takes the zero-length \<open>fwrite\<close> for a short write and reports failure, leaving
  a half-written entry that the typed getters reject at the next boot.\<close>
theorem conf_addFast_empty_value:
  assumes "io_can_write io" "length k + 2 \<le> io_space io" "k \<noteq> []" "ow \<or> conf_find k c = None"
  shows "conf_addFast io [(k, [])] ow fs c =
      (Inr False, Some ((case fs of None \<Rightarrow> [] | Some t \<Rightarrow> t) @ [CHR 0x0A] @ k @ ''=''), c) \<and>
    conf_getX k x m f nd (conf_set k [] c) = Inl (Throw (''empty value for key: '' @ k))"
  using assms by (auto simp: conf_addFast_def fwrite_ok_def Let_def conf_getX_def)

lemma conf_addFast_empty_value_witness:
  "conf_addFast \<lparr>io_can_write = True, io_space = 50, io_sync = True\<rparr> [(''topic'', [])] False (Some ''a=1'')
     (conf_open (Some ''a=1'')) = (Inr False, Some ''a=1\<newline>topic='', conf_open (Some ''a=1''))"
proof -
  have "conf_find ''topic'' (conf_open (Some ''a=1'')) = None" by code_simp
  then show ?thesis
    using conf_addFast_empty_value [THEN conjunct1, of "\<lparr>io_can_write = True, io_space = 50, io_sync = True\<rparr>" "''topic''" False
        "conf_open (Some ''a=1'')" "Some ''a=1''"] by simp
qed

end
