(* ===== verification/Charger.thy ===== *)
theory Charger
  imports Conf Coulomb Glide
begin

text \<open>
  \<open>src/src/charger.h\<close>: battery parameters (\<open>BatChargerParams::load\<close>), the BMS data snapshot
  (\<open>BatteryState\<close>), the charge termination state machine (\<open>Li_ChgTerminationCondition\<close>) and the
  pack voltage pinning of \<open>BatteryCharger\<close>. \<open>wallClockUs()\<close> is the argument \<open>now\<close>.
\<close>

section \<open>Parameters\<close>

record bparams =
  bp_Vbat_max :: fl
  bp_Vbat_fallback :: fl
  bp_Ibat_lim :: fl
  bp_Cbat :: fl
  bp_cv_min :: fl
  bp_cv_eoc :: fl
  bp_cv_ceiling :: fl
  bp_n_cells :: u8
  bp_tail_c_rate :: fl
  bp_recharge_dod :: fl
  bp_recharge_vfloor_band :: fl
  bp_vout_offset_max :: fl

definition bparams_new :: bparams where
  "bparams_new = \<lparr>bp_Vbat_max = NaN, bp_Vbat_fallback = NaN, bp_Ibat_lim = NaN, bp_Cbat = NaN,
     bp_cv_min = NaN, bp_cv_eoc = NaN, bp_cv_ceiling = NaN, bp_n_cells = 0,
     bp_tail_c_rate = f32 (1 / 20), bp_recharge_dod = f32 (1 / 5), bp_recharge_vfloor_band = f32 (1 / 20),
     bp_vout_offset_max = f32 (3 / 5)\<rparr>"

definition haveVbatMax :: "bparams \<Rightarrow> bool" where
  "haveVbatMax p = (isfinite (bp_Vbat_max p) \<and> fgt (bp_Vbat_max p) (Fin 0))"

definition floorf :: "fl \<Rightarrow> fl" where
  "floorf x = (case x of Fin q \<Rightarrow> Fin (of_int \<lfloor>q\<rfloor>) | _ \<Rightarrow> x)"

definition bparams_load :: "conf \<Rightarrow> bparams \<Rightarrow> bparams res" where
  "bparams_load c p =
    bindE (conf_getFloat ''vout_max'' NaN c) (\<lambda>vmax.
    bindE (conf_getFloat ''cv_eoc'' (f32 (7 / 2)) c) (\<lambda>eoc.
    bindE (conf_getFloat ''cv_float'' (f32 (3325 / 1000)) c) (\<lambda>cvmin.
    bindE (assert_throw (fge eoc cvmin) ''cv_eoc must be >= cv_min'') (\<lambda>_.
    bindE (conf_getFloat ''cv_ceiling'' (fadd eoc (f32 (1 / 20))) c) (\<lambda>ceil.
    bindE (assert_throw (fge ceil eoc) ''cv_ceiling must be >= cv_eoc'') (\<lambda>_.
    bindE (assert_throw (isfinite vmax \<and> fgt vmax (Fin 0)) ''vout_max must be a positive finite voltage'') (\<lambda>_.
    bindE (cast_int 0 255 (floorf (fdiv vmax eoc))) (\<lambda>n.
    bindE (assert_throw (n > 0) ''vout_max must be >= cv_eoc (could not determine cell count)'') (\<lambda>_.
    bindE (conf_getFloat ''vout_max_fallback'' (fmul (to_float n) cvmin) c) (\<lambda>fallback.
    bindE (conf_getFloat ''ibat_max'' (Fin 20) c) (\<lambda>ilim.
    bindE (conf_getFloat ''bat_c'' NaN c) (\<lambda>cbat.
    bindE (conf_getFloat ''tail_c_rate'' (f32 (1 / 20)) c) (\<lambda>tail.
    bindE (assert_throw (fgt tail (Fin 0)) ''tail_c_rate must be > 0'') (\<lambda>_.
    bindE (conf_getFloat ''recharge_dod'' (f32 (1 / 5)) c) (\<lambda>dod.
    bindE (conf_getFloat ''recharge_vfloor_band'' (f32 (1 / 20)) c) (\<lambda>band.
    bindE (assert_throw (fge band (Fin 0)) ''recharge_vfloor_band must be >= 0'') (\<lambda>_.
    bindE (conf_getFloat ''vout_offset_max'' (f32 (3 / 5)) c) (\<lambda>off.
    bindE (assert_throw (fge off (Fin 0)) ''vout_offset_max must be >= 0'') (\<lambda>_.
      Inr (p\<lparr>bp_Vbat_max := vmax, bp_cv_eoc := eoc, bp_cv_min := cvmin, bp_cv_ceiling := ceil,
        bp_n_cells := word_of_int n, bp_Vbat_fallback := fallback, bp_Ibat_lim := ilim, bp_Cbat := cbat,
        bp_tail_c_rate := tail, bp_recharge_dod := dod, bp_recharge_vfloor_band := band,
        bp_vout_offset_max := off\<rparr>))))))))))))))))))))"

section \<open>BMS data\<close>

record batstate =
  bs_vcell_high :: fl
  bs_vcell_high_t :: u32
  bs_vout_avg :: ewma
  bs_cc :: coulomb
  bs_ibatEwma :: ewma
  bs_ibatSamples :: u16
  bs_ibatSmoothed :: fl

definition batstate_new :: batstate where
  "batstate_new = \<lparr>bs_vcell_high = Fin 0, bs_vcell_high_t = 0, bs_vout_avg = ewma_new 60, bs_cc = cc_new,
     bs_ibatEwma = ewma_new 8, bs_ibatSamples = 0, bs_ibatSmoothed = NaN\<rparr>"

definition setVcellHigh :: "fl \<Rightarrow> u64 \<Rightarrow> batstate \<Rightarrow> batstate" where
  "setVcellHigh v now b = b\<lparr>bs_vcell_high := v, bs_vcell_high_t := ucast now\<rparr>"

definition haveValidCellVoltage :: "u64 \<Rightarrow> batstate \<Rightarrow> bool" where
  "haveValidCellVoltage now b =
    (fgt (bs_vcell_high b) (Fin 0) \<and> uint (ucast now - bs_vcell_high_t b) < 180000000)"

definition updateBatCurrent :: "fl \<Rightarrow> u64 \<Rightarrow> batstate \<Rightarrow> batstate" where
  "updateBatCurrent ibat now b =
    (let e = ewma_add ibat (bs_ibatEwma b);
         n = (if uint (bs_ibatSamples b) < 8 then bs_ibatSamples b + 1 else bs_ibatSamples b)
     in b\<lparr>bs_ibatEwma := e, bs_ibatSamples := n,
          bs_ibatSmoothed := (if 8 \<le> uint n then ewma_get e else bs_ibatSmoothed b),
          bs_cc := cc_update ibat now (bs_cc b)\<rparr>)"

definition batstate_update :: "fl \<Rightarrow> batstate \<Rightarrow> batstate" where
  "batstate_update vout b = b\<lparr>bs_vout_avg := ewma_add vout (bs_vout_avg b)\<rparr>"

section \<open>Termination\<close>

record chgterm =
  tm_terminated :: bool
  tm_v_term :: fl
  tm_vfloorStreak :: u8
  tm_ceilStreak :: u8

definition term_new :: "bparams \<Rightarrow> chgterm" where
  "term_new p = \<lparr>tm_terminated = False, tm_v_term = bp_cv_min p, tm_vfloorStreak = 0, tm_ceilStreak = 0\<rparr>"

definition term_reset :: "bparams \<Rightarrow> chgterm \<Rightarrow> chgterm" where
  "term_reset p t = t\<lparr>tm_terminated := False, tm_v_term := bp_cv_min p, tm_vfloorStreak := 0, tm_ceilStreak := 0\<rparr>"

definition below_floor :: "bparams \<Rightarrow> fl \<Rightarrow> bool" where
  "below_floor p vh = flt vh (fsub (bp_cv_min p) (bp_recharge_vfloor_band p))"

definition dod_reached :: "bparams \<Rightarrow> fl \<Rightarrow> bool" where
  "dod_reached p ah = (isfinite (bp_Cbat p) \<and> fgt (bp_recharge_dod p) (Fin 0) \<and>
     fgt ah (fmul (bp_recharge_dod p) (bp_Cbat p)))"

definition shouldRelease :: "bparams \<Rightarrow> fl \<Rightarrow> fl \<Rightarrow> chgterm \<Rightarrow> bool \<times> chgterm" where
  "shouldRelease p vh ah t =
    (if below_floor p vh then
       (let t1 = t\<lparr>tm_vfloorStreak := tm_vfloorStreak t + 1\<rparr>
        in if 4 \<le> uint (tm_vfloorStreak t1) then (True, t1\<lparr>tm_vfloorStreak := 0\<rparr>)
           else (dod_reached p ah, t1))
     else (dod_reached p ah, t\<lparr>tm_vfloorStreak := 0\<rparr>))"

definition term_line :: "bparams \<Rightarrow> fl \<Rightarrow> fl" where
  "term_line p ibat =
    (let r = fdiv (fsub (bp_cv_eoc p) (bp_cv_min p)) (fmul (bp_tail_c_rate p) (bp_Cbat p));
         vo = fmul ibat r
     in fminf (fadd (bp_cv_min p) (fmaxf (Fin 0) vo)) (bp_cv_eoc p))"

definition over_ceiling :: "bparams \<Rightarrow> fl \<Rightarrow> bool" where
  "over_ceiling p vh = (isfinite (bp_cv_ceiling p) \<and> fge vh (bp_cv_ceiling p))"

definition over_line :: "bparams \<Rightarrow> fl \<Rightarrow> fl \<Rightarrow> bool" where
  "over_line p vh ibat =
    (fgt ibat (fmul (fmul (fneg (bp_tail_c_rate p)) (bp_Cbat p)) (f32 (1 / 50))) \<and> fgt vh (term_line p ibat))"

definition term_update :: "bparams \<Rightarrow> fl \<Rightarrow> fl \<Rightarrow> fl \<Rightarrow> chgterm \<Rightarrow> chgterm" where
  "term_update p vh ibat ah t =
    (let t1 = t\<lparr>tm_v_term := term_line p ibat\<rparr>;
         t2 = (if \<not> tm_terminated t1 \<and> over_ceiling p vh then t1\<lparr>tm_ceilStreak := tm_ceilStreak t1 + 1\<rparr>
               else t1\<lparr>tm_ceilStreak := 0\<rparr>);
         latch = (\<not> tm_terminated t1 \<and> over_ceiling p vh \<and> 2 \<le> uint (tm_ceilStreak t2))
     in if \<not> tm_terminated t2 \<and> (latch \<or> over_line p vh ibat)
        then t2\<lparr>tm_terminated := True, tm_vfloorStreak := 0, tm_ceilStreak := 0\<rparr>
        else if tm_terminated t2 then
          (let (rel, t3) = shouldRelease p vh ah t2 in if rel then t3\<lparr>tm_terminated := False\<rparr> else t3)
        else t2)"

section \<open>The charger\<close>

record charger =
  ch_vpack_pin :: fl
  ch_ioutLim :: fl
  ch_vPinFilt :: fl
  ch_fallbackGlide :: glide
  ch_floatGlide :: glide
  ch_wasTerminated :: bool
  ch_lastBmsFrameUs :: u32
  ch_bmsCellSource :: bool
  ch_termDecided :: bool
  ch_params :: bparams
  ch_term :: chgterm
  ch_bat :: batstate

definition charger_new :: charger where
  "charger_new = \<lparr>ch_vpack_pin = NaN, ch_ioutLim = NaN, ch_vPinFilt = NaN,
     ch_fallbackGlide = glide_new 5000000, ch_floatGlide = glide_new 5000000, ch_wasTerminated = False,
     ch_lastBmsFrameUs = 0, ch_bmsCellSource = False, ch_termDecided = False, ch_params = bparams_new,
     ch_term = term_new bparams_new, ch_bat = batstate_new\<rparr>"

definition ch_begin :: "conf \<Rightarrow> charger \<Rightarrow> charger res" where
  "ch_begin c ch = bindE (bparams_load c (ch_params ch)) (\<lambda>p.
     Inr (ch\<lparr>ch_params := p, ch_term := term_reset p (ch_term ch)\<rparr>))"

definition ch_updateTermination :: "u64 \<Rightarrow> charger \<Rightarrow> charger" where
  "ch_updateTermination now ch =
    (let b = ch_bat ch in
     if \<not> haveValidCellVoltage now b then ch
     else if \<not> isfinite (bs_ibatSmoothed b) then ch
     else let t = term_update (ch_params ch) (bs_vcell_high b) (bs_ibatSmoothed b)
                    (cc_ahSinceFull (bs_cc b)) (ch_term ch);
              b' = (if \<not> tm_terminated (ch_term ch) \<and> tm_terminated t
                    then b\<lparr>bs_cc := cc_markFull (bs_cc b)\<rparr> else b)
          in ch\<lparr>ch_term := t, ch_termDecided := True, ch_bat := b', ch_ioutLim := NaN\<rparr>)"

definition ch_releaseVoutPinning :: "charger \<Rightarrow> bool \<times> charger" where
  "ch_releaseVoutPinning ch =
    (let p = ch_params ch;
         target = (if isfinite (bp_Vbat_max p) then bp_Vbat_max p else bp_Vbat_fallback p);
         changed = (\<not> isfinite (ch_vpack_pin ch) \<or> fgt (fabs (fsub (ch_vpack_pin ch) target)) (f32 (1 / 100)) \<or>
                    glide_active (ch_fallbackGlide ch) \<or> glide_active (ch_floatGlide ch))
     in (changed, ch\<lparr>ch_vpack_pin := target, ch_ioutLim := NaN, ch_vPinFilt := NaN,
          ch_fallbackGlide := glide_reset (ch_fallbackGlide ch),
          ch_floatGlide := glide_reset (ch_floatGlide ch), ch_wasTerminated := False\<rparr>))"

definition ch_batDataOk :: "u64 \<Rightarrow> charger \<Rightarrow> bool" where
  "ch_batDataOk now ch = (haveValidCellVoltage now (ch_bat ch) \<and> isfinite (bp_Cbat (ch_params ch)))"

definition ch_v_eoc :: "charger \<Rightarrow> fl" where
  "ch_v_eoc ch = fminf (bp_cv_eoc (ch_params ch)) (tm_v_term (ch_term ch))"

definition ch_pin_floor :: "charger \<Rightarrow> fl" where
  "ch_pin_floor ch = fsub (bp_Vbat_fallback (ch_params ch)) (bp_vout_offset_max (ch_params ch))"

definition ch_yield :: "charger \<Rightarrow> charger" where
  \<comment> \<open>no authority over the bus\<close>
  "ch_yield ch =
    (if tm_terminated (ch_term ch)
     then ch\<lparr>ch_vpack_pin := ch_pin_floor ch, ch_ioutLim := NaN, ch_vPinFilt := NaN,
            ch_fallbackGlide := glide_reset (ch_fallbackGlide ch),
            ch_floatGlide := glide_reset (ch_floatGlide ch), ch_wasTerminated := tm_terminated (ch_term ch)\<rparr>
     else snd (ch_releaseVoutPinning ch))"

definition ch_float_edge :: "u64 \<Rightarrow> charger \<Rightarrow> charger" where
  \<comment> \<open>start the glide of a termination transition\<close>
  "ch_float_edge now ch =
    (let p = ch_params ch; nowTerm = tm_terminated (ch_term ch) in
     if nowTerm \<noteq> ch_wasTerminated ch
     then ch\<lparr>ch_floatGlide := glide_start (if isfinite (ch_vpack_pin ch) then ch_vpack_pin ch else bp_Vbat_fallback p)
              (if nowTerm then bp_Vbat_fallback p else bp_Vbat_max p) now (ch_floatGlide ch),
            ch_wasTerminated := nowTerm\<rparr>
     else ch)"

definition ch_eoc_feedback :: "fl \<Rightarrow> charger \<Rightarrow> charger" where
  "ch_eoc_feedback vbat ch =
    (let p = ch_params ch; b = ch_bat ch;
         ch1 = ch\<lparr>ch_fallbackGlide := glide_reset (ch_fallbackGlide ch),
                  ch_floatGlide := glide_reset (ch_floatGlide ch)\<rparr>;
         fr = bs_vcell_high_t b
     in if fr \<noteq> ch_lastBmsFrameUs ch \<or> isnan (ch_vpack_pin ch) then
          (let base = (if isfinite (ch_vpack_pin ch) then ch_vpack_pin ch
                       else fminf (ewma_get (bs_vout_avg b)) vbat);
               raw = fmaxf (fsub base (fmul (fmul (fsub (bs_vcell_high b) (ch_v_eoc ch))
                       (to_float (uint (bp_n_cells p)))) (Fin 1))) (ch_pin_floor ch);
               y = ewman_add 4 raw (ch_vPinFilt ch)
           in ch1\<lparr>ch_lastBmsFrameUs := fr, ch_vPinFilt := y, ch_vpack_pin := y\<rparr>)
        else ch1)"

definition ch_float_hold :: "u64 \<Rightarrow> charger \<Rightarrow> charger" where
  "ch_float_hold now ch =
    ch\<lparr>ch_vPinFilt := NaN, ch_fallbackGlide := glide_reset (ch_fallbackGlide ch),
       ch_vpack_pin := glide_value (ch_floatGlide ch) now\<rparr>"

definition ch_fallback :: "u64 \<Rightarrow> charger \<Rightarrow> charger" where
  "ch_fallback now ch =
    (let p = ch_params ch;
         g = (if \<not> glide_active (ch_fallbackGlide ch)
              then glide_start (if isfinite (ch_vpack_pin ch) then ch_vpack_pin ch else bp_Vbat_fallback p)
                     (bp_Vbat_fallback p) now (ch_fallbackGlide ch)
              else ch_fallbackGlide ch)
     in ch\<lparr>ch_vPinFilt := NaN, ch_floatGlide := glide_reset (ch_floatGlide ch), ch_fallbackGlide := g,
           ch_vpack_pin := glide_value g now\<rparr>)"

definition ch_bulk :: "u64 \<Rightarrow> charger \<Rightarrow> charger" where
  "ch_bulk now ch =
    ch\<lparr>ch_vPinFilt := NaN, ch_fallbackGlide := glide_reset (ch_fallbackGlide ch),
       ch_vpack_pin := (if glide_active (ch_floatGlide ch) then glide_value (ch_floatGlide ch) now
                        else bp_Vbat_max (ch_params ch))\<rparr>"

definition ch_updatePinning :: "bool \<Rightarrow> fl \<Rightarrow> u64 \<Rightarrow> charger \<Rightarrow> charger" where
  \<comment> \<open>\<open>balancingMode\<close> is the constant \<open>false\<close>\<close>
  "ch_updatePinning voutAuthority vbat now ch =
    (let ok = ch_batDataOk now ch in
     if \<not> voutAuthority \<and> ok then ch_yield ch
     else let ch1 = ch_float_edge now ch in
       if voutAuthority \<and> ok \<and> fge (bs_vcell_high (ch_bat ch1)) (ch_v_eoc ch1) then ch_eoc_feedback vbat ch1
       else if tm_terminated (ch_term ch1) \<and> ok then ch_float_hold now ch1
       else if \<not> ok \<and> fge (bp_Vbat_fallback (ch_params ch1)) (Fin 0) then ch_fallback now ch1
       else ch_bulk now ch1)"

definition ch_update :: "fl \<Rightarrow> bool \<Rightarrow> u64 \<Rightarrow> charger \<Rightarrow> charger" where
  "ch_update vout voutAuthority now ch =
    ch_updatePinning voutAuthority (Inf False) now
      (ch_updateTermination now (ch\<lparr>ch_bat := batstate_update vout (ch_bat ch)\<rparr>))"

definition ch_beginMqtt :: "conf \<Rightarrow> charger \<Rightarrow> charger" where
  \<comment> \<open>the state change of \<open>beginMqtt\<close>; the handlers it subscribes follow\<close>
  "ch_beginMqtt c ch =
    (if conf_getStringDef ''cell_voltages_max_topic'' [] c \<noteq> []
     then ch\<lparr>ch_bmsCellSource := True,
            ch_vpack_pin := (if fgt (bp_Vbat_fallback (ch_params ch)) (Fin 0)
                             then bp_Vbat_fallback (ch_params ch) else ch_vpack_pin ch)\<rparr>
     else ch)"

definition strntof :: "string \<Rightarrow> fl" where
  \<comment> \<open>\<open>src/src/util.cpp\<close>: the text up to the first zero byte or the end of the payload\<close>
  "strntof dat = (if dat = [] then NaN else fst (strtof (cstr dat)))"

definition ch_onCellVoltage :: "string \<Rightarrow> u64 \<Rightarrow> charger \<Rightarrow> charger" where
  "ch_onCellVoltage dat now ch = ch\<lparr>ch_bat := setVcellHigh (strntof dat) now (ch_bat ch)\<rparr>"

definition ch_onIbat :: "string \<Rightarrow> u64 \<Rightarrow> charger \<Rightarrow> charger" where
  "ch_onIbat dat now ch =
    (let i = strntof dat
     in if isfinite i then ch\<lparr>ch_bat := updateBatCurrent i now (ch_bat ch)\<rparr> else ch)"

definition ch_onIbatLim :: "string \<Rightarrow> charger \<Rightarrow> charger" where
  "ch_onIbatLim dat ch =
    (let v = strntof dat
     in if \<not> isfinite v \<or> flt v (Fin 0) then ch
     else ch\<lparr>ch_params := (ch_params ch)\<lparr>bp_Ibat_lim := v\<rparr>\<rparr>)"

definition ch_Vout_max :: "charger \<Rightarrow> fl" where
  "ch_Vout_max ch =
    (let vm = bp_Vbat_max (ch_params ch)
     in if fgt (ch_vpack_pin ch) (Fin 0) \<and> flt (ch_vpack_pin ch) vm then ch_vpack_pin ch else vm)"

definition ch_Iout_max :: "charger \<Rightarrow> fl" where
  "ch_Iout_max ch =
    (let lim = bp_Ibat_lim (ch_params ch)
     in if isfinite (ch_ioutLim ch) then std_min lim (ch_ioutLim ch) else lim)"

section \<open>Termination: lemmas\<close>

definition term_inv :: "chgterm \<Rightarrow> bool" where
  "term_inv t = (uint (tm_ceilStreak t) \<le> 1 \<and> uint (tm_vfloorStreak t) \<le> 3)"

lemma u8_suc: "uint (w :: u8) < 255 \<Longrightarrow> uint (w + 1) = uint w + 1"
  by (simp add: uint_word_ariths)

lemma u8_cases: "uint (w :: u8) = 0 \<or> 1 \<le> uint w"
  using uint_ge_0 [of w] by linarith

lemma shouldRelease_streak:
  assumes "uint (tm_vfloorStreak t) \<le> 3" "shouldRelease p vh ah t = (r, t')"
  shows "uint (tm_vfloorStreak t') \<le> 3"
    and "r \<longleftrightarrow> dod_reached p ah \<or> (below_floor p vh \<and> uint (tm_vfloorStreak t) = 3)"
    and "\<not> r \<Longrightarrow> uint (tm_vfloorStreak t') = (if below_floor p vh then uint (tm_vfloorStreak t) + 1 else 0)"
    and "tm_ceilStreak t' = tm_ceilStreak t" "tm_terminated t' = tm_terminated t" "tm_v_term t' = tm_v_term t"
  using assms u8_suc [of "tm_vfloorStreak t"] by (auto simp: shouldRelease_def Let_def split: if_splits)

lemma term_update_latched:
  assumes "tm_terminated t" "uint (tm_vfloorStreak t) \<le> 3"
  shows "tm_terminated (term_update p vh i ah t) \<longleftrightarrow>
      \<not> (dod_reached p ah \<or> (below_floor p vh \<and> uint (tm_vfloorStreak t) = 3))"
    and "tm_terminated (term_update p vh i ah t) \<Longrightarrow>
      uint (tm_vfloorStreak (term_update p vh i ah t)) = (if below_floor p vh then uint (tm_vfloorStreak t) + 1 else 0)"
proof -
  let ?t = "t\<lparr>tm_v_term := term_line p i, tm_ceilStreak := 0\<rparr>"
  obtain r t' where s: "shouldRelease p vh ah ?t = (r, t')" by (cases "shouldRelease p vh ah ?t")
  have u: "term_update p vh i ah t = (if r then t'\<lparr>tm_terminated := False\<rparr> else t')"
    using assms(1) s by (simp add: term_update_def Let_def)
  note f = shouldRelease_streak [OF _ s]
  show "tm_terminated (term_update p vh i ah t) \<longleftrightarrow>
      \<not> (dod_reached p ah \<or> (below_floor p vh \<and> uint (tm_vfloorStreak t) = 3))"
    and "tm_terminated (term_update p vh i ah t) \<Longrightarrow>
      uint (tm_vfloorStreak (term_update p vh i ah t)) = (if below_floor p vh then uint (tm_vfloorStreak t) + 1 else 0)"
    unfolding u using f assms by (auto split: if_splits)
qed

lemma term_update_charging:
  assumes "\<not> tm_terminated t" "uint (tm_ceilStreak t) \<le> 1"
  shows "tm_terminated (term_update p vh i ah t) \<longleftrightarrow>
      over_line p vh i \<or> (over_ceiling p vh \<and> uint (tm_ceilStreak t) = 1)"
    and "tm_terminated (term_update p vh i ah t) \<Longrightarrow> tm_vfloorStreak (term_update p vh i ah t) = 0"
    and "\<not> tm_terminated (term_update p vh i ah t) \<Longrightarrow>
      uint (tm_ceilStreak (term_update p vh i ah t)) = (if over_ceiling p vh then 1 else 0)"
  using assms u8_suc [of "tm_ceilStreak t"] u8_cases [of "tm_ceilStreak t"] by (auto simp: term_update_def Let_def split: if_splits)

lemma term_update_inv: "term_inv t \<Longrightarrow> term_inv (term_update p vh i ah t)"
proof (cases "tm_terminated t")
  case True
  assume i: "term_inv t"
  let ?t = "t\<lparr>tm_v_term := term_line p i, tm_ceilStreak := 0\<rparr>"
  obtain r t' where s: "shouldRelease p vh ah ?t = (r, t')" by (cases "shouldRelease p vh ah ?t")
  have u: "term_update p vh i ah t = (if r then t'\<lparr>tm_terminated := False\<rparr> else t')"
    using True s by (simp add: term_update_def Let_def)
  show ?thesis unfolding u using shouldRelease_streak [OF _ s] i by (auto simp: term_inv_def)
next
  case False
  assume "term_inv t"
  then show ?thesis using False u8_suc [of "tm_ceilStreak t"] u8_cases [of "tm_ceilStreak t"]
    by (auto simp: term_inv_def term_update_def Let_def split: if_splits)
qed

type_synonym bms_frame = "fl \<times> fl \<times> fl"   \<comment> \<open>highest cell voltage, battery current, Ah since full\<close>

fun term_run :: "bparams \<Rightarrow> bms_frame list \<Rightarrow> chgterm \<Rightarrow> chgterm" where
  "term_run p [] t = t"
| "term_run p ((vh, i, ah) # fs) t = term_run p fs (term_update p vh i ah t)"

lemma term_run_append: "term_run p (fs @ gs) t = term_run p gs (term_run p fs t)"
  by (induction p fs t rule: term_run.induct) auto

lemma term_run_snoc: "term_run p (fs @ [(vh, i, ah)]) t = term_update p vh i ah (term_run p fs t)"
  by (simp add: term_run_append)

definition floor_streak :: "bparams \<Rightarrow> bms_frame list \<Rightarrow> nat" where
  \<comment> \<open>the length of the run of sub-floor frames a history ends with\<close>
  "floor_streak p fs = length (takeWhile (\<lambda>f. below_floor p (fst f)) (rev fs))"

lemma floor_streak_snoc:
  "floor_streak p (fs @ [f]) = (if below_floor p (fst f) then Suc (floor_streak p fs) else 0)"
  by (simp add: floor_streak_def)

lemma floor_streak_last:
  "n \<le> floor_streak p fs \<Longrightarrow> n \<le> length fs \<and> (\<forall>f \<in> set (drop (length fs - n) fs). below_floor p (fst f))"
proof -
  assume n: "n \<le> floor_streak p fs"
  have "floor_streak p fs \<le> length fs" unfolding floor_streak_def
    using length_takeWhile_le [of _ "rev fs"] by simp
  then have le: "n \<le> length fs" using n by simp
  have "take n (rev fs) = take n (takeWhile (\<lambda>f. below_floor p (fst f)) (rev fs))"
    using n unfolding floor_streak_def by (metis takeWhile_eq_take take_take min_def)
  then have "set (take n (rev fs)) \<subseteq> set (takeWhile (\<lambda>f. below_floor p (fst f)) (rev fs))"
    by (metis set_take_subset)
  moreover have "set (drop (length fs - n) fs) = set (take n (rev fs))" by (simp add: take_rev)
  ultimately show ?thesis using le by (auto dest: set_takeWhileD)
qed

lemma term_run_streak:
  assumes "tm_terminated t" "tm_vfloorStreak t = 0" "\<And>n. n \<le> length fs \<Longrightarrow> tm_terminated (term_run p (take n fs) t)"
  shows "uint (tm_vfloorStreak (term_run p fs t)) = int (floor_streak p fs) \<and> floor_streak p fs \<le> 3"
  using assms(3)
proof (induction fs rule: rev_induct)
  case Nil
  then show ?case using assms(2) by (simp add: floor_streak_def)
next
  case (snoc f fs)
  obtain vh i ah where f: "f = (vh, i, ah)" by (cases f)
  have pre: "tm_terminated (term_run p (take n fs) t)" if "n \<le> length fs" for n
    using snoc.prems [of n] that by simp
  note ih = snoc.IH [OF pre]
  have lt: "tm_terminated (term_run p fs t)" using pre [of "length fs"] by simp
  have end': "tm_terminated (term_update p vh i ah (term_run p fs t))"
    using snoc.prems [of "length (fs @ [f])"] by (simp add: term_run_snoc f)
  have le: "uint (tm_vfloorStreak (term_run p fs t)) \<le> 3" using ih by simp
  note u = term_update_latched [OF lt le, of p vh i ah]
  show ?case unfolding f term_run_snoc floor_streak_snoc using u end' ih by auto
qed

section \<open>Parameters: lemma\<close>

lemma fge_iff_not_nan: "fge x y \<Longrightarrow> \<not> isnan x \<and> \<not> isnan y"
  by (auto simp: fle_def)

lemma u8_of_int_pos: "0 < n \<Longrightarrow> n \<le> 255 \<Longrightarrow> uint (word_of_int n :: u8) = n"
  by (simp add: uint_word_of_int)

section \<open>Pinning: lemmas\<close>

definition ch_no_data :: "charger \<Rightarrow> bool" where
  \<comment> \<open>no cell voltage has arrived or the capacity is not configured\<close>
  "ch_no_data ch = (\<not> isfinite (bp_Cbat (ch_params ch)) \<or> \<not> fgt (bs_vcell_high (ch_bat ch)) (Fin 0))"

lemma ch_no_data_ok: "ch_no_data ch \<Longrightarrow> \<not> ch_batDataOk now ch"
  by (auto simp: ch_no_data_def ch_batDataOk_def haveValidCellVoltage_def)

lemma ch_updateTermination_keeps:
  "ch_params (ch_updateTermination now ch) = ch_params ch"
  "bs_vcell_high (ch_bat (ch_updateTermination now ch)) = bs_vcell_high (ch_bat ch)"
  "ch_fallbackGlide (ch_updateTermination now ch) = ch_fallbackGlide ch"
  "ch_vpack_pin (ch_updateTermination now ch) = ch_vpack_pin ch"
  by (auto simp: ch_updateTermination_def Let_def)

lemma ch_float_edge_keeps [simp]:
  "ch_params (ch_float_edge now ch) = ch_params ch" "ch_bat (ch_float_edge now ch) = ch_bat ch"
  "ch_fallbackGlide (ch_float_edge now ch) = ch_fallbackGlide ch"
  "ch_vpack_pin (ch_float_edge now ch) = ch_vpack_pin ch" "ch_term (ch_float_edge now ch) = ch_term ch"
  by (auto simp: ch_float_edge_def Let_def)

lemma ch_update_no_data:
  fixes vout :: fl and auth :: bool and now :: u64
  assumes "ch_no_data ch" "fge (bp_Vbat_fallback (ch_params ch)) (Fin 0)"
  defines "ch' \<equiv> ch_update vout auth now ch"
  defines "g \<equiv> if glide_active (ch_fallbackGlide ch) then ch_fallbackGlide ch
    else glide_start (if isfinite (ch_vpack_pin ch) then ch_vpack_pin ch else bp_Vbat_fallback (ch_params ch))
      (bp_Vbat_fallback (ch_params ch)) now (ch_fallbackGlide ch)"
  shows "ch_no_data ch'" "ch_params ch' = ch_params ch" "ch_fallbackGlide ch' = g" "ch_vpack_pin ch' = glide_value g now"
proof -
  let ?c = "ch_updateTermination now (ch\<lparr>ch_bat := batstate_update vout (ch_bat ch)\<rparr>)"
  have nd: "ch_no_data ?c" using assms(1)
    by (simp add: ch_no_data_def ch_updateTermination_keeps batstate_update_def)
  have u: "ch' = ch_fallback now (ch_float_edge now ?c)"
    unfolding ch'_def ch_update_def ch_updatePinning_def
    using ch_no_data_ok [OF nd] assms(2) by (simp add: Let_def ch_updateTermination_keeps)
  show "ch_no_data ch'" "ch_params ch' = ch_params ch" "ch_fallbackGlide ch' = g" "ch_vpack_pin ch' = glide_value g now"
    unfolding u using nd
    by (simp_all add: ch_fallback_def Let_def ch_no_data_def ch_updateTermination_keeps g_def)
qed

fun ch_updates :: "(fl \<times> bool \<times> u64) list \<Rightarrow> charger \<Rightarrow> charger" where
  "ch_updates [] ch = ch"
| "ch_updates ((vout, auth, now) # us) ch = ch_updates us (ch_update vout auth now ch)"

lemma ch_updates_no_data:
  assumes "ch_no_data ch" "fge (bp_Vbat_fallback (ch_params ch)) (Fin 0)" "glide_active (ch_fallbackGlide ch)"
  shows "ch_no_data (ch_updates us ch) \<and> ch_params (ch_updates us ch) = ch_params ch \<and>
    ch_fallbackGlide (ch_updates us ch) = ch_fallbackGlide ch"
  using assms
proof (induction us arbitrary: ch)
  case (Cons u us)
  obtain vout auth now where u: "u = (vout, auth, now)" by (cases u)
  note n = ch_update_no_data [OF Cons.prems(1,2), of vout auth now]
  have "ch_updates (u # us) ch = ch_updates us (ch_update vout auth now ch)" by (simp add: u)
  moreover have "ch_fallbackGlide (ch_update vout auth now ch) = ch_fallbackGlide ch" using n(3) Cons.prems(3) by simp
  ultimately show ?case using Cons.IH [OF n(1)] n(2) Cons.prems by simp
qed simp

section \<open>Properties\<close>

text \<open>configuration that loads is consistent: the float voltage, the end-of-charge voltage and the
  ceiling are ordered, the pack voltage is positive and finite, at least one cell fits into it, and the
  tail rate and the tolerances have the signs the termination logic relies on. Everything else throws.\<close>
theorem charger_params_valid:
  assumes "bparams_load c p0 = Inr p"
  shows "fle (bp_cv_min p) (bp_cv_eoc p) \<and> fle (bp_cv_eoc p) (bp_cv_ceiling p) \<and> haveVbatMax p \<and>
    1 \<le> uint (bp_n_cells p) \<and> int (unat (bp_n_cells p)) = \<lfloor>val (fdiv (bp_Vbat_max p) (bp_cv_eoc p))\<rfloor> \<and>
    flt (Fin 0) (bp_tail_c_rate p) \<and> fle (Fin 0) (bp_recharge_vfloor_band p) \<and> fle (Fin 0) (bp_vout_offset_max p)"
proof -
  have fl: "trunc_int (floorf x) = \<lfloor>val x\<rfloor>" if "isfinite (floorf x)" "0 < trunc_int (floorf x)" for x
    using that by (cases x) (auto simp: floorf_def trunc_int_def split: if_splits)
  from assms obtain n where n: "cast_int 0 255 (floorf (fdiv (bp_Vbat_max p) (bp_cv_eoc p))) = Inr n" "0 < n"
    "bp_n_cells p = word_of_int n"
    and r: "fle (bp_cv_min p) (bp_cv_eoc p)" "fle (bp_cv_eoc p) (bp_cv_ceiling p)" "haveVbatMax p"
    "flt (Fin 0) (bp_tail_c_rate p)" "fle (Fin 0) (bp_recharge_vfloor_band p)" "fle (Fin 0) (bp_vout_offset_max p)"
    by (auto simp: bparams_load_def bindE_Inr_iff haveVbatMax_def)
  have u: "uint (bp_n_cells p) = n" using n u8_of_int_pos [of n] by (simp add: cast_int_Inr)
  moreover have "n = \<lfloor>val (fdiv (bp_Vbat_max p) (bp_cv_eoc p))\<rfloor>"
    using n(1,2) fl [of "fdiv (bp_Vbat_max p) (bp_cv_eoc p)"] by (simp add: cast_int_Inr)
  ultimately show ?thesis using r n(2) by simp
qed

lemma charger_params_valid_witness:
  "\<exists>p. bparams_load (conf_open (Some ''vout_max=28 # 8s\<newline>bat_c=280\<newline>'')) bparams_new = Inr p \<and>
     fle (bp_cv_eoc p) (bp_cv_ceiling p) \<and> bp_n_cells p = 8"
proof -
  have "resD (bparams_load (conf_open (Some ''vout_max=28 # 8s\<newline>bat_c=280\<newline>'')) bparams_new) (\<lambda>p. bp_n_cells p = 8)"
    by code_simp
  then obtain p where p: "bparams_load (conf_open (Some ''vout_max=28 # 8s\<newline>bat_c=280\<newline>'')) bparams_new = Inr p"
    "bp_n_cells p = 8" by (rule resD_E)
  show ?thesis using charger_params_valid [OF p(1)] p by blast
qed


definition example_params :: bparams where
  "example_params = \<lparr>bp_Vbat_max = Fin 28, bp_Vbat_fallback = Fin 26, bp_Ibat_lim = Fin 20, bp_Cbat = Fin 256,
     bp_cv_min = Fin (13 / 4), bp_cv_eoc = Fin (7 / 2), bp_cv_ceiling = Fin (29 / 8), bp_n_cells = 8,
     bp_tail_c_rate = Fin (1 / 16), bp_recharge_dod = Fin (1 / 4), bp_recharge_vfloor_band = Fin (1 / 16),
     bp_vout_offset_max = Fin (1 / 2)\<rparr>"






text \<open>a converter without authority over the shared bus yields. With valid battery data it pins a full
  pack at the end-of-charge floor (the fallback less the tolerated sensor offset) and otherwise
  releases the set-point to the maximum, forgets both glides and the feedback filter, and never touches
  the termination state.\<close>
theorem charger_no_authority:
  assumes "ch_batDataOk now ch" "haveVbatMax (ch_params ch)"
  shows "(let ch' = ch_updatePinning False vbat now ch
          in ch_vpack_pin ch' = (if tm_terminated (ch_term ch) then ch_pin_floor ch else bp_Vbat_max (ch_params ch)) \<and>
             (\<not> tm_terminated (ch_term ch) \<longrightarrow> ch_Vout_max ch' = bp_Vbat_max (ch_params ch)) \<and>
             isnan (ch_vPinFilt ch') \<and> \<not> glide_active (ch_fallbackGlide ch') \<and> \<not> glide_active (ch_floatGlide ch') \<and>
             ch_term ch' = ch_term ch \<and> ch_bat ch' = ch_bat ch)"
  using assms
  by (auto simp: ch_updatePinning_def ch_yield_def ch_releaseVoutPinning_def haveVbatMax_def ch_Vout_max_def
      glide_active_def glide_reset_def Let_def)

lemma charger_no_authority_witness:
  "ch_vpack_pin (ch_updatePinning False (Inf False) 2000000
     (charger_new\<lparr>ch_params := example_params, ch_bat := setVcellHigh (Fin 3) 1000000 batstate_new,
        ch_term := (term_new example_params)\<lparr>tm_terminated := True\<rparr>\<rparr>)) = f32 (51 / 2)"
proof -
  let ?ch = "charger_new\<lparr>ch_params := example_params, ch_bat := setVcellHigh (Fin 3) 1000000 batstate_new,
        ch_term := (term_new example_params)\<lparr>tm_terminated := True\<rparr>\<rparr>"
  have h0: "ch_batDataOk 2000000 ?ch" by code_simp
  have h1: "haveVbatMax (ch_params ?ch)" by code_simp
  note h = h0 h1
  have "ch_pin_floor ?ch = f32 (51 / 2)" by code_simp
  then show ?thesis using charger_no_authority [OF h, of "Inf False"] by (simp add: Let_def)
qed

text \<open>whatever the pinning has computed (NaN, zero, negative or too large), the output limit handed to the
  converter never exceeds the configured maximum, is positive, and is the pin whenever that is the
  stricter one.\<close>
theorem charger_vout_limit:
  assumes "haveVbatMax (ch_params ch)"
  shows "fle (ch_Vout_max ch) (bp_Vbat_max (ch_params ch)) \<and> flt (Fin 0) (ch_Vout_max ch) \<and>
    (flt (Fin 0) (ch_vpack_pin ch) \<longrightarrow> fle (ch_Vout_max ch) (ch_vpack_pin ch))"
  using assms fle_refl [of "bp_Vbat_max (ch_params ch)"] fle_refl [of "ch_vpack_pin ch"]
    not_flt_fle [of "ch_vpack_pin ch" "bp_Vbat_max (ch_params ch)"]
  by (auto simp: ch_Vout_max_def haveVbatMax_def Let_def flt_imp_fle dest: flt_not_nan)

lemma charger_vout_limit_witness:
  "fle (ch_Vout_max (charger_new\<lparr>ch_params := example_params, ch_vpack_pin := Inf False\<rparr>)) (Fin 28)"
proof -
  have "haveVbatMax (ch_params (charger_new\<lparr>ch_params := example_params, ch_vpack_pin := Inf False\<rparr>))" by code_simp
  from charger_vout_limit [OF this] show ?thesis by (simp add: example_params_def)
qed

end
