(* ===== verification/Timing.thy ===== *)
theory Timing
  imports Floats
begin

text \<open>
  \<open>src/src/pwm/mcpwm_timing.h\<close> and the resolution of \<open>src/src/pwm/ledc.h\<close>: the PWM period in
  ticks. The prescaler search of \<open>bestTiming\<close> is a loop; its termination proof is that the quotient falls below the bound before the prescaler wraps.
\<close>

record pwm_timing =
  pt_resolution_hz :: u32
  pt_period_ticks :: u32
  pt_actual_freq :: u32

lemma presc_big:
  assumes "0 < uint p" "0 < uint freq" "65535 < uint src div uint p div uint freq"
  shows "65536 * uint freq * uint p \<le> uint (src :: u32)" and "65536 * uint p \<le> uint src"
proof -
  have "65536 \<le> uint src div uint p div uint freq" using assms(3) by linarith
  then show le: "65536 * uint freq * uint p \<le> uint src" using assms(1,2) by (simp add: le_div_iff_int)
  have "65536 * uint p * 1 \<le> 65536 * uint p * uint freq" using assms by (intro mult_left_mono) auto
  then show "65536 * uint p \<le> uint src" using le by (simp add: algebra_simps)
qed

lemma uint_plus_1_u32: "uint (p :: u32) + 1 < 2 ^ 32 \<Longrightarrow> uint (p + 1) = uint p + 1"
  by (simp add: uint_plus_if')

lemma u32_pos: "p \<noteq> (0 :: u32) \<Longrightarrow> 0 < uint p"
  using uint_ge_0 [of p] unsigned_eq_0_iff [of p] by (auto simp: order_less_le)

function presc_search :: "u32 \<Rightarrow> u32 \<Rightarrow> u32 \<Rightarrow> u32 res" where
  \<comment> \<open>\<open>while (src_clk / presc / freq > 65535u) ++presc;\<close> a division by zero is undefined\<close>
  "presc_search src freq p =
     (if p = 0 \<or> freq = 0 then Inl Undefined
      else if 65535 < src div p div freq then presc_search src freq (p + 1) else Inr p)"
  by auto
termination
proof (relation "measure (\<lambda>(src, freq, p). nat (2 ^ 32 - uint p))")
  fix src freq p :: u32
  assume p: "\<not> (p = 0 \<or> freq = 0)" "65535 < src div p div freq"
  then have b: "65535 < uint src div uint p div uint freq" by (simp add: word_less_def uint_div_distrib)
  have "65536 * uint p \<le> uint src" using presc_big(2) [OF _ _ b] p(1) by (auto simp: u32_pos)
  then have "uint (p + 1) = uint p + 1" using uint_lt2p [of src] by (intro uint_plus_1_u32) simp
  then show "((src, freq, p + 1), (src, freq, p)) \<in> measure (\<lambda>(src, freq, p). nat (2 ^ 32 - uint p))"
    using uint_lt2p [of p] by simp
qed simp

declare presc_search.simps [simp del]

definition bestTiming :: "u32 \<Rightarrow> u32 \<Rightarrow> pwm_timing res" where
  "bestTiming freq src =
    bindE (presc_search src freq 1) (\<lambda>p.
      let r = src div p; ticks = (r + freq div 2) div freq
      in if ticks = 0 then Inl Undefined
         else Inr \<lparr>pt_resolution_hz = r, pt_period_ticks = ticks, pt_actual_freq = r div ticks\<rparr>)"

definition pwmCountsFromNs :: "fl \<Rightarrow> fl \<Rightarrow> int res" where
  "pwmCountsFromNs ns tickRateHz = lround_long (fmul (fmul ns (f32 (1 / 1000000000))) tickRateHz)"

definition rectOffsetNsFromCounts :: "int \<Rightarrow> fl \<Rightarrow> fl" where
  "rectOffsetNsFromCounts counts tickRateHz =
    (if fgt tickRateHz (Fin 0) then fdiv (fmul (to_float counts) (f32 1000000000)) tickRateHz else Fin 0)"

section \<open>Termination and bounds\<close>

lemma presc_search_ok:
  assumes "0 < uint freq" "0 < uint p"
  shows "\<exists>q. presc_search src freq p = Inr q \<and> uint p \<le> uint q \<and> uint src div uint q div uint freq \<le> 65535 \<and>
    (\<forall>j. uint p \<le> j \<and> j < uint q \<longrightarrow> 65535 < uint src div j div uint freq)"
  using assms
proof (induction src freq p rule: presc_search.induct)
  case (1 src freq p)
  have chk: "65535 < src div p div freq \<longleftrightarrow> 65535 < uint src div uint p div uint freq"
    by (simp add: word_less_def uint_div_distrib)
  have nz: "\<not> (p = 0 \<or> freq = 0)" using "1.prems" by auto
  show ?case
  proof (cases "65535 < uint src div uint p div uint freq")
    case False
    then show ?thesis using chk nz by (auto simp: presc_search.simps [of src freq p])
  next
    case True
    have "65536 * uint p \<le> uint src" using presc_big(2) [OF _ _ True] "1.prems" by simp
    then have u: "uint (p + 1) = uint p + 1" using uint_lt2p [of src] by (intro uint_plus_1_u32) simp
    obtain q where q: "presc_search src freq (p + 1) = Inr q" "uint p + 1 \<le> uint q"
      "uint src div uint q div uint freq \<le> 65535"
      "\<forall>j. uint p + 1 \<le> j \<and> j < uint q \<longrightarrow> 65535 < uint src div j div uint freq"
      using "1.IH" [OF nz] chk True "1.prems" u by auto
    have "65535 < uint src div j div uint freq" if "uint p \<le> j" "j < uint q" for j
      using that True q(4) by (cases "j = uint p") auto
    then show ?thesis using q True chk nz by (auto simp: presc_search.simps [of src freq p])
  qed
qed

lemma round_div_bounds:
  assumes "0 < f" "0 \<le> r"
  shows "2 * \<bar>f * ((r + f div 2) div f) - r\<bar> \<le> (f :: int)"
proof -
  let ?x = "r + f div 2"
  have e: "f * (?x div f) - r = f div 2 - ?x mod f" by (simp add: minus_mod_eq_mult_div [symmetric])
  have m: "0 \<le> ?x mod f" "?x mod f < f" using assms(1) by simp_all
  have "2 * (f div 2) \<le> f" "f \<le> 2 * (f div 2) + 1" by simp_all
  moreover have "2 * \<bar>h - k\<bar> \<le> f" if "2 * h \<le> f" "f \<le> 2 * h + 1" "0 \<le> k" "k < f" for h k :: int
    using that by (cases "k \<le> h") simp_all
  ultimately show ?thesis unfolding e using m by blast
qed

text \<open>C39: the timing search ends and finds the finest resolution. For every PWM frequency up to the source
  clock the prescaler loop stops at the smallest prescaler whose period fits
  16 bits, no division is by zero, and the period is the rounded quotient: it is off by at most half a
  tick per period.\<close>
theorem bestTiming_total:
  assumes "freq \<noteq> 0" "freq \<le> src" "src \<le> 2 ^ 31"
  shows "\<exists>p t. bestTiming freq src = Inr t \<and> 1 \<le> p \<and>
    (\<forall>j. 1 \<le> j \<and> j < p \<longrightarrow> 65535 < uint src div j div uint freq) \<and> uint src div p div uint freq \<le> 65535 \<and>
    uint (pt_resolution_hz t) = uint src div p \<and> 1 \<le> uint (pt_period_ticks t) \<and> uint (pt_period_ticks t) \<le> 65536 \<and>
    2 * \<bar>uint freq * uint (pt_period_ticks t) - uint (pt_resolution_hz t)\<bar> \<le> uint freq"
proof -
  have f: "0 < uint freq" "uint freq \<le> uint src" "uint src \<le> 2 ^ 31"
    using assms by (auto simp: word_le_def u32_pos)
  obtain q where q: "presc_search src freq 1 = Inr q" "1 \<le> uint q" "uint src div uint q div uint freq \<le> 65535"
    "\<forall>j. 1 \<le> j \<and> j < uint q \<longrightarrow> 65535 < uint src div j div uint freq"
    using presc_search_ok [of freq 1 src] f by auto
  let ?r = "uint src div uint q"
  have q0: "0 < uint q" using q(2) by linarith
  have r0: "0 \<le> ?r" using q0 f by (simp add: pos_imp_zdiv_nonneg_iff)
  have r: "uint freq \<le> ?r"
  proof (cases "uint q = 1")
    case False
    then have "65535 < uint src div (uint q - 1) div uint freq" using q(2,4) by auto
    then have "65536 \<le> uint src div (uint q - 1) div uint freq" by linarith
    then have "65536 * uint freq * (uint q - 1) \<le> uint src"
      using f(1) q(2) False by (simp add: le_div_iff_int)
    moreover have "uint freq * uint q \<le> uint freq * (65536 * (uint q - 1))"
      using f q(2) False by (intro mult_left_mono) auto
    ultimately show ?thesis using q0 by (simp add: le_div_iff_int algebra_simps)
  qed (use f in simp)
  have le: "?r \<le> uint src" using q(2) zdiv_mono2 [of "uint src" 1 "uint q"] f by simp
  let ?t = "(?r + uint freq div 2) div uint freq"
  have "uint (src div q + freq div 2) = ?r + uint freq div 2"
    using le f by (simp add: uint_plus_if' uint_div_distrib)
  then have u: "uint ((src div q + freq div 2) div freq) = ?t"
by (simp add: uint_div_distrib)
  have t1: "1 \<le> ?t" using r f by (simp add: le_div_iff_int)
  have "?r < 65536 * uint freq" using q(3) f div_less_iff_int [of "uint freq" ?r 65536] by simp
  moreover have "uint freq div 2 \<le> uint freq" using f(1) by linarith
  ultimately have "?r + uint freq div 2 < 65537 * uint freq" by linarith
  then have "?t < 65537" using f(1) by (simp add: div_less_iff_int)
  then have t2: "?t \<le> 65536" by linarith
  have nz: "(src div q + freq div 2) div freq \<noteq> 0" using t1 u by auto
  show ?thesis
    by (rule exI [of _ "uint q"], rule exI [of _ "\<lparr>pt_resolution_hz = src div q,
        pt_period_ticks = (src div q + freq div 2) div freq,
        pt_actual_freq = src div q div ((src div q + freq div 2) div freq)\<rparr>"])
      (use q assms(1) nz u t1 t2 round_div_bounds [of "uint freq" ?r] f(1) r0 in
        \<open>simp add: bestTiming_def Let_def uint_div_distrib\<close>)
qed

lemma bestTiming_total_witness:
  "\<exists>t. bestTiming 39000 160000000 = Inr t \<and> uint (pt_period_ticks t) \<le> 65536"
  using bestTiming_total [of 39000 160000000] by auto

end
