(* ===== verification/PwmDrv.thy ===== *)
theory PwmDrv
  imports Timing
begin

text \<open>
  The gate drivers: \<open>src/src/pwm/mcpwm.h\<close> (one synchronous MCPWM leg, its wired sync) and
  \<open>src/src/pwm/ledc.h\<close> (two LEDC channels). The ESP-IDF calls write peripheral registers; the
  state holds what was written last. The waveforms are those the drivers set up: a generator goes
  high and low at the timer and comparator events it is bound to, an LEDC channel is high for
  \<open>duty\<close> ticks from \<open>hpoint\<close>.
\<close>

section \<open>The MCPWM leg\<close>

record mcpwm_leg =
  lg_dtTicks :: u16
  lg_pwmMax :: u16
  lg_periodTicks :: u16
  lg_resolutionHz :: u32
  lg_enLogic :: bool        \<comment> \<open>LS goes high at TEZ instead of at the HS comparator\<close>
  lg_follower :: bool       \<comment> \<open>shadow registers also latch on the sync event\<close>
  lg_cmpHS :: u16
  lg_cmpLS :: u16
  lg_forcedLow :: bool
  lg_running :: bool
  lg_syncOut :: "(u32 \<times> u32) option"   \<comment> \<open>sync pulse: rising and falling tick\<close>
  lg_syncIn :: bool

definition leg_new :: mcpwm_leg where
  "leg_new = \<lparr>lg_dtTicks = 0, lg_pwmMax = 0, lg_periodTicks = 0, lg_resolutionHz = 0, lg_enLogic = False,
     lg_follower = False, lg_cmpHS = 0, lg_cmpLS = 0, lg_forcedLow = False, lg_running = False,
     lg_syncOut = None, lg_syncIn = False\<rparr>"

definition leg_timing :: "u32 \<Rightarrow> u32 \<Rightarrow> pwm_timing res" where
  "leg_timing freq fixedTicks =
    (if fixedTicks \<noteq> 0 then Inr \<lparr>pt_resolution_hz = freq * fixedTicks, pt_period_ticks = fixedTicks, pt_actual_freq = freq\<rparr>
     else bestTiming freq 160000000)"

definition leg_init :: "u32 \<Rightarrow> u32 \<Rightarrow> bool \<Rightarrow> u32 \<Rightarrow> bool \<Rightarrow> mcpwm_leg \<Rightarrow> mcpwm_leg res" where
  "leg_init freq dtTicks enLogic fixedTicks syncFollower l =
    bindE (leg_timing freq fixedTicks) (\<lambda>t.
    bindE (assert_throw (\<not> syncFollower \<or> pt_period_ticks t > 2 + 1) ''pwm_freq too high for wired sync'') (\<lambda>_.
      let period = (if syncFollower then pt_period_ticks t - 2 else pt_period_ticks t)
      in Inr (l\<lparr>lg_pwmMax := (if dtTicks \<noteq> 0 then ucast (period - dtTicks) else ucast period),
                lg_periodTicks := ucast period, lg_resolutionHz := pt_resolution_hz t, lg_enLogic := enLogic,
                lg_follower := syncFollower, lg_cmpHS := 0, lg_cmpLS := 0, lg_dtTicks := ucast dtTicks\<rparr>)))"

definition leg_setHsOff :: "u16 \<Rightarrow> mcpwm_leg \<Rightarrow> mcpwm_leg" where
  "leg_setHsOff c l = l\<lparr>lg_cmpHS := c\<rparr>"

definition leg_setLsOff :: "u16 \<Rightarrow> mcpwm_leg \<Rightarrow> mcpwm_leg" where
  "leg_setLsOff c l = l\<lparr>lg_cmpLS := c\<rparr>"

definition leg_start :: "mcpwm_leg \<Rightarrow> mcpwm_leg" where
  "leg_start l = l\<lparr>lg_running := True\<rparr>"

definition leg_forceShutdown :: "mcpwm_leg \<Rightarrow> mcpwm_leg" where
  "leg_forceShutdown l = l\<lparr>lg_forcedLow := True\<rparr>"

definition leg_clearForce :: "mcpwm_leg \<Rightarrow> mcpwm_leg" where
  "leg_clearForce l = l\<lparr>lg_forcedLow := False\<rparr>"

definition leg_initSyncOut :: "u16 \<Rightarrow> u16 \<Rightarrow> mcpwm_leg \<Rightarrow> mcpwm_leg res" where
  "leg_initSyncOut pulseTicks offsetTicks l =
    bindE (assert_throw (uint (lg_periodTicks l) > 1) ''initSyncOut before init()'') (\<lambda>_.
      let pulse = (if pulseTicks \<ge> lg_periodTicks l then word_of_int (uint (lg_periodTicks l) - 1) else pulseTicks);
          offset = (if uint offsetTicks + uint pulse \<ge> uint (lg_periodTicks l)
                    then word_of_int (uint (lg_periodTicks l) - uint pulse - 1) else offsetTicks)
      in Inr (l\<lparr>lg_syncOut := Some (ucast (offset :: u16), ucast offset + ucast (pulse :: u16))\<rparr>))"

definition leg_initSyncIn :: "mcpwm_leg \<Rightarrow> mcpwm_leg" where
  "leg_initSyncIn l = l\<lparr>lg_syncIn := True\<rparr>"

subsection \<open>Its waveform\<close>

definition leg_hs :: "mcpwm_leg \<Rightarrow> int \<Rightarrow> bool" where
  \<comment> \<open>the HS generator at tick \<open>k\<close> of a period in the steady state: HIGH at TEZ, LOW at cmpHS\<close>
  "leg_hs l k = (\<not> lg_forcedLow l \<and> (k < uint (lg_cmpHS l) \<or> uint (lg_periodTicks l) \<le> uint (lg_cmpHS l)))"

definition leg_ls :: "mcpwm_leg \<Rightarrow> int \<Rightarrow> bool" where
  \<comment> \<open>the LS generator: HIGH at TEZ or (delayed by the dead time) at cmpHS, LOW at cmpLS. A comparator at
      the period or above never fires, so LS then stays high once it is.\<close>
  "leg_ls l k = (\<not> lg_forcedLow l \<and>
     (if uint (lg_periodTicks l) \<le> uint (lg_cmpLS l) then lg_enLogic l \<or> uint (lg_cmpHS l) < uint (lg_periodTicks l)
      else (if lg_enLogic l then 0 else uint (lg_cmpHS l) + uint (lg_dtTicks l)) \<le> k \<and> k < uint (lg_cmpLS l)))"

section \<open>LEDC channels\<close>

record chan =
  cn_duty :: u32
  cn_hpoint :: u32
  cn_stopped :: "bool option"     \<comment> \<open>the idle level \<open>ledc_stop\<close> left\<close>

definition chan_on :: "chan \<Rightarrow> int \<Rightarrow> bool" where
  "chan_on c k = (case cn_stopped c of Some l \<Rightarrow> l
    | None \<Rightarrow> uint (cn_hpoint c) \<le> k \<and> k < uint (cn_hpoint c) + uint (cn_duty c))"

definition ledc_init_pwm :: "u32 \<Rightarrow> int \<Rightarrow> u32 \<Rightarrow> u16 \<Rightarrow> (chan \<times> u16) res" where
  \<comment> \<open>\<open>init_pwm\<close> with \<open>getApbFrequency()\<close> and the timer width of the chip as arguments\<close>
  "ledc_init_pwm apb bits freq pwmMax =
    (if freq = 0 \<or> apb div freq = 0 then Inl Undefined
     else let r = min (bitlen (uint (apb div freq)) - 1) bits in
       if r < 1 then Inl Undefined
       else let pm = 2 * 2 ^ nat (r - 1) - 1; m = (if pwmMax = 0 then word_of_int pm else pwmMax)
            in if pm = uint m then Inr (\<lparr>cn_duty = 0, cn_hpoint = 0, cn_stopped = None\<rparr>, m) else Inl AssertFail)"

definition chan_update :: "u32 \<Rightarrow> chan \<Rightarrow> chan" where
  "chan_update duty c = c\<lparr>cn_duty := duty, cn_stopped := None\<rparr>"

definition chan_update_hp :: "u32 \<Rightarrow> u32 \<Rightarrow> chan \<Rightarrow> chan" where
  "chan_update_hp hpoint duty c = c\<lparr>cn_hpoint := hpoint, cn_duty := duty, cn_stopped := None\<rparr>"

definition chan_stop :: "bool \<Rightarrow> chan \<Rightarrow> chan" where
  "chan_stop idle c = c\<lparr>cn_stopped := Some idle\<rparr>"

section \<open>The gates of one converter\<close>

record gates =
  gt_leg :: mcpwm_leg
  gt_ctrl :: chan
  gt_rect :: chan
  gt_sd :: bool     \<comment> \<open>level of the shutdown pin, where there is one\<close>

datatype gate_op =
    HsOff u16 | LsOff u16 | ForceLow | ClearForce   \<comment> \<open>MCPWM\<close>
  | Duty bool u32 | Pulse bool u32 u32 | Stop bool bool  \<comment> \<open>LEDC: \<open>True\<close> selects the rect channel\<close>
  | Sd bool

definition on_chan :: "bool \<Rightarrow> (chan \<Rightarrow> chan) \<Rightarrow> gates \<Rightarrow> gates" where
  "on_chan rect f g = (if rect then g\<lparr>gt_rect := f (gt_rect g)\<rparr> else g\<lparr>gt_ctrl := f (gt_ctrl g)\<rparr>)"

fun gate_step :: "gate_op \<Rightarrow> gates \<Rightarrow> gates" where
  "gate_step (HsOff c) g = g\<lparr>gt_leg := leg_setHsOff c (gt_leg g)\<rparr>"
| "gate_step (LsOff c) g = g\<lparr>gt_leg := leg_setLsOff c (gt_leg g)\<rparr>"
| "gate_step ForceLow g = g\<lparr>gt_leg := leg_forceShutdown (gt_leg g)\<rparr>"
| "gate_step ClearForce g = g\<lparr>gt_leg := leg_clearForce (gt_leg g)\<rparr>"
| "gate_step (Duty r d) g = on_chan r (chan_update d) g"
| "gate_step (Pulse r h d) g = on_chan r (chan_update_hp h d) g"
| "gate_step (Stop r i) g = on_chan r (chan_stop i) g"
| "gate_step (Sd b) g = g\<lparr>gt_sd := b\<rparr>"

fun gate_run :: "gate_op list \<Rightarrow> gates \<Rightarrow> gates" where
  "gate_run [] g = g"
| "gate_run (x # xs) g = gate_run xs (gate_step x g)"

lemma gate_run_append: "gate_run (xs @ ys) g = gate_run ys (gate_run xs g)"
  by (induction xs g rule: gate_run.induct) auto

lemmas gate_defs = on_chan_def chan_update_def chan_update_hp_def chan_stop_def
  leg_setHsOff_def leg_setLsOff_def leg_forceShutdown_def leg_clearForce_def

text \<open>An LS comparator at the full period never fires: LS stays on through the wrap.\<close>

lemma leg_full_period_overlap:
  assumes "uint (lg_cmpLS l) = uint (lg_periodTicks l)" "uint (lg_cmpHS l) < uint (lg_periodTicks l)"
    "\<not> lg_forcedLow l" "0 \<le> k" "k < uint (lg_cmpHS l)"
  shows "leg_hs l k \<and> leg_ls l k"
  using assms by (auto simp: leg_hs_def leg_ls_def)

section \<open>Properties\<close>

text \<open>with the LS comparator inside the period an MCPWM leg never commands both gates (a driver
  with separate inputs), LS starts at least the dead time after HS ended, and as long as the LS comparator stays
  within the commandable span at least the dead time passes before HS turns on again.\<close>
theorem leg_no_overlap:
  assumes "\<not> lg_enLogic l" "uint (lg_cmpHS l) \<le> uint (lg_cmpLS l)" "uint (lg_cmpLS l) < uint (lg_periodTicks l)"
    "0 \<le> k" "k < uint (lg_periodTicks l)"
  shows "\<not> (leg_hs l k \<and> leg_ls l k) \<and> (leg_ls l k \<and> leg_hs l j \<longrightarrow> j + uint (lg_dtTicks l) < k) \<and>
    (leg_ls l k \<and> uint (lg_cmpLS l) \<le> uint (lg_periodTicks l) - uint (lg_dtTicks l) \<longrightarrow>
       k + uint (lg_dtTicks l) < uint (lg_periodTicks l))"
proof -
  define d where "d = uint (lg_dtTicks l)"
  have "0 \<le> d" by (simp add: d_def)
  then show ?thesis using assms by (auto simp: leg_hs_def leg_ls_def d_def [symmetric])
qed

lemma leg_no_overlap_witness:
  "(let l = leg_new\<lparr>lg_periodTicks := 4069, lg_dtTicks := 8, lg_cmpHS := 1506, lg_cmpLS := 1800\<rparr>
    in leg_ls l 1600 \<and> \<not> leg_hs l 1600)"
  using leg_no_overlap [of "leg_new\<lparr>lg_periodTicks := 4069, lg_dtTicks := 8, lg_cmpHS := 1506, lg_cmpLS := 1800\<rparr>" 1600]
  by (simp add: leg_new_def leg_ls_def leg_hs_def Let_def)

text \<open>The wired-sync pulse always fits its period: whatever width and offset are requested, the pulse
  ends before the period does, starts no later than requested, and a request that fits is kept.\<close>
theorem syncOut_fits:
  assumes "leg_initSyncOut pulse offset l = Inr l'"
  shows "\<exists>a b. lg_syncOut l' = Some (a, b) \<and> a \<le> b \<and> uint b < uint (lg_periodTicks l) \<and> uint a \<le> uint offset \<and>
    (uint offset + uint pulse < uint (lg_periodTicks l) \<longrightarrow> uint a = uint offset \<and> uint b = uint offset + uint pulse)"
proof -
  let ?P = "uint (lg_periodTicks l)"
  have P: "1 < ?P" "?P \<le> 65535" using assms by (auto simp: leg_initSyncOut_def bindE_Inr_iff)
  define p where "p = (if lg_periodTicks l \<le> pulse then word_of_int (?P - 1) else pulse)"
  define f where "f = (if ?P \<le> uint offset + uint p then word_of_int (?P - uint p - 1) else offset)"
  have e: "uint (word_of_int (?P - 1) :: u16) = ?P - 1" by (rule uint_of_int_u16) (use P in linarith)+
  have p: "uint p = (if ?P \<le> uint pulse then ?P - 1 else uint pulse)"
    by (cases "?P \<le> uint pulse") (simp_all only: p_def word_le_def if_True if_False e)
  then have pl: "uint p \<le> ?P - 1" using P by auto
  have f: "uint f = (if ?P \<le> uint offset + uint p then ?P - uint p - 1 else uint offset)"
  proof (cases "?P \<le> uint offset + uint p")
    case True
    have "uint (word_of_int (?P - uint p - 1) :: u16) = ?P - uint p - 1"
      by (rule uint_of_int_u16) (use P pl uint_u16_range(1) [of p] in linarith)+
    then show ?thesis using True by (simp only: f_def if_True)
  qed (simp add: f_def)
  then have s: "uint f + uint p < ?P" using pl by auto
  have l': "lg_syncOut l' = Some (ucast f, ucast f + ucast p)"
    using assms P by (auto simp: leg_initSyncOut_def bindE_Inr_iff Let_def p_def f_def)
  have u: "uint (ucast f :: u32) = uint f" "uint (ucast p :: u32) = uint p"
by simp_all
  have lt: "uint f + uint p < 4294967296" using s P by linarith
  have "uint (ucast f + ucast p :: u32) = uint f + uint p"
    by (subst uint_plus_if') (simp add: u lt)
  moreover have "uint f \<le> uint offset" using f by (cases "?P \<le> uint offset + uint p") simp_all
  moreover have "uint f = uint offset \<and> uint p = uint pulse" if "uint offset + uint pulse < ?P"
  proof -
    have "uint pulse < ?P" using that uint_u16_range(1) [of offset] by linarith
    then have "uint p = uint pulse" using p by simp
    then show ?thesis using f that by simp
  qed
  ultimately show ?thesis using l' s u by (auto simp: word_le_def)
qed

lemma syncOut_fits_witness:
  "\<exists>l'. leg_initSyncOut 500 100 (leg_new\<lparr>lg_periodTicks := 4069\<rparr>) = Inr l' \<and> lg_syncOut l' = Some (100, 600)"
proof -
  have "resD (leg_initSyncOut 500 100 (leg_new\<lparr>lg_periodTicks := 4069\<rparr>)) (\<lambda>_. True)" by code_simp
  then obtain l' where l: "leg_initSyncOut 500 100 (leg_new\<lparr>lg_periodTicks := 4069\<rparr>) = Inr l'" by (rule resD_E)
  from syncOut_fits [OF l] show ?thesis using l by (auto simp: word_uint_eq_iff)
qed

end
