(* ===== verification/Converter.thy ===== *)
theory Converter
  imports PwmDrv Conf
begin

text \<open>
  \<open>src/src/buck.h\<close>: the synchronous buck or boost converter (\<open>SynchronousConverter\<close>), built with both
  gate drivers (MCPWM and LEDC, picked by \<open>pwm_driver\<close>). The state is the object's fields and the gates
  it drives; every driver call is a \<^typ>\<open>gate_op\<close>, so the order of the register writes is explicit.
  The chip and the build are a \<open>board\<close> record: the wired-sync build flag, the APB
  frequency, the LEDC timer width, the level a pin reads and the GPIO predicates of the SDK.
\<close>

section \<open>State\<close>

datatype pin_mode = InputPulldown | InputPullup | InputPlain

record board =
  bd_wsync :: bool
  bd_apb :: u32
  bd_ledcBits :: int
  bd_pin :: "u8 \<Rightarrow> pin_mode \<Rightarrow> bool"
  bd_gpioOk :: "u8 \<Rightarrow> bool"
  bd_gpioOutOk :: "u8 \<Rightarrow> bool"

record conv =
  sc_gates :: gates
  sc_useMcpwm :: bool
  sc_driverPwmMax :: u16
  sc_enLogic :: bool
  sc_pinSd :: u8
  sc_fault :: "(u8 \<times> bool) option"
  sc_dcm :: bool              \<comment> \<open>\<open>dcmHysteresis\<close>\<close>
  sc_syncRect :: bool
  sc_pwmCtrl :: u16
  sc_pwmRect :: u16
  sc_pwmRectMax :: u16
  sc_manualRect :: int
  sc_ratioDCM :: fl
  sc_ditherErr :: fl
  sc_rectDither :: bool
  sc_rectOnOffset :: int
  sc_M :: fl
  sc_fbuf :: fl               \<comment> \<open>\<open>directionFloatBuffer\<close>\<close>
  sc_boost :: bool
  sc_forced :: bool
  sc_fL :: fl
  sc_coilL0 :: fl
  sc_ctrlMax :: u16
  sc_rectMin :: u16
  sc_ctrlMin :: u16
  sc_freq :: u32
  sc_follower :: bool

definition gates_new :: gates where
  "gates_new = \<lparr>gt_leg = leg_new, gt_ctrl = \<lparr>cn_duty = 0, cn_hpoint = 0, cn_stopped = Some False\<rparr>,
     gt_rect = \<lparr>cn_duty = 0, cn_hpoint = 0, cn_stopped = Some False\<rparr>, gt_sd = False\<rparr>"

definition conv_new :: conv where
  "conv_new = \<lparr>sc_gates = gates_new, sc_useMcpwm = False, sc_driverPwmMax = 0, sc_enLogic = False, sc_pinSd = 255,
     sc_fault = None, sc_dcm = False, sc_syncRect = False, sc_pwmCtrl = 0, sc_pwmRect = 0, sc_pwmRectMax = 0,
     sc_manualRect = - 1, sc_ratioDCM = Fin 0, sc_ditherErr = Fin 0, sc_rectDither = True, sc_rectOnOffset = 0,
     sc_M = Fin 0, sc_fbuf = Fin 0, sc_boost = False, sc_forced = False, sc_fL = NaN, sc_coilL0 = Fin 0,
     sc_ctrlMax = 0, sc_rectMin = 0, sc_ctrlMin = 0, sc_freq = 0, sc_follower = False\<rparr>"

definition sc_gate :: "gate_op list \<Rightarrow> conv \<Rightarrow> conv" where
  "sc_gate ops s = s\<lparr>sc_gates := gate_run ops (sc_gates s)\<rparr>"

definition sd_write :: "bool \<Rightarrow> conv \<Rightarrow> conv" where
  \<comment> \<open>\<open>if (pinSd != 255) digitalWrite(pinSd, b)\<close>\<close>
  "sd_write b s = (if sc_pinSd s \<noteq> 255 then sc_gate [Sd b] s else s)"

section \<open>Gate driver dispatch\<close>

definition ledc_rect_op :: "bool \<Rightarrow> u16 \<Rightarrow> u16 \<Rightarrow> gate_op" where
  \<comment> \<open>the LS write: EN covers both on-times with IN/EN inputs, LI starts where HI ends\<close>
  "ledc_rect_op enLogic ctrl rect =
    (if enLogic then Duty True (word_of_int (uint ctrl + uint rect)) else Pulse True (ucast ctrl) (ucast rect))"

definition drv_commit_ops :: "conv \<Rightarrow> bool \<Rightarrow> bool \<Rightarrow> int \<Rightarrow> gate_op list" where
  "drv_commit_ops s enabling largerDecrease dir =
    (let c = sc_pwmCtrl s; r = sc_pwmRect s in
     if sc_useMcpwm s then [HsOff c, LsOff (c + r)] @ (if enabling then [ClearForce] else [])
     else if largerDecrease then
       (if sc_enLogic s then [Duty True 0, Duty False (ucast c), ledc_rect_op True c r]
        else (if sc_pinSd s \<noteq> 255 then [Sd True] else [Duty True 0]) @
             [Duty False (ucast c), ledc_rect_op False c r] @ (if sc_pinSd s \<noteq> 255 then [Sd False] else []))
     else if dir < 0 then [ledc_rect_op (sc_enLogic s) c r, Duty False (ucast c)]
     else [Duty False (ucast c), ledc_rect_op (sc_enLogic s) c r])"

definition drv_commit :: "bool \<Rightarrow> bool \<Rightarrow> int \<Rightarrow> conv \<Rightarrow> conv" where
  "drv_commit enabling largerDecrease dir s = sc_gate (drv_commit_ops s enabling largerDecrease dir) s"

definition drv_commitLsOff :: "u16 \<Rightarrow> u16 \<Rightarrow> conv \<Rightarrow> conv" where
  "drv_commitLsOff ctrl rect s =
    sc_gate [if sc_useMcpwm s then LsOff (ctrl + rect) else ledc_rect_op (sc_enLogic s) ctrl rect] s"

definition drv_shutdown :: "conv \<Rightarrow> conv" where
  "drv_shutdown s = sc_gate (if sc_useMcpwm s then [ForceLow, HsOff 0, LsOff 0] else [Stop False False, Stop True False]) s"

definition drv_shortLs :: "conv \<Rightarrow> conv" where
  "drv_shortLs s = (if sc_useMcpwm s then s
    else sc_gate [Stop (\<not> sc_boost s) True, Stop (sc_boost s) False] s)"

definition drv_dtTicks :: "conv \<Rightarrow> u16" where
  "drv_dtTicks s = (if sc_useMcpwm s then lg_dtTicks (gt_leg (sc_gates s)) else 0)"

section \<open>Getters\<close>

definition sc_disabled :: "conv \<Rightarrow> bool" where
  "sc_disabled s = (sc_pwmCtrl s = 0)"

definition sc_dutyCycle :: "conv \<Rightarrow> fl" where
  "sc_dutyCycle s = fdiv (to_float (uint (sc_pwmCtrl s))) (to_float (uint (sc_ctrlMax s)))"

definition sc_lowSideOn :: "conv \<Rightarrow> u16" where
  "sc_lowSideOn s = (if sc_boost s then sc_pwmCtrl s else sc_pwmRect s)"

definition sc_lowSideMin :: "conv \<Rightarrow> u16" where
  "sc_lowSideMin s = (if sc_boost s then 0 else sc_rectMin s)"

definition sc_tickRate :: "conv \<Rightarrow> fl" where
  "sc_tickRate s = fmul (to_float (uint (sc_freq s))) (to_float (uint (sc_driverPwmMax s)))"

section \<open>Run time operations\<close>

definition lsMax :: "conv \<Rightarrow> int" where
  "lsMax s = uint (sc_driverPwmMax s) - uint (sc_pwmCtrl s) - 1"

definition sc_setManualRect :: "int \<Rightarrow> conv \<Rightarrow> conv" where
  "sc_setManualRect ls s =
    (if ls < 0 then s\<lparr>sc_manualRect := - 1\<rparr>
     else let m = constrain ls (uint (sc_rectMin s)) (lsMax s);
              s1 = s\<lparr>sc_manualRect := m, sc_pwmRect := word_of_int m\<rparr>
          in drv_commitLsOff (sc_pwmCtrl s1) (sc_pwmRect s1) s1)"

definition fround :: "fl \<Rightarrow> fl" where
  "fround x = (case x of Fin q \<Rightarrow> Fin (of_int (lround_int x)) | _ \<Rightarrow> x)"

definition sc_computeRectMax :: "conv \<Rightarrow> conv res" where
  "sc_computeRectMax s =
    bindE (if sc_dcm s then
             (let ideal = fadd (fmul (to_float (uint (sc_pwmCtrl s))) (sc_ratioDCM s)) (to_float (sc_rectOnOffset s)) in
              if sc_rectDither s then
                (let v = fadd ideal (sc_ditherErr s) in
                 bindE (lround_long v) (\<lambda>ls.
                   Inr (s\<lparr>sc_ditherErr := fsub v (to_float ls), sc_pwmRectMax := word_of_int (max 0 ls)\<rparr>)))
              else bindE (cast_int 0 65535 (fround ideal)) (\<lambda>n. Inr (s\<lparr>sc_pwmRectMax := word_of_int n\<rparr>)))
           else Inr (s\<lparr>sc_pwmRectMax := word_of_int (lsMax s)\<rparr>))
      (\<lambda>s1. Inr (s1\<lparr>sc_pwmRectMax :=
         min (max (sc_rectMin s1) (sc_pwmRectMax s1)) (word_of_int (lsMax s1))\<rparr>))"

definition sc_fade :: "conv \<Rightarrow> conv" where
  \<comment> \<open>fade the rectifier in towards its limit\<close>
  "sc_fade s =
    (let step = 1 + (if uint (sc_pwmRect s) > uint (sc_rectMin s) + uint (sc_driverPwmMax s) div 64
                     then trunc_div (uint (sc_pwmRectMax s) - uint (sc_pwmRect s)) 64 else 0)
     in s\<lparr>sc_pwmRect := (if sc_syncRect s
            then word_of_int (constrain (uint (sc_pwmRect s) + step) (uint (sc_rectMin s)) (uint (sc_pwmRectMax s)))
            else sc_rectMin s)\<rparr>)"

definition sc_perturbRect :: "bool \<Rightarrow> conv \<Rightarrow> conv res" where
  \<comment> \<open>the \<open>pwmRect\<close> block of \<open>pwmPerturb\<close>\<close>
  "sc_perturbRect largerDecrease s =
    (if 0 \<le> sc_manualRect s
     then Inr (s\<lparr>sc_pwmRect := word_of_int (constrain (sc_manualRect s) (uint (sc_rectMin s)) (lsMax s))\<rparr>)
     else bindE (sc_computeRectMax (if largerDecrease \<and> \<not> sc_forced s then s\<lparr>sc_dcm := True\<rparr> else s)) (\<lambda>s2.
       if largerDecrease \<and> \<not> sc_forced s2 then Inr (s2\<lparr>sc_pwmRect := sc_rectMin s2\<rparr>)
       else Inr (sc_fade s2)))"

definition sc_perturb :: "int \<Rightarrow> conv \<Rightarrow> conv res" where
  "sc_perturb dir s =
    (let enabling = (sc_disabled s \<and> dir > 0);
         s1 = (if enabling then sd_write False s else s);
         s2 = s1\<lparr>sc_pwmCtrl := word_of_int (constrain (uint (sc_pwmCtrl s1) + dir) (uint (sc_ctrlMin s1)) (uint (sc_ctrlMax s1)))\<rparr>;
         largerDecrease = (- dir > uint (sc_driverPwmMax s2) div 50)
     in bindE (sc_perturbRect largerDecrease s2) (\<lambda>s3. Inr (drv_commit enabling largerDecrease dir s3)))"

definition sc_perturbFractional :: "fl \<Rightarrow> conv \<Rightarrow> conv res" where
  "sc_perturbFractional d s =
    (if \<not> fle (fabs d) (to_float (uint (sc_driverPwmMax s))) then Inl (Throw ''pwmPerturbFractional'')
     else let x = fadd d (sc_fbuf s); s1 = s\<lparr>sc_fbuf := Fin 0\<rparr> in
       bindE (cast_int (- 32768) 32767 x) (\<lambda>i.
       bindE (if i \<noteq> 0 then sc_perturb i s1 else Inr s1) (\<lambda>s2.
         Inr (s2\<lparr>sc_fbuf := fadd (sc_fbuf s2) (fsub x (to_float i))\<rparr>))))"

definition sc_disable :: "conv \<Rightarrow> conv" where
  "sc_disable s = (drv_shutdown (sd_write True s))\<lparr>sc_pwmCtrl := 0, sc_pwmRect := 0, sc_syncRect := False\<rparr>"

definition sc_rippleCurrent :: "fl \<Rightarrow> fl \<Rightarrow> conv \<Rightarrow> fl" where
  "sc_rippleCurrent hv lv s = fmul (fdiv lv (sc_fL s)) (fsub (Fin 1) (fdiv lv hv))"

definition sc_computeDCM :: "fl \<Rightarrow> fl \<Rightarrow> fl \<Rightarrow> conv \<Rightarrow> bool \<times> conv" where
  "sc_computeDCM vh vl il s =
    (let ir = sc_rippleCurrent vh vl s;
         dcm0 = (fgt ir (fmul il (if sc_dcm s then f32 (9 / 5) else Fin 2)) \<or> flt il (f32 (1 / 10)));
         dcm = (if sc_forced s then False else dcm0)
     in (dcm, s\<lparr>sc_dcm := dcm\<rparr>))"

definition sc_rectCtrlRatio :: "fl \<Rightarrow> conv \<Rightarrow> fl" where
  "sc_rectCtrlRatio m s = (if sc_boost s then fdiv (Fin 1) (fsub m (Fin 1)) else fsub (fdiv (Fin 1) m) (Fin 1))"

definition unityMargin :: fl where "unityMargin = f32 (1 / 100)"

definition voltageRatioWCEF :: fl where
  "voltageRatioWCEF = fdiv (fsub (Fin 1) (f32 (1 / 100))) (fadd (Fin 1) (f32 (1 / 100)))"

definition sc_convRatio :: "fl \<Rightarrow> fl \<Rightarrow> conv \<Rightarrow> fl" where
  "sc_convRatio vh vl s =
    (let r = fdiv (if sc_boost s
                   then (if fgt vh vl \<and> fgt vl (f32 (1 / 10)) then fconstrain (fdiv vh vl) (f32 (1 / 100)) (Fin 10) else Fin 10)
                   else (if fgt vh vl \<and> fgt vh (f32 (1 / 10))
                         then fconstrain (fdiv vl vh) (f32 (1 / 100)) (fsub (Fin 1) unityMargin) else Fin 1))
               voltageRatioWCEF
     in if sc_boost s then std_max r (fadd (Fin 1) unityMargin) else std_min r (fsub (Fin 1) unityMargin))"

definition sc_computeSyncRectRatio :: "fl \<Rightarrow> fl \<Rightarrow> fl \<Rightarrow> conv \<Rightarrow> conv" where
  "sc_computeSyncRectRatio vh vl il s =
    (let m = sc_convRatio vh vl s; (dcm, s1) = sc_computeDCM vh vl il (s\<lparr>sc_M := m\<rparr>)
     in if dcm then
          (if flt il (f32 (1 / 100)) \<or> flt vl (Fin 1) then s1\<lparr>sc_ratioDCM := Fin 0\<rparr>
           else s1\<lparr>sc_ratioDCM := sc_rectCtrlRatio m s1\<rparr>)
        else s1)"

definition sc_updateSyncRectMaxDuty :: "fl \<Rightarrow> fl \<Rightarrow> fl \<Rightarrow> conv \<Rightarrow> conv res" where
  "sc_updateSyncRectMaxDuty vin vout il s =
    (let vh = (if sc_boost s then vout else vin); vl = (if sc_boost s then vin else vout);
         s1 = sc_computeSyncRectRatio vh vl il s
     in if 0 \<le> sc_manualRect s1 then Inr s1
        else bindE (sc_computeRectMax s1) (\<lambda>s2.
          Inr (if sc_pwmRect s2 > sc_pwmRectMax s2
               then (let s3 = s2\<lparr>sc_pwmRect := sc_pwmRectMax s2\<rparr> in drv_commitLsOff (sc_pwmCtrl s3) (sc_pwmRect s3) s3)
               else s2)))"

definition sc_syncRectMinDuty :: "conv \<Rightarrow> conv" where
  "sc_syncRectMinDuty s =
    (if sc_pwmRect s > sc_rectMin s
     then (let s1 = s\<lparr>sc_pwmRect := sc_rectMin s\<rparr> in drv_commitLsOff (sc_pwmCtrl s1) (sc_pwmRect s1) s1)
     else s)"

definition sc_enableSyncRect :: "bool \<Rightarrow> bool \<Rightarrow> conv \<Rightarrow> conv" where
  "sc_enableSyncRect enable overwriteFPWM s =
    (let en = (enable \<or> sc_forced s \<and> \<not> overwriteFPWM); s1 = s\<lparr>sc_syncRect := en\<rparr>
     in if \<not> en then sc_syncRectMinDuty s1 else s1)"

definition sc_shortLs :: "conv \<Rightarrow> conv" where
  "sc_shortLs s = sd_write False (drv_shortLs (sc_disable s))"

section \<open>Initialisation\<close>

definition trunc_mod :: "int \<Rightarrow> int \<Rightarrow> int" where
  "trunc_mod a b = a - b * trunc_div a b"

definition ceilf :: "fl \<Rightarrow> fl" where
  "ceilf x = (case x of Fin q \<Rightarrow> (if - 1 < q \<and> q < 0 then NZero else Fin (of_int \<lceil>q\<rceil>)) | _ \<Rightarrow> x)"

definition assert_pin :: "board \<Rightarrow> u8 \<Rightarrow> bool \<Rightarrow> bool \<Rightarrow> unit res" where
  \<comment> \<open>\<open>assertPinState\<close>: with \<open>weak\<close> the pin is pulled the other way while it is read\<close>
  "assert_pin b pin want weak =
    assert_throw (bd_pin b pin (if weak then (if want then InputPulldown else InputPullup) else InputPlain) = want) ''pin state''"

definition drv_wsync :: "board \<Rightarrow> u8 \<Rightarrow> u8 \<Rightarrow> u8 \<Rightarrow> conf \<Rightarrow> string \<Rightarrow> fl \<Rightarrow> conv \<Rightarrow> conv res" where
  \<comment> \<open>the wired clock sync of \<open>drvInit\<close>: the edge counter of the pad is not modelled\<close>
  "drv_wsync b pinCtrl pinRect faultPin bc role phaseNs s =
    (let follower = (role = ''follower''); leg = gt_leg (sc_gates s); setLeg = (\<lambda>l. s\<lparr>sc_gates := (sc_gates s)\<lparr>gt_leg := l\<rparr>\<rparr>) in
     bindE (conf_getByte ''pwm_sync_pin'' 255 bc) (\<lambda>pin.
     bindE (assert_throw (pin \<noteq> 255) ''pwm_sync_pin missing in board.conf'') (\<lambda>_.
     bindE (assert_throw (if follower then bd_gpioOk b pin else bd_gpioOutOk b pin) ''pwm_sync_pin invalid'') (\<lambda>_.
     bindE (assert_throw (pin \<noteq> pinCtrl \<and> pin \<noteq> pinRect \<and> pin \<noteq> sc_pinSd s \<and> pin \<noteq> faultPin) ''pwm_sync_pin collides'') (\<lambda>_.
       let tickHz = to_float (uint (lg_resolutionHz leg)) in
       if follower then Inr ((setLeg (leg_initSyncIn leg))\<lparr>sc_follower := True\<rparr>)
       else bindE (lround_long (fmul (fmul phaseNs (f32 (1 / 1000000000))) tickHz)) (\<lambda>p.
         if lg_periodTicks leg = 0 then Inl Undefined
         else let ph = trunc_mod p (uint (lg_periodTicks leg));
                  ph' = (if ph < 0 then ph + uint (lg_periodTicks leg) else ph)
         in bindE (lround_long (fmul (f32 (1 / 1000000)) tickHz)) (\<lambda>w.
            bindE (leg_initSyncOut (word_of_int (max 1 w)) (word_of_int ph') leg) (\<lambda>l. Inr (setLeg l)))))))))"

definition drv_init :: "board \<Rightarrow> u8 \<Rightarrow> u8 \<Rightarrow> conf \<Rightarrow> string \<Rightarrow> fl \<Rightarrow> conv \<Rightarrow> conv res" where
  "drv_init b pinCtrl pinRect bc role phaseNs s =
    (if sc_useMcpwm s then
       bindE (bestTiming (sc_freq s) 160000000) (\<lambda>t.
       bindE (if sc_enLogic s then Inr 0
              else bindE (conf_getFloat ''pwm_deadtime_ns'' (Fin 0) bc) (\<lambda>ns.
                lround_long (fmul (fmul ns (f32 (1 / 1000000000))) (to_float (uint (pt_resolution_hz t)))))) (\<lambda>dt.
       bindE (leg_init (sc_freq s) (word_of_int dt) (sc_enLogic s) 0 (bd_wsync b \<and> role = ''follower'') (gt_leg (sc_gates s))) (\<lambda>l.
       bindE (conf_getByte ''pwm_fault_pin'' 255 bc) (\<lambda>fp.
       bindE (if fp \<noteq> 255 then bindE (conf_getByte ''pwm_fault_active_high'' 0 bc) (\<lambda>h. Inr (Some (fp, h \<noteq> 0))) else Inr None) (\<lambda>flt.
       bindE (let s1 = s\<lparr>sc_gates := (sc_gates s)\<lparr>gt_leg := l\<rparr>, sc_fault := flt\<rparr>
              in if bd_wsync b \<and> role \<noteq> ''none'' then drv_wsync b pinCtrl pinRect fp bc role phaseNs s1 else Inr s1) (\<lambda>s2.
         let l2 = leg_forceShutdown (leg_start (gt_leg (sc_gates s2)))
         in Inr (s2\<lparr>sc_gates := (sc_gates s2)\<lparr>gt_leg := l2\<rparr>, sc_driverPwmMax := lg_pwmMax l2\<rparr>)))))))
     else
       bindE (ledc_init_pwm (bd_apb b) (bd_ledcBits b) (sc_freq s) 0) (\<lambda>(c, m).
       bindE (ledc_init_pwm (bd_apb b) (bd_ledcBits b) (sc_freq s) m) (\<lambda>(r, m').
         Inr (s\<lparr>sc_gates := (sc_gates s)\<lparr>gt_ctrl := c, gt_rect := r\<rparr>, sc_driverPwmMax := m'\<rparr>))))"

definition init_inEn :: "board \<Rightarrow> conf \<Rightarrow> conv \<Rightarrow> (u8 \<times> u8 \<times> conv) res" where
  "init_inEn b bc s =
    bindE (conf_getByteOr255 (if sc_boost s then ''pwm_en'' else ''pwm_in'') bc) (\<lambda>pinCtrl.
    bindE (conf_getByteOr255 (if sc_boost s then ''pwm_in'' else ''pwm_en'') bc) (\<lambda>pinRect.
    bindE (assert_throw (pinCtrl \<noteq> pinRect) []) (\<lambda>_.
    bindE (conf_getByte ''skip_assert'' 0 bc) (\<lambda>skip.
    bindE (if skip = 0 then bindE (assert_pin b pinCtrl False True) (\<lambda>_. assert_pin b pinRect False True) else Inr ()) (\<lambda>_.
      Inr (pinCtrl, pinRect, s\<lparr>sc_enLogic := True\<rparr>))))))"

definition init_hiLi :: "board \<Rightarrow> conf \<Rightarrow> conv \<Rightarrow> (u8 \<times> u8 \<times> conv) res" where
  "init_hiLi b bc s =
    bindE (conf_getByteOr255 (if sc_boost s then ''pwm_li'' else ''pwm_hi'') bc) (\<lambda>pinCtrl.
    bindE (conf_getByteOr255 (if sc_boost s then ''pwm_hi'' else ''pwm_li'') bc) (\<lambda>pinRect.
    bindE (conf_getByte ''pwm_sd'' 255 bc) (\<lambda>pinSd.
    bindE (assert_throw (pinCtrl \<noteq> pinRect) []) (\<lambda>_.
    bindE (assert_throw (pinCtrl \<noteq> pinSd) []) (\<lambda>_.
    bindE (assert_throw (pinRect \<noteq> pinSd) []) (\<lambda>_.
    bindE (conf_getByte ''skip_assert'' 0 bc) (\<lambda>skip.
    bindE (if skip = 0
           then bindE (assert_pin b pinCtrl False False) (\<lambda>_.
                bindE (assert_pin b pinRect False False) (\<lambda>_.
                if pinSd \<noteq> 255 then assert_pin b pinSd True False else Inr ()))
           else Inr ()) (\<lambda>_.
      Inr (pinCtrl, pinRect, s\<lparr>sc_pinSd := pinSd\<rparr>)))))))))"

definition init_syncPhase :: "board \<Rightarrow> conf \<Rightarrow> conv \<Rightarrow> (string \<times> fl) res" where
  "init_syncPhase b cc s =
    (if \<not> bd_wsync b then Inr (''none'', Fin 0)
     else let role = conf_getStringDef ''sync_role'' ''none'' cc; periodNs = fdiv (f32 1000000000) (to_float (uint (sc_freq s))) in
       if role \<noteq> ''none'' \<and> role \<noteq> ''leader'' \<and> role \<noteq> ''follower'' then Inl (Throw (''unrecognized sync_role '' @ role))
       else bindE (assert_throw (role = ''none'' \<or> sc_useMcpwm s) ''sync_role needs pwm_driver=mcpwm'') (\<lambda>_.
         bindE (conf_getFloat ''sync_phase_deg'' (Fin 0) cc) (\<lambda>deg.
         bindE (conf_getFloat ''sync_phase_ns'' (Fin 0) cc) (\<lambda>trim.
         bindE (assert_throw (fle (fabs deg) (Fin 360)) ''sync_phase_deg out of range'') (\<lambda>_.
         bindE (assert_throw (fle (fabs trim) periodNs) ''sync_phase_ns out of range'') (\<lambda>_.
           Inr (role, fadd (fmul deg (fdiv periodNs (Fin 360))) trim)))))))"

definition init_limits :: "conf \<Rightarrow> conv \<Rightarrow> conv res" where
  \<comment> \<open>the duty limits from the bootstrap refresh time\<close>
  "init_limits bc s =
    bindE (conf_getFloat ''boot_refresh_ns'' (f32 2000) bc) (\<lambda>ns.
    bindE (if sc_boost s then Inr 0
           else cast_int 0 65535 (ceilf (fmul (fmul (fmul ns (f32 (1 / 1000000000))) (to_float (uint (sc_freq s))))
                  (to_float (uint (sc_driverPwmMax s)))))) (\<lambda>n.
      Inr (s\<lparr>sc_rectMin := word_of_int n, sc_ctrlMax := word_of_int (uint (sc_driverPwmMax s) - n), sc_ctrlMin := 1\<rparr>)))"

definition init_params :: "conf \<Rightarrow> conf \<Rightarrow> conf \<Rightarrow> conv \<Rightarrow> conv res" where
  \<comment> \<open>the first half of \<open>init\<close>: topology, driver, coil and frequency\<close>
  "init_params cc bc coil s =
    (let topo = conf_getStringDef ''topo'' ''buck'' cc; drv = conf_getStringDef ''pwm_driver'' ''ledc'' cc in
     bindE (assert_throw (topo = ''buck'' \<or> topo = ''boost'') []) (\<lambda>_.
     bindE (conf_getByte ''forced_pwm'' 0 cc) (\<lambda>forced.
     bindE (if drv \<noteq> ''mcpwm'' \<and> drv \<noteq> ''ledc'' then Inl (Throw (''unrecognized pwm_driver '' @ drv)) else Inr ()) (\<lambda>_.
     bindE (conf_getFloat ''L0'' FLT_MAX coil) (\<lambda>L0.
     bindE (conf_getLong ''pwm_freq'' LONG_MAX bc) (\<lambda>fq.
       let f = word_of_int fq; fL = fmul (fmul (to_float (uint f)) L0) (f32 (95 / 100)) in
     bindE (assert_throw (5000 < uint f \<and> uint f < 500000) []) (\<lambda>_.
     bindE (assert_throw (flt fL (Fin 20)) ''pwmFreq*L0 out-of-range'') (\<lambda>_.
     bindE (assert_throw (fgt fL (Fin 1)) ''pwmFreq*L0 out-of-range'') (\<lambda>_.
       Inr (s\<lparr>sc_boost := (topo = ''boost''), sc_forced := (forced \<noteq> 0), sc_useMcpwm := (drv = ''mcpwm''),
              sc_coilL0 := L0, sc_freq := f, sc_fL := fL\<rparr>))))))))))"

definition init_driver :: "board \<Rightarrow> conf \<Rightarrow> conf \<Rightarrow> conf \<Rightarrow> conv \<Rightarrow> conv res" where
  \<comment> \<open>the second half: input logic, gate driver, duty limits and rectifier offset\<close>
  "init_driver b cc bc coil s =
     bindE (conf_getString ''pwm_driver_logic'' bc) (\<lambda>logic.
     bindE (if logic = ''InEn'' then init_inEn b bc s else if logic = ''HiLi'' then init_hiLi b bc s
            else Inl (Throw (''unrecognized pwm_driver_logic '' @ logic))) (\<lambda>(pinCtrl, pinRect, s3).
     bindE (init_syncPhase b cc s3) (\<lambda>(role, phaseNs).
     bindE (drv_init b pinCtrl pinRect bc role phaseNs s3) (\<lambda>s4.
     bindE (init_limits bc (sd_write True s4)) (\<lambda>s5.
     bindE (conf_getFloat ''rect_offset_ns'' (Fin 0) coil) (\<lambda>ns.
     bindE (pwmCountsFromNs ns (sc_tickRate s5)) (\<lambda>off.
       Inr (s5\<lparr>sc_rectOnOffset := sint (word_of_int off :: u16)\<rparr>))))))))"

definition sc_init :: "board \<Rightarrow> conf \<Rightarrow> conf \<Rightarrow> conf \<Rightarrow> conv \<Rightarrow> conv res" where
  "sc_init b cc bc coil s = bindE (init_params cc bc coil s) (init_driver b cc bc coil)"

section \<open>Duty limits\<close>

definition conv_cfg :: "conv \<Rightarrow> bool" where
  \<comment> \<open>the limits of a buck converter with a refresh pulse shorter than the period\<close>
  "conv_cfg s = (\<not> sc_boost s \<and> sc_ctrlMin s = 1 \<and> 1 \<le> uint (sc_rectMin s) \<and> 1 \<le> uint (sc_ctrlMax s) \<and>
     uint (sc_ctrlMax s) = uint (sc_driverPwmMax s) - uint (sc_rectMin s))"

definition duty_inv :: "conv \<Rightarrow> bool" where
  "duty_inv s = (uint (sc_pwmCtrl s) \<le> uint (sc_ctrlMax s) \<and>
     uint (sc_pwmCtrl s) + uint (sc_pwmRect s) \<le> uint (sc_driverPwmMax s) \<and>
     (uint (sc_pwmCtrl s) + uint (sc_pwmRect s) = uint (sc_driverPwmMax s) \<longrightarrow> sc_pwmCtrl s = sc_ctrlMax s))"

lemma lsMax_range: "conv_cfg s \<Longrightarrow> uint (sc_pwmCtrl s) \<le> uint (sc_ctrlMax s) \<Longrightarrow>
   0 \<le> lsMax s \<and> lsMax s < 65536 \<and> uint (sc_rectMin s) - 1 \<le> lsMax s"
proof -
  assume c: "conv_cfg s" "uint (sc_pwmCtrl s) \<le> uint (sc_ctrlMax s)"
  have "uint (sc_driverPwmMax s) < 65536" "0 \<le> uint (sc_pwmCtrl s)" by (rule uint_u16_range)+
  then show ?thesis using c by (simp only: conv_cfg_def lsMax_def) linarith
qed

lemma computeRectMax_frame:
  assumes "sc_computeRectMax s = Inr s'"
  shows "s' = s\<lparr>sc_ditherErr := sc_ditherErr s', sc_pwmRectMax := sc_pwmRectMax s'\<rparr>"
  using assms by (auto simp: sc_computeRectMax_def bindE_Inr_iff Let_def split: if_splits)

lemma computeRectMax_le:
  assumes "sc_computeRectMax s = Inr s'" "conv_cfg s" "uint (sc_pwmCtrl s) \<le> uint (sc_ctrlMax s)"
  shows "uint (sc_pwmRectMax s') \<le> lsMax s"
proof -
  have "0 \<le> lsMax s" "lsMax s < 65536" using lsMax_range [OF assms(2,3)] by auto
  then have u: "uint (word_of_int (lsMax s) :: u16) = lsMax s" by (rule uint_of_int_u16)
  have "sc_pwmRectMax s' \<le> word_of_int (lsMax s)"
    using assms(1) by (auto simp: sc_computeRectMax_def bindE_Inr_iff Let_def lsMax_def split: if_splits)
  then show ?thesis using u by (simp add: word_le_def)
qed

lemma constrain_bounds: "constrain a lo hi \<le> max lo hi" "min lo hi \<le> constrain a lo hi"
  by (simp_all add: constrain_def)

lemma rect_constrain:
  assumes "conv_cfg s" "uint (sc_pwmCtrl s) \<le> uint (sc_ctrlMax s)" "0 \<le> hi" "hi \<le> lsMax s"
  shows "uint (word_of_int (constrain a (uint (sc_rectMin s)) hi) :: u16) = constrain a (uint (sc_rectMin s)) hi \<and>
    duty_inv (s\<lparr>sc_pwmRect := word_of_int (constrain a (uint (sc_rectMin s)) hi)\<rparr>)"
proof -
  let ?r = "constrain a (uint (sc_rectMin s)) hi"
  have P: "uint (sc_driverPwmMax s) < 65536" "0 \<le> uint (sc_pwmCtrl s)" by (rule uint_u16_range)+
  have c: "uint (sc_ctrlMax s) = uint (sc_driverPwmMax s) - uint (sc_rectMin s)" "1 \<le> uint (sc_rectMin s)"
    using assms(1) by (auto simp: conv_cfg_def)
  have b: "?r \<le> uint (sc_rectMin s) \<or> ?r \<le> lsMax s" "0 \<le> ?r"
    using constrain_bounds(1) [of a "uint (sc_rectMin s)" hi] constrain_bounds(2) [of "uint (sc_rectMin s)" hi a] assms(3,4) c(2)
    by linarith+
  have u: "uint (word_of_int ?r :: u16) = ?r"
    by (rule uint_of_int_u16) (use b P c assms(2) in \<open>simp_all only: lsMax_def\<close>, linarith)
  have "uint (sc_pwmCtrl s) + ?r \<le> uint (sc_driverPwmMax s)"
    using b(1) c assms(2) unfolding lsMax_def by linarith
  moreover have "uint (sc_pwmCtrl s) = uint (sc_ctrlMax s)" if "uint (sc_pwmCtrl s) + ?r = uint (sc_driverPwmMax s)"
    using b(1) c assms(2) that unfolding lsMax_def by linarith
  ultimately show ?thesis using assms(2) u by (simp add: duty_inv_def word_uint_eq_iff)
qed

lemma rectMin_inv:
  assumes "conv_cfg s" "uint (sc_pwmCtrl s) \<le> uint (sc_ctrlMax s)"
  shows "duty_inv (s\<lparr>sc_pwmRect := sc_rectMin s\<rparr>)"
  using assms by (auto simp: duty_inv_def conv_cfg_def word_uint_eq_iff)

lemma duty_inv_decrease:
  "duty_inv s \<Longrightarrow> uint r \<le> uint (sc_pwmRect s) \<Longrightarrow> duty_inv (s\<lparr>sc_pwmRect := r\<rparr>)"
  by (auto simp: duty_inv_def)

lemma gates_duty [simp]: "duty_inv (s\<lparr>sc_gates := g\<rparr>) = duty_inv s" "conv_cfg (s\<lparr>sc_gates := g\<rparr>) = conv_cfg s"
  "lsMax (s\<lparr>sc_gates := g\<rparr>) = lsMax s"
  by (simp_all add: duty_inv_def conv_cfg_def lsMax_def)

definition same_frame :: "conv \<Rightarrow> conv \<Rightarrow> bool" where
  \<comment> \<open>the configuration, the duty and the driver are untouched\<close>
  "same_frame s t = (sc_gates t = sc_gates s \<and> sc_useMcpwm t = sc_useMcpwm s \<and> sc_driverPwmMax t = sc_driverPwmMax s \<and>
     sc_enLogic t = sc_enLogic s \<and> sc_pinSd t = sc_pinSd s \<and> sc_pwmCtrl t = sc_pwmCtrl s \<and> sc_boost t = sc_boost s \<and>
     sc_ctrlMax t = sc_ctrlMax s \<and> sc_rectMin t = sc_rectMin s \<and> sc_ctrlMin t = sc_ctrlMin s \<and>
     sc_forced t = sc_forced s \<and> sc_manualRect t = sc_manualRect s \<and> sc_fbuf t = sc_fbuf s \<and> sc_syncRect t = sc_syncRect s)"

lemma same_frame_duty: "same_frame s t \<Longrightarrow> conv_cfg t = conv_cfg s \<and> lsMax t = lsMax s"
  by (simp add: same_frame_def conv_cfg_def lsMax_def)

lemma same_frame_inv: "same_frame s t \<Longrightarrow> sc_pwmRect t = sc_pwmRect s \<Longrightarrow> duty_inv t = duty_inv s"
  by (simp add: same_frame_def duty_inv_def)

lemma computeRectMax_same:
  assumes "sc_computeRectMax s = Inr s'"
  shows "same_frame s s' \<and> sc_pwmRect s' = sc_pwmRect s \<and> sc_dcm s' = sc_dcm s"
  by (subst (1 2 3) computeRectMax_frame [OF assms]) (simp add: same_frame_def)

lemma computeSyncRectRatio_same:
  "same_frame s (sc_computeSyncRectRatio vh vl il s) \<and>
   sc_pwmRect (sc_computeSyncRectRatio vh vl il s) = sc_pwmRect s"
  by (simp add: same_frame_def sc_computeSyncRectRatio_def sc_computeDCM_def Let_def)

lemma perturbRect_ok:
  assumes "sc_perturbRect ld s = Inr s'" "conv_cfg s" "uint (sc_pwmCtrl s) \<le> uint (sc_ctrlMax s)"
  shows "same_frame s s' \<and> duty_inv s'"
proof (cases "0 \<le> sc_manualRect s")
  case True
  have r: "0 \<le> lsMax s" using lsMax_range [OF assms(2,3)] by simp
  from assms(1) True have "s' = s\<lparr>sc_pwmRect := word_of_int (constrain (sc_manualRect s) (uint (sc_rectMin s)) (lsMax s))\<rparr>"
    by (simp add: sc_perturbRect_def)
  then show ?thesis using rect_constrain [OF assms(2,3) r order_refl] by (simp add: same_frame_def)
next
  case False
  let ?s = "if ld \<and> \<not> sc_forced s then s\<lparr>sc_dcm := True\<rparr> else s"
  have f0: "same_frame s ?s" by (simp add: same_frame_def)
  from assms(1) False obtain s2 where s2: "sc_computeRectMax ?s = Inr s2"
    "s' = (if ld \<and> \<not> sc_forced s2 then s2\<lparr>sc_pwmRect := sc_rectMin s2\<rparr> else sc_fade s2)"
    by (auto simp: sc_perturbRect_def bindE_Inr_iff split: if_splits)
  note c = computeRectMax_same [OF s2(1)]
  have f: "same_frame s s2" using c f0 by (simp add: same_frame_def)
  have cfg: "conv_cfg s2" "uint (sc_pwmCtrl s2) \<le> uint (sc_ctrlMax s2)" "lsMax s2 = lsMax s"
    using same_frame_duty [OF f] f assms(2,3) by (simp_all add: same_frame_def)
  have m: "uint (sc_pwmRectMax s2) \<le> lsMax s2"
    using computeRectMax_le [OF s2(1)] same_frame_duty [OF f0] f0 assms(2,3) cfg(3) by (simp add: same_frame_def)
  have "same_frame s (sc_fade s2)" using f by (simp add: same_frame_def sc_fade_def Let_def)
  moreover have "duty_inv (sc_fade s2)"
    using rect_constrain [OF cfg(1,2) _ m] rectMin_inv [OF cfg(1,2)] by (simp add: sc_fade_def Let_def)
  moreover have "duty_inv (s2\<lparr>sc_pwmRect := sc_rectMin s2\<rparr>)" by (rule rectMin_inv [OF cfg(1,2)])
  moreover have "same_frame s (s2\<lparr>sc_pwmRect := sc_rectMin s2\<rparr>)" using f by (simp add: same_frame_def)
  ultimately show ?thesis using s2(2) by (simp split: if_splits)
qed

definition ctrl_next :: "int \<Rightarrow> conv \<Rightarrow> u16" where
  "ctrl_next dir s = word_of_int (constrain (uint (sc_pwmCtrl s) + dir) (uint (sc_ctrlMin s)) (uint (sc_ctrlMax s)))"

lemma ctrl_next_range:
  assumes "conv_cfg s"
  shows "uint (ctrl_next dir s) = constrain (uint (sc_pwmCtrl s) + dir) 1 (uint (sc_ctrlMax s)) \<and>
    1 \<le> uint (ctrl_next dir s) \<and> uint (ctrl_next dir s) \<le> uint (sc_ctrlMax s)"
proof -
  have c: "sc_ctrlMin s = 1" "1 \<le> uint (sc_ctrlMax s)" using assms by (auto simp: conv_cfg_def)
  let ?r = "constrain (uint (sc_pwmCtrl s) + dir) 1 (uint (sc_ctrlMax s))"
  have b: "1 \<le> ?r" "?r \<le> uint (sc_ctrlMax s)" using c(2) by (auto simp: constrain_def)
  have "uint (sc_ctrlMax s) < 65536" by (rule uint_u16_range)
  then have "uint (word_of_int ?r :: u16) = ?r" using b by (intro uint_of_int_u16) linarith+
  then show ?thesis using b c by (simp add: ctrl_next_def)
qed

lemma perturb_ok:
  assumes "sc_perturb dir s = Inr s'" "conv_cfg s"
  shows "\<exists>s3. same_frame ((if sc_disabled s \<and> dir > 0 then sd_write False s else s)\<lparr>sc_pwmCtrl := ctrl_next dir s\<rparr>) s3 \<and>
    duty_inv s3 \<and>
    s' = drv_commit (sc_disabled s \<and> dir > 0) (- dir > uint (sc_driverPwmMax s) div 50) dir s3"
proof -
  let ?s1 = "if sc_disabled s \<and> dir > 0 then sd_write False s else s"
  let ?s2 = "?s1\<lparr>sc_pwmCtrl := ctrl_next dir s\<rparr>"
  have e: "word_of_int (constrain (uint (sc_pwmCtrl ?s1) + dir) (uint (sc_ctrlMin ?s1)) (uint (sc_ctrlMax ?s1))) = ctrl_next dir s"
    "sc_driverPwmMax ?s2 = sc_driverPwmMax s"
    by (simp_all add: ctrl_next_def sd_write_def sc_gate_def)
  from assms(1) obtain s3 where s3: "sc_perturbRect (- dir > uint (sc_driverPwmMax s) div 50) ?s2 = Inr s3"
    "s' = drv_commit (sc_disabled s \<and> dir > 0) (- dir > uint (sc_driverPwmMax s) div 50) dir s3"
    unfolding sc_perturb_def Let_def e by (auto simp: bindE_Inr_iff)
  have cfg: "conv_cfg ?s2" "uint (sc_pwmCtrl ?s2) \<le> uint (sc_ctrlMax ?s2)"
    using assms(2) ctrl_next_range [OF assms(2), of dir] by (simp_all add: conv_cfg_def sd_write_def sc_gate_def)
  from perturbRect_ok [OF s3(1) cfg] s3(2) show ?thesis by blast
qed

section \<open>Operation sequences\<close>

datatype conv_op =
    Perturb int | Fractional fl | SyncDuty fl fl fl | EnableRect bool bool | MinDuty | Disable | ManualRect int

fun conv_step :: "conv_op \<Rightarrow> conv \<Rightarrow> conv res" where
  "conv_step (Perturb d) s = sc_perturb d s"
| "conv_step (Fractional d) s = sc_perturbFractional d s"
| "conv_step (SyncDuty vin vout il) s = sc_updateSyncRectMaxDuty vin vout il s"
| "conv_step (EnableRect e ov) s = Inr (sc_enableSyncRect e ov s)"
| "conv_step MinDuty s = Inr (sc_syncRectMinDuty s)"
| "conv_step Disable s = Inr (sc_disable s)"
| "conv_step (ManualRect n) s = Inr (sc_setManualRect n s)"

fun conv_run :: "conv_op list \<Rightarrow> conv \<Rightarrow> conv res" where
  "conv_run [] s = Inr s"
| "conv_run (x # xs) s = bindE (conv_step x s) (conv_run xs)"

definition bad_wake :: "conv_op \<Rightarrow> conv \<Rightarrow> bool" where
  \<comment> \<open>the converter is disabled and the operation moves a gate without enabling the driver\<close>
  "bad_wake x s = (sc_disabled s \<and>
    (case x of Perturb d \<Rightarrow> d \<le> 0 | Fractional d \<Rightarrow> trunc_int (fadd d (sc_fbuf s)) < 0 | ManualRect n \<Rightarrow> 0 \<le> n | _ \<Rightarrow> False))"

fun wakes_ok :: "conv_op list \<Rightarrow> conv \<Rightarrow> bool" where
  "wakes_ok [] s = True"
| "wakes_ok (x # xs) s = (\<not> bad_wake x s \<and> (case conv_step x s of Inl _ \<Rightarrow> True | Inr t \<Rightarrow> wakes_ok xs t))"

section \<open>What the gates do\<close>

definition gate_levels :: "conv \<Rightarrow> int \<Rightarrow> bool \<times> bool" where
  \<comment> \<open>the control and the rectifier MOSFET at tick \<open>k\<close> of a period: with IN/EN inputs the driver
      chip selects, the shutdown pin overrides HI/LI\<close>
  "gate_levels s k =
    (let g = sc_gates s;
         a = (if sc_useMcpwm s then leg_hs (gt_leg g) k else chan_on (gt_ctrl g) k);
         b = (if sc_useMcpwm s then leg_ls (gt_leg g) k else chan_on (gt_rect g) k)
     in if sc_enLogic s then (a \<and> b, b \<and> \<not> a)
        else if sc_pinSd s \<noteq> 255 \<and> gt_sd g then (False, False) else (a, b))"

definition chan_off :: "chan \<Rightarrow> bool" where
  "chan_off c = (cn_stopped c = Some False \<or> cn_stopped c = None \<and> cn_duty c = 0)"

definition leg_cfg :: "conv \<Rightarrow> bool" where
  "leg_cfg s = (let l = gt_leg (sc_gates s) in lg_enLogic l = sc_enLogic s \<and> (sc_enLogic s \<longrightarrow> lg_dtTicks l = 0) \<and>
     uint (lg_periodTicks l) = uint (sc_driverPwmMax s) + uint (lg_dtTicks l))"

definition drv_match :: "conv \<Rightarrow> bool" where
  "drv_match s =
    (let g = sc_gates s; c = sc_pwmCtrl s; r = sc_pwmRect s in
     (c = 0 \<longrightarrow> r = 0) \<and> (sc_pinSd s \<noteq> 255 \<longrightarrow> gt_sd g = (c = 0)) \<and>
     (if sc_useMcpwm s
      then leg_cfg s \<and> lg_forcedLow (gt_leg g) = (c = 0) \<and> lg_cmpHS (gt_leg g) = c \<and> lg_cmpLS (gt_leg g) = c + r
      else cn_hpoint (gt_ctrl g) = 0 \<and> (sc_enLogic s \<longrightarrow> cn_hpoint (gt_rect g) = 0) \<and>
        (if c = 0 then chan_off (gt_ctrl g) \<and> chan_off (gt_rect g)
         else cn_stopped (gt_ctrl g) = None \<and> cn_stopped (gt_rect g) = None \<and> cn_duty (gt_ctrl g) = ucast c \<and>
           (if sc_enLogic s then cn_duty (gt_rect g) = word_of_int (uint c + uint r)
            else cn_hpoint (gt_rect g) = ucast c \<and> cn_duty (gt_rect g) = ucast r))))"

lemma drv_commit_match:
  assumes "sc_pwmCtrl s \<noteq> 0" "sc_pinSd s \<noteq> 255 \<longrightarrow> \<not> gt_sd (sc_gates s)"
    "\<not> sc_useMcpwm s \<longrightarrow> cn_hpoint (gt_ctrl (sc_gates s)) = 0 \<and> (sc_enLogic s \<longrightarrow> cn_hpoint (gt_rect (sc_gates s)) = 0)"
    "sc_useMcpwm s \<longrightarrow> leg_cfg s \<and> (lg_forcedLow (gt_leg (sc_gates s)) \<longrightarrow> en)"
  shows "drv_match (drv_commit en ld dir s)"
proof (cases "sc_useMcpwm s")
  case True
  then show ?thesis using assms
    by (auto simp: drv_match_def leg_cfg_def drv_commit_def drv_commit_ops_def sc_gate_def gate_defs Let_def)
next
  case False
  consider "ld" "sc_enLogic s" | "ld" "\<not> sc_enLogic s" "sc_pinSd s \<noteq> 255" | "ld" "\<not> sc_enLogic s" "sc_pinSd s = 255"
    | "\<not> ld" "dir < 0" | "\<not> ld" "\<not> dir < 0" by blast
  then show ?thesis using False assms
    by cases (simp_all add: drv_match_def leg_cfg_def drv_commit_def drv_commit_ops_def sc_gate_def gate_defs ledc_rect_op_def Let_def)
qed

lemma drv_commitLsOff_match:
  assumes "drv_match s" "sc_pwmCtrl s \<noteq> 0"
  shows "drv_match (drv_commitLsOff (sc_pwmCtrl s) r (s\<lparr>sc_pwmRect := r\<rparr>))"
    "drv_match (drv_commitLsOff (sc_pwmCtrl s) r (s\<lparr>sc_manualRect := m, sc_pwmRect := r\<rparr>))"
proof -
  show "drv_match (drv_commitLsOff (sc_pwmCtrl s) r (s\<lparr>sc_pwmRect := r\<rparr>))"
    using assms by (cases "sc_useMcpwm s"; cases "sc_enLogic s")
      (simp_all add: drv_match_def leg_cfg_def drv_commitLsOff_def sc_gate_def gate_defs ledc_rect_op_def Let_def)
  show "drv_match (drv_commitLsOff (sc_pwmCtrl s) r (s\<lparr>sc_manualRect := m, sc_pwmRect := r\<rparr>))"
    using assms by (cases "sc_useMcpwm s"; cases "sc_enLogic s")
      (simp_all add: drv_match_def leg_cfg_def drv_commitLsOff_def sc_gate_def gate_defs ledc_rect_op_def Let_def)
qed

lemma disable_match: "drv_match s \<Longrightarrow> drv_match (sc_disable s)"
  by (cases "sc_useMcpwm s"; cases "sc_pinSd s = 255")
    (simp_all add: drv_match_def leg_cfg_def sc_disable_def drv_shutdown_def sd_write_def sc_gate_def gate_defs chan_off_def Let_def)

definition conv_ok :: "conv \<Rightarrow> bool" where
  "conv_ok s = (conv_cfg s \<and> duty_inv s)"

lemma same_frame_match: "same_frame s t \<Longrightarrow> sc_pwmRect t = sc_pwmRect s \<Longrightarrow> drv_match t = drv_match s"
  by (simp add: same_frame_def drv_match_def leg_cfg_def)

lemma conv_gates [simp]: "conv_ok (drv_commit en ld dir s) = conv_ok s" "conv_ok (drv_commitLsOff c r s) = conv_ok s"
  "conv_ok (sd_write b s) = conv_ok s" "conv_ok (drv_shutdown s) = conv_ok s"
  by (simp_all add: conv_ok_def drv_commit_def drv_commitLsOff_def sd_write_def drv_shutdown_def sc_gate_def)

lemma perturb_step:
  assumes "sc_perturb dir s = Inr s'" "conv_cfg s"
  shows "conv_ok s' \<and> sc_pwmCtrl s' = ctrl_next dir s \<and> sc_fbuf s' = sc_fbuf s \<and>
    (drv_match s \<and> (sc_disabled s \<longrightarrow> 0 < dir) \<longrightarrow> drv_match s')"
proof -
  let ?en = "sc_disabled s \<and> dir > 0"
  let ?b = "(if ?en then sd_write False s else s)\<lparr>sc_pwmCtrl := ctrl_next dir s\<rparr>"
  let ?ld = "- dir > uint (sc_driverPwmMax s) div 50"
  from perturb_ok [OF assms] obtain s3 where s3: "same_frame ?b s3" "duty_inv s3" "s' = drv_commit ?en ?ld dir s3"
    by blast
  have "conv_cfg ?b" using assms(2) by (simp add: conv_cfg_def sd_write_def sc_gate_def)
  then have ok: "conv_ok s'" using s3 same_frame_duty [OF s3(1)] by (simp add: conv_ok_def [of s3])
  have c: "sc_pwmCtrl s3 = ctrl_next dir s" "sc_fbuf s3 = sc_fbuf s" using s3(1) by (simp_all add: same_frame_def sd_write_def sc_gate_def)
  then have c': "sc_pwmCtrl s' = ctrl_next dir s" "sc_fbuf s' = sc_fbuf s" using s3(3) by (simp_all add: drv_commit_def sc_gate_def)
  have "drv_match s'" if m: "drv_match s" "sc_disabled s \<longrightarrow> 0 < dir"
  proof -
    have nz: "sc_pwmCtrl s3 \<noteq> 0" using ctrl_next_range [OF assms(2), of dir] c by (auto simp: u16_zero_iff)
    have g: "sc_gates s3 = sc_gates (if ?en then sd_write False s else s)" "sc_pinSd s3 = sc_pinSd s"
      "sc_useMcpwm s3 = sc_useMcpwm s" "sc_enLogic s3 = sc_enLogic s" "sc_driverPwmMax s3 = sc_driverPwmMax s"
      using s3(1) by (simp_all add: same_frame_def sd_write_def sc_gate_def)
    show ?thesis unfolding s3(3)
      by (rule drv_commit_match) (use nz g m in \<open>auto simp: drv_match_def leg_cfg_def sc_disabled_def sd_write_def sc_gate_def Let_def\<close>)
  qed
  then show ?thesis using ok c' by blast
qed

lemma perturbFractional_step:
  assumes "sc_perturbFractional d s = Inr s'" "conv_ok s"
  shows "conv_ok s' \<and> (drv_match s \<and> (sc_disabled s \<longrightarrow> 0 \<le> trunc_int (fadd d (sc_fbuf s))) \<longrightarrow> drv_match s')"
proof -
  let ?s1 = "s\<lparr>sc_fbuf := Fin 0\<rparr>" and ?x = "fadd d (sc_fbuf s)"
  from assms(1) obtain i s2 where i: "cast_int (- 32768) 32767 ?x = Inr i"
    "(if i \<noteq> 0 then sc_perturb i ?s1 else Inr ?s1) = Inr s2" "s' = s2\<lparr>sc_fbuf := fadd (sc_fbuf s2) (fsub ?x (to_float i))\<rparr>"
    by (auto simp: sc_perturbFractional_def Let_def bindE_Inr_iff split: if_splits)
  have f: "conv_ok (t\<lparr>sc_fbuf := z\<rparr>) = conv_ok t" "drv_match (t\<lparr>sc_fbuf := z\<rparr>) = drv_match t" for t z
    by (simp_all add: conv_ok_def conv_cfg_def duty_inv_def drv_match_def leg_cfg_def)
  have "conv_ok s2 \<and> (drv_match s \<and> (sc_disabled s \<longrightarrow> 0 \<le> trunc_int ?x) \<longrightarrow> drv_match s2)"
  proof (cases "i = 0")
    case True
    then show ?thesis using i(2) assms(2) by (auto simp: f)
  next
    case False
    then have p: "sc_perturb i ?s1 = Inr s2" using i(2) by simp
    have "conv_cfg ?s1" using assms(2) by (simp add: conv_ok_def conv_cfg_def)
    from perturb_step [OF p this] False i(1) show ?thesis by (auto simp: f sc_disabled_def cast_int_Inr)
  qed
  then show ?thesis using i(3) f by simp
qed

lemma syncDuty_step:
  assumes "sc_updateSyncRectMaxDuty vin vout il s = Inr s'" "conv_ok s"
  shows "conv_ok s' \<and> (drv_match s \<longrightarrow> drv_match s')"
proof -
  define s1 where "s1 = sc_computeSyncRectRatio (if sc_boost s then vout else vin) (if sc_boost s then vin else vout) il s"
  have f1: "same_frame s s1" "sc_pwmRect s1 = sc_pwmRect s"
    using computeSyncRectRatio_same by (simp_all add: s1_def)
  have ok1: "conv_ok s1" "drv_match s1 = drv_match s"
    using assms(2) same_frame_duty [OF f1(1)] same_frame_inv [OF f1] same_frame_match [OF f1] by (simp_all add: conv_ok_def)
  show ?thesis
  proof (cases "0 \<le> sc_manualRect s1")
    case True
    then have "s' = s1" using assms(1) by (simp add: sc_updateSyncRectMaxDuty_def Let_def s1_def)
    then show ?thesis using ok1 by simp
  next
    case False
    then obtain s2 where s2: "sc_computeRectMax s1 = Inr s2"
      "s' = (if sc_pwmRect s2 > sc_pwmRectMax s2
        then drv_commitLsOff (sc_pwmCtrl s2) (sc_pwmRectMax s2) (s2\<lparr>sc_pwmRect := sc_pwmRectMax s2\<rparr>) else s2)"
      using assms(1) by (auto simp: sc_updateSyncRectMaxDuty_def Let_def bindE_Inr_iff s1_def)
    note c = computeRectMax_same [OF s2(1)]
    have ok2: "conv_ok s2" "drv_match s2 = drv_match s"
      using ok1 c same_frame_duty [of s1 s2] same_frame_inv [of s1 s2] same_frame_match [of s1 s2] by (simp_all add: conv_ok_def)
    show ?thesis
    proof (cases "sc_pwmRect s2 > sc_pwmRectMax s2")
      case True
      have "conv_ok (s2\<lparr>sc_pwmRect := sc_pwmRectMax s2\<rparr>)"
        using ok2(1) True duty_inv_decrease [of s2 "sc_pwmRectMax s2"] by (simp add: conv_ok_def conv_cfg_def word_less_def)
      moreover have "drv_match s2 \<Longrightarrow> sc_pwmCtrl s2 \<noteq> 0" using True by (auto simp: drv_match_def leg_cfg_def Let_def)
      ultimately show ?thesis using s2(2) True ok2 drv_commitLsOff_match(1) [of s2 "sc_pwmRectMax s2"] by auto
    qed (use s2(2) ok2 in simp)
  qed
qed

lemma minDuty_step:
  assumes "conv_ok s"
  shows "conv_ok (sc_syncRectMinDuty s) \<and> (drv_match s \<longrightarrow> drv_match (sc_syncRectMinDuty s))"
proof (cases "sc_pwmRect s > sc_rectMin s")
  case True
  have "conv_ok (s\<lparr>sc_pwmRect := sc_rectMin s\<rparr>)"
    using assms True duty_inv_decrease [of s "sc_rectMin s"] by (simp add: conv_ok_def conv_cfg_def word_less_def)
  moreover have "drv_match s \<Longrightarrow> sc_pwmCtrl s \<noteq> 0" using True by (auto simp: drv_match_def leg_cfg_def Let_def)
  ultimately show ?thesis using True drv_commitLsOff_match(1) [of s "sc_rectMin s"] by (auto simp: sc_syncRectMinDuty_def Let_def)
qed (use assms in \<open>simp add: sc_syncRectMinDuty_def\<close>)

lemma conv_step_ok:
  assumes "conv_step x s = Inr s'" "conv_ok s"
  shows "conv_ok s' \<and> (drv_match s \<and> \<not> bad_wake x s \<longrightarrow> drv_match s')"
proof (cases x)
  case (Perturb d)
  then show ?thesis using perturb_step [of d s s'] assms by (auto simp: bad_wake_def conv_ok_def [of s])
next
  case (Fractional d)
  then show ?thesis using perturbFractional_step [of d s s'] assms by (auto simp: bad_wake_def)
next
  case (SyncDuty vin vout il)
  then show ?thesis using syncDuty_step [of vin vout il s s'] assms by auto
next
  case (EnableRect e ov)
  have f: "conv_ok (s\<lparr>sc_syncRect := z\<rparr>) = conv_ok s" "drv_match (s\<lparr>sc_syncRect := z\<rparr>) = drv_match s" for z
    by (simp_all add: conv_ok_def conv_cfg_def duty_inv_def drv_match_def leg_cfg_def)
  show ?thesis using EnableRect assms minDuty_step [of "s\<lparr>sc_syncRect := False\<rparr>"]
    by (auto simp: sc_enableSyncRect_def Let_def f)
next
  case MinDuty
  then show ?thesis using assms minDuty_step [of s] by auto
next
  case Disable
  have "conv_ok (t\<lparr>sc_pwmCtrl := 0, sc_pwmRect := 0, sc_syncRect := False\<rparr>)" if "conv_ok t" for t
    using that by (auto simp: conv_ok_def conv_cfg_def duty_inv_def u16_zero_iff)
  moreover have "conv_ok (drv_shutdown (sd_write True s))" using assms(2) by simp
  ultimately have "conv_ok (sc_disable s)" by (simp add: sc_disable_def)
  then show ?thesis using assms Disable disable_match [of s] by auto
next
  case (ManualRect n)
  show ?thesis
  proof (cases "n < 0")
    case True
    have "conv_ok (s\<lparr>sc_manualRect := - 1\<rparr>) = conv_ok s" "drv_match (s\<lparr>sc_manualRect := - 1\<rparr>) = drv_match s"
      by (simp_all add: conv_ok_def conv_cfg_def duty_inv_def drv_match_def leg_cfg_def)
    then show ?thesis using ManualRect True assms by (auto simp: sc_setManualRect_def)
  next
    case False
    let ?m = "constrain n (uint (sc_rectMin s)) (lsMax s)"
    have c: "conv_cfg s" "uint (sc_pwmCtrl s) \<le> uint (sc_ctrlMax s)" using assms(2) by (auto simp: conv_ok_def duty_inv_def)
    have "duty_inv (s\<lparr>sc_pwmRect := word_of_int ?m\<rparr>)" using rect_constrain [OF c _ order_refl] lsMax_range [OF c] by simp
    then have "conv_ok (s\<lparr>sc_manualRect := ?m, sc_pwmRect := word_of_int ?m\<rparr>)"
      using c by (simp add: conv_ok_def conv_cfg_def duty_inv_def)
    moreover have "drv_match (drv_commitLsOff (sc_pwmCtrl s) r (s\<lparr>sc_manualRect := m, sc_pwmRect := r\<rparr>))"
      if "drv_match s" "sc_pwmCtrl s \<noteq> 0" for m r
      using drv_commitLsOff_match(2) that .
    ultimately show ?thesis using ManualRect False assms by (auto simp: sc_setManualRect_def Let_def bad_wake_def sc_disabled_def)
  qed
qed

lemma conv_run_ok:
  assumes "conv_run xs s = Inr s'" "conv_ok s"
  shows "conv_ok s' \<and> (drv_match s \<and> wakes_ok xs s \<longrightarrow> drv_match s')"
  using assms
proof (induction xs arbitrary: s)
  case (Cons x xs)
  from Cons.prems(1) obtain t where t: "conv_step x s = Inr t" "conv_run xs t = Inr s'" by (auto simp: bindE_Inr_iff)
  from conv_step_ok [OF t(1) Cons.prems(2)] Cons.IH [OF t(2)] t(1) show ?case by auto
qed simp

definition conv_spec :: "conv \<Rightarrow> int \<Rightarrow> bool \<times> bool" where
  \<comment> \<open>the control MOSFET conducts first, then the rectifier\<close>
  "conv_spec s k =
    (k < uint (sc_pwmCtrl s),
     uint (sc_pwmCtrl s) + uint (drv_dtTicks s) \<le> k \<and> k < uint (sc_pwmCtrl s) + uint (sc_pwmRect s))"

lemma duty_sum: "duty_inv s \<Longrightarrow> uint (sc_pwmCtrl s + sc_pwmRect s) = uint (sc_pwmCtrl s) + uint (sc_pwmRect s)"
proof -
  assume "duty_inv s"
  moreover have "uint (sc_driverPwmMax s) < 65536" by (rule uint_u16_range)
  ultimately have "uint (sc_pwmCtrl s) + uint (sc_pwmRect s) < 65536" unfolding duty_inv_def by linarith
  then show ?thesis by (simp add: uint_plus_if')
qed

lemma duty_sum_u32: "uint (ucast (a :: u16) + ucast (b :: u16) :: u32) = uint a + uint b"
proof -
  have "uint a + uint b < 4294967296"
    using uint_u16_range(2) [of a] uint_u16_range(2) [of b] by linarith
  then show ?thesis by (subst uint_plus_if') simp
qed

lemma less_add_u16: "k < c \<Longrightarrow> k < c + uint (r :: u16)"
  using uint_u16_range(1) [of r] by linarith

lemma gate_levels_spec:
  assumes "conv_ok s" "drv_match s" "0 \<le> k"
    "sc_useMcpwm s \<longrightarrow> k < uint (lg_periodTicks (gt_leg (sc_gates s))) \<and>
       (sc_enLogic s \<or> 0 < uint (drv_dtTicks s) \<or> sc_pwmCtrl s \<noteq> sc_ctrlMax s)"
  shows "gate_levels s k = conv_spec s k"
proof (cases "sc_useMcpwm s")
  case True
  let ?l = "gt_leg (sc_gates s)" and ?c = "uint (sc_pwmCtrl s)" and ?r = "uint (sc_pwmRect s)"
  have m: "leg_cfg s" "lg_forcedLow ?l = (sc_pwmCtrl s = 0)" "uint (lg_cmpHS ?l) = ?c" "uint (lg_cmpLS ?l) = ?c + ?r"
    "sc_pwmCtrl s = 0 \<longrightarrow> sc_pwmRect s = 0" "sc_pinSd s \<noteq> 255 \<longrightarrow> gt_sd (sc_gates s) = (sc_pwmCtrl s = 0)"
    using assms(1,2) True duty_sum [of s] by (auto simp: drv_match_def conv_ok_def Let_def)
  have P: "uint (lg_periodTicks ?l) = uint (sc_driverPwmMax s) + uint (lg_dtTicks ?l)" using m(1) by (simp add: leg_cfg_def Let_def)
  have d: "?c \<le> uint (sc_ctrlMax s)" "?c + ?r \<le> uint (sc_driverPwmMax s)"
    "?c + ?r = uint (sc_driverPwmMax s) \<longrightarrow> sc_pwmCtrl s = sc_ctrlMax s"
    "uint (sc_ctrlMax s) < uint (sc_driverPwmMax s)" using assms(1) by (auto simp: conv_ok_def duty_inv_def conv_cfg_def)
  have dt: "0 \<le> uint (lg_dtTicks ?l)" "drv_dtTicks s = lg_dtTicks ?l" using True by (simp_all add: drv_dtTicks_def)
  have lt: "?c < uint (lg_periodTicks ?l)" using d P dt(1) by linarith
  then have hs: "leg_hs ?l k = (k < ?c)" using m assms(3) by (auto simp: leg_hs_def)
  show ?thesis
  proof (cases "sc_enLogic s")
    case e: True
    then have "uint (lg_dtTicks ?l) = 0" "lg_enLogic ?l" using m(1) by (auto simp: leg_cfg_def Let_def)
    then show ?thesis using e hs m P d True assms(3,4) by (auto simp: gate_levels_def conv_spec_def leg_ls_def dt(2) Let_def less_add_u16)
  next
    case e: False
    then have "\<not> lg_enLogic ?l" using m(1) by (simp add: leg_cfg_def Let_def)
    moreover have "0 < uint (lg_dtTicks ?l) \<or> ?c + ?r \<noteq> uint (sc_driverPwmMax s)" using assms(4) e d(3) dt(2) True by auto
    then have "?c + ?r < uint (lg_periodTicks ?l)" using d(2) P dt(1) by linarith
    ultimately have "leg_ls ?l k = (?c + uint (lg_dtTicks ?l) \<le> k \<and> k < ?c + ?r)"
      using m assms(3) by (auto simp: leg_ls_def)
    then show ?thesis using e hs m True assms(3) dt by (auto simp: gate_levels_def conv_spec_def Let_def)
  qed
next
  case False
  let ?g = "sc_gates s"
  have dt: "drv_dtTicks s = 0" using False by (simp add: drv_dtTicks_def)
  show ?thesis
  proof (cases "sc_pwmCtrl s = 0")
    case True
    then have "chan_on (gt_ctrl ?g) k = False" "chan_on (gt_rect ?g) k = False" "sc_pwmRect s = 0"
      using assms(2,3) False by (auto simp: drv_match_def chan_off_def chan_on_def Let_def)
    then show ?thesis using True False assms(3) by (simp add: gate_levels_def conv_spec_def Let_def)
  next
    case nz: False
    have "chan_on (gt_ctrl ?g) k = (k < uint (sc_pwmCtrl s))"
      using assms(2,3) False nz by (simp add: drv_match_def chan_on_def Let_def)
    moreover have "chan_on (gt_rect ?g) k = (if sc_enLogic s then k < uint (sc_pwmCtrl s) + uint (sc_pwmRect s)
      else uint (sc_pwmCtrl s) \<le> k \<and> k < uint (sc_pwmCtrl s) + uint (sc_pwmRect s))"
      using assms(2,3) False nz by (simp add: drv_match_def chan_on_def Let_def duty_sum_u32)
    moreover have "sc_pinSd s \<noteq> 255 \<longrightarrow> \<not> gt_sd ?g" using assms(2) nz by (simp add: drv_match_def Let_def)
    ultimately show ?thesis using False dt by (auto simp: gate_levels_def conv_spec_def Let_def less_add_u16)
  qed
qed

section \<open>Properties\<close>

definition example_leg :: conv where
  \<comment> \<open>an MCPWM buck with separate inputs, 4069 ticks per period, disabled\<close>
  "example_leg = conv_new\<lparr>sc_useMcpwm := True, sc_driverPwmMax := 4069, sc_ctrlMax := 3749, sc_rectMin := 320, sc_ctrlMin := 1,
     sc_fL := Fin 4, sc_freq := 39000, sc_gates := gates_new\<lparr>gt_leg := leg_new\<lparr>lg_pwmMax := 4069, lg_periodTicks := 4069,
       lg_forcedLow := True, lg_running := True\<rparr>\<rparr>\<rparr>"





text \<open>C33: the LEDC write order is safe for drivers with IN/EN inputs on every step and for separate
  inputs on a large decrease: in no state between the register writes are both MOSFETs on, and with IN/EN
  inputs the rectifier is never on for longer than before or after.\<close>
theorem ledc_commit_order:
  assumes "\<not> sc_useMcpwm s" "drv_match s" "sc_pwmCtrl s \<noteq> 0" "sc_enLogic s \<or> largerDecrease"
    "largerDecrease \<or> (if dir < 0 then c \<le> sc_pwmCtrl s else sc_pwmCtrl s \<le> c)"
    "g = gate_run (take n (drv_commit_ops (s\<lparr>sc_pwmCtrl := c, sc_pwmRect := r\<rparr>) False largerDecrease dir)) (sc_gates s)"
  shows "gate_levels (s\<lparr>sc_gates := g\<rparr>) k \<noteq> (True, True) \<and>
    (sc_enLogic s \<longrightarrow> uint (cn_duty (gt_rect g)) - uint (cn_duty (gt_ctrl g)) \<le> max (uint (sc_pwmRect s)) (uint r))"
proof (cases "sc_enLogic s")
  case True
  have e: "uint (ucast (sc_pwmCtrl s) + ucast (sc_pwmRect s) :: u32) = uint (sc_pwmCtrl s) + uint (sc_pwmRect s)"
    "uint (ucast c + ucast r :: u32) = uint c + uint r" by (rule duty_sum_u32)+
  have neg: "- uint w \<le> max (uint (sc_pwmRect s)) (uint r)" for w :: u16
    using uint_u16_range(1) [of w] uint_u16_range(1) [of r] by (intro max.coboundedI2) linarith
  have lv: "gate_levels (s\<lparr>sc_gates := g\<rparr>) k \<noteq> (True, True)" using True by (simp add: gate_levels_def Let_def)
  have n: "n = 0 \<or> n = 1 \<or> n = 2 \<or> 3 \<le> n" by arith
  consider "largerDecrease" | "\<not> largerDecrease" "dir < 0" "uint c \<le> uint (sc_pwmCtrl s)"
    | "\<not> largerDecrease" "\<not> dir < 0" "uint (sc_pwmCtrl s) \<le> uint c" using assms(5) by (cases "dir < 0") (auto simp: word_le_def)
  then have "uint (cn_duty (gt_rect g)) - uint (cn_duty (gt_ctrl g)) \<le> max (uint (sc_pwmRect s)) (uint r)"
  proof cases
    case 1
    then show ?thesis using assms(1-3) True n neg unfolding assms(6)
      by (elim disjE) (simp_all add: drv_commit_ops_def ledc_rect_op_def gate_defs drv_match_def Let_def e)
  next
    case 2
    then show ?thesis using assms(1-3) True n unfolding assms(6)
      by (elim disjE) (simp_all add: drv_commit_ops_def ledc_rect_op_def gate_defs drv_match_def Let_def e le_max_iff_disj)
  next
    case 3
    then show ?thesis using assms(1-3) True n unfolding assms(6)
      by (elim disjE) (simp_all add: drv_commit_ops_def ledc_rect_op_def gate_defs drv_match_def Let_def e le_max_iff_disj)
  qed
  then show ?thesis using lv by simp
next
  case False
  then have "largerDecrease" using assms(4) by simp
  have n: "n = 0 \<or> n = 1 \<or> n = 2 \<or> n = 3 \<or> 4 \<le> n" by arith
  then have "gate_levels (s\<lparr>sc_gates := g\<rparr>) k \<noteq> (True, True)"
    using assms(1-3) False \<open>largerDecrease\<close> unfolding assms(6)
    by (cases "sc_pinSd s = 255"; elim disjE;
      simp add: drv_commit_ops_def ledc_rect_op_def gate_defs drv_match_def gate_levels_def chan_on_def Let_def)
  then show ?thesis using False by simp
qed

definition example_ledc :: "bool \<Rightarrow> conv" where
  \<comment> \<open>a running LEDC buck: control 1000, rectifier 800 counts of 2047\<close>
  "example_ledc enLogic = conv_new\<lparr>sc_driverPwmMax := 2047, sc_ctrlMax := 1887, sc_rectMin := 160, sc_ctrlMin := 1, sc_enLogic := enLogic,
     sc_pwmCtrl := 1000, sc_pwmRect := 800, sc_fL := Fin 4, sc_freq := 39000,
     sc_gates := gates_new\<lparr>gt_ctrl := \<lparr>cn_duty = 1000, cn_hpoint = 0, cn_stopped = None\<rparr>,
       gt_rect := (if enLogic then \<lparr>cn_duty = 1800, cn_hpoint = 0, cn_stopped = None\<rparr>
                   else \<lparr>cn_duty = 800, cn_hpoint = 1000, cn_stopped = None\<rparr>)\<rparr>\<rparr>"

lemma ledc_commit_order_witness:
  "gate_levels (example_ledc True\<lparr>sc_gates := gate_run (take 1 (drv_commit_ops (example_ledc True\<lparr>sc_pwmCtrl := 990, sc_pwmRect := 805\<rparr>)
     False False (- 10))) (sc_gates (example_ledc True))\<rparr>) 995 \<noteq> (True, True)"
proof -
  have a: "\<not> sc_useMcpwm (example_ledc True)" by code_simp
  have b: "drv_match (example_ledc True)" by code_simp
  have c: "sc_pwmCtrl (example_ledc True) \<noteq> 0" by code_simp
  have d: "sc_enLogic (example_ledc True) \<or> False" by code_simp
  have e: "False \<or> (if (- 10 :: int) < 0 then 990 \<le> sc_pwmCtrl (example_ledc True) else sc_pwmCtrl (example_ledc True) \<le> 990)" by code_simp
  from ledc_commit_order [OF a b c d e refl] show ?thesis by blast
qed

text \<open>with separate inputs the small LEDC steps are not safe between their two writes: after the first
  one both MOSFETs are commanded on for exactly the counts the control on-time moves by (as far as the
  rectifier pulse reaches), in every period until the second write takes effect.\<close>
theorem ledc_hili_transient:
  assumes "\<not> sc_useMcpwm s" "drv_match s" "sc_pwmCtrl s \<noteq> 0" "\<not> sc_enLogic s"
    "if dir < 0 then uint c \<le> k \<and> k < uint (sc_pwmCtrl s) \<and> k < uint c + uint r
     else uint (sc_pwmCtrl s) \<le> k \<and> k < uint c \<and> k < uint (sc_pwmCtrl s) + uint (sc_pwmRect s)"
  shows "gate_levels (s\<lparr>sc_gates := gate_run (take 1 (drv_commit_ops (s\<lparr>sc_pwmCtrl := c, sc_pwmRect := r\<rparr>) False False dir))
    (sc_gates s)\<rparr>) k = (True, True)"
proof -
  have "0 \<le> k" using assms(5) uint_u16_range(1) [of "sc_pwmCtrl s"] uint_u16_range(1) [of c]
    by (cases "dir < 0") (simp_all only: if_True if_False, linarith+)
  then show ?thesis using assms
    by (cases "dir < 0") (auto simp: drv_commit_ops_def ledc_rect_op_def gate_defs drv_match_def gate_levels_def chan_on_def Let_def)
qed

lemma ledc_hili_transient_witness:
  "gate_levels (example_ledc False\<lparr>sc_gates := gate_run (take 1 (drv_commit_ops (example_ledc False\<lparr>sc_pwmCtrl := 990, sc_pwmRect := 805\<rparr>)
     False False (- 10))) (sc_gates (example_ledc False))\<rparr>) 995 = (True, True)"
proof -
  have a: "\<not> sc_useMcpwm (example_ledc False)" by code_simp
  have b: "drv_match (example_ledc False)" by code_simp
  have c: "sc_pwmCtrl (example_ledc False) \<noteq> 0" by code_simp
  have d: "\<not> sc_enLogic (example_ledc False)" by code_simp
  show ?thesis by (rule ledc_hili_transient [OF a b c d]) (simp add: example_ledc_def)
qed



subsection \<open>Initialisation\<close>

definition same_ctl :: "conv \<Rightarrow> conv \<Rightarrow> bool" where
  "same_ctl s t = (sc_pwmCtrl t = sc_pwmCtrl s \<and> sc_pwmRect t = sc_pwmRect s \<and> sc_ratioDCM t = sc_ratioDCM s \<and>
     sc_ditherErr t = sc_ditherErr s \<and> sc_fbuf t = sc_fbuf s \<and> sc_rectDither t = sc_rectDither s \<and> sc_freq t = sc_freq s \<and>
     sc_fL t = sc_fL s \<and> sc_boost t = sc_boost s \<and> sc_useMcpwm t = sc_useMcpwm s \<and> sc_manualRect t = sc_manualRect s)"

definition gates_quiet :: "conv \<Rightarrow> bool" where
  "gates_quiet s = (let g = sc_gates s in
     if sc_useMcpwm s then lg_forcedLow (gt_leg g) \<and> lg_cmpHS (gt_leg g) = 0 \<and> lg_cmpLS (gt_leg g) = 0
     else chan_off (gt_ctrl g) \<and> chan_off (gt_rect g) \<and> cn_hpoint (gt_ctrl g) = 0 \<and> cn_hpoint (gt_rect g) = 0)"

lemma gates_quiet_levels: "gates_quiet s \<Longrightarrow> gate_levels s k = (False, False)"
  by (auto simp: gates_quiet_def gate_levels_def leg_hs_def leg_ls_def chan_off_def chan_on_def Let_def)

lemma syncOut_cmp: "leg_initSyncOut p q l = Inr l' \<Longrightarrow> lg_cmpHS l' = lg_cmpHS l \<and> lg_cmpLS l' = lg_cmpLS l"
  by (auto simp: leg_initSyncOut_def bindE_Inr_iff Let_def)

lemma leg_init_cmp: "leg_init f d e x y l = Inr l' \<Longrightarrow> lg_cmpHS l' = 0 \<and> lg_cmpLS l' = 0"
  by (auto simp: leg_init_def bindE_Inr_iff Let_def)

lemma drv_wsync_same:
  "drv_wsync b pc pr fp bc role ph s = Inr s' \<Longrightarrow> same_ctl s s' \<and> sc_enLogic s' = sc_enLogic s \<and> sc_pinSd s' = sc_pinSd s \<and>
   lg_cmpHS (gt_leg (sc_gates s')) = lg_cmpHS (gt_leg (sc_gates s)) \<and> lg_cmpLS (gt_leg (sc_gates s')) = lg_cmpLS (gt_leg (sc_gates s))"
  by (auto simp: drv_wsync_def bindE_Inr_iff Let_def same_ctl_def leg_initSyncIn_def dest: syncOut_cmp split: if_splits)

lemma ledc_init_off: "ledc_init_pwm apb bits freq m = Inr (c, m') \<Longrightarrow> chan_off c \<and> cn_hpoint c = 0"
  by (auto simp: ledc_init_pwm_def Let_def chan_off_def split: if_splits)

lemma drv_init_same:
  assumes "drv_init b pc pr bc role ph s = Inr s'"
  shows "same_ctl s s' \<and> gates_quiet s' \<and> sc_enLogic s' = sc_enLogic s \<and> sc_pinSd s' = sc_pinSd s"
proof (cases "sc_useMcpwm s")
  case True
  from assms True obtain f d e x y l0 l flt fp s2 where s2: "leg_init f d e x y l0 = Inr l"
    "(let s1 = s\<lparr>sc_gates := (sc_gates s)\<lparr>gt_leg := l\<rparr>, sc_fault := flt\<rparr>
      in if bd_wsync b \<and> role \<noteq> ''none'' then drv_wsync b pc pr fp bc role ph s1 else Inr s1) = Inr s2"
    "s' = s2\<lparr>sc_gates := (sc_gates s2)\<lparr>gt_leg := leg_forceShutdown (leg_start (gt_leg (sc_gates s2)))\<rparr>,
       sc_driverPwmMax := lg_pwmMax (leg_forceShutdown (leg_start (gt_leg (sc_gates s2))))\<rparr>"
    unfolding drv_init_def bindE_Inr_iff if_P [OF True] Let_def by blast
  let ?s1 = "s\<lparr>sc_gates := (sc_gates s)\<lparr>gt_leg := l\<rparr>, sc_fault := flt\<rparr>"
  have "same_ctl ?s1 s2 \<and> sc_enLogic s2 = sc_enLogic s \<and> sc_pinSd s2 = sc_pinSd s \<and>
    lg_cmpHS (gt_leg (sc_gates s2)) = lg_cmpHS l \<and> lg_cmpLS (gt_leg (sc_gates s2)) = lg_cmpLS l"
    using s2(2) drv_wsync_same [where s = ?s1] by (auto simp: Let_def same_ctl_def split: if_splits)
  then show ?thesis using True leg_init_cmp [OF s2(1)]
    by (simp add: s2(3) same_ctl_def gates_quiet_def leg_forceShutdown_def leg_start_def)
next
  case False
  then obtain c m r m' where i: "ledc_init_pwm (bd_apb b) (bd_ledcBits b) (sc_freq s) 0 = Inr (c, m)"
    "ledc_init_pwm (bd_apb b) (bd_ledcBits b) (sc_freq s) m = Inr (r, m')"
    "s' = s\<lparr>sc_gates := (sc_gates s)\<lparr>gt_ctrl := c, gt_rect := r\<rparr>, sc_driverPwmMax := m'\<rparr>"
    using assms by (auto simp: drv_init_def bindE_Inr_iff)
  show ?thesis using False ledc_init_off [OF i(1)] ledc_init_off [OF i(2)]
    by (simp add: i(3) same_ctl_def gates_quiet_def)
qed

lemma init_limits_same:
  assumes "init_limits bc s = Inr s'"
  shows "same_ctl s s' \<and> sc_gates s' = sc_gates s \<and> sc_ctrlMin s' = 1 \<and> sc_driverPwmMax s' = sc_driverPwmMax s \<and>
    sc_pinSd s' = sc_pinSd s \<and> sc_enLogic s' = sc_enLogic s \<and>
    (uint (sc_rectMin s') \<le> uint (sc_driverPwmMax s) \<longrightarrow>
       uint (sc_ctrlMax s') = uint (sc_driverPwmMax s) - uint (sc_rectMin s'))"
proof -
  obtain n where n: "0 \<le> n" "n \<le> 65535"
    "s' = s\<lparr>sc_rectMin := word_of_int n, sc_ctrlMax := word_of_int (uint (sc_driverPwmMax s) - n), sc_ctrlMin := 1\<rparr>"
    using assms unfolding init_limits_def bindE_Inr_iff by (cases "sc_boost s") (force simp: cast_int_Inr)+
  have u: "uint (word_of_int n :: u16) = n" using n by (intro uint_of_int_u16) auto
  have "uint (word_of_int (uint (sc_driverPwmMax s) - n) :: u16) = uint (sc_driverPwmMax s) - n" if "n \<le> uint (sc_driverPwmMax s)"
    using that n(1) uint_u16_range(2) [of "sc_driverPwmMax s"] by (intro uint_of_int_u16) linarith+
  then show ?thesis using n(3) u by (simp add: same_ctl_def)
qed

lemma init_pins_same:
  "init_inEn b bc s = Inr (p, q, s') \<Longrightarrow> same_ctl s s'" "init_hiLi b bc s = Inr (p, q, s') \<Longrightarrow> same_ctl s s'"
  by (auto simp: init_inEn_def init_hiLi_def bindE_Inr_iff same_ctl_def)

lemma same_ctl_trans: "same_ctl s t \<Longrightarrow> same_ctl t u \<Longrightarrow> same_ctl s u"
  by (simp add: same_ctl_def)

lemma init_params_ok:
  assumes "init_params cc bc coil s = Inr s2"
  shows "sc_pwmCtrl s2 = sc_pwmCtrl s \<and> sc_pwmRect s2 = sc_pwmRect s \<and> sc_fbuf s2 = sc_fbuf s \<and>
    sc_ratioDCM s2 = sc_ratioDCM s \<and> sc_ditherErr s2 = sc_ditherErr s \<and> sc_rectDither s2 = sc_rectDither s \<and>
    5000 < uint (sc_freq s2) \<and> uint (sc_freq s2) < 500000 \<and> flt (sc_fL s2) (Fin 20) \<and> flt (Fin 1) (sc_fL s2)"
  using assms by (auto simp: init_params_def bindE_Inr_iff Let_def simp del: word_of_int_inverse split: if_splits)

lemma init_driver_stages:
  assumes "init_driver b cc bc coil s2 = Inr s'"
  shows "\<exists>p q s3 role ph s4 s5 off. same_ctl s2 s3 \<and> drv_init b p q bc role ph s3 = Inr s4 \<and>
    init_limits bc (sd_write True s4) = Inr s5 \<and> s' = s5\<lparr>sc_rectOnOffset := sint (word_of_int off :: u16)\<rparr>"
  using assms init_pins_same
  by (auto simp: init_driver_def bindE_Inr_iff split: prod.splits if_splits) blast+

text \<open>C38: a converter that has initialised is safe and ready. Both gates are off on every tick (whatever the
  configuration), the frequency and the coil are in the supported range, the carried remainders are zero,
  and the correspondence with the driver that all later operations preserve is established (an MCPWM leg
  needs a dead time that fits its period for that); so are the duty limits if the bootstrap pulse of a
  buck is at least one count and shorter than the period.\<close>
theorem conv_init_safe:
  assumes "sc_init b cc bc coil conv_new = Inr s"
  shows "sc_disabled s \<and> gate_levels s k = (False, False) \<and> 5000 < uint (sc_freq s) \<and> uint (sc_freq s) < 500000 \<and>
    flt (Fin 1) (sc_fL s) \<and> flt (sc_fL s) (Fin 20) \<and> sc_fbuf s = Fin 0 \<and> sc_ditherErr s = Fin 0 \<and> \<bar>sc_rectOnOffset s\<bar> \<le> 32768 \<and>
    ((sc_useMcpwm s \<longrightarrow> leg_cfg s) \<longrightarrow> drv_match s) \<and>
    (\<not> sc_boost s \<and> 1 \<le> uint (sc_rectMin s) \<and> uint (sc_rectMin s) < uint (sc_driverPwmMax s) \<longrightarrow> conv_ok s)"
proof -
  from assms obtain s2 where s2: "init_params cc bc coil conv_new = Inr s2" "init_driver b cc bc coil s2 = Inr s"
    by (auto simp: sc_init_def bindE_Inr_iff)
  note p = init_params_ok [OF s2(1)]
  obtain pc pr s3 role ph s4 s5 off where i: "same_ctl s2 s3" "drv_init b pc pr bc role ph s3 = Inr s4"
    "init_limits bc (sd_write True s4) = Inr s5" "s = s5\<lparr>sc_rectOnOffset := sint (word_of_int off :: u16)\<rparr>"
    using init_driver_stages [OF s2(2)] by blast
  note d = drv_init_same [OF i(2)] and l = init_limits_same [OF i(3)]
  have w: "same_ctl s4 (sd_write True s4)" "gates_quiet (sd_write True s4) = gates_quiet s4"
    by (simp_all add: sd_write_def sc_gate_def same_ctl_def gates_quiet_def Let_def)
  have sd: "sc_pinSd s5 \<noteq> 255 \<longrightarrow> gt_sd (sc_gates s5)" using l by (simp add: sd_write_def sc_gate_def)
  have c: "same_ctl s2 s5" using i(1) d w(1) l same_ctl_trans by blast
  have "gates_quiet s5 = gates_quiet (sd_write True s4)" using l by (simp add: gates_quiet_def same_ctl_def)
  then have q: "gates_quiet s5" using d w(2) by simp
  have qs: "gates_quiet s" using q by (simp add: i(4) gates_quiet_def)
  have z: "sc_pwmCtrl s = 0" "sc_pwmRect s = 0" "sc_fbuf s = Fin 0" "sc_ditherErr s = Fin 0"
    using p c by (simp_all add: i(4) same_ctl_def conv_new_def)
  have off: "\<bar>sc_rectOnOffset s\<bar> \<le> 32768" using sint_s16_range [of "word_of_int off"] by (simp add: i(4) abs_le_iff)
  have cfg: "conv_ok s" if "\<not> sc_boost s" "1 \<le> uint (sc_rectMin s)" "uint (sc_rectMin s) < uint (sc_driverPwmMax s)"
    using that l z by (auto simp: i(4) conv_ok_def conv_cfg_def duty_inv_def)
  have "drv_match s" if "sc_useMcpwm s \<longrightarrow> leg_cfg s"
    using that qs z sd by (simp add: i(4) drv_match_def gates_quiet_def Let_def)
  then show ?thesis using gates_quiet_levels [OF qs] z off cfg p c by (simp add: i(4) same_ctl_def sc_disabled_def)
qed

definition example_board :: board where
  "example_board = \<lparr>bd_wsync = True, bd_apb = 80000000, bd_ledcBits = 14, bd_pin = (\<lambda>_ m. m = InputPulldown),
     bd_gpioOk = (\<lambda>_. True), bd_gpioOutOk = (\<lambda>_. True)\<rparr>"

lemma conv_init_safe_witness:
  "\<exists>s. sc_init example_board (conf_open None)
      (conf_open (Some ''pwm_freq=39000\<newline>pwm_driver_logic=InEn\<newline>pwm_in=1\<newline>pwm_en=2\<newline>'')) (conf_open (Some ''L0=0.0001\<newline>'')) conv_new = Inr s \<and>
    sc_driverPwmMax s = 2047 \<and> sc_rectMin s = 160 \<and> gate_levels s 0 = (False, False)"
proof -
  let ?r = "sc_init example_board (conf_open None)
      (conf_open (Some ''pwm_freq=39000\<newline>pwm_driver_logic=InEn\<newline>pwm_in=1\<newline>pwm_en=2\<newline>'')) (conf_open (Some ''L0=0.0001\<newline>'')) conv_new"
  have "resD ?r (\<lambda>s. sc_driverPwmMax s = 2047 \<and> sc_rectMin s = 160)" by code_simp
  then obtain s where s: "?r = Inr s" "sc_driverPwmMax s = 2047 \<and> sc_rectMin s = 160" by (rule resD_E)
  then show ?thesis using conv_init_safe [OF s(1), of 0] by blast
qed

text \<open>only a positive perturbation wakes a disabled converter. A perturbation by zero or less moves the
  duty counter off zero without releasing the driver's force latch; from then on the converter counts as
  enabled, so no later perturbation, however large, releases the latch either: the counters run and both
  gates stay off until the converter is disabled again.\<close>
theorem conv_bad_wake:
  assumes "conv_ok s" "drv_match s" "sc_useMcpwm s" "sc_disabled s" "d \<le> 0" "sc_perturb d s = Inr s1" "sc_perturb d2 s1 = Inr s2"
  shows "\<not> sc_disabled s2 \<and> gate_levels s2 k = (False, False)"
proof -
  have cfg: "conv_cfg s" "conv_cfg s1" using assms(1) perturb_step [OF assms(6)] by (auto simp: conv_ok_def)
  have nz: "\<not> sc_disabled u" if "sc_perturb e t = Inr u" "conv_cfg t" for e t u
    using perturb_step [OF that] ctrl_next_range [OF that(2), of e] by (auto simp: sc_disabled_def u16_zero_iff)
  have keep: "lg_forcedLow (gt_leg (sc_gates u)) \<and> sc_useMcpwm u"
    if k: "sc_perturb e t = Inr u" "conv_cfg t" "\<not> (sc_disabled t \<and> 0 < e)" "lg_forcedLow (gt_leg (sc_gates t))" "sc_useMcpwm t" for e t u
  proof -
    obtain t3 where t3: "same_frame (t\<lparr>sc_pwmCtrl := ctrl_next e t\<rparr>) t3"
      "u = drv_commit False (- e > uint (sc_driverPwmMax t) div 50) e t3"
      using perturb_ok [OF k(1,2)] k(3) by auto
    then show ?thesis using k(4,5)
      by (simp add: same_frame_def drv_commit_def drv_commit_ops_def sc_gate_def gate_defs Let_def)
  qed
  have f: "lg_forcedLow (gt_leg (sc_gates s))" using assms(2-4) by (simp add: drv_match_def sc_disabled_def Let_def)
  have "lg_forcedLow (gt_leg (sc_gates s1)) \<and> sc_useMcpwm s1" using keep [OF assms(6) cfg(1) _ f assms(3)] assms(5) by simp
  then have "lg_forcedLow (gt_leg (sc_gates s2)) \<and> sc_useMcpwm s2" using keep [OF assms(7) cfg(2)] nz [OF assms(6) cfg(1)] by simp
  then show ?thesis using nz [OF assms(7) cfg(2)] by (simp add: gate_levels_def leg_hs_def leg_ls_def Let_def)
qed

lemma conv_bad_wake_witness:
  "\<exists>s1 s2. sc_perturb (- 1) example_leg = Inr s1 \<and> sc_perturb 500 s1 = Inr s2 \<and> sc_pwmCtrl s2 = 501 \<and> gate_levels s2 0 = (False, False)"
proof -
  have a: "conv_ok example_leg" by code_simp
  have b: "drv_match example_leg" by code_simp
  have c: "sc_useMcpwm example_leg" "sc_disabled example_leg" by (simp_all add: example_leg_def conv_new_def sc_disabled_def)
  have "resD (sc_perturb (- 1) example_leg) (\<lambda>s1. resD (sc_perturb 500 s1) (\<lambda>s2. sc_pwmCtrl s2 = 501))" by code_simp
  then obtain s1 s2 where s: "sc_perturb (- 1) example_leg = Inr s1" "sc_perturb 500 s1 = Inr s2" "sc_pwmCtrl s2 = 501"
    by (elim resD_E)
  from conv_bad_wake [OF a b c _ s(1,2)] s show ?thesis by simp
qed

end
