(* ===== verification/ConverterNum.thy ===== *)
theory ConverterNum
  imports Converter
begin

text \<open>
  The arithmetic of \<open>src/src/buck.h\<close>: the voltage ratio and the rectifier count are bounded whatever the
  sensors deliver, the dither and the fractional perturbation carry their remainders exactly, and no
  operation of a configured converter reaches undefined behaviour.
\<close>

section \<open>The voltage ratio\<close>

lemma std_min_range: "fle lo x \<Longrightarrow> fle lo h \<Longrightarrow> fle lo (std_min x h) \<and> fle (std_min x h) h"
  by (auto simp: std_min_def dest: fle_not_nan intro: fle_refl not_flt_fle)

lemma fconstrain_range:
  "fle lo hi \<Longrightarrow> \<not> isnan x \<Longrightarrow> fle lo (fconstrain x lo hi) \<and> fle (fconstrain x lo hi) hi"
  by (simp add: fconstrain_ge_low fconstrain_le_high)

lemma fdiv_mono:
  assumes "fle x y" "isfinite x" "isfinite y" "isfinite w" "0 < val w"
  shows "fle (gdiv f x w) (gdiv f y w)"
proof -
  have "val x / val w \<le> val y / val w" using assms by (simp add: divide_right_mono)
  then show ?thesis using assms by (simp add: gdiv_finite_eq mk_mono)
qed

lemma fdiv_antimono:
  assumes "fle x y" "isfinite x" "isfinite y" "0 < val x"
  shows "fle (gdiv f (Fin 1) y) (gdiv f (Fin 1) x)"
proof -
  have "0 < val y" using assms by simp
  moreover have "1 / val y \<le> 1 / val x" using assms by (intro frac_le) auto
  ultimately show ?thesis using assms by (simp add: gdiv_finite_eq mk_mono)
qed

abbreviation Mlo :: fl where "Mlo \<equiv> fdiv (f32 (1 / 100)) voltageRatioWCEF"
abbreviation Mhi :: fl where "Mhi \<equiv> fdiv (Fin 10) voltageRatioWCEF"
abbreviation Mbuck :: fl where "Mbuck \<equiv> fsub (Fin 1) unityMargin"
abbreviation Mboost :: fl where "Mboost \<equiv> fadd (Fin 1) unityMargin"

lemma wcef: "isfinite voltageRatioWCEF \<and> 0 < val voltageRatioWCEF" by code_simp
lemma m_lo: "isfinite (f32 (1 / 100)) \<and> fle (f32 (1 / 100)) (Fin 10) \<and> fle (f32 (1 / 100)) Mbuck \<and> fle Mbuck (Fin 1) \<and> isfinite Mlo \<and> fle (Fin (1 / 128)) Mlo"
  by code_simp
lemma m_buck: "fle Mlo Mbuck \<and> isfinite Mbuck" by code_simp
lemma m_boost: "fle Mboost Mhi \<and> isfinite Mboost \<and> isfinite Mhi" by code_simp
lemma r_buck: "fle (fsub (fdiv (Fin 1) Mlo) (Fin 1)) (Fin 128) \<and> fle (Fin 0) (fsub (fdiv (Fin 1) Mbuck) (Fin 1))" by code_simp
lemma r_boost: "fle (Fin (1 / 128)) (fsub Mboost (Fin 1)) \<and> isfinite (fsub Mhi (Fin 1)) \<and> isfinite (fsub Mboost (Fin 1)) \<and>
    fle (fdiv (Fin 1) (fsub Mboost (Fin 1))) (Fin 128) \<and> fle (Fin 0) (fdiv (Fin 1) (fsub Mhi (Fin 1)))" by code_simp

lemma ratio_scaled:
  assumes "fle lo x" "fle x hi" "isfinite lo" "isfinite hi"
  shows "fle (fdiv lo voltageRatioWCEF) (fdiv x voltageRatioWCEF) \<and> fle (fdiv x voltageRatioWCEF) (fdiv hi voltageRatioWCEF)"
  using assms fle_between_finite [OF assms] wcef by (simp add: fdiv_mono del: fle_finite)

lemma div_not_nan:
  assumes "flt vl vh" "flt (f32 (1 / 10)) vh" "vl \<noteq> Inf True"
  shows "\<not> isnan (fdiv vl vh)"
proof -
  have "flt (Fin 0) (f32 (1 / 10))" by code_simp
  then have "flt (Fin 0) vh" using assms(2) flt_trans by blast
  then show ?thesis using assms(1,3) by (cases vl; cases vh) (auto simp: gdiv_def iszero_def flt_def split: if_splits)
qed

lemma boost_div_not_nan:
  assumes "flt vl vh" "flt (f32 (1 / 10)) vl"
  shows "\<not> isnan (fdiv vh vl)"
proof -
  have "flt (Fin 0) (f32 (1 / 10))" by code_simp
  then have "flt (Fin 0) vl" using assms(2) flt_trans by blast
  then show ?thesis using assms(1) by (cases vl; cases vh) (auto simp: gdiv_def iszero_def flt_def split: if_splits)
qed

lemma convRatio_range:
  assumes "vl \<noteq> Inf True"
  shows "if sc_boost s then fle Mboost (sc_convRatio vh vl s) \<and> fle (sc_convRatio vh vl s) Mhi
         else fle Mlo (sc_convRatio vh vl s) \<and> fle (sc_convRatio vh vl s) Mbuck"
proof (cases "sc_boost s")
  case True
  let ?r = "if fgt vh vl \<and> fgt vl (f32 (1 / 10)) then fconstrain (fdiv vh vl) (f32 (1 / 100)) (Fin 10) else Fin 10"
  have r: "fle (f32 (1 / 100)) ?r \<and> fle ?r (Fin 10)"
    using fconstrain_range [of "f32 (1 / 100)" "Fin 10" "fdiv vh vl"] boost_div_not_nan [of vl vh] m_lo by auto
  have "fle (fdiv ?r voltageRatioWCEF) Mhi" using ratio_scaled [of "f32 (1 / 100)" ?r "Fin 10"] r m_lo by simp
  moreover have "sc_convRatio vh vl s = std_max (fdiv ?r voltageRatioWCEF) Mboost" using True by (simp add: sc_convRatio_def)
  ultimately show ?thesis using True m_boost by (auto simp: std_max_def fle_refl isfinite_not_nan not_flt_fle dest: fle_not_nan)
next
  case False
  let ?r = "if fgt vh vl \<and> fgt vh (f32 (1 / 10)) then fconstrain (fdiv vl vh) (f32 (1 / 100)) Mbuck else Fin 1"
  have l1: "fle (f32 (1 / 100)) (Fin 1)" using m_lo fle_trans by blast
  have r: "fle (f32 (1 / 100)) ?r \<and> fle ?r (Fin 1)"
    using fconstrain_range [of "f32 (1 / 100)" Mbuck "fdiv vl vh"] div_not_nan [of vl vh] m_lo l1 assms fle_trans [of _ Mbuck "Fin 1"]
    by (auto simp: fle_refl simp del: fle_finite)
  have "fle Mlo (fdiv ?r voltageRatioWCEF)" using ratio_scaled [of "f32 (1 / 100)" ?r "Fin 1"] r m_lo by simp
  moreover have "sc_convRatio vh vl s = std_min (fdiv ?r voltageRatioWCEF) Mbuck" using False by (simp add: sc_convRatio_def)
  ultimately show ?thesis using False m_buck std_min_range by simp
qed

lemma gsub_mono_left:
  assumes "fle x y" "isfinite x" "isfinite y" "isfinite z"
  shows "fle (gsub f x z) (gsub f y z)"
  using assms by (simp add: gsub_finite_eq mk_mono)

lemma fdiv_one_finite: "fle (Fin (1 / 128)) x \<Longrightarrow> isfinite x \<Longrightarrow> isfinite (fdiv (Fin 1) x) \<and> 0 \<le> val (fdiv (Fin 1) x)"
proof -
  assume x: "fle (Fin (1 / 128)) x" "isfinite x"
  then have v: "1 / 128 \<le> val x" by simp
  then have "1 / val x \<le> 1 / (1 / 128)" by (intro frac_le) auto
  then have "\<bar>1 / val x\<bar> \<le> pow2 7" using v by (simp add: pow2_def)
  note m = mk_finite_bound [where f = F32, OF this]
  show ?thesis using m(1) x v by (auto simp: gdiv_finite_eq val_mk_nonneg)
qed

lemma rectRatio_range:
  assumes "if sc_boost s then fle Mboost m \<and> fle m Mhi else fle Mlo m \<and> fle m Mbuck"
  shows "fle (Fin 0) (sc_rectCtrlRatio m s) \<and> fle (sc_rectCtrlRatio m s) (Fin 128)"
proof (cases "sc_boost s")
  case True
  then have m: "fle Mboost m" "fle m Mhi" using assms by auto
  then have fm: "isfinite m" using fle_between_finite m_boost by blast
  let ?d = "fsub m (Fin 1)"
  have d: "fle (fsub Mboost (Fin 1)) ?d" "fle ?d (fsub Mhi (Fin 1))" using m fm m_boost by (simp_all add: gsub_mono_left del: fle_finite)
  have fd: "isfinite ?d" using d r_boost fle_between_finite by blast
  have pos: "0 < val (fsub Mboost (Fin 1))"
    using r_boost fle_finite [of "Fin (1 / 128)" "fsub Mboost (Fin 1)"] by (auto simp del: fle_finite)
  then have pd: "0 < val ?d" using d(1) fd r_boost by simp
  have "fle (fdiv (Fin 1) ?d) (fdiv (Fin 1) (fsub Mboost (Fin 1)))" by (rule fdiv_antimono) (use d fd pos r_boost in auto)
  moreover have "fle (fdiv (Fin 1) (fsub Mhi (Fin 1))) (fdiv (Fin 1) ?d)" by (rule fdiv_antimono) (use d fd pd r_boost in auto)
  ultimately show ?thesis using True r_boost fle_trans by (simp add: sc_rectCtrlRatio_def) blast
next
  case False
  then have m: "fle Mlo m" "fle m Mbuck" using assms by auto
  then have fm: "isfinite m" using fle_between_finite m_buck m_lo by blast
  have lo: "0 < val Mlo" "0 < val m" "fle (Fin (1 / 128)) m" using m_lo m fm by auto
  have a: "fle (fdiv (Fin 1) m) (fdiv (Fin 1) Mlo)" by (rule fdiv_antimono) (use m fm lo m_lo in auto)
  have b: "fle (fdiv (Fin 1) Mbuck) (fdiv (Fin 1) m)" by (rule fdiv_antimono) (use m fm lo m_buck in auto)
  have fin: "isfinite (fdiv (Fin 1) Mlo)" "isfinite (fdiv (Fin 1) m)" "isfinite (fdiv (Fin 1) Mbuck)"
    using fdiv_one_finite m_lo lo fm m_buck fle_trans [OF _ m(2)] by blast+
  have "fle (fsub (fdiv (Fin 1) m) (Fin 1)) (fsub (fdiv (Fin 1) Mlo) (Fin 1))" by (rule gsub_mono_left) (use a fin in auto)
  moreover have "fle (fsub (fdiv (Fin 1) Mbuck) (Fin 1)) (fsub (fdiv (Fin 1) m) (Fin 1))" by (rule gsub_mono_left) (use b fin in auto)
  ultimately show ?thesis using False r_buck fle_trans by (simp add: sc_rectCtrlRatio_def) blast
qed

section \<open>No undefined behaviour\<close>

definition num_inv :: "conv \<Rightarrow> bool" where
  "num_inv s = (fle (Fin 0) (sc_ratioDCM s) \<and> fle (sc_ratioDCM s) (Fin 128) \<and> sc_rectDither s \<and>
     isfinite (sc_ditherErr s) \<and> \<bar>val (sc_ditherErr s)\<bar> \<le> 1 / 2 \<and> \<bar>sc_rectOnOffset s\<bar> \<le> 32768 \<and>
     isfinite (sc_fbuf s) \<and> fl_ok F32 (sc_fbuf s) \<and> \<bar>val (sc_fbuf s)\<bar> < 1 \<and> uint (sc_driverPwmMax s) \<le> 32766)"

lemma lround_err: "\<bar>val x - of_int (lround_int x)\<bar> \<le> 1 / 2"
proof (cases "0 \<le> val x")
  case True
  show ?thesis unfolding lround_int_def if_P [OF True] by linarith
next
  case False
  show ?thesis unfolding lround_int_def if_not_P [OF False] by (simp only: of_int_minus) linarith
qed

lemma fadd_abs_int:
  assumes "isfinite x" "isfinite y" "\<bar>val x\<bar> + \<bar>val y\<bar> \<le> of_int n" "n < 2 ^ 24"
  shows "isfinite (fadd x y) \<and> \<bar>val (fadd x y)\<bar> \<le> of_int n"
proof -
  have n0: "0 \<le> n" using assms(3) by (metis abs_ge_zero add_nonneg_nonneg of_int_0_le_iff order_trans)
  have "rnd F32 (of_int n) = of_int n" by (rule rnd_of_int) (use n0 assms(4) in simp)
  moreover have "rat_of_int n < pow2 (emax F32)"
  proof -
    have "rat_of_int n < of_int (2 ^ 24)" using assms(4) by (simp only: of_int_less_iff)
    also have "\<dots> \<le> pow2 (emax F32)" by (simp add: pow2_def)
    finally show ?thesis .
  qed
  moreover have "\<bar>val x + val y\<bar> \<le> of_int n" using assms(3) by linarith
  ultimately show ?thesis using assms(1,2) mk_abs_le by (simp add: gadd_finite_eq)
qed

lemma computeRectMax_num:
  assumes "num_inv s"
  shows "\<exists>s'. sc_computeRectMax s = Inr s' \<and> num_inv s'"
proof (cases "sc_dcm s")
  case False
  then show ?thesis using assms by (auto simp: sc_computeRectMax_def num_inv_def lsMax_def)
next
  case True
  let ?p = "fmul (to_float (uint (sc_pwmCtrl s))) (sc_ratioDCM s)"
  let ?i = "fadd ?p (to_float (sc_rectOnOffset s))"
  let ?v = "fadd ?i (sc_ditherErr s)"
  let ?ls = "lround_int ?v"
  have r: "isfinite (sc_ratioDCM s)" "0 \<le> val (sc_ratioDCM s)" "val (sc_ratioDCM s) \<le> 128"
    using assms fle_between_finite [of "Fin 0" "sc_ratioDCM s" "Fin 128"] by (auto simp: num_inv_def)
  have c: "val (to_float (uint (sc_pwmCtrl s))) = of_int (uint (sc_pwmCtrl s))" by (simp add: to_float_u16)
  have c2: "0 \<le> rat_of_int (uint (sc_pwmCtrl s))" "rat_of_int (uint (sc_pwmCtrl s)) \<le> 65535"
    using of_int_le_iff [of "uint (sc_pwmCtrl s)" 65535, where 'a = rat] by simp_all
  have "\<bar>of_int (uint (sc_pwmCtrl s)) * val (sc_ratioDCM s)\<bar> \<le> 65536 * 128"
    using mult_mono [of "rat_of_int (uint (sc_pwmCtrl s))" 65536 "val (sc_ratioDCM s)" 128] c2 r by (simp add: abs_mult)
  also have "\<dots> = pow2 23" by (simp add: pow2_def)
  finally have q: "\<bar>val (to_float (uint (sc_pwmCtrl s))) * val (sc_ratioDCM s)\<bar> \<le> pow2 23" using c by simp
  have p: "isfinite ?p" "\<bar>val ?p\<bar> \<le> pow2 23"
    using mk_finite_bound [where f = F32, OF q] r by (simp_all add: gmul_finite_eq)
  have o1: "\<bar>sc_rectOnOffset s\<bar> \<le> 32768" using assms by (simp add: num_inv_def)
  have o: "to_float (sc_rectOnOffset s) = Fin (of_int (sc_rectOnOffset s))" by (rule to_float_exact) (use o1 in simp)
  have "rat_of_int \<bar>sc_rectOnOffset s\<bar> \<le> of_int 32768" using o1 by (simp only: of_int_le_iff)
  then have i: "isfinite ?i \<and> \<bar>val ?i\<bar> \<le> of_int 8421376"
    using p o by (intro fadd_abs_int) (auto simp: pow2_def)
  have v: "isfinite ?v \<and> \<bar>val ?v\<bar> \<le> of_int 8421377"
    using i assms by (intro fadd_abs_int) (auto simp: num_inv_def)
  have e: "\<bar>val ?v - of_int ?ls\<bar> \<le> 1 / 2" by (rule lround_err)
  have "\<bar>val ?v\<bar> \<le> 8421377" using v by simp
  then have "\<bar>rat_of_int ?ls\<bar> < 8421379" using e by linarith
  then have "\<bar>rat_of_int ?ls\<bar> < of_int 8421379" by simp
  then have ls: "\<bar>?ls\<bar> < 8421379" by (simp only: of_int_abs [symmetric] of_int_less_iff)
  have l: "lround_long ?v = Inr ?ls" using v ls unfolding lround_long_def abs_less_iff by auto
  have t: "to_float ?ls = Fin (of_int ?ls)" by (rule to_float_exact) (use ls in simp)
  have "\<bar>val ?v - of_int ?ls\<bar> \<le> pow2 (- 1)" using e by (simp add: pow2_def)
  note m = mk_finite_bound [where f = F32, OF this]
  have d: "isfinite (fsub ?v (to_float ?ls)) \<and> \<bar>val (fsub ?v (to_float ?ls))\<bar> \<le> 1 / 2"
    using m v t by (simp add: gsub_finite_eq pow2_def)
  have rd: "sc_rectDither s" using assms by (simp add: num_inv_def)
  show ?thesis using True rd l d assms by (simp add: sc_computeRectMax_def num_inv_def Let_def lsMax_def)
qed

lemma num_inv_frame:
  "num_inv s \<Longrightarrow> same_frame s t \<Longrightarrow> sc_ratioDCM t = sc_ratioDCM s \<Longrightarrow> sc_rectDither t = sc_rectDither s \<Longrightarrow>
   sc_ditherErr t = sc_ditherErr s \<Longrightarrow> sc_rectOnOffset t = sc_rectOnOffset s \<Longrightarrow> num_inv t"
  by (simp add: num_inv_def same_frame_def)

lemma num_inv_upd [simp]:
  "num_inv (s\<lparr>sc_gates := g\<rparr>) = num_inv s" "num_inv (s\<lparr>sc_pwmCtrl := c\<rparr>) = num_inv s"
  "num_inv (s\<lparr>sc_pwmRect := r\<rparr>) = num_inv s" "num_inv (s\<lparr>sc_dcm := d\<rparr>) = num_inv s"
  "num_inv (s\<lparr>sc_syncRect := b\<rparr>) = num_inv s" "num_inv (s\<lparr>sc_manualRect := n\<rparr>) = num_inv s"
  "num_inv (s\<lparr>sc_M := m\<rparr>) = num_inv s"
  "num_inv (s\<lparr>sc_manualRect := n, sc_pwmRect := r\<rparr>) = num_inv s"
  "num_inv (s\<lparr>sc_pwmCtrl := c, sc_pwmRect := r, sc_syncRect := b\<rparr>) = num_inv s"
  by (simp_all add: num_inv_def)

lemma num_inv_ops [simp]:
  "num_inv (drv_commit en ld dir s) = num_inv s" "num_inv (drv_commitLsOff c r s) = num_inv s"
  "num_inv (sd_write b s) = num_inv s" "num_inv (drv_shutdown s) = num_inv s" "num_inv (sc_fade s) = num_inv s"
  by (simp_all add: drv_commit_def drv_commitLsOff_def sd_write_def drv_shutdown_def sc_gate_def sc_fade_def Let_def)

lemma perturb_num:
  assumes "num_inv s"
  shows "\<exists>s'. sc_perturb dir s = Inr s' \<and> num_inv s'"
proof -
  have pr: "\<exists>s'. sc_perturbRect ld t = Inr s' \<and> num_inv s'" if t: "num_inv t" for ld t
  proof (cases "0 \<le> sc_manualRect t")
    case True
    then show ?thesis using t by (simp add: sc_perturbRect_def)
  next
    case False
    have "num_inv (if ld \<and> \<not> sc_forced t then t\<lparr>sc_dcm := True\<rparr> else t)" using t by simp
    then obtain u where "sc_computeRectMax (if ld \<and> \<not> sc_forced t then t\<lparr>sc_dcm := True\<rparr> else t) = Inr u" "num_inv u"
      using computeRectMax_num by blast
    then show ?thesis using False by (auto simp: sc_perturbRect_def)
  qed
  let ?b = "(if sc_disabled s \<and> dir > 0 then sd_write False s else s)
      \<lparr>sc_pwmCtrl := word_of_int (constrain (uint (sc_pwmCtrl (if sc_disabled s \<and> dir > 0 then sd_write False s else s)) + dir)
         (uint (sc_ctrlMin (if sc_disabled s \<and> dir > 0 then sd_write False s else s)))
         (uint (sc_ctrlMax (if sc_disabled s \<and> dir > 0 then sd_write False s else s))))\<rparr>"
  have "num_inv ?b" using assms by simp
  from pr [OF this, of "- dir > uint (sc_driverPwmMax ?b) div 50"] show ?thesis by (auto simp: sc_perturb_def Let_def)
qed

lemma perturbRect_fbuf:
  assumes "sc_perturbRect ld t = Inr t'"
  shows "sc_fbuf t' = sc_fbuf t"
proof (cases "0 \<le> sc_manualRect t")
  case True
  then show ?thesis using assms by (auto simp: sc_perturbRect_def)
next
  case False
  let ?t = "if ld \<and> \<not> sc_forced t then t\<lparr>sc_dcm := True\<rparr> else t"
  obtain u where u: "sc_computeRectMax ?t = Inr u" "t' = u\<lparr>sc_pwmRect := sc_rectMin u\<rparr> \<or> t' = sc_fade u"
    using assms False by (auto simp: sc_perturbRect_def bindE_Inr_iff split: if_splits)
  have "sc_fbuf u = sc_fbuf ?t" using computeRectMax_same [OF u(1)] by (simp add: same_frame_def)
  also have "sc_fbuf ?t = sc_fbuf t" by simp
  finally show ?thesis using u(2) by (auto simp: sc_fade_def Let_def)
qed

lemma perturb_fbuf:
  assumes "sc_perturb dir s = Inr s'"
  shows "sc_fbuf s' = sc_fbuf s"
proof -
  let ?s1 = "if sc_disabled s \<and> dir > 0 then sd_write False s else s"
  obtain c ld en u where u: "sc_perturbRect ld (?s1\<lparr>sc_pwmCtrl := c\<rparr>) = Inr u" "s' = drv_commit en ld dir u"
    using assms unfolding sc_perturb_def Let_def bindE_Inr_iff by blast
  have "sc_fbuf u = sc_fbuf s" using perturbRect_fbuf [OF u(1)] by (simp add: sd_write_def sc_gate_def)
  then show ?thesis using u(2) by (simp add: drv_commit_def sc_gate_def)
qed

lemma fadd_zero_left:
  assumes "isfinite y" "fl_ok F32 y"
  shows "isfinite (fadd (Fin 0) y) \<and> val (fadd (Fin 0) y) = val y"
  using gadd_zero_right [OF assms] gadd_comm [of F32 "Fin 0" y] by simp

lemma fractional_sum:
  assumes "num_inv s" "fle (fabs d) (to_float (uint (sc_driverPwmMax s)))"
  shows "isfinite (fadd d (sc_fbuf s)) \<and> \<bar>val (fadd d (sc_fbuf s))\<bar> \<le> of_int 32767"
proof -
  have p: "to_float (uint (sc_driverPwmMax s)) = Fin (of_int (uint (sc_driverPwmMax s)))" by (rule to_float_u16)
  have "fle (Fin 0) (fabs d)" using assms(2) by (cases d) (auto simp: fle_def)
  then have fd: "isfinite d" using fle_between_finite [OF _ assms(2)] p by simp
  have "\<bar>val d\<bar> \<le> of_int (uint (sc_driverPwmMax s))" using assms(2) fd p by (simp add: val_fabs)
  also have "\<dots> \<le> of_int 32766" using assms(1) by (simp only: num_inv_def of_int_le_iff)
  finally have "\<bar>val d\<bar> \<le> 32766" by simp
  then show ?thesis using assms(1) fd by (intro fadd_abs_int) (auto simp: num_inv_def)
qed

lemma fractional_num:
  assumes "num_inv s" "fle (fabs d) (to_float (uint (sc_driverPwmMax s)))"
  shows "\<exists>s'. sc_perturbFractional d s = Inr s' \<and> num_inv s'"
proof -
  let ?x = "fadd d (sc_fbuf s)" and ?s1 = "s\<lparr>sc_fbuf := Fin 0\<rparr>"
  let ?i = "trunc_int ?x"
  note x = fractional_sum [OF assms]
  have "\<bar>rat_of_int ?i\<bar> \<le> of_int 32767" using trunc_int_bounds [of ?x] x by linarith
  then have i: "\<bar>?i\<bar> \<le> 32767" by (simp only: of_int_abs [symmetric] of_int_le_iff)
  then have ci: "cast_int (- 32768) 32767 ?x = Inr ?i" using x by (auto simp: cast_int_def)
  have fr: "isfinite (fsub ?x (to_float ?i)) \<and> val (fsub ?x (to_float ?i)) = val ?x - of_int ?i"
    by (rule frac_exact) (use x i in auto)
  let ?y = "fadd (Fin 0) (fsub ?x (to_float ?i))"
  have y: "isfinite ?y \<and> \<bar>val ?y\<bar> < 1"
    using fadd_zero_left [of "fsub ?x (to_float ?i)"] fr trunc_int_frac [of ?x] by simp
  have s1: "num_inv ?s1" using assms by (simp add: num_inv_def)
  obtain s2 where s2: "(if ?i \<noteq> 0 then sc_perturb ?i ?s1 else Inr ?s1) = Inr s2" "num_inv s2"
    using perturb_num [OF s1, of ?i] s1 by (cases "?i = 0") auto
  have "num_inv (s2\<lparr>sc_fbuf := fadd (sc_fbuf s2) (fsub ?x (to_float ?i))\<rparr>)" if "sc_fbuf s2 = Fin 0"
    using s2(2) y that by (simp add: num_inv_def)
  moreover have "sc_fbuf s2 = Fin 0"
  proof (cases "?i = 0")
    case True
    then show ?thesis using s2(1) by auto
  next
    case False
    then have "sc_perturb ?i ?s1 = Inr s2" using s2(1) by simp
    then show ?thesis by (rule perturb_fbuf [THEN trans]) simp
  qed
  ultimately show ?thesis using assms(2) ci s2(1) by (auto simp: sc_perturbFractional_def Let_def)
qed

lemma computeSyncRectRatio_num:
  assumes "num_inv s" "vl \<noteq> Inf True"
  shows "num_inv (sc_computeSyncRectRatio vh vl il s)"
proof -
  let ?m = "sc_convRatio vh vl s"
  have b: "sc_rectCtrlRatio ?m (s\<lparr>sc_M := ?m, sc_dcm := d\<rparr>) = sc_rectCtrlRatio ?m s" for d by (simp add: sc_rectCtrlRatio_def)
  note r = rectRatio_range [OF convRatio_range [OF assms(2), of s vh]]
  show ?thesis using assms(1) r
    by (simp add: sc_computeSyncRectRatio_def sc_computeDCM_def Let_def num_inv_def b)
qed

fun op_sane :: "conv_op \<Rightarrow> bool" where
  \<comment> \<open>no sensor reads negative infinity\<close>
  "op_sane (SyncDuty vin vout il) = (vin \<noteq> Inf True \<and> vout \<noteq> Inf True)"
| "op_sane _ = True"

lemma conv_step_num:
  assumes "num_inv s" "op_sane x"
  shows "(\<exists>m. conv_step x s = Inl (Throw m)) \<or> (\<exists>s'. conv_step x s = Inr s' \<and> num_inv s')"
proof (cases x)
  case (Perturb d)
  then show ?thesis using perturb_num [OF assms(1)] by simp
next
  case (Fractional d)
  then show ?thesis using fractional_num [OF assms(1), of d] sc_perturbFractional_def [of d s] by auto
next
  case (SyncDuty vin vout il)
  let ?s1 = "sc_computeSyncRectRatio (if sc_boost s then vout else vin) (if sc_boost s then vin else vout) il s"
  have n1: "num_inv ?s1" by (rule computeSyncRectRatio_num) (use assms SyncDuty in auto)
  then obtain s2 where "sc_computeRectMax ?s1 = Inr s2" "num_inv s2" using computeRectMax_num by blast
  then show ?thesis using SyncDuty n1 by (simp add: sc_updateSyncRectMaxDuty_def Let_def)
next
  case (EnableRect e ov)
  then show ?thesis using assms by (simp add: sc_enableSyncRect_def sc_syncRectMinDuty_def Let_def)
next
  case MinDuty
  then show ?thesis using assms by (simp add: sc_syncRectMinDuty_def Let_def)
next
  case Disable
  then show ?thesis using assms by (simp add: sc_disable_def)
next
  case (ManualRect n)
  then show ?thesis using assms by (simp add: sc_setManualRect_def Let_def)
qed

section \<open>Properties\<close>

definition conv_num0 :: "conv \<Rightarrow> bool" where
  \<comment> \<open>how \<open>init\<close> leaves the arithmetic state, with a period of at most 32766 ticks\<close>
  "conv_num0 s = (sc_ratioDCM s = Fin 0 \<and> sc_ditherErr s = Fin 0 \<and> sc_fbuf s = Fin 0 \<and> sc_rectDither s \<and>
     \<bar>sc_rectOnOffset s\<bar> \<le> 32768 \<and> uint (sc_driverPwmMax s) \<le> 32766)"

text \<open>C28: no operation sequence of a configured converter reaches undefined behaviour. Whatever is
  requested and whatever the sensors read (NaN and positive infinity included, negative infinity
  excluded), every float-to-integer conversion of the rectifier count and of the fractional perturbation
  is in range; the only way to stop is the exception for an out-of-range perturbation.\<close>
theorem conv_never_undefined:
  assumes "conv_num0 s" "list_all op_sane xs"
  shows "(\<exists>m. conv_run xs s = Inl (Throw m)) \<or>
    (\<exists>s'. conv_run xs s = Inr s' \<and> fle (Fin 0) (sc_ratioDCM s') \<and> fle (sc_ratioDCM s') (Fin 128) \<and>
       \<bar>val (sc_fbuf s')\<bar> < 1 \<and> \<bar>val (sc_ditherErr s')\<bar> \<le> 1 / 2)"
proof -
  have "num_inv s" using assms(1) by (simp add: conv_num0_def num_inv_def)
  then have "(\<exists>m. conv_run xs s = Inl (Throw m)) \<or> (\<exists>s'. conv_run xs s = Inr s' \<and> num_inv s')"
    using assms(2)
  proof (induction xs arbitrary: s)
    case (Cons x xs)
    from conv_step_num [of s x] Cons.prems consider m where "conv_step x s = Inl (Throw m)"
      | t where "conv_step x s = Inr t" "num_inv t" by auto
    then show ?case using Cons.IH Cons.prems by cases auto
  qed simp
  then show ?thesis by (auto simp: num_inv_def)
qed

lemma conv_never_undefined_witness:
  "\<exists>s'. conv_run [Perturb 100, SyncDuty NaN (Fin 10) (Inf True), Fractional (Fin (1 / 4))] example_leg = Inr s' \<and>
    \<bar>val (sc_fbuf s')\<bar> < 1"
proof -
  let ?xs = "[Perturb 100, SyncDuty NaN (Fin 10) (Inf True), Fractional (Fin (1 / 4))]"
  have a: "conv_num0 example_leg" by code_simp
  have b: "list_all op_sane ?xs" by simp
  have "resD (conv_run ?xs example_leg) (\<lambda>_. True)" by code_simp
  then obtain s' where "conv_run ?xs example_leg = Inr s'" by (rule resD_E)
  then show ?thesis using conv_never_undefined [OF a b] by auto
qed

text \<open>a fractional perturbation loses nothing. The integer part of the request plus the carried
  remainder is applied to the duty at once, the rest (always less than one count) is carried exactly,
  without a rounding error; a request that is not a number or larger than the period throws.\<close>
theorem conv_fractional_carry:
  assumes "num_inv s" "conv_cfg s"
  shows "(\<not> fle (fabs d) (to_float (uint (sc_driverPwmMax s))) \<longrightarrow>
      sc_perturbFractional d s = Inl (Throw ''pwmPerturbFractional'')) \<and>
    (fle (fabs d) (to_float (uint (sc_driverPwmMax s))) \<longrightarrow>
      (\<exists>s'. sc_perturbFractional d s = Inr s' \<and>
        (let total = fadd d (sc_fbuf s); n = trunc_int total in
           of_int n + val (sc_fbuf s') = val total \<and> \<bar>val (sc_fbuf s')\<bar> < 1 \<and>
           sc_pwmCtrl s' = (if n = 0 then sc_pwmCtrl s else ctrl_next n s))))"
proof (cases "fle (fabs d) (to_float (uint (sc_driverPwmMax s)))")
  case False
  then show ?thesis by (simp add: sc_perturbFractional_def)
next
  case True
  let ?x = "fadd d (sc_fbuf s)" and ?s1 = "s\<lparr>sc_fbuf := Fin 0\<rparr>"
  let ?i = "trunc_int ?x"
  note x = fractional_sum [OF assms(1) True]
  have "\<bar>rat_of_int ?i\<bar> \<le> of_int 32767" using trunc_int_bounds [of ?x] x by linarith
  then have i: "\<bar>?i\<bar> \<le> 32767" by (simp only: of_int_abs [symmetric] of_int_le_iff)
  have fr: "isfinite (fsub ?x (to_float ?i)) \<and> val (fsub ?x (to_float ?i)) = val ?x - of_int ?i"
    by (rule frac_exact) (use x i in auto)
  have y: "val (fadd (Fin 0) (fsub ?x (to_float ?i))) = val ?x - of_int ?i"
    using fadd_zero_left [of "fsub ?x (to_float ?i)"] fr by simp
  obtain s' where s': "sc_perturbFractional d s = Inr s'"
    using fractional_num [OF assms(1) True] by blast
  then obtain s2 where s2: "(if ?i \<noteq> 0 then sc_perturb ?i ?s1 else Inr ?s1) = Inr s2"
    "s' = s2\<lparr>sc_fbuf := fadd (sc_fbuf s2) (fsub ?x (to_float ?i))\<rparr>"
    using True by (auto simp: sc_perturbFractional_def Let_def bindE_Inr_iff cast_int_Inr split: if_splits)
  have "sc_fbuf s2 = Fin 0 \<and> sc_pwmCtrl s2 = (if ?i = 0 then sc_pwmCtrl s else ctrl_next ?i s)"
  proof (cases "?i = 0")
    case False
    have "conv_cfg ?s1" using assms(2) by (simp add: conv_cfg_def)
    from perturb_step [of ?i ?s1 s2, OF _ this] show ?thesis using s2(1) False by (simp add: ctrl_next_def)
  qed (use s2(1) in auto)
  then show ?thesis using True s' s2(2) y trunc_int_frac [of ?x] by (simp add: Let_def)
qed

lemma conv_fractional_carry_witness:
  "\<exists>s'. sc_perturbFractional (Fin (11 / 4)) (example_leg\<lparr>sc_fbuf := Fin (1 / 2)\<rparr>) = Inr s' \<and> val (sc_fbuf s') = 1 / 4 \<and> sc_pwmCtrl s' = 3"
proof -
  let ?s = "example_leg\<lparr>sc_fbuf := Fin (1 / 2)\<rparr>"
  have a: "num_inv ?s" by code_simp
  have b: "conv_cfg ?s" by code_simp
  have c: "fle (fabs (Fin (11 / 4))) (to_float (uint (sc_driverPwmMax ?s)))" by code_simp
  have d: "fadd (Fin (11 / 4)) (Fin (1 / 2)) = Fin (13 / 4)" by code_simp
  have e: "trunc_int (Fin (13 / 4)) = 3" by code_simp
  have f: "ctrl_next 3 ?s = 3" by code_simp
  have g: "sc_fbuf ?s = Fin (1 / 2)" by simp
  obtain s' where s: "sc_perturbFractional (Fin (11 / 4)) ?s = Inr s'"
    "of_int 3 + val (sc_fbuf s') = val (Fin (13 / 4))" "sc_pwmCtrl s' = 3"
    using conjunct2 [OF conv_fractional_carry [OF a b, of "Fin (11 / 4)"]] c
    unfolding Let_def g d e f by auto
  then show ?thesis by (intro exI [of _ s']) simp
qed

end
