(* ===== verification/Peripherals.thy ===== *)
theory Peripherals
  imports Conf
begin

text \<open>
  Small parts the MPPT controller owns: the back-flow switch (\<open>src/src/pwm/backflow.h\<close>), the fan
  (\<open>src/src/cooling.h\<close>), the battery voltage detection (\<open>src/src/battery.h\<close>) and the minimum sampler
  of \<open>src/src/mppt.h\<close>. A digital output is the level last written to it.
\<close>

section \<open>Back-flow switch\<close>

record bflow =
  bf_state :: bool
  bf_panelEN :: u8
  bf_panelSD :: u8
  bf_level :: bool      \<comment> \<open>the level of the pin in use\<close>

definition bf_new :: bflow where
  "bf_new = \<lparr>bf_state = False, bf_panelEN = 0, bf_panelSD = 0, bf_level = False\<rparr>"

definition bf_init :: "conf \<Rightarrow> bflow \<Rightarrow> bflow res" where
  "bf_init c b =
    bindE (conf_getByte ''panel_en'' 0 c) (\<lambda>en.
    bindE (conf_getByte ''panel_sd'' 0 c) (\<lambda>sd.
      if en \<noteq> 0 then
        (if sd \<noteq> 0 then Inl AssertFail
         else Inr (b\<lparr>bf_panelEN := en, bf_panelSD := sd, bf_level := False, bf_state := False\<rparr>))
      else if sd \<noteq> 0 then Inr (b\<lparr>bf_panelEN := en, bf_panelSD := sd, bf_level := True, bf_state := False\<rparr>)
      else Inr (b\<lparr>bf_panelEN := en, bf_panelSD := sd, bf_state := False\<rparr>)))"

definition bf_enable :: "bool \<Rightarrow> bflow \<Rightarrow> bflow" where
  "bf_enable e b =
    (if bf_panelEN b \<noteq> 0 then b\<lparr>bf_level := e, bf_state := e\<rparr>
     else if bf_panelSD b \<noteq> 0 then b\<lparr>bf_level := \<not> e, bf_state := e\<rparr>
     else b\<lparr>bf_state := e\<rparr>)"

definition bf_wired :: "bflow \<Rightarrow> bool" where
  \<comment> \<open>the conversion to \<open>bool\<close>\<close>
  "bf_wired b = (bf_panelSD b \<noteq> 0 \<or> bf_panelEN b \<noteq> 0)"

definition bf_conducts :: "bflow \<Rightarrow> bool" where
  \<comment> \<open>the switch is commanded on: the enable pin is high or the shutdown pin is low\<close>
  "bf_conducts b = (if bf_panelEN b \<noteq> 0 then bf_level b else bf_panelSD b \<noteq> 0 \<and> \<not> bf_level b)"

definition bf_ok :: "bflow \<Rightarrow> bool" where
  "bf_ok b = (bf_conducts b = (bf_wired b \<and> bf_state b))"

lemma bf_init_ok: "bf_init c b = Inr b' \<Longrightarrow> bf_ok b' \<and> \<not> bf_state b'"
  by (auto simp: bf_init_def bindE_Inr_iff bf_ok_def bf_conducts_def bf_wired_def split: if_splits)

lemma bf_enable_ok [simp]: "bf_ok (bf_enable e b)"
  by (simp add: bf_ok_def bf_enable_def bf_conducts_def bf_wired_def)

lemma bf_enable_state [simp]: "bf_state (bf_enable e b) = e"
  "bf_wired (bf_enable e b) = bf_wired b"
  by (simp_all add: bf_enable_def bf_wired_def)

section \<open>Fan\<close>

record fan =
  fn_init :: bool
  fn_pin :: u8
  fn_on :: bool
  fn_onTime :: u32     \<comment> \<open>the static \<open>fanOnTime\<close>\<close>

definition fan_new :: fan where
  "fan_new = \<lparr>fn_init = False, fn_pin = 255, fn_on = False, fn_onTime = 0\<rparr>"

definition fan_init :: "conf \<Rightarrow> fan \<Rightarrow> fan res" where
  "fan_init c f =
    bindE (conf_getByte ''fan_pwm'' 255 c) (\<lambda>pin.
      Inr (if pin = 255 then f else f\<lparr>fn_pin := pin, fn_on := False, fn_init := True\<rparr>))"

definition fanSet :: "fl \<Rightarrow> fan \<Rightarrow> fan" where
  "fanSet duty f = (if fn_init f then f\<lparr>fn_on := fgt duty (f64 (1 / 10))\<rparr> else f)"

definition fanUpdateTemp :: "u32 \<Rightarrow> fl \<Rightarrow> fl \<Rightarrow> fan \<Rightarrow> fan" where
  "fanUpdateTemp millis temp pw f =
    (if \<not> fn_init f then f
     else if fgt temp (Fin 70) then fanSet (Fin 1) f
     else if fgt temp (Fin 60) then fanSet (Fin (3 / 4)) f
     else if fgt temp (Fin 55) then fanSet (Fin (1 / 2)) f
     else if fge temp (Fin (99 / 2)) then (fanSet (Fin (1 / 4)) f)\<lparr>fn_onTime := millis\<rparr>
     else if flt temp (if fgt pw (Fin 100) then Fin 35 else Fin 45) \<and> 30000 < millis - fn_onTime f then fanSet (Fin 0) f
     else f)"

section \<open>Battery voltage detection\<close>

definition cellPackVoltage :: fl where
  "cellPackVoltage = cvt F32 (dmul (Fin 4) (f64 (73 / 20)))"

definition detectMaxBatteryVoltage :: "fl \<Rightarrow> fl" where
  "detectMaxBatteryVoltage v =
    (let step = cellPackVoltage; vmin = Fin 10;
         hit = (\<lambda>n. fgt v (fmul vmin (to_float n)) \<and> flt v (fmul step (to_float n)))
     in if hit 1 then fmul step (to_float 1)
        else if hit 2 then fmul step (to_float 2)
        else if flt v vmin then step else NaN)"

section \<open>Minimum sampler\<close>

type_synonym min_sampler = u8

definition mins_max :: u8 where "mins_max = 15"

definition mins_add :: "u8 \<Rightarrow> min_sampler \<Rightarrow> min_sampler" where
  "mins_add v m = (if v < m then v else m)"

definition mins_reset :: "min_sampler \<Rightarrow> min_sampler" where
  "mins_reset m = mins_max"

definition mins_empty :: "min_sampler \<Rightarrow> bool" where
  "mins_empty m = (m = mins_max)"

definition mins_tryGet :: "min_sampler \<Rightarrow> u8 option" where
  "mins_tryGet m = (if m = mins_max then None else Some m)"

definition mins_pop :: "min_sampler \<Rightarrow> u8 \<times> min_sampler" where
  "mins_pop m = (m, mins_reset m)"

end
