(* ===== verification/Noise.thy ===== *)
theory Noise
  imports StatMath
begin

text \<open>
  Signal conditioning of the sampler: \<open>src/src/math/noise.h\<close> (\<open>AdaptiveNoiseFilter\<close>) and
  \<open>src/src/math/ripple_freq.h\<close> (\<open>RippleFreqDetector\<close>). The library functions \<open>cosf\<close> and
  \<open>sqrtf\<close> are arguments.
\<close>

section \<open>Adaptive noise filter\<close>

record anf =
  an_targetNSR :: fl
  an_ewma :: npass
  an_ewmN :: ewm
  an_ewmS :: ewm
  an_span :: fl
  an_spanUpdate :: u16

definition anf_new :: anf where
  "anf_new = \<lparr>an_targetNSR = NaN, an_ewma = npass_new 3 1, an_ewmN = ewm_new 1, an_ewmS = ewm_new 1,
     an_span = Fin 1, an_spanUpdate = 0\<rparr>"

definition sigVarReg :: fl where "sigVarReg = f32 (1 / 10000000)"

definition anf_setSpan :: "fl \<Rightarrow> anf \<Rightarrow> anf" where
  "anf_setSpan sp a =
    a\<lparr>an_span := sp, an_ewma := npass_updateSpan sp (an_ewma a),
      an_ewmN := ewm_updateSpan (fmul sp (Fin 8)) (an_ewmN a), an_ewmS := ewm_updateSpan (fmul sp (Fin 8)) (an_ewmS a)\<rparr>"

definition anf_begin :: "u16 \<Rightarrow> fl \<Rightarrow> anf \<Rightarrow> anf" where
  "anf_begin initialSpan targetNoise a =
    (anf_setSpan (to_float (uint initialSpan)) a)\<lparr>an_targetNSR := fmul targetNoise targetNoise\<rparr>"

definition ceil_fl :: "fl \<Rightarrow> fl" where
  "ceil_fl x = (case x of Fin q \<Rightarrow> (if - 1 < q \<and> q < 0 then NZero else Fin (of_int \<lceil>q\<rceil>)) | _ \<Rightarrow> x)"

definition anf_adapt :: "fl \<Rightarrow> anf \<Rightarrow> fl" where
  \<comment> \<open>the next span: longer above the target noise, shorter below, between 1 and 200\<close>
  "anf_adapt nsr a =
    std_min (std_max (Fin 1) (fmul (an_span a) (if fgt nsr (an_targetNSR a) then f32 (11 / 10) else f32 (9 / 10)))) (Fin 200)"

definition anf_add :: "fl \<Rightarrow> anf \<Rightarrow> (fl \<times> anf) res" where
  "anf_add x a =
    (let a1 = a\<lparr>an_ewma := npass_add x (an_ewma a)\<rparr>; y = npass_get (an_ewma a1);
         a2 = a1\<lparr>an_ewmS := ewm_add True y (an_ewmS a1), an_ewmN := ewm_add False y (an_ewmN a1)\<rparr>
     in if an_spanUpdate a2 = 0 then
          (let nsr = fdiv (ewm_nvar (an_ewmN a2)) (fadd (ewm_nvar (an_ewmS a2)) sigVarReg)
           in if isfinite nsr then
                (let sp = anf_adapt nsr a2 in
                 bindE (cast_int 0 65535 (fmul (ceil_fl sp) (Fin 16))) (\<lambda>n.
                   Inr (y, (anf_setSpan sp a2)\<lparr>an_spanUpdate := word_of_int n\<rparr>)))
              else Inr (y, a2))
        else Inr (y, a2\<lparr>an_spanUpdate := an_spanUpdate a2 - 1\<rparr>))"

section \<open>Ripple frequency detector\<close>

record ripple =
  rp_coef :: "fl list"
  rp_q1 :: "fl list"
  rp_q2 :: "fl list"
  rp_fLo :: fl
  rp_fStep :: fl
  rp_dc :: fl
  rp_blockN :: u16
  rp_pos :: u16
  rp_hz :: fl
  rp_snr :: fl
  rp_ready :: bool

definition ripple_bins :: nat where "ripple_bins = 61"

definition ripple_new :: ripple where
  "ripple_new = \<lparr>rp_coef = [], rp_q1 = [], rp_q2 = [], rp_fLo = Fin 0, rp_fStep = Fin 0, rp_dc = NaN,
     rp_blockN = 512, rp_pos = 0, rp_hz = NaN, rp_snr = Fin 0, rp_ready = False\<rparr>"

definition ripple_configured :: "ripple \<Rightarrow> bool" where
  "ripple_configured r = fgt (rp_fStep r) (Fin 0)"

definition pi_f :: fl where
  \<comment> \<open>\<open>(float) M_PI\<close>\<close>
  "pi_f = Fin (13176795 / 4194304)"

definition ripple_coef :: "(fl \<Rightarrow> fl) \<Rightarrow> fl \<Rightarrow> fl \<Rightarrow> fl \<Rightarrow> nat \<Rightarrow> fl" where
  "ripple_coef cosf fs fLo fStep k =
    fmul (Fin 2) (cosf (fdiv (fmul (fmul (Fin 2) pi_f) (fadd fLo (fmul fStep (to_float (int k))))) fs))"

definition ripple_configure :: "(fl \<Rightarrow> fl) \<Rightarrow> fl \<Rightarrow> fl \<Rightarrow> fl \<Rightarrow> u16 \<Rightarrow> ripple \<Rightarrow> ripple" where
  "ripple_configure cosf fs fLo fHi blockN r =
    (let st = fdiv (fsub fHi fLo) (to_float (int ripple_bins - 1))
     in r\<lparr>rp_fLo := fLo, rp_fStep := st, rp_blockN := blockN,
          rp_coef := map (ripple_coef cosf fs fLo st) [0..<ripple_bins],
          rp_q1 := replicate ripple_bins (Fin 0), rp_q2 := replicate ripple_bins (Fin 0),
          rp_pos := 0, rp_dc := NaN, rp_ready := False\<rparr>)"

definition goertzel :: "fl \<Rightarrow> fl \<Rightarrow> fl \<Rightarrow> fl \<Rightarrow> fl" where
  "goertzel s c q1 q2 = fadd (fsub (fmul c q1) q2) s"

definition bin_power :: "fl \<Rightarrow> fl \<Rightarrow> fl \<Rightarrow> fl" where
  "bin_power c q1 q2 =
    (let m = fsub (fadd (fmul q1 q1) (fmul q2 q2)) (fmul (fmul c q1) q2) in if flt m (Fin 0) then Fin 0 else m)"

fun ripple_scan :: "nat \<Rightarrow> fl list \<Rightarrow> fl \<times> fl \<times> nat \<Rightarrow> fl \<times> fl \<times> nat" where
  \<comment> \<open>the strongest bin, the sum and the index\<close>
  "ripple_scan k [] acc = acc"
| "ripple_scan k (m # ms) (best, tot, bi) =
    ripple_scan (k + 1) ms (if fgt m best then (m, fadd tot m, k) else (best, fadd tot m, bi))"

definition ripple_delta :: "(fl \<Rightarrow> fl) \<Rightarrow> fl list \<Rightarrow> nat \<Rightarrow> fl" where
  \<comment> \<open>parabolic interpolation between the bins\<close>
  "ripple_delta sqrtf mags bi =
    (if 0 < bi \<and> bi < ripple_bins - 1 then
       (let a = sqrtf (mags ! (bi - 1)); b = sqrtf (mags ! bi); c = sqrtf (mags ! (bi + 1));
            den = fadd (fsub a (fmul (Fin 2) b)) c
        in if \<not> feq den (Fin 0) then
             (let d = fdiv (fmul (Fin (1 / 2)) (fsub a c)) den
              in if fgt d (Fin 1) then Fin 1 else if flt d (Fin (- 1)) then Fin (- 1) else d)
           else Fin 0)
     else Fin 0)"

definition ripple_finalize :: "(fl \<Rightarrow> fl) \<Rightarrow> ripple \<Rightarrow> ripple" where
  "ripple_finalize sqrtf r =
    (let mags = map2 (\<lambda>c (q1, q2). bin_power c q1 q2) (rp_coef r) (zip (rp_q1 r) (rp_q2 r));
         (best, tot, bi) = ripple_scan 0 mags (Fin 0, Fin 0, 0);
         meanOther = fadd (fdiv (fsub tot best) (to_float (int ripple_bins - 1))) (f32 (1 / 1000000000000))
     in r\<lparr>rp_q1 := replicate ripple_bins (Fin 0), rp_q2 := replicate ripple_bins (Fin 0), rp_pos := 0,
          rp_snr := fdiv best meanOther,
          rp_hz := fadd (rp_fLo r) (fmul (rp_fStep r) (fadd (to_float (int bi)) (ripple_delta sqrtf mags bi))),
          rp_ready := True\<rparr>)"

definition ripple_push :: "(fl \<Rightarrow> fl) \<Rightarrow> fl \<Rightarrow> ripple \<Rightarrow> ripple" where
  "ripple_push sqrtf x r =
    (let dc = (if isnan (rp_dc r) then x else fadd (rp_dc r) (fmul (f32 (1 / 1000)) (fsub x (rp_dc r))));
         s = fsub x dc;
         q0 = map2 (\<lambda>c (q1, q2). goertzel s c q1 q2) (rp_coef r) (zip (rp_q1 r) (rp_q2 r));
         r1 = r\<lparr>rp_dc := dc, rp_q2 := rp_q1 r, rp_q1 := q0, rp_pos := rp_pos r + 1\<rparr>
     in if rp_blockN r1 \<le> rp_pos r1 then ripple_finalize sqrtf r1 else r1)"

definition ripple_poll :: "ripple \<Rightarrow> (fl \<times> fl) option \<times> ripple" where
  "ripple_poll r = (if rp_ready r then (Some (rp_hz r, rp_snr r), r\<lparr>rp_ready := False\<rparr>) else (None, r))"

end
