(* ===== verification/Sampler.thy ===== *)
theory Sampler
  imports Noise
begin

text \<open>
  \<open>src/src/adc/sampling.h\<close>: the sensors, the interleaved sampling of the ADCs and the offset
  calibration, with the derived sensors of \<open>src/src/adc/sensor_setup.cpp\<close>. A \<open>Sensor *\<close> is an index
  into \<open>sa_sensors\<close>. What a driver (\<open>src/src/adc/adc.h\<close>) answers in one poll is the record
  \<open>adc_in\<close>; the signal library and \<open>cosf\<close>, \<open>sqrtf\<close> are the record \<open>dsp\<close>.
\<close>

section \<open>Results of an update\<close>

datatype update_ret = NoNewData | NewData | Calibrating | CalibFailure | AdcError

fun ret_rank :: "update_ret \<Rightarrow> nat" where
  \<comment> \<open>the values of \<open>enum class UpdateRet\<close>\<close>
  "ret_rank NoNewData = 0"
| "ret_rank NewData = 1"
| "ret_rank Calibrating = 2"
| "ret_rank CalibFailure = 3"
| "ret_rank AdcError = 4"

instantiation update_ret :: linorder
begin
definition less_eq_update_ret :: "update_ret \<Rightarrow> update_ret \<Rightarrow> bool" where
  "less_eq_update_ret a b = (ret_rank a \<le> ret_rank b)"
definition less_update_ret :: "update_ret \<Rightarrow> update_ret \<Rightarrow> bool" where
  "less_update_ret a b = (ret_rank a < ret_rank b)"
instance
  apply standard
  subgoal by (auto simp: less_eq_update_ret_def less_update_ret_def)
  subgoal by (simp add: less_eq_update_ret_def)
  subgoal by (simp add: less_eq_update_ret_def)
  subgoal for a b by (cases a; cases b) (simp_all add: less_eq_update_ret_def)
  subgoal by (auto simp: less_eq_update_ret_def)
  done
end

section \<open>The signal library\<close>

record dsp =
  dsp_gen :: "fl \<Rightarrow> fl \<Rightarrow> fl \<Rightarrow> fl list option"
    \<comment> \<open>\<open>dsps_biquad_gen_notch_f32\<close>; \<open>None\<close> is an error code, on which \<open>ESP_ERROR_CHECK\<close> aborts\<close>
  dsp_biquad :: "fl list \<Rightarrow> fl list \<Rightarrow> fl \<Rightarrow> fl \<times> fl list"
    \<comment> \<open>\<open>dsps_biquad_f32\<close> on one sample: the output and the delay line\<close>
  dsp_cos :: "fl \<Rightarrow> fl"
  dsp_sqrt :: "fl \<Rightarrow> fl"

record notch =
  no_coeffs :: "fl list"
  no_w :: "fl list"

definition notch_new :: notch where
  "notch_new = \<lparr>no_coeffs = replicate 6 (Fin 0), no_w = [Fin 0, Fin 0]\<rparr>"

definition notch_begin :: "dsp \<Rightarrow> fl \<Rightarrow> fl \<Rightarrow> fl \<Rightarrow> notch \<Rightarrow> notch res" where
  "notch_begin d f gain q n =
    (case dsp_gen d f gain q of None \<Rightarrow> Inl AssertFail | Some cs \<Rightarrow> Inr (n\<lparr>no_coeffs := cs\<rparr>))"

definition notch_filter :: "dsp \<Rightarrow> fl \<Rightarrow> notch \<Rightarrow> fl \<times> notch" where
  "notch_filter d x n = (let (y, w) = dsp_biquad d (no_coeffs n) (no_w n) x in (y, n\<lparr>no_w := w\<rparr>))"

section \<open>Sensors\<close>

record ltrans =
  lt_factor :: fl
  lt_midpoint :: fl

definition lt_apply :: "ltrans \<Rightarrow> fl \<Rightarrow> fl" where
  "lt_apply t x = fmul (fsub x (lt_midpoint t)) (lt_factor t)"

definition lt_apply_inverse :: "ltrans \<Rightarrow> fl \<Rightarrow> fl" where
  "lt_apply_inverse t y = fadd (fdiv y (lt_factor t)) (lt_midpoint t)"

record sparams =
  sp_adcCh :: u8
  sp_transform :: ltrans
  sp_maxAbsValue :: fl
  sp_maxStddev :: fl
  sp_calibrateOffset :: bool

record sensor =
  se_params :: sparams
  se_adc :: nat              \<comment> \<open>the driver\<close>
  se_last :: fl
  se_lastRaw :: fl
  se_previous :: fl
  se_numSamples :: u32
  se_notch :: "notch option"
  se_med3 :: rmed5
  se_anf :: anf
  se_despikeScale :: fl
  se_despikeTrips :: u32
  se_ewm :: ewm
  se_calibBuffer :: macc
  se_calibrationAvg :: fl
  se_isVirtual :: bool
  se_notchFs :: fl

definition sensor_new :: "nat \<Rightarrow> sparams \<Rightarrow> u32 \<Rightarrow> bool \<Rightarrow> sensor" where
  "sensor_new adc p ewmSpan virt =
    \<lparr>se_params = p, se_adc = adc, se_last = NaN, se_lastRaw = NaN, se_previous = NaN, se_numSamples = 0,
     se_notch = None, se_med3 = rmed5_new, se_anf = anf_begin (ucast ewmSpan) (f32 (2 / 10)) anf_new,
     se_despikeScale = Fin 0, se_despikeTrips = 0, se_ewm = ewm_new ewmSpan, se_calibBuffer = macc_clear,
     se_calibrationAvg = Fin 0, se_isVirtual = virt, se_notchFs = Fin 0\<rparr>"

definition sensor_reset :: "bool \<Rightarrow> sensor \<Rightarrow> sensor" where
  "sensor_reset resetCalibration s =
    (let s1 = s\<lparr>se_last := NaN, se_previous := NaN, se_numSamples := 0, se_med3 := rmed5_reset (se_med3 s),
                se_despikeScale := Fin 0, se_ewm := ewm_reset False (se_ewm s)\<rparr>
     in if resetCalibration \<and> \<not> feq (se_calibrationAvg s1) (Fin 0)
        then s1\<lparr>se_calibrationAvg := Fin 0, se_calibBuffer := macc_clear\<rparr> else s1)"

definition sample_value :: "fl \<Rightarrow> sensor \<Rightarrow> fl" where
  \<comment> \<open>the transformed sample, offset-corrected\<close>
  "sample_value x s =
    (let v = lt_apply (sp_transform (se_params s)) x
     in if sp_calibrateOffset (se_params s) then fsub v (se_calibrationAvg s) else v)"

definition despike :: "fl \<Rightarrow> fl \<Rightarrow> fl \<Rightarrow> sensor \<Rightarrow> fl \<times> sensor" where
  \<comment> \<open>lines 130 to 140; \<open>k\<close> is \<open>despikeK\<close>, \<open>m\<close> the median\<close>
  "despike k v m s =
    (if fgt k (Fin 0) then
       (let dev = fabs (fsub v m); sc = se_despikeScale s;
            trip = (fgt sc (Fin 0) \<and> fgt dev (fmul k sc))
        in (if trip then m else v,
            s\<lparr>se_despikeTrips := (if trip then se_despikeTrips s + 1 else se_despikeTrips s),
              se_despikeScale := (if fgt sc (Fin 0) then fadd sc (fmul (f32 (95 / 1000)) (fsub dev sc)) else dev)\<rparr>))
     else (m, s))"

definition notch_stage :: "dsp \<Rightarrow> fl \<Rightarrow> sensor \<Rightarrow> fl \<times> sensor" where
  "notch_stage d v s =
    (case se_notch s of None \<Rightarrow> (v, s)
     | Some n \<Rightarrow> let (y, n') = notch_filter d v n in (y, s\<lparr>se_notch := Some n'\<rparr>))"

definition filter_stages :: "dsp \<Rightarrow> fl \<Rightarrow> fl \<Rightarrow> sensor \<Rightarrow> fl \<times> sensor" where
  \<comment> \<open>notch, median, de-spiker and EWM; the value is the one the EWM gets\<close>
  "filter_stages d k v s =
    (let (v1, s1) = notch_stage d v s;
         s2 = s1\<lparr>se_med3 := rmed5_next v1 (se_med3 s1)\<rparr>;
         (v2, s3) = despike k v1 (rmed5_get (se_med3 s2)) s2
     in (v2, s3\<lparr>se_ewm := ewm_add False v2 (se_ewm s3)\<rparr>))"

definition add_sample :: "dsp \<Rightarrow> fl \<Rightarrow> bool \<Rightarrow> fl \<Rightarrow> sensor \<Rightarrow> sensor res" where
  "add_sample d k anfOn x s =
    (let v = sample_value x s;
         (v2, s1) = filter_stages d k v (s\<lparr>se_previous := se_last s, se_last := v, se_lastRaw := x\<rparr>)
     in bindE (if anfOn then anf_add v2 (se_anf s1) else Inr (v2, se_anf s1)) (\<lambda>(_, a).
          Inr (s1\<lparr>se_anf := a, se_numSamples := se_numSamples s1 + 1\<rparr>)))"

definition retuneNotch :: "dsp \<Rightarrow> fl \<Rightarrow> fl \<Rightarrow> fl \<Rightarrow> sensor \<Rightarrow> sensor res" where
  "retuneNotch d f0 q gain s =
    (let fNorm = fdiv f0 (se_notchFs s) in
     if fle (se_notchFs s) (Fin 0) \<or> fle fNorm (Fin 0) \<or> fge fNorm (f32 (45 / 100)) then Inr s
     else bindE (notch_begin d fNorm gain q (case se_notch s of None \<Rightarrow> notch_new | Some n \<Rightarrow> n)) (\<lambda>n.
       Inr (s\<lparr>se_notch := Some n\<rparr>)))"

definition createNotchFilter :: "dsp \<Rightarrow> fl \<Rightarrow> fl \<Rightarrow> fl \<Rightarrow> fl \<Rightarrow> sensor \<Rightarrow> sensor res" where
  "createNotchFilter d fs f0 q gain s = retuneNotch d f0 q gain (s\<lparr>se_notchFs := fs\<rparr>)"

section \<open>The sampler\<close>

datatype read_mode = MuxedRoundRobin | StreamedCallback | SnapshotAllChannels

record adc_state =
  as_adc :: nat                      \<comment> \<open>the driver\<close>
  as_mode :: read_mode               \<comment> \<open>\<open>adc->readMode()\<close>, fixed per driver\<close>
  as_selected :: "u8 option"         \<comment> \<open>the channel of the last \<open>startReading\<close>\<close>
  as_byCh :: "nat option list"
  as_cycle :: "nat list"             \<comment> \<open>\<open>cycleSensors\<close>\<close>
  as_order :: "u8 list"              \<comment> \<open>\<open>cycleOrder\<close>\<close>
  as_pos :: u8                       \<comment> \<open>\<open>cycleSensorsPos\<close>\<close>

record adc_in =
  ai_hasData :: bool
  ai_isGood :: bool
  ai_read :: "(u8 \<times> fl) list"        \<comment> \<open>the samples \<open>read\<close> passes to its callback\<close>
  ai_get :: "u8 \<Rightarrow> fl"               \<comment> \<open>\<open>getSample\<close> after \<open>startReading\<close> of a channel\<close>

record sampler =
  sa_ignore :: bool                  \<comment> \<open>\<open>ignoreCalibrationConstraints\<close>\<close>
  sa_calibrating :: u8
  sa_lastCalib :: u64
  sa_halted :: bool
  sa_adcs :: "adc_state list"
  sa_sensors :: "sensor list"
  sa_real :: "nat list"
  sa_virtual :: "(nat \<times> (sensor list \<Rightarrow> fl)) list"
  sa_notchAdaptive :: bool
  sa_notchFreq :: fl
  sa_notchQ :: fl
  sa_notchGain :: fl
  sa_ripple :: ripple
  sa_rippleSrc :: "nat option"
  sa_rippleSnr :: fl
  sa_despikeK :: fl                  \<comment> \<open>\<open>Sensor::despikeK\<close>, \<open>Sensor::anfEnabled\<close>: static members\<close>
  sa_anfEnabled :: bool
  sa_warnDiv :: u32
  sa_tripsPrev :: u32

definition sampler_new :: sampler where
  "sampler_new = \<lparr>sa_ignore = False, sa_calibrating = 0, sa_lastCalib = 0, sa_halted = False, sa_adcs = [],
     sa_sensors = [], sa_real = [], sa_virtual = [], sa_notchAdaptive = True, sa_notchFreq = Fin 100,
     sa_notchQ = Fin 20, sa_notchGain = Fin (- 30), sa_ripple = ripple_new, sa_rippleSrc = None,
     sa_rippleSnr = Fin 0, sa_despikeK = Fin 0, sa_anfEnabled = False, sa_warnDiv = 0, sa_tripsPrev = 0\<rparr>"

abbreviation sensor_at :: "sampler \<Rightarrow> nat \<Rightarrow> sensor" where
  "sensor_at s i \<equiv> sa_sensors s ! i"

abbreviation set_sensor :: "nat \<Rightarrow> sensor \<Rightarrow> sampler \<Rightarrow> sampler" where
  "set_sensor i x s \<equiv> s\<lparr>sa_sensors := (sa_sensors s)[i := x]\<rparr>"

abbreviation on_adc :: "nat \<Rightarrow> (adc_state \<Rightarrow> adc_state) \<Rightarrow> sampler \<Rightarrow> sampler" where
  "on_adc k f s \<equiv> s\<lparr>sa_adcs := (sa_adcs s)[k := f (sa_adcs s ! k)]\<rparr>"

section \<open>Offset calibration\<close>

definition startCalibration :: "sampler \<Rightarrow> sampler" where
  "startCalibration s =
    s\<lparr>sa_calibrating := of_nat (length (sa_real s)), sa_sensors := map (sensor_reset True) (sa_sensors s)\<rparr>"

definition cancelCalibration :: "sampler \<Rightarrow> sampler" where
  "cancelCalibration s =
    (if sa_calibrating s = 0 then s
     else s\<lparr>sa_calibrating := 0, sa_sensors := map (sensor_reset False) (sa_sensors s)\<rparr>)"

definition abs_bad :: "fl \<Rightarrow> sensor \<Rightarrow> bool" where
  "abs_bad avg x = (\<not> isfinite avg \<or> fgt (fabs avg) (sp_maxAbsValue (se_params x)))"

definition std_bad :: "fl \<Rightarrow> fl \<Rightarrow> sensor \<Rightarrow> bool" where
  "std_bad avg std x =
    ((flt (fabs avg) (f32 (1 / 1000000000)) \<or> isfinite std) \<and>
     fgt (fmul std (fabs avg)) (sp_maxStddev (se_params x)))"

definition calib_round :: "u64 \<Rightarrow> nat \<Rightarrow> sampler \<Rightarrow> (update_ret \<times> sampler) res" where
  \<comment> \<open>lines 467 to 514: the buffer of sensor \<open>i\<close> is full\<close>
  "calib_round now i s =
    (let (avg, buf) = macc_pop (se_calibBuffer (sensor_at s i));
         x = (sensor_at s i)\<lparr>se_calibBuffer := buf\<rparr>;
         std = ewma_get (wm_std (se_ewm x))
     in if \<not> sa_ignore s \<and> (abs_bad avg x \<or> std_bad avg std x)
        then Inr (CalibFailure, (set_sensor i x s)\<lparr>sa_calibrating := 0\<rparr>)
        else
          (let x1 = sensor_reset False (x\<lparr>se_calibrationAvg := avg\<rparr>);
               s1 = (set_sensor i x1 s)\<lparr>sa_calibrating := sa_calibrating s - 1\<rparr>
           in if \<not> unat (sa_calibrating s1) < length (sa_real s1) then Inl AssertFail
              else if sa_calibrating s1 = 0 then Inr (Calibrating, s1\<lparr>sa_lastCalib := now\<rparr>)
              else Inr (NoNewData, s1)))"

definition handleSensorCalib :: "u64 \<Rightarrow> nat \<Rightarrow> sampler \<Rightarrow> (update_ret \<times> sampler) res" where
  "handleSensorCalib now i s =
    (if sa_calibrating s \<noteq> 0 \<and> 100 \<le> se_numSamples (sensor_at s i)
     then bindE (macc_add (se_last (sensor_at s i)) (se_calibBuffer (sensor_at s i))) (\<lambda>buf.
       let s1 = set_sensor i ((sensor_at s i)\<lparr>se_calibBuffer := buf\<rparr>) s
       in if 100 < ma_num buf then calib_round now i s1 else Inr (NoNewData, s1))
     else Inr (NoNewData, s))"

section \<open>Sampling\<close>

definition addSensorSample :: "dsp \<Rightarrow> u64 \<Rightarrow> nat \<Rightarrow> fl \<Rightarrow> sampler \<Rightarrow> (update_ret \<times> sampler) res" where
  "addSensorSample d now i v s =
    (if isnan v then Inr (CalibFailure, s)
     else bindE (add_sample d (sa_despikeK s) (sa_anfEnabled s) v (sensor_at s i)) (\<lambda>x.
       let s1 = set_sensor i x s;
           s2 = (if sa_notchAdaptive s1 \<and> sa_rippleSrc s1 = Some i \<and> ripple_configured (sa_ripple s1)
                 then s1\<lparr>sa_ripple := ripple_push (dsp_sqrt d) (se_last x) (sa_ripple s1)\<rparr> else s1)
       in handleSensorCalib now i s2))"

definition read_one :: "dsp \<Rightarrow> u64 \<Rightarrow> nat option \<Rightarrow> fl \<Rightarrow> update_ret \<times> sampler \<Rightarrow> (update_ret \<times> sampler) res" where
  \<comment> \<open>\<open>cr = _addSensorSample(...); if (cr > calibRes) calibRes = cr\<close>; a null sensor is dereferenced\<close>
  "read_one d now k v rs =
    (case k of None \<Rightarrow> Inl Undefined
     | Some i \<Rightarrow> bindE (addSensorSample d now i v (snd rs)) (\<lambda>(cr, s). Inr (max (fst rs) cr, s)))"

fun read_stream :: "dsp \<Rightarrow> u64 \<Rightarrow> nat \<Rightarrow> (u8 \<times> fl) list \<Rightarrow> update_ret \<times> sampler \<Rightarrow> (update_ret \<times> sampler) res" where
  "read_stream d now k [] rs = Inr rs"
| "read_stream d now k ((ch, v) # xs) rs =
    (let by = as_byCh (sa_adcs (snd rs) ! k) in
     bindE (if unat ch < length by then read_one d now (by ! unat ch) v rs else Inl Undefined)
       (read_stream d now k xs))"

abbreviation startReading :: "nat \<Rightarrow> u8 \<Rightarrow> sampler \<Rightarrow> sampler" where
  "startReading k ch s \<equiv> on_adc k (as_selected_update (\<lambda>_. Some ch)) s"

fun read_snapshot :: "dsp \<Rightarrow> u64 \<Rightarrow> nat \<Rightarrow> (u8 \<Rightarrow> fl) \<Rightarrow> nat list \<Rightarrow> update_ret \<times> sampler \<Rightarrow> (update_ret \<times> sampler) res" where
  "read_snapshot d now k get [] rs = Inr rs"
| "read_snapshot d now k get (i # is) rs =
    (case as_byCh (sa_adcs (snd rs) ! k) ! i of None \<Rightarrow> read_snapshot d now k get is rs
     | Some n \<Rightarrow> bindE (read_one d now (Some n) (get (of_nat i)) (fst rs, startReading k (of_nat i) (snd rs)))
         (read_snapshot d now k get is))"

definition cycle_sensor :: "adc_state \<Rightarrow> nat" where
  "cycle_sensor a = as_cycle a ! unat (as_order a ! unat (as_pos a))"

definition cycle_advance :: "nat \<Rightarrow> sampler \<Rightarrow> sampler" where
  \<comment> \<open>lines 598 and 599\<close>
  "cycle_advance k s =
    (let a = sa_adcs s ! k;
         a1 = a\<lparr>as_pos := of_nat ((unat (as_pos a) + 1) mod length (as_order a))\<rparr>
     in on_adc k (\<lambda>_. a1\<lparr>as_selected := Some (sp_adcCh (se_params (sensor_at s (cycle_sensor a1))))\<rparr>) s)"

definition read_muxed :: "dsp \<Rightarrow> u64 \<Rightarrow> nat \<Rightarrow> (u8 \<Rightarrow> fl) \<Rightarrow> sampler \<Rightarrow> (update_ret \<times> sampler) res" where
  "read_muxed d now k get s =
    (let a = sa_adcs s ! k in
     case as_selected a of None \<Rightarrow> Inl Undefined
     | Some ch \<Rightarrow>
         if length (as_order a) \<le> unat (as_pos a) then Inl Undefined
         else addSensorSample d now (cycle_sensor a) (get ch) (cycle_advance k s))"

definition updateAdc :: "dsp \<Rightarrow> u64 \<Rightarrow> adc_in \<Rightarrow> nat \<Rightarrow> sampler \<Rightarrow> (update_ret \<times> sampler) res" where
  "updateAdc d now inp k s =
    (let md = as_mode (sa_adcs s ! k);
         finish = (\<lambda>(r, s'). Inr (if r \<noteq> NoNewData then r
                                  else if sa_calibrating s' = 0 then NewData else Calibrating, s'))
     in if md = StreamedCallback then
          bindE (if ai_hasData inp then read_stream d now k (ai_read inp) (NoNewData, s) else Inr (NoNewData, s))
            (\<lambda>(r, s1). if \<not> ai_isGood inp then Inr (AdcError, s1)
                       else if \<not> ai_hasData inp then Inr (NoNewData, s1) else finish (r, s1))
        else if \<not> ai_isGood inp then Inr (AdcError, s)
        else if \<not> ai_hasData inp then Inr (NoNewData, s)
        else if md = SnapshotAllChannels then
          bindE (read_snapshot d now k (ai_get inp) [0..<length (as_byCh (sa_adcs s ! k))] (NoNewData, s)) finish
        else bindE (read_muxed d now k (ai_get inp) s) finish)"

section \<open>One update\<close>

fun updateAdcs :: "dsp \<Rightarrow> u64 \<Rightarrow> (nat \<Rightarrow> adc_in) \<Rightarrow> nat list \<Rightarrow> update_ret \<times> bool \<times> sampler \<Rightarrow> (update_ret \<times> bool \<times> sampler) res" where
  \<comment> \<open>the loop over \<open>adcStates\<close>; the flag is \<open>updateVirtual\<close>\<close>
  "updateAdcs d now inp [] st = Inr st"
| "updateAdcs d now inp (k # ks) (res, virt, s) =
    bindE (updateAdc d now (inp k) k s) (\<lambda>(r, s1).
      updateAdcs d now inp ks
        (max res r, virt \<or> as_mode (sa_adcs s1 ! k) \<noteq> MuxedRoundRobin \<or> as_pos (sa_adcs s1 ! k) = 0, s1))"

fun updateVirtuals :: "dsp \<Rightarrow> (nat \<times> (sensor list \<Rightarrow> fl)) list \<Rightarrow> sampler \<Rightarrow> sampler res" where
  "updateVirtuals d [] s = Inr s"
| "updateVirtuals d ((i, f) # vs) s =
    bindE (add_sample d (sa_despikeK s) (sa_anfEnabled s) (f (sa_sensors s)) (sensor_at s i)) (\<lambda>x.
      updateVirtuals d vs (set_sensor i x s))"

fun retune_all :: "dsp \<Rightarrow> fl \<Rightarrow> nat list \<Rightarrow> sampler \<Rightarrow> sampler res" where
  \<comment> \<open>\<open>retuneNotches\<close>\<close>
  "retune_all d f0 [] s = Inr s"
| "retune_all d f0 (i # is) s =
    bindE (retuneNotch d f0 (sa_notchQ s) (sa_notchGain s) (sensor_at s i)) (\<lambda>x. retune_all d f0 is (set_sensor i x s))"

definition notch_target :: "fl \<Rightarrow> sampler \<Rightarrow> fl" where
  "notch_target hz s = fadd (sa_notchFreq s) (fmul (Fin (1 / 2)) (fsub hz (sa_notchFreq s)))"

definition NOTCH_SNR_MIN :: fl where "NOTCH_SNR_MIN = Fin 15"

definition tune_to :: "dsp \<Rightarrow> fl \<Rightarrow> sampler \<Rightarrow> sampler res" where
  "tune_to d hz s =
    (let t = notch_target hz s in
     if fgt (fabs (fsub t (sa_notchFreq s))) (f32 (3 / 10))
     then retune_all d t (sa_real s) (s\<lparr>sa_notchFreq := t\<rparr>) else Inr s)"

definition autotune :: "dsp \<Rightarrow> sampler \<Rightarrow> sampler res" where
  \<comment> \<open>lines 644 to 659\<close>
  "autotune d s =
    (if sa_notchAdaptive s \<and> ripple_configured (sa_ripple s) then
       (case ripple_poll (sa_ripple s) of
          (None, rp) \<Rightarrow> Inr (s\<lparr>sa_ripple := rp\<rparr>)
        | (Some (hz, snr), rp) \<Rightarrow>
            (let s1 = s\<lparr>sa_ripple := rp, sa_rippleSnr := snr\<rparr>
             in if fge snr NOTCH_SNR_MIN then tune_to d hz s1 else Inr s1))
     else Inr s)"

definition despikeWarnTick :: "sampler \<Rightarrow> sampler" where
  "despikeWarnTick s =
    (if fle (sa_despikeK s) (Fin 0) then s
     else let s1 = s\<lparr>sa_warnDiv := sa_warnDiv s + 1\<rparr>
          in if sa_warnDiv s1 < 2048 then s1
             else s1\<lparr>sa_warnDiv := 0, sa_tripsPrev := sum_list (map (\<lambda>i. se_despikeTrips (sensor_at s i)) (sa_real s))\<rparr>)"

definition sampler_update :: "dsp \<Rightarrow> u64 \<Rightarrow> (nat \<Rightarrow> adc_in) \<Rightarrow> sampler \<Rightarrow> (update_ret \<times> sampler) res" where
  "sampler_update d now inp s =
    (if sa_halted s then Inr (NoNewData, s)
     else bindE (updateAdcs d now inp [0..<length (sa_adcs s)] (NoNewData, False, s)) (\<lambda>(res, virt, s1).
       bindE (if sa_calibrating s1 = 0 \<and> virt then updateVirtuals d (sa_virtual s1) s1 else Inr s1) (\<lambda>s2.
       bindE (autotune d s2) (\<lambda>s3. Inr (res, despikeWarnTick s3)))))"

definition isCalibrating :: "sampler \<Rightarrow> bool" where
  "isCalibrating s = (sa_calibrating s > 0)"

section \<open>Configuration and start\<close>

definition configureNotch :: "bool \<Rightarrow> fl \<Rightarrow> fl \<Rightarrow> fl \<Rightarrow> sampler \<Rightarrow> sampler" where
  "configureNotch adaptive f q g s = s\<lparr>sa_notchAdaptive := adaptive, sa_notchFreq := f, sa_notchQ := q, sa_notchGain := g\<rparr>"

definition configureDespike :: "fl \<Rightarrow> sampler \<Rightarrow> sampler" where
  "configureDespike k s = s\<lparr>sa_despikeK := (if fgt k (Fin 0) then k else Fin 0)\<rparr>"

fun adc_find :: "nat \<Rightarrow> adc_state list \<Rightarrow> nat option" where
  "adc_find adc [] = None"
| "adc_find adc (a # as) = (if as_adc a = adc then Some 0 else map_option Suc (adc_find adc as))"

definition getAdcState :: "nat \<Rightarrow> read_mode \<Rightarrow> sampler \<Rightarrow> nat \<times> sampler" where
  \<comment> \<open>the entry of the driver, created when there is none; 8 channels\<close>
  "getAdcState adc md s =
    (case adc_find adc (sa_adcs s) of Some k \<Rightarrow> (k, s)
     | None \<Rightarrow> (length (sa_adcs s), s\<lparr>sa_adcs := sa_adcs s @ [\<lparr>as_adc = adc, as_mode = md, as_selected = None,
           as_byCh = replicate 8 None, as_cycle = [], as_order = [], as_pos = 0\<rparr>]\<rparr>))"

definition addSensor :: "nat \<Rightarrow> read_mode \<Rightarrow> sparams \<Rightarrow> u32 \<Rightarrow> sampler \<Rightarrow> (nat \<times> sampler) res" where
  \<comment> \<open>the result is the index of the new sensor; a channel beyond the array is out of bounds\<close>
  "addSensor adc md p ewmSpan s =
    (let (k, s1) = getAdcState adc md s; a = sa_adcs s1 ! k; ch = unat (sp_adcCh p); i = length (sa_sensors s1)
     in if length (as_byCh a) \<le> ch then Inl Undefined
        else bindE (assert_throw (md \<noteq> StreamedCallback \<or> as_byCh a ! ch = None) ''duplicate sensor adc channel'') (\<lambda>_.
          let a1 = (if as_byCh a ! ch = None then a\<lparr>as_byCh := (as_byCh a)[ch := Some i]\<rparr> else a);
              a2 = (if md = MuxedRoundRobin then a1\<lparr>as_cycle := as_cycle a1 @ [i]\<rparr> else a1)
          in Inr (i, on_adc k (\<lambda>_. a2) (s1\<lparr>sa_sensors := sa_sensors s1 @ [sensor_new adc p ewmSpan False],
               sa_real := sa_real s1 @ [i]\<rparr>))))"

definition virtual_params :: sparams where
  \<comment> \<open>\<open>{255, {1, 0}, {}, ...}\<close>\<close>
  "virtual_params = \<lparr>sp_adcCh = 255, sp_transform = \<lparr>lt_factor = Fin 1, lt_midpoint = Fin 0\<rparr>,
     sp_maxAbsValue = Fin 0, sp_maxStddev = Fin 0, sp_calibrateOffset = False\<rparr>"

definition addVirtualSensor :: "(sensor list \<Rightarrow> fl) \<Rightarrow> u32 \<Rightarrow> sampler \<Rightarrow> nat \<times> sampler" where
  "addVirtualSensor f ewmSpan s =
    (length (sa_sensors s), s\<lparr>sa_virtual := sa_virtual s @ [(length (sa_sensors s), f)],
       sa_sensors := sa_sensors s @ [sensor_new 0 virtual_params ewmSpan True]\<rparr>)"

definition cycle_order :: "u8 \<Rightarrow> u8 list" where
  \<comment> \<open>the last sensor (Vout) after each of the others\<close>
  "cycle_order n =
    (if n > 2 then concat (map (\<lambda>i. [of_nat i, n - 1]) [0..<unat (n - 1)]) else map of_nat [0..<unat n])"

definition buildCycleOrder :: "adc_state \<Rightarrow> adc_state" where
  "buildCycleOrder a = a\<lparr>as_order := cycle_order (of_nat (length (as_cycle a)))\<rparr>"

definition effectiveSampleRate :: "(nat \<Rightarrow> u8 \<Rightarrow> fl) \<Rightarrow> nat \<Rightarrow> sampler \<Rightarrow> fl" where
  \<comment> \<open>the argument is \<open>getSamplingRate\<close>\<close>
  "effectiveSampleRate rate i s =
    (let x = sensor_at s i; fs = rate (se_adc x) (sp_adcCh (se_params x))
     in case adc_find (se_adc x) (sa_adcs s) of None \<Rightarrow> fs
        | Some k \<Rightarrow>
          (let a = sa_adcs s ! k; n = length (as_order a); app = length (filter (\<lambda>j. as_cycle a ! unat j = i) (as_order a))
           in if n = 0 then fs
              else fdiv (fmul (fmul fs (to_float (int (length (as_cycle a))))) (to_float (uint (of_nat app :: u8)))) (to_float (int n))))"

definition first_channel :: "sampler \<Rightarrow> adc_state \<Rightarrow> u8 res" where
  \<comment> \<open>\<open>_readNext\<close>: the channel of the first sensor of the ADC\<close>
  "first_channel s a =
    (case find (\<lambda>x. x \<noteq> None) (as_byCh a) of Some (Some i) \<Rightarrow> Inr (sp_adcCh (se_params (sensor_at s i))) | _ \<Rightarrow> Inl AssertFail)"

definition begin_adc :: "nat \<Rightarrow> sampler \<Rightarrow> sampler res" where
  \<comment> \<open>one pass of the first loop of \<open>begin\<close>\<close>
  "begin_adc k s =
    (let a = sa_adcs s ! k in
     if as_mode a = MuxedRoundRobin then
       bindE (assert_throw (as_cycle a \<noteq> []) ''no sensors to cycle'') (\<lambda>_.
         let a1 = (buildCycleOrder a)\<lparr>as_pos := 0\<rparr>
         in Inr (on_adc k (\<lambda>_. a1\<lparr>as_selected := Some (sp_adcCh (se_params (sensor_at s (cycle_sensor a1))))\<rparr>) s))
     else if as_mode a \<noteq> StreamedCallback then bindE (first_channel s a) (\<lambda>ch. Inr (startReading k ch s))
     else Inr s)"

fun begin_adcs :: "nat list \<Rightarrow> sampler \<Rightarrow> sampler res" where
  "begin_adcs [] s = Inr s"
| "begin_adcs (k # ks) s = bindE (begin_adc k s) (begin_adcs ks)"

fun begin_notches :: "dsp \<Rightarrow> (nat \<Rightarrow> u8 \<Rightarrow> fl) \<Rightarrow> nat list \<Rightarrow> sampler \<Rightarrow> sampler res" where
  "begin_notches d rate [] s = Inr s"
| "begin_notches d rate (i # is) s =
    (if se_isVirtual (sensor_at s i) then begin_notches d rate is s
     else bindE (createNotchFilter d (effectiveSampleRate rate i s) (sa_notchFreq s) (sa_notchQ s) (sa_notchGain s) (sensor_at s i))
       (\<lambda>x. begin_notches d rate is (set_sensor i x s)))"

definition begin_ripple :: "dsp \<Rightarrow> (nat \<Rightarrow> u8 \<Rightarrow> fl) \<Rightarrow> sampler \<Rightarrow> sampler res" where
  "begin_ripple d rate s =
    (case sa_rippleSrc s of None \<Rightarrow> Inr s
     | Some i \<Rightarrow>
       if \<not> sa_notchAdaptive s then Inr s
       else (let fs = effectiveSampleRate rate i s
             in bindE (cast_int 0 65535 (std_min (std_max (fmul fs (Fin (3 / 4))) (Fin 128)) (Fin 1500))) (\<lambda>n.
                  Inr (s\<lparr>sa_ripple := ripple_configure (dsp_cos d) fs (Fin 80) (Fin 140) (word_of_int n) (sa_ripple s)\<rparr>))))"

definition sampler_begin :: "dsp \<Rightarrow> (nat \<Rightarrow> u8 \<Rightarrow> fl) \<Rightarrow> sampler \<Rightarrow> sampler res" where
  "sampler_begin d rate s =
    bindE (assert_throw (sa_adcs s \<noteq> []) ''adc null'') (\<lambda>_.
    bindE (assert_throw (sa_real s \<noteq> []) '''') (\<lambda>_.
    bindE (begin_adcs [0..<length (sa_adcs s)] s) (\<lambda>s1.
    bindE (begin_notches d rate [0..<length (sa_sensors s1)] s1) (\<lambda>s2. begin_ripple d rate s2))))"

section \<open>The derived currents of \<open>sensor_setup.cpp\<close>\<close>

definition virtual_Iin :: "fl \<Rightarrow> nat \<Rightarrow> nat \<Rightarrow> nat \<Rightarrow> sensor list \<Rightarrow> fl" where
  "virtual_Iin eff iout vin vout ss =
    (let i = se_last (ss ! iout); vi = se_last (ss ! vin); vo = se_last (ss ! vout)
     in if \<not> isfinite i \<or> \<not> isfinite vi \<or> \<not> isfinite vo then Fin 0
        else if flt (fabs i) (f32 (1 / 100)) \<or> flt vi (f32 (1 / 10)) then Fin 0
        else fdiv (fdiv (fmul i vo) vi) eff)"

definition virtual_Iout :: "fl \<Rightarrow> nat \<Rightarrow> nat \<Rightarrow> nat \<Rightarrow> sensor list \<Rightarrow> fl" where
  "virtual_Iout eff iin vin vout ss =
    (let i = se_last (ss ! iin); vi = se_last (ss ! vin); vo = se_last (ss ! vout)
     in if \<not> isfinite i \<or> \<not> isfinite vi \<or> \<not> isfinite vo then Fin 0
        else if flt (fabs i) (f32 (5 / 100)) \<or> flt vo (f32 (1 / 10)) then Fin 0
        else fmul (fdiv (fmul i vi) vo) eff)"

definition adcVDiv :: "fl \<Rightarrow> fl \<Rightarrow> fl \<Rightarrow> ltrans" where
  \<comment> \<open>\<open>adcVDiv\<close>\<close>
  "adcVDiv Rh Rl Ra =
    (let rl = fdiv (Fin 1) (fadd (fdiv (Fin 1) Rl) (fdiv (Fin 1) Ra))
     in \<lparr>lt_factor = fdiv (fadd Rh rl) rl, lt_midpoint = Fin 0\<rparr>)"

end
