(* ===== verification/Mppt.thy ===== *)
theory Mppt
  imports Peripherals PdControl Charger TrackerM Converter
begin

text \<open>
  \<open>src/src/mppt.h\<close> and \<open>src/src/mppt.cpp\<close>: the MPPT controller, which protects the converter, runs
  the voltage, current and power loops, sweeps for the maximum power point and calls the tracker.
  The sensor values, the temperatures, the clock and the sampler's state are the \<open>inputs\<close> of a
  tick; what the controller asks of other tasks is the event list \<open>mt_events\<close>.
\<close>

section \<open>Inputs and state\<close>

record sens =
  sn_last :: fl
  sn_prev :: fl
  sn_med3 :: fl
  sn_avg :: fl          \<comment> \<open>\<open>ewm.avg\<close>\<close>
  sn_calibAvg :: fl

record inputs =
  in_Vin :: sens
  in_Vout :: sens
  in_Iin :: sens
  in_Iout :: sens
  in_ntc :: fl
  in_uc :: fl
  in_now :: u64         \<comment> \<open>\<open>wallClockUs()\<close>\<close>
  in_calib :: bool      \<comment> \<open>\<open>sampler.isCalibrating()\<close>\<close>
  in_lastCalib :: u64   \<comment> \<open>\<open>sampler.getTimeLastCalibrationUs()\<close>\<close>

definition in_ms :: "inputs \<Rightarrow> u64" where "in_ms i = in_now i div 1000"

record limits =
  lm_Vin_max :: fl
  lm_Vin_min :: fl
  lm_Vout_max :: fl
  lm_Iin_max :: fl
  lm_Ishort :: fl
  lm_Iout_max :: fl
  lm_P_max :: fl
  lm_Temp_max :: fl
  lm_Temp_derate :: fl
  lm_paranoia :: bool

definition limits_load :: "conf \<Rightarrow> limits res" where
  "limits_load c =
    bindE (conf_getFloat ''vin_max'' FLT_MAX c) (\<lambda>vin_max.
    bindE (conf_getFloat ''vin_min'' FLT_MAX c) (\<lambda>vin_min.
    bindE (conf_getFloat ''vout_max'' FLT_MAX c) (\<lambda>vout_max.
    bindE (conf_getFloat ''iin_max'' FLT_MAX c) (\<lambda>iin_max.
    bindE (conf_getFloat ''iout_short'' FLT_MAX c) (\<lambda>ishort.
    bindE (conf_getFloat ''iout_max'' FLT_MAX c) (\<lambda>iout_max.
    bindE (conf_getFloat ''p_max'' FLT_MAX c) (\<lambda>p_max.
    bindE (conf_getFloat ''temp_max'' (Fin 90) c) (\<lambda>temp_max.
    bindE (conf_getFloat ''temp_derate'' FLT_MAX c) (\<lambda>temp_derate.
    bindE (conf_getByte ''reverse_current_paranoia'' 1 c) (\<lambda>par.
    bindE (assert_throw (fgt vin_max vin_min) []) (\<lambda>_.
    bindE (assert_throw (fgt (fmul vin_max iin_max) p_max) []) (\<lambda>_.
    bindE (assert_throw (flt (fmul vin_max iin_max) (fmul p_max (Fin 4))) []) (\<lambda>_.
    bindE (assert_throw (flt temp_derate temp_max) []) (\<lambda>_.
    bindE (assert_throw (flt (Fin 20) temp_max \<and> flt temp_max (Fin 120)) []) (\<lambda>_.
      Inr \<lparr>lm_Vin_max = vin_max, lm_Vin_min = vin_min, lm_Vout_max = vout_max, lm_Iin_max = iin_max,
           lm_Ishort = ishort, lm_Iout_max = iout_max, lm_P_max = p_max, lm_Temp_max = temp_max,
           lm_Temp_derate = temp_derate, lm_paranoia = (par \<noteq> 0)\<rparr>)))))))))))))))"

definition limits_new :: limits where
  "limits_new = \<lparr>lm_Vin_max = Fin 0, lm_Vin_min = Fin 0, lm_Vout_max = Fin 0, lm_Iin_max = Fin 0,
     lm_Ishort = Fin 0, lm_Iout_max = Fin 0, lm_P_max = Fin 0, lm_Temp_max = Fin 0, lm_Temp_derate = Fin 0,
     lm_paranoia = False\<rparr>"

datatype ctl_mode = MNone | MCV | MCC | MCP | MMPPT | MSweep

datatype event = StartCalibration | QueueCalibration | QueueMeterCommit | QueueSweepSetup | MeterLoad | Message

record sweep_mpp =
  sm_power :: fl
  sm_voltage :: fl
  sm_duty :: u16

definition sweep_mpp_new :: sweep_mpp where
  "sweep_mpp_new = \<lparr>sm_power = Fin 0, sm_voltage = Fin 0, sm_duty = 0\<rparr>"

record mppt =
  mt_conv :: conv
  mt_bflow :: bflow
  mt_charger :: charger
  mt_tracker :: tracker
  mt_limits :: limits
  mt_fan :: fan
  mt_energy :: trap             \<comment> \<open>\<open>meter.totalEnergy\<close>\<close>
  mt_cntrlValue :: fl
  mt_mode :: ctl_mode
  mt_limiting :: bool
  mt_limIdx :: u8
  mt_limIdxSampled :: min_sampler
  mt_targetDuty :: u16
  mt_manualTarget :: u16
  mt_sweeping :: bool
  mt_mpp :: sweep_mpp
  mt_lastProtect :: u64         \<comment> \<open>\<open>lastTimeProtectPassed\<close>\<close>
  mt_backoffUntil :: u64
  mt_backoffArmed :: u32
  mt_VinCtl :: pd
  mt_VoutCtl :: pd
  mt_IinCtl :: pd
  mt_IoutCtl :: pds
  mt_powerCtl :: pds
  mt_physIn :: bool             \<comment> \<open>the physical sensors are Iin and Vin\<close>
  mt_bflowAtHV :: bool
  mt_ledPin :: u8
  mt_led :: bool
  mt_targetPwmCnt :: u16
  mt_sweepSpeed :: fl
  mt_autoDetect :: bool
  mt_speedScale :: fl
  mt_lastUs :: u64
  mt_events :: "event list"

definition meter_new :: trap where
  "meter_new = trap_new (fdiv (f32 (1 / 1000000)) (Fin 3600)) 4000000"

definition mppt_new :: "conv \<Rightarrow> mppt" where
  "mppt_new c = \<lparr>mt_conv = c, mt_bflow = bf_new, mt_charger = charger_new, mt_tracker = trk_new,
     mt_limits = limits_new, mt_fan = fan_new, mt_energy = meter_new, mt_cntrlValue = Fin 0, mt_mode = MNone,
     mt_limiting = False, mt_limIdx = 15, mt_limIdxSampled = mins_max, mt_targetDuty = 0, mt_manualTarget = 0,
     mt_sweeping = False, mt_mpp = sweep_mpp_new, mt_lastProtect = 0, mt_backoffUntil = 0, mt_backoffArmed = 0,
     mt_VinCtl = pd_new (Fin (- 100)) (Fin (- 200)) True, mt_VoutCtl = pd_new (Fin 1500) (Fin 12000) True,
     mt_IinCtl = pd_new (Fin 100) (Fin 200) True, mt_IoutCtl = pds_new (Fin 200) (Fin 400) 200,
     mt_powerCtl = pds_new (Fin 20) (Fin 5) 200, mt_physIn = False, mt_bflowAtHV = False, mt_ledPin = 255,
     mt_led = False, mt_targetPwmCnt = 0, mt_sweepSpeed = Fin 4, mt_autoDetect = True, mt_speedScale = Fin 1,
     mt_lastUs = 0, mt_events = []\<rparr>"

definition physI :: "mppt \<Rightarrow> inputs \<Rightarrow> sens" where
  "physI m i = (if mt_physIn m then in_Iin i else in_Iout i)"

definition physU :: "mppt \<Rightarrow> inputs \<Rightarrow> sens" where
  "physU m i = (if mt_physIn m then in_Vin i else in_Vout i)"

definition mppt_initSensors :: "bool option \<Rightarrow> bool \<Rightarrow> bool \<Rightarrow> bool option \<Rightarrow> mppt \<Rightarrow> mppt res" where
  \<comment> \<open>the flags are \<open>isVirtual\<close> of Iout, Iin, Vin and Vout; a missing output sensor is \<open>None\<close>\<close>
  "mppt_initSensors iout iin vin vout m =
    bindE (assert_throw (vout \<noteq> None) []) (\<lambda>_.
    bindE (assert_throw (iout \<noteq> None) []) (\<lambda>_.
      let virtIn = (iout = Some True);
          virtI = (if virtIn then iin else iout = Some True);
          virtU = (if virtIn then vin else vout = Some True)
      in if virtI then Inl (Throw ''no physical I sensor'')
         else if virtU then Inl (Throw ''no physical U sensor'')
         else Inr (m\<lparr>mt_physIn := virtIn\<rparr>)))"

abbreviation emit :: "event \<Rightarrow> mppt \<Rightarrow> mppt" where
  "emit e m \<equiv> m\<lparr>mt_events := mt_events m @ [e]\<rparr>"

abbreviation on_conv :: "(conv \<Rightarrow> conv) \<Rightarrow> mppt \<Rightarrow> mppt" where
  "on_conv f m \<equiv> m\<lparr>mt_conv := f (mt_conv m)\<rparr>"

abbreviation on_convE :: "(conv \<Rightarrow> conv res) \<Rightarrow> mppt \<Rightarrow> mppt res" where
  "on_convE f m \<equiv> bindE (f (mt_conv m)) (\<lambda>c. Inr (m\<lparr>mt_conv := c\<rparr>))"

abbreviation bf_set :: "bool \<Rightarrow> mppt \<Rightarrow> mppt" where
  "bf_set e m \<equiv> m\<lparr>mt_bflow := bf_enable e (mt_bflow m)\<rparr>"

abbreviation conv_off :: "mppt \<Rightarrow> bool" where
  "conv_off m \<equiv> sc_disabled (mt_conv m)"

section \<open>Shutdown and backoff\<close>

definition inBackoff :: "u64 \<Rightarrow> mppt \<Rightarrow> bool" where
  "inBackoff now m = (now < mt_backoffUntil m)"

definition active :: "inputs \<Rightarrow> mppt \<Rightarrow> bool" where
  "active i m = (mt_sweeping m \<or> in_calib i \<or> \<not> conv_off m)"

definition shutdownDcdc :: "u64 \<Rightarrow> u32 \<Rightarrow> mppt \<Rightarrow> mppt" where
  "shutdownDcdc now sec m =
    (let m1 = (if mt_bflowAtHV m then bf_set False (on_conv sc_disable m) else on_conv sc_disable (bf_set False m))
     in if sec \<noteq> 0 then
          (let m2 = (if \<not> inBackoff now m1 \<or> sec > mt_backoffArmed m1
                     then m1\<lparr>mt_backoffUntil := now + ucast sec * 1000000, mt_backoffArmed := sec\<rparr> else m1)
           in m2\<lparr>mt_sweeping := False\<rparr>)
        else m1)"

definition clearBackoff :: "mppt \<Rightarrow> mppt" where
  "clearBackoff m = m\<lparr>mt_backoffUntil := 0, mt_backoffArmed := 0\<rparr>"

definition abortSweep :: "mppt \<Rightarrow> mppt" where
  "abortSweep m = m\<lparr>mt_sweeping := False, mt_mpp := sweep_mpp_new, mt_targetDuty := 0\<rparr>"

definition releaseCvFloorLatch :: "mppt \<Rightarrow> bool \<times> mppt" where
  "releaseCvFloorLatch m =
    (let (changed, ch) = ch_releaseVoutPinning (mt_charger m);
         m1 = m\<lparr>mt_charger := ch, mt_VoutCtl := pd_reset (mt_VoutCtl m), mt_limiting := False, mt_limIdx := 15,
                mt_mode := (if mt_mode m = MCV then MNone else mt_mode m), mt_targetDuty := 0\<rparr>
     in (changed, clearBackoff m1))"

definition boardPowerSupplyVoltage :: "inputs \<Rightarrow> fl" where
  "boardPowerSupplyVoltage i = fsub (std_max (sn_last (in_Vin i)) (sn_last (in_Vout i))) (f32 (3 / 10))"

definition boardPowerSupplyUnderVoltage :: "bool \<Rightarrow> inputs \<Rightarrow> bool" where
  "boardPowerSupplyUnderVoltage start i =
    (if isnan (sn_last (in_Vin i)) \<or> isnan (sn_last (in_Vout i)) then False
     else flt (boardPowerSupplyVoltage i) (if start then Fin (19 / 2) else Fin 9))"

definition startBlockReason :: "inputs \<Rightarrow> mppt \<Rightarrow> string option" where
  "startBlockReason i m =
    (let hot = fsub (lm_Temp_max (mt_limits m)) (Fin 3);
         vin = sn_avg (in_Vin i); vout1 = fadd (sn_avg (in_Vout i)) (Fin 1)
     in if inBackoff (in_now i) m then Some ''backoff''
        else if fgt (in_ntc i) hot \<or> \<not> flt (in_uc i) hot then Some ''temp''
        else if \<not> (if sc_boost (mt_conv m) then flt vin vout1 else fgt vin vout1) then Some ''Vin-Vout''
        else if boardPowerSupplyUnderVoltage True i then Some ''supply-UV''
        else if in_calib i then Some ''calibrating''
        else None)"

definition startCondition :: "inputs \<Rightarrow> mppt \<Rightarrow> bool" where
  "startCondition i m = (startBlockReason i m = None)"

section \<open>Protection\<close>

text \<open>A check returns whether the tick may go on; the first one that fails ends \<open>protect\<close>.\<close>

type_synonym verdict = "(bool \<times> mppt) res"

definition and_then :: "verdict \<Rightarrow> (mppt \<Rightarrow> verdict) \<Rightarrow> verdict" where
  "and_then r k = bindE r (\<lambda>(ok, m). if ok then k m else Inr (False, m))"

definition trip :: "u64 \<Rightarrow> u32 \<Rightarrow> mppt \<Rightarrow> verdict" where
  "trip now sec m = Inr (False, shutdownDcdc now sec m)"

abbreviation pass :: "mppt \<Rightarrow> verdict" where "pass m \<equiv> Inr (True, m)"

definition ov_threshold :: "mppt \<Rightarrow> fl" where
  "ov_threshold m =
    (let p = ch_params (mt_charger m); l = mt_limits m
     in if haveVbatMax p
        then std_min (fmul (bp_Vbat_max p) (if lm_paranoia l then f32 (103 / 100) else Fin (3 / 2))) (lm_Vout_max l)
        else lm_Vout_max l)"

definition protect_ov :: "inputs \<Rightarrow> mppt \<Rightarrow> verdict" where
  "protect_ov i m =
    (if fgt (sn_last (in_Vin i)) (lm_Vin_max (mt_limits m)) then trip (in_now i) 5 m
     else if fgt (sn_last (in_Vout i)) (ov_threshold m) then
       (let m1 = shutdownDcdc (in_now i) 5 m;
            m2 = (if mt_autoDetect m1 \<and> 20000 < in_ms i - mt_lastProtect m1
                  then emit StartCalibration (m1\<lparr>mt_charger := (mt_charger m1)
                         \<lparr>ch_params := (ch_params (mt_charger m1))\<lparr>bp_Vbat_max := NaN\<rparr>\<rparr>\<rparr>)
                  else m1)
        in Inr (False, emit Message m2))
     else pass m)"

definition protect_oc :: "inputs \<Rightarrow> mppt \<Rightarrow> verdict" where
  "protect_oc i m =
    (let l = mt_limits m; io = in_Iout i in
     if fgt (sn_last (in_Iin i)) (fmul (lm_Iin_max l) (f32 (13 / 10))) \<and> \<not> conv_off m then trip (in_now i) 5 m
     else if (fgt (sn_last io) (fmul (lm_Iout_max l) (Fin (3 / 2))) \<or>
              fgt (sn_med3 io) (fmul (lm_Iout_max l) (Fin (5 / 4))) \<or>
              fgt (sn_avg io) (fmul (lm_Iout_max l) (f32 (23 / 20)))) \<and> \<not> conv_off m
       then trip (in_now i) 30 m
     else pass m)"

definition protect_reverse :: "inputs \<Rightarrow> mppt \<Rightarrow> verdict" where
  "protect_reverse i m =
    (let p = physI m i;
         m1 = (if flt (sn_last p) (Fin (- 1)) \<and> flt (sn_prev p) (Fin (- 1)) \<and> \<not> sc_forced (mt_conv m)
               then (if fgt (sn_avg (in_Iout i)) (Fin 10) then shutdownDcdc (in_now i) 5 m
                     else on_conv sc_syncRectMinDuty (bf_set False m))
               else m)
     in if flt (sn_avg p) (Fin (- 1)) then trip (in_now i) 5 m1 else pass m1)"

definition protect_buck :: "inputs \<Rightarrow> mppt \<Rightarrow> verdict" where
  "protect_buck i m =
    (let p = physI m i; vo = in_Vout i; vi = in_Vin i in
     if sc_boost (mt_conv m) then pass m
     else if fgt (sn_avg vo) (fmul (fadd (sn_avg vi) (Fin 1)) (Fin (5 / 4))) then trip (in_now i) 5 m
     else if fgt (sn_last vo) (fmul (fadd (sn_last vi) (Fin (1 / 2))) (Fin 2)) then trip (in_now i) 5 m
     else if flt (fminf (sn_avg p) (std_max (sn_last p) (sn_prev p))) (f32 (- 1 / 20)) \<and> lm_paranoia (mt_limits m)
       then pass (bf_set False (on_conv sc_syncRectMinDuty m))
     else pass m)"

definition protect_short :: "inputs \<Rightarrow> mppt \<Rightarrow> verdict" where
  "protect_short i m =
    (if fgt (sn_avg (in_Iout i)) (lm_Ishort (mt_limits m)) \<and> flt (sn_avg (in_Vout i)) (Fin 1)
     then trip (in_now i) 30 m else pass m)"

definition protect_bflow :: "inputs \<Rightarrow> mppt \<Rightarrow> verdict" where
  "protect_bflow i m =
    (let d = sc_dutyCycle (mt_conv m); a = sn_avg (physI m i) in
     if bf_wired (mt_bflow m) \<and> (\<not> bf_state (mt_bflow m) \<or> flt d (f32 (1 / 10))) \<and>
        (fgt a (Fin 6) \<or> fgt d (f32 (33 / 100)))
     then trip (in_now i) 5 m
     else if \<not> sc_syncRect (mt_conv m) \<and> fgt a (Fin 6) then trip (in_now i) 5 m
     else pass m)"

definition protect_ratio :: "inputs \<Rightarrow> mppt \<Rightarrow> verdict" where
  "protect_ratio i m =
    (let vOut = sn_avg (in_Vout i); vIn = sn_avg (in_Vin i) in
     bindE (sc_updateSyncRectMaxDuty vIn vOut (sn_avg (if sc_boost (mt_conv m) then in_Iin i else in_Iout i)) (mt_conv m)) (\<lambda>c.
       let m1 = m\<lparr>mt_conv := c\<rparr>; vr = sc_M c; l = mt_limits m1;
           iOutSmall = flt (sn_avg (physI m1 i)) (fmul (lm_Iout_max l) (f32 (1 / 100)))
       in if iOutSmall \<and> uint (sc_pwmCtrl c) > uint (sc_rectMin c) * 2 \<and>
             (if sc_forced c then flt vOut (Fin 1) \<or> fgt (fmul (sc_dutyCycle c) (Fin (1 / 2))) vr
              else fgt (fmul (sc_dutyCycle c) (f32 (4 / 5))) vr) \<and> lm_paranoia l
          then trip (in_now i) 5 m1 else pass m1))"

definition protect :: "inputs \<Rightarrow> mppt \<Rightarrow> verdict" where
  "protect i m =
    and_then (protect_ov i m) (\<lambda>m1.
    and_then (protect_oc i m1) (\<lambda>m2.
    and_then (protect_reverse i m2) (\<lambda>m3.
    and_then (protect_buck i m3) (\<lambda>m4.
    and_then (protect_short i m4) (\<lambda>m5.
    and_then (protect_bflow i m5) (\<lambda>m6.
    and_then (protect_ratio i m6) (\<lambda>m7.
      pass (m7\<lparr>mt_lastProtect := in_ms i\<rparr>))))))))"

definition over_temp :: "inputs \<Rightarrow> mppt \<Rightarrow> bool" where
  "over_temp i m = (fgt (in_ntc i) (lm_Temp_max (mt_limits m)) \<or> fgt (in_uc i) (lm_Temp_max (mt_limits m)))"

definition protectLf :: "bool \<Rightarrow> inputs \<Rightarrow> mppt \<Rightarrow> bool \<times> mppt" where
  "protectLf ignoreUV i m =
    (if boardPowerSupplyUnderVoltage False i \<and> \<not> ignoreUV then (False, emit QueueMeterCommit (shutdownDcdc (in_now i) 5 m))
     else let p = ch_params (mt_charger m); det = detectMaxBatteryVoltage (sn_calibAvg (in_Vout i)) in
       if \<not> haveVbatMax p \<and> isnan det then (False, emit QueueCalibration (on_conv sc_disable m))
       else let m1 = (if haveVbatMax p then m
                      else m\<lparr>mt_charger := (mt_charger m)\<lparr>ch_params := p\<lparr>bp_Vbat_max :=
                             std_min (lm_Vout_max (mt_limits m)) det\<rparr>\<rparr>\<rparr>)
            in (\<not> over_temp i m1, m1))"

section \<open>Sweep\<close>

definition startSweep :: "mppt \<Rightarrow> mppt" where
  "startSweep m =
    (let m1 = on_conv sc_disable (m\<lparr>mt_sweeping := True\<rparr>);
         m2 = m1\<lparr>mt_limiting := False, mt_targetDuty := 0, mt_VinCtl := pd_reset (mt_VinCtl m1),
                 mt_VoutCtl := pd_reset (mt_VoutCtl m1), mt_IinCtl := pd_reset (mt_IinCtl m1),
                 mt_IoutCtl := (mt_IoutCtl m1)\<lparr>pds_pd := pd_reset (pds_pd (mt_IoutCtl m1))\<rparr>,
                 mt_mpp := sweep_mpp_new\<rparr>
     in emit QueueSweepSetup (emit StartCalibration m2))"

definition setManualTarget :: "u16 \<Rightarrow> mppt \<Rightarrow> mppt" where
  "setManualTarget duty m = m\<lparr>mt_manualTarget := min duty (sc_ctrlMax (mt_conv m))\<rparr>"

definition clearBootTarget :: "mppt \<Rightarrow> mppt" where
  "clearBootTarget m = m\<lparr>mt_targetPwmCnt := 0\<rparr>"

definition setAutoRampTarget :: "u16 \<Rightarrow> mppt \<Rightarrow> mppt" where
  "setAutoRampTarget duty m = m\<lparr>mt_targetDuty := min duty (sc_ctrlMax (mt_conv m))\<rparr>"

definition stopSweep :: "u64 \<Rightarrow> mppt \<Rightarrow> mppt" where
  "stopSweep now m =
    (let m1 = m\<lparr>mt_sweeping := False\<rparr>
     in if flt (sm_power (mt_mpp m1)) (Fin 5) then shutdownDcdc now 30 (m1\<lparr>mt_targetDuty := 0\<rparr>)
        else emit Message (m1\<lparr>mt_targetDuty := sm_duty (mt_mpp m1)\<rparr>))"

section \<open>Control loops\<close>

definition power_limit :: "limits \<Rightarrow> fl \<Rightarrow> fl res" where
  \<comment> \<open>the power limit after temperature derating\<close>
  "power_limit l t =
    (if fgt t (lm_Temp_derate l) then
       (let s = fdiv (fsub (lm_Temp_max l) t) (fsub (lm_Temp_max l) (lm_Temp_derate l))
        in if flt s (Fin 1) then Inr (fmul (lm_P_max l) (if flt s (Fin 0) then Fin 0 else s)) else Inl AssertFail)
     else if isnan t then Inr (fmul (lm_P_max l) (Fin (1 / 4)))
     else Inr (lm_P_max l))"

definition ctl_update :: "nat \<Rightarrow> fl \<Rightarrow> fl \<Rightarrow> mppt \<Rightarrow> fl \<times> mppt" where
  \<comment> \<open>the controller at an index of \<open>controlValues\<close>\<close>
  "ctl_update n act tgt m =
    (if n = 0 then (let (v, c) = pd_update act tgt (mt_VinCtl m) in (v, m\<lparr>mt_VinCtl := c\<rparr>))
     else if n = 1 then (let (v, c) = pd_update act tgt (mt_VoutCtl m) in (v, m\<lparr>mt_VoutCtl := c\<rparr>))
     else if n = 2 then (let (v, c) = pd_update act tgt (mt_IinCtl m) in (v, m\<lparr>mt_IinCtl := c\<rparr>))
     else if n = 3 then (let (v, c) = pds_update act tgt (mt_IoutCtl m) in (v, m\<lparr>mt_IoutCtl := c\<rparr>))
     else (let (v, c) = pds_update act tgt (mt_powerCtl m) in (v, m\<lparr>mt_powerCtl := c\<rparr>)))"

type_synonym limiting = "(nat \<times> ctl_mode) option"

fun ctl_loop :: "u64 \<Rightarrow> (nat \<times> ctl_mode \<times> fl \<times> fl) list \<Rightarrow> fl \<Rightarrow> limiting \<Rightarrow> mppt \<Rightarrow> fl \<times> limiting \<times> mppt" where
  "ctl_loop now [] best lc m = (best, lc, m)"
| "ctl_loop now ((n, mode, act, tgt) # cs) best lc m =
    (let (cv, m1) = ctl_update n act tgt m;
         bad = (\<not> isfinite cv \<and> \<not> conv_off m1 \<and> fgt (sc_dutyCycle (mt_conv m1)) (f32 (1 / 100)));
         m2 = (if bad then shutdownDcdc now 5 m1 else m1);
         cv' = (if bad then Fin (- 1) else cv)
     in if flt cv' best then ctl_loop now cs cv' (Some (n, mode)) m2 else ctl_loop now cs best lc m2)"

definition control_values :: "inputs \<Rightarrow> fl \<Rightarrow> fl \<Rightarrow> fl \<Rightarrow> mppt \<Rightarrow> (nat \<times> ctl_mode \<times> fl \<times> fl) list" where
  "control_values i power_smooth Iout_max powerLimit m =
    (let l = mt_limits m; actual = (\<lambda>s. if mt_sweeping m then sn_avg s else sn_med3 s) in
     [(0, MCV, sn_med3 (in_Vin i), lm_Vin_min l),
      (1, MCV, actual (in_Vout i), ch_Vout_max (mt_charger m)),
      (2, MCC, actual (in_Iin i), lm_Iin_max l),
      (3, MCC, actual (in_Iout i), Iout_max),
      (4, MCP, power_smooth, powerLimit)])"

definition limit_mode :: "fl \<Rightarrow> limiting \<Rightarrow> mppt \<Rightarrow> ctl_mode \<times> fl \<times> mppt" where
  "limit_mode lcv lc m =
    (if flt lcv (Fin 0) then
       (case lc of Some (n, mode) \<Rightarrow>
          (mode, lcv, m\<lparr>mt_limiting := True, mt_limIdx := of_nat n, mt_limIdxSampled := mins_add (of_nat n) (mt_limIdxSampled m)\<rparr>)
        | None \<Rightarrow> (MNone, Fin 0, m))
     else if mt_limiting m then (MMPPT, lcv, m\<lparr>mt_limiting := False, mt_limIdx := 15\<rparr>)
     else (MNone, Fin 0, m))"

definition bounce :: "mppt \<Rightarrow> ctl_mode \<times> fl \<Rightarrow> ctl_mode \<times> fl" where
  "bounce m mv =
    (let c = mt_conv m in
     if sc_pwmCtrl c = sc_ctrlMax c then (MCV, Fin (- 1))
     else if sc_pwmCtrl c = sc_ctrlMin c \<and> \<not> mt_sweeping m then (MCV, Fin 1) else mv)"

definition sweep_value :: "fl \<Rightarrow> mppt \<Rightarrow> fl" where
  "sweep_value lcv m = std_min (fmul lcv (fdiv (fmul (mt_sweepSpeed m) (Fin (1 / 4))) (Fin 5))) (mt_sweepSpeed m)"

definition sweep_capture :: "fl \<Rightarrow> fl \<Rightarrow> mppt \<Rightarrow> mppt" where
  "sweep_capture pw vin m =
    (if fgt pw (sm_power (mt_mpp m)) \<and> fge pw (Fin 5)
     then m\<lparr>mt_mpp := \<lparr>sm_power = pw, sm_voltage = vin, sm_duty = sc_pwmCtrl (mt_conv m)\<rparr>\<rparr> else m)"

definition fade_value :: "mppt \<Rightarrow> fl" where
  "fade_value m =
    (let c = mt_conv m; n = uint (sc_driverPwmMax c)
     in to_float (constrain (uint (mt_targetDuty m) - uint (sc_pwmCtrl c)) (- (n div 64) - 1) (n div 128 + 1)))"

definition sweep_or_fade :: "inputs \<Rightarrow> fl \<Rightarrow> fl \<Rightarrow> ctl_mode \<Rightarrow> fl \<Rightarrow> mppt \<Rightarrow> (ctl_mode \<times> fl \<times> mppt) option res" where
  \<comment> \<open>lines 166 to 216; \<open>None\<close>: the tick returns\<close>
  "sweep_or_fade i power_smooth lcv mode value m =
    (if mt_sweeping m \<and> \<not> in_calib i then
       (if conv_off m \<and> inBackoff (in_now i) m then Inr None
        else bindE (if conv_off m then on_convE (sc_perturb 1) m else Inr m) (\<lambda>m1.
          if mode = MNone
          then Inr (Some (MSweep, sweep_value lcv m1, sweep_capture power_smooth (sn_med3 (in_Vin i)) m1))
          else Inr (Some (mode, value, stopSweep (in_now i) m1))))
     else if mt_targetDuty m \<noteq> 0 then
       (if mode = MNone \<or> mode = MMPPT \<or> mode = MCV \<and> sc_pwmCtrl (mt_conv m) > mt_targetDuty m
        then (let v = fade_value m
              in Inr (Some (MSweep, v, if fle (fabs v) (Fin 1) then m\<lparr>mt_targetDuty := 0\<rparr> else m)))
        else Inr (Some (mode, value, m\<lparr>mt_targetDuty := 0\<rparr>)))
     else Inr (Some (mode, value, m)))"

definition above_threshold :: "inputs \<Rightarrow> mppt \<Rightarrow> bool" where
  "above_threshold i m =
    (let a = sn_avg (physI m i); on = bf_state (mt_bflow m);
         thr = (if lm_paranoia (mt_limits m) then (if on then f32 (1 / 20) else f32 (1 / 5))
                else (if on then Fin 0 else f32 (1 / 10)))
     in fgt a thr \<or> fgt a (f64 (1 / 20)) \<and> fgt (sc_dutyCycle (mt_conv m)) (f32 (3 / 10)))"

definition track :: "inputs \<Rightarrow> fl \<Rightarrow> ctl_mode \<Rightarrow> fl \<Rightarrow> mppt \<Rightarrow> (ctl_mode \<times> fl \<times> mppt) res" where
  "track i pw mode value m =
    (if mode = MNone then
       bindE (trk_update (in_ms i) pw (sc_pwmCtrl (mt_conv m)) (sn_avg (in_Vin i)) (mt_tracker m)) (\<lambda>(v, t).
         Inr (MMPPT, fmul v (mt_speedScale m), m\<lparr>mt_tracker := t\<rparr>))
     else Inr (mode, value, m\<lparr>mt_tracker := trk_resetDirection (in_ms i) (fgt value (Fin 0)) (mt_tracker m)\<rparr>))"

definition step_max :: "conv \<Rightarrow> fl" where
  "step_max c = fdiv (fmul (Fin 16) (to_float (uint (sc_ctrlMax c)))) (Fin 2000)"

definition step_clamp :: "conv \<Rightarrow> fl \<Rightarrow> fl" where
  "step_clamp c fp = fconstrain fp (fneg (to_float (uint (sc_pwmCtrl c)))) (step_max c)"

definition rate_step :: "fl \<Rightarrow> fl \<Rightarrow> u64 \<Rightarrow> conv \<Rightarrow> fl" where
  \<comment> \<open>the control value scaled to the period and the update rate\<close>
  "rate_step value scale dt c =
    fmul (fmul (fmul (fmul (fmul (fmul value scale) (to_float (uint (sc_ctrlMax c)))) (to_float (uint dt)))
      (f32 (1 / 1000000))) (Fin 25)) (Fin 2)"

definition drive :: "inputs \<Rightarrow> fl \<Rightarrow> mppt \<Rightarrow> mppt res" where
  "drive i value m =
    (if mt_lastUs m \<noteq> 0
     then on_convE (sc_perturbFractional (step_clamp (mt_conv m)
            (rate_step value (fdiv (Fin 1) (Fin 2000)) (in_now i - mt_lastUs m) (mt_conv m)))) m
     else Inr m)"

section \<open>Tick entry points\<close>

definition cv_step :: "inputs \<Rightarrow> fl \<Rightarrow> mppt \<Rightarrow> fl res" where
  \<comment> \<open>lines 326 to 351: the duty step, slower at short on-times and locked in near the target\<close>
  "cv_step i cv m =
    (let c = mt_conv m; ctrl = uint (sc_pwmCtrl c); tgt = uint (mt_targetPwmCnt m); lockW = uint (sc_ctrlMax c) div 512;
         fp0 = rate_step cv (fdiv (Fin 1) (Fin 10000)) (in_now i - mt_lastUs m) c
     in bindE (pwmCountsFromNs (Fin 2000) (sc_tickRate c)) (\<lambda>n1.
        bindE (pwmCountsFromNs (Fin 2500) (sc_tickRate c)) (\<lambda>n2.
        let fp1 = fmul fp0 (if ctrl < n1 then f32 (1 / 100) else if ctrl < n2 then f32 (1 / 25) else Fin 10);
            gap = fsub (to_float tgt) (to_float ctrl);
            fp2 = (if fgt (fadd fp1 (to_float ctrl)) (to_float tgt) then gap else fp1)
        in if tgt \<noteq> 0 \<and> \<bar>ctrl - tgt\<bar> < lockW
           then bindE (cast_int (- (2 ^ 31)) (2 ^ 31 - 1) (fabs fp2)) (\<lambda>n. Inr (if n < lockW then gap else fp2))
           else Inr fp2)))"

definition cv_drive :: "inputs \<Rightarrow> fl \<Rightarrow> mppt \<Rightarrow> mppt res" where
  "cv_drive i cv m =
    (if mt_lastUs m \<noteq> 0
     then bindE (cv_step i cv m) (\<lambda>fp. on_convE (sc_perturbFractional (step_clamp (mt_conv m) fp)) m)
     else Inr m)"

definition cv_threshold :: "inputs \<Rightarrow> mppt \<Rightarrow> bool" where
  "cv_threshold i m =
    (let on = bf_state (mt_bflow m); a = sn_avg (physI m i);
         thr = (if lm_paranoia (mt_limits m) then (if on then f32 (1 / 20) else f32 (1 / 5))
                else (if on then Fin 0 else f32 (1 / 10)))
     in fgt a thr \<or> fgt a (f64 (- 1 / 100)) \<and> fgt (sc_dutyCycle (mt_conv m)) (f32 (3 / 10)))"

definition updateCV :: "inputs \<Rightarrow> mppt \<Rightarrow> mppt res" where
  "updateCV i m =
    (let (cv, vc) = pd_update (sn_last (in_Vout i)) (ch_Vout_max (mt_charger m)) (mt_VoutCtl m);
         m1 = m\<lparr>mt_VoutCtl := vc, mt_mode := MCV, mt_cntrlValue := cv\<rparr>
     in if \<not> isfinite cv then Inr (if conv_off m1 then m1 else shutdownDcdc (in_now i) 5 m1)
        else let hiI = cv_threshold i m1
             in bindE (cv_drive i cv m1) (\<lambda>m2.
                Inr (on_conv (sc_enableSyncRect hiI False) (bf_set hiI (m2\<lparr>mt_lastUs := in_now i\<rparr>)))))"

definition update_meters :: "inputs \<Rightarrow> fl \<Rightarrow> fl \<Rightarrow> mppt \<Rightarrow> mppt" where
  \<comment> \<open>energy meter and fan\<close>
  "update_meters i power_smooth temp m =
    (let p = fmul (sn_med3 (in_Iout i)) (sn_med3 (in_Vout i))
     in m\<lparr>mt_energy := (if fgt p (f32 (1 / 10)) then trap_add F32 p (in_now i) (mt_energy m) else mt_energy m),
          mt_fan := fanUpdateTemp (ucast (in_ms i)) temp power_smooth (mt_fan m)\<rparr>)"

definition sweep_due :: "inputs \<Rightarrow> mppt \<Rightarrow> bool" where
  "sweep_due i m =
    (\<not> mt_sweeping m \<and> \<not> (tm_terminated (ch_term (mt_charger m)) \<or> mt_mode m = MCV) \<and>
     \<not> inBackoff (in_now i) m \<and> 1800000000 < in_now i - in_lastCalib i)"

definition finish_tick :: "inputs \<Rightarrow> bool \<Rightarrow> ctl_mode \<Rightarrow> fl \<Rightarrow> mppt \<Rightarrow> mppt" where
  \<comment> \<open>lines 272 to 286: time stamp, back-flow switch, rectifier and LED\<close>
  "finish_tick i hiI mode value m =
    (let m1 = m\<lparr>mt_lastUs := in_now i\<rparr>;
         m2 = on_conv (sc_enableSyncRect hiI False) (bf_set (hiI \<or> sc_boost (mt_conv m1)) m1)
     in if mt_ledPin m2 \<noteq> 255
        then m2\<lparr>mt_led := (fgt (sn_avg (physI m2 i)) (f32 (1 / 5)) \<and> mode = MMPPT \<and> fgt value (Fin 0))\<rparr> else m2)"

definition update_control :: "inputs \<Rightarrow> fl \<Rightarrow> fl \<Rightarrow> mppt \<Rightarrow> mppt res" where
  \<comment> \<open>lines 83 to 286\<close>
  "update_control i pw powerLimit m =
    (let Iout_max = std_min (lm_Iout_max (mt_limits m)) (ch_Iout_max (mt_charger m));
         (lcv, lc, m1) = ctl_loop (in_now i) (control_values i pw Iout_max powerLimit m) (Inf False) None m;
         (mode0, value0, m2) = limit_mode lcv lc m1;
         (mode1, value1) = bounce m2 (mode0, value0)
     in bindE (sweep_or_fade i pw lcv mode1 value1 m2) (\<lambda>r.
        case r of None \<Rightarrow> Inr m2
        | Some (mode2, value2, m3) \<Rightarrow>
          (let hiI = above_threshold i m3 in
           bindE (track i pw mode2 value2 m3) (\<lambda>(mode3, value3, m4).
             let v = std_min value3 lcv
             in bindE (drive i v (m4\<lparr>mt_mode := mode3, mt_cntrlValue := v\<rparr>)) (\<lambda>m5.
                Inr (finish_tick i hiI mode3 v m5))))))"

definition mppt_update :: "inputs \<Rightarrow> mppt \<Rightarrow> mppt res" where
  "mppt_update i m =
    (if mt_targetPwmCnt m \<noteq> 0 then updateCV i m
     else if conv_off m \<and> \<not> startCondition i m then Inr ((bf_set False m)\<lparr>mt_mode := MNone\<rparr>)
     else
       let pw = fmul (sn_avg (physI m i)) (sn_avg (physU m i));
           temp = (if fgt (in_uc i) (in_ntc i) then in_uc i else in_ntc i);
           m1 = update_meters i pw temp m
       in bindE (power_limit (mt_limits m1) temp) (\<lambda>pl.
          if sweep_due i m1 then Inr (startSweep m1) else update_control i pw pl m1))"

definition ramp_step :: "conv \<Rightarrow> int res" where
  "ramp_step c = bindE (lround_long (fdiv (to_float (uint (sc_driverPwmMax c))) (Fin 512))) (\<lambda>n.
     Inr (sint (word_of_int (max 1 n) :: u16)))"

definition updateManual :: "inputs \<Rightarrow> mppt \<Rightarrow> mppt res" where
  "updateManual i m =
    (let m1 = m\<lparr>mt_lastUs := in_now i, mt_mode := MNone\<rparr>; c = mt_conv m1 in
     bindE (ramp_step c) (\<lambda>rampStep.
       if inBackoff (in_now i) m1 then Inr (if conv_off m1 then m1 else on_conv sc_disable m1)
       else if mt_manualTarget m1 = 0 then
         (if conv_off m1 then Inr m1
          else if sc_pwmCtrl c \<le> sc_ctrlMin c then Inr (on_conv sc_disable m1)
          else on_convE (sc_perturb (- rampStep)) m1)
       else
         let m2 = (if conv_off m1 \<and> \<not> lm_paranoia (mt_limits m1)
                   then bf_set True (on_conv (sc_enableSyncRect True False) m1) else m1);
             step = constrain (uint (mt_manualTarget m2) - uint (sc_pwmCtrl (mt_conv m2))) (- rampStep) rampStep
         in if step \<noteq> 0 then on_convE (sc_perturb step) m2 else Inr m2))"

definition mppt_begin :: "conf \<Rightarrow> conf \<Rightarrow> limits \<Rightarrow> mppt \<Rightarrow> (bool \<times> mppt) res" where
  \<comment> \<open>the flag: manual mode is switched on\<close>
  "mppt_begin trackerConf boardConf lim0 m =
    bindE (conf_getFloat ''target_duty_cycle'' (Fin 0) trackerConf) (\<lambda>frac.
    bindE (if isfinite frac \<and> fgt frac (Fin 0) \<and> fle frac (Fin 1)
           then cast_int 0 65535 (fround (fmul frac (to_float (uint (sc_driverPwmMax (mt_conv m)))))) else Inr 0) (\<lambda>n.
    bindE (conf_getFloat ''sweep_speed'' (Fin 4) trackerConf) (\<lambda>sp.
    bindE (conf_getByte ''led_simple'' 255 boardConf) (\<lambda>led.
    bindE (fan_init boardConf (mt_fan m)) (\<lambda>f.
    bindE (bf_init boardConf (mt_bflow m)) (\<lambda>b.
      let tgt = word_of_int n;
          m1 = emit MeterLoad (m\<lparr>mt_limits := lim0, mt_targetPwmCnt := tgt,
                 mt_manualTarget := (if tgt \<noteq> 0 then min tgt (sc_ctrlMax (mt_conv m)) else mt_manualTarget m),
                 mt_sweepSpeed := std_max (f32 (1 / 10)) sp, mt_ledPin := led,
                 mt_led := (if led \<noteq> 255 then False else mt_led m), mt_fan := f, mt_bflow := b\<rparr>)
      in Inr (tgt \<noteq> 0, if tgt \<noteq> 0
              then (if lm_paranoia lim0 then m1 else bf_set True (on_conv (sc_enableSyncRect True False) m1))
              else startSweep m1)))))))"

end
