(* ===== verification/RtLoop.thy ===== *)
theory RtLoop
  imports Mppt Sampler
begin

text \<open>
  \<open>src/src/main.cpp\<close>: the body of the real-time loop (\<open>loopRT\<close>, \<open>loopRTNewData\<close>) around the MPPT
  controller, and the low-frequency control and watchdogs. The result of \<open>adcSampler.update()\<close> and
  the sensor values are inputs; what is asked of the sampler or the system is the list \<open>rt_events\<close>.
\<close>

section \<open>State\<close>

datatype rt_event = ResetPeripherals | CancelCalibration | SystemRestart

record rt =
  rt_m :: mppt
  rt_manual :: bool               \<comment> \<open>\<open>g_app.manualPwm\<close>\<close>
  rt_delayStart :: u64            \<comment> \<open>\<open>delayStartUntil\<close>\<close>
  rt_lastN :: u32                 \<comment> \<open>\<open>lastMpptUpdateNumSamples\<close>\<close>
  rt_timeLastSampler :: u64
  rt_bmsDeadline :: int
  rt_bmsWasFresh :: bool
  rt_stalledSince :: u64          \<comment> \<open>\<open>adcStalledSinceMs\<close>\<close>
  rt_lastReset :: u64             \<comment> \<open>\<open>lastAdcResetMs\<close>\<close>
  rt_events :: "rt_event list"

definition rt_new :: "mppt \<Rightarrow> bool \<Rightarrow> rt" where
  "rt_new m manual = \<lparr>rt_m = m, rt_manual = manual, rt_delayStart = 0, rt_lastN = 0, rt_timeLastSampler = 0,
     rt_bmsDeadline = 0, rt_bmsWasFresh = False, rt_stalledSince = 0, rt_lastReset = 0, rt_events = []\<rparr>"

abbreviation rt_emit :: "rt_event \<Rightarrow> rt \<Rightarrow> rt" where
  "rt_emit e r \<equiv> r\<lparr>rt_events := rt_events r @ [e]\<rparr>"

abbreviation on_m :: "(mppt \<Rightarrow> mppt) \<Rightarrow> rt \<Rightarrow> rt" where
  "on_m f r \<equiv> r\<lparr>rt_m := f (rt_m r)\<rparr>"

section \<open>A new sample\<close>

definition stopAndBackoff :: "u64 \<Rightarrow> u32 \<Rightarrow> rt \<Rightarrow> rt" where
  "stopAndBackoff now sec r = (on_m (shutdownDcdc now 5) r)\<lparr>rt_delayStart := now + ucast sec * 1000000\<rparr>"

definition bms_wait :: "inputs \<Rightarrow> rt \<Rightarrow> bool \<times> rt" where
  \<comment> \<open>lines 956 to 975: whether the sweep may start, and the state of the wait window\<close>
  "bms_wait i r =
    (let ch = mt_charger (rt_m r); now = in_now i;
         fresh = haveValidCellVoltage now (ch_bat ch);
         full = (tm_terminated (ch_term ch) \<and> fresh);
         waiting = (ch_bmsCellSource ch \<and> (\<not> ch_termDecided ch \<or> \<not> fresh));
         d0 = (if rt_bmsWasFresh r \<and> \<not> fresh then 0 else rt_bmsDeadline r);
         d1 = (if waiting \<and> d0 = 0 then uint now + 12000000 else d0);
         elapsed = (d1 \<noteq> 0 \<and> uint now > d1)
     in (\<not> full \<and> (\<not> waiting \<or> elapsed), r\<lparr>rt_bmsDeadline := d1, rt_bmsWasFresh := fresh\<rparr>))"

definition guard_checks :: "inputs \<Rightarrow> bool \<Rightarrow> mppt \<Rightarrow> verdict" where
  \<comment> \<open>both protections run while the converter is on\<close>
  "guard_checks i manual m =
    (if conv_off m then Inr (True, m)
     else bindE (protect i m) (\<lambda>(ok, m1). let (ok', m2) = protectLf manual i m1 in Inr (ok \<and> ok', m2)))"

definition rt_control :: "inputs \<Rightarrow> u32 \<Rightarrow> bool \<Rightarrow> rt \<Rightarrow> rt res" where
  \<comment> \<open>lines 926 to 982\<close>
  "rt_control i n fresh r =
    (let m = rt_m r in
     if active i m \<or> rt_manual r then
       bindE (guard_checks i (rt_manual r) m) (\<lambda>(ok, m1).
         let r1 = r\<lparr>rt_m := m1\<rparr> in
         if \<not> ok then Inr (stopAndBackoff (in_now i) 4 r1)
         else if fresh then
           bindE (if rt_manual r then updateManual i m1 else mppt_update i m1) (\<lambda>m2.
             Inr (r1\<lparr>rt_m := m2, rt_lastN := n\<rparr>))
         else Inr r1)
     else if rt_delayStart r < in_now i \<and> startCondition i m \<and> \<not> rt_manual r then
       (let (go, r1) = bms_wait i r
        in Inr (if go then (on_m startSweep r1)\<lparr>rt_delayStart := in_now i + 4000000\<rparr> else r1))
     else Inr r)"

definition rt_new_data :: "inputs \<Rightarrow> u32 \<Rightarrow> rt \<Rightarrow> rt res" where
  "rt_new_data i n r =
    (let fresh = (n - rt_lastN r > 0);
         r1 = (if fresh then r\<lparr>rt_timeLastSampler := in_now i\<rparr> else r)
     in bindE (if in_calib i then Inr (on_m (shutdownDcdc (in_now i) 0) r1) else rt_control i n fresh r1) (\<lambda>r2.
        if rt_manual r2 \<and> \<not> conv_off (rt_m r2)
        then bindE (sc_perturb 0 (mt_conv (rt_m r2))) (\<lambda>c. Inr (on_m (on_conv (\<lambda>_. c)) r2))
        else Inr r2))"

section \<open>The loop body\<close>

definition adc_stalled :: "inputs \<Rightarrow> update_ret \<Rightarrow> rt \<Rightarrow> bool" where
  "adc_stalled i ret r =
    (ret = AdcError \<or>
     ret \<noteq> NewData \<and> \<not> in_calib i \<and> rt_timeLastSampler r \<noteq> 0 \<and> 200000 < in_now i - rt_timeLastSampler r)"

definition stall_watchdog :: "inputs \<Rightarrow> update_ret \<Rightarrow> rt \<Rightarrow> rt" where
  "stall_watchdog i ret r =
    (let ms = in_ms i in
     if adc_stalled i ret r then
       let r1 = (if rt_stalledSince r = 0 then r\<lparr>rt_stalledSince := ms\<rparr> else r);
           r2 = (if 300 < ms - rt_lastReset r1 then rt_emit ResetPeripherals (r1\<lparr>rt_lastReset := ms\<rparr>) else r1);
           r3 = (if 800 < ms - rt_stalledSince r2 \<and> \<not> conv_off (rt_m r2) \<and> \<not> inBackoff (in_now i) (rt_m r2)
                 then stopAndBackoff (in_now i) 16 r2 else r2)
       in if 60000 < ms - rt_stalledSince r3 then rt_emit SystemRestart (on_m (on_conv sc_disable) r3) else r3
     else r\<lparr>rt_stalledSince := 0\<rparr>)"

definition rt_no_data :: "inputs \<Rightarrow> rt \<Rightarrow> rt" where
  "rt_no_data i r =
    (let r1 = (if in_calib i \<and> boardPowerSupplyUnderVoltage False i then rt_emit CancelCalibration r else r)
     in if rt_timeLastSampler r1 = 0 \<and> 20000 < in_ms i
        then (let r2 = on_m (on_conv sc_disable) r1 in if 900000 < in_ms i then rt_emit SystemRestart r2 else r2)
        else r1)"

definition rt_loop :: "inputs \<Rightarrow> update_ret \<Rightarrow> bool \<Rightarrow> u32 \<Rightarrow> rt \<Rightarrow> rt res" where
  \<comment> \<open>one pass of \<open>loopRT\<close>; \<open>halted\<close> is \<open>adcSampler.halted\<close>\<close>
  "rt_loop i ret halted n r =
    (if halted then Inr r
     else
       let r1 = (if ret = CalibFailure then stopAndBackoff (in_now i) 4 r else r);
           r2 = stall_watchdog i ret r1
       in if ret = NewData then rt_new_data i n r2 else Inr (rt_no_data i r2))"

type_synonym tick = "inputs \<times> update_ret \<times> bool \<times> u32"

fun rt_run :: "tick list \<Rightarrow> rt \<Rightarrow> rt res" where
  "rt_run [] r = Inr r"
| "rt_run ((i, ret, h, n) # ts) r = bindE (rt_loop i ret h n r) (rt_run ts)"

section \<open>Low-frequency control and watchdogs\<close>

definition vout_authority :: "fl \<Rightarrow> mppt \<Rightarrow> bool" where
  "vout_authority iout m =
    (let c = mt_conv m; margin = max 8 (uint (sc_ctrlMax c) div 256);
         minPwm = word_of_int (uint (sc_ctrlMin c) + margin) :: u16
     in \<not> sc_disabled c \<and> sc_pwmCtrl c > minPwm \<and>
        isfinite iout \<and> (fgt iout (Fin (1 / 2)) \<or> tm_terminated (ch_term (mt_charger m))))"

definition lf_control :: "inputs \<Rightarrow> mppt \<Rightarrow> mppt" where
  "lf_control i m =
    (let vout = sn_avg (in_Vout i); iout = sn_avg (in_Iout i)
     in m\<lparr>mt_charger := ch_update vout (vout_authority iout m) (in_now i) (mt_charger m)\<rparr>)"

record lf =
  lf_starved :: u8            \<comment> \<open>\<open>starvedWindows\<close>\<close>
  lf_stuckSince :: int        \<comment> \<open>\<open>stuckSinceUs\<close>\<close>
  lf_triedRelease :: bool

definition lf_new :: lf where
  "lf_new = \<lparr>lf_starved = 0, lf_stuckSince = 0, lf_triedRelease = False\<rparr>"

definition lf_is_starved :: "inputs \<Rightarrow> u32 \<Rightarrow> u32 \<Rightarrow> u32 \<Rightarrow> u16 \<Rightarrow> u64 \<Rightarrow> rt \<Rightarrow> bool" where
  "lf_is_starved i dt sps n rateMin lastOut r =
    (fgt (to_float (uint dt)) (fmul (to_float 3000000) (f32 (9 / 10))) \<and> uint sps < uint rateMin \<and> \<not> conv_off (rt_m r) \<and>
     uint n > max (uint rateMin * 5) 200 \<and> \<not> rt_manual r \<and> lastOut \<noteq> 0 \<and> 2000000 < in_now i - in_lastCalib i)"

definition lf_watchdog :: "inputs \<Rightarrow> u32 \<Rightarrow> u32 \<Rightarrow> u32 \<Rightarrow> u16 \<Rightarrow> u64 \<Rightarrow> lf \<times> rt \<Rightarrow> lf \<times> rt" where
  "lf_watchdog i dt sps n rateMin lastOut lr =
    (let (l, r) = lr in
     if \<not> lf_is_starved i dt sps n rateMin lastOut r then (l\<lparr>lf_starved := 0\<rparr>, r)
     else if uint (lf_starved l + 1) < 3 then (l\<lparr>lf_starved := lf_starved l + 1\<rparr>, r)
     else (l\<lparr>lf_starved := 0\<rparr>, stopAndBackoff (in_now i) 4 r))"

definition lf_stuck :: "inputs \<Rightarrow> rt \<Rightarrow> bool" where
  "lf_stuck i r =
    (fgt (sn_avg (in_Vin i)) (fadd (sn_avg (in_Vout i)) (Fin 8)) \<and>
     flt (fabs (sn_avg (in_Iout i))) (f32 (3 / 10)) \<and> \<not> rt_manual r \<and> \<not> tm_terminated (ch_term (mt_charger (rt_m r))))"

definition lf_stuck_watchdog :: "inputs \<Rightarrow> lf \<times> rt \<Rightarrow> lf \<times> rt" where
  "lf_stuck_watchdog i lr =
    (let (l, r) = lr; now = uint (in_now i);
         reboot = (\<lambda>l r. if now - lf_stuckSince l < 7200000000 then (l, r) else (l, rt_emit SystemRestart r))
     in if \<not> lf_stuck i r then (l\<lparr>lf_stuckSince := 0, lf_triedRelease := False\<rparr>, r)
        else if lf_stuckSince l = 0 then (l\<lparr>lf_stuckSince := now\<rparr>, r)
        else if \<not> lf_triedRelease l \<and> 30000000 \<le> now - lf_stuckSince l then
          (let (changed, m) = releaseCvFloorLatch (rt_m r); l1 = l\<lparr>lf_triedRelease := True\<rparr>; r1 = r\<lparr>rt_m := m\<rparr>
           in if changed then (l1, r1) else reboot l1 r1)
        else reboot l r)"

end
