(* ===== verification/MpptSafe.thy ===== *)
theory MpptSafe
  imports RtLoop ConverterNum
begin

text \<open>
  Safety of the MPPT controller and the real-time loop. Every tick moves the converter only by
  operations of \<^const>\<open>conv_step\<close> that do not wake a disabled converter, so the converter's invariants
  and the refinement of its gates hold along every run; a failing protection leaves the power stage off.
\<close>

section \<open>Converter moves\<close>

inductive conv_move :: "conv \<Rightarrow> conv \<Rightarrow> bool" where
  conv_move: "conv_step x s = Inr t \<Longrightarrow> \<not> bad_wake x s \<Longrightarrow> op_sane x \<Longrightarrow> conv_move s t"

inductive_cases conv_moveE: "conv_move s t"

definition conv_inv :: "conv \<Rightarrow> bool" where
  "conv_inv s = (conv_ok s \<and> drv_match s \<and> num_inv s)"

lemma conv_move_inv: "conv_move s t \<Longrightarrow> conv_inv s \<Longrightarrow> conv_inv t"
proof (erule conv_moveE)
  fix x assume x: "conv_step x s = Inr t" "\<not> bad_wake x s" "op_sane x" and i: "conv_inv s"
  have "num_inv t" using conv_step_num [of s x] x i by (auto simp: conv_inv_def)
  then show "conv_inv t" using conv_step_ok [OF x(1)] x i by (simp add: conv_inv_def)
qed

text \<open>The contract between the controller and the power stage: the controller only makes allowed steps, and the
  allowed steps keep an invariant. What follows from it for sequences of steps is proved once.\<close>

definition keeps_by :: "('s \<Rightarrow> 's \<Rightarrow> bool) \<Rightarrow> ('s \<Rightarrow> bool) \<Rightarrow> 's \<Rightarrow> 's \<Rightarrow> bool" where
  "keeps_by step good s t = (good s \<longrightarrow> step\<^sup>*\<^sup>* s t \<and> good t)"

locale power_stage =
  fixes step :: "'s \<Rightarrow> 's \<Rightarrow> bool" and good :: "'s \<Rightarrow> bool"
  assumes step_good: "step s t \<Longrightarrow> good s \<Longrightarrow> good t"
begin

lemma keeps_refl: "keeps_by step good s s"
  by (simp add: keeps_by_def)

lemma keeps_trans: "keeps_by step good s t \<Longrightarrow> keeps_by step good t u \<Longrightarrow> keeps_by step good s u"
  by (auto simp: keeps_by_def)

lemma keeps_step: "(good s \<Longrightarrow> step s t) \<Longrightarrow> keeps_by step good s t"
  using step_good by (auto simp: keeps_by_def)

lemma steps_good: "step\<^sup>*\<^sup>* s t \<Longrightarrow> good s \<Longrightarrow> good t"
  by (induction rule: rtranclp_induct) (auto dest: step_good)

lemma keeps_run:
  assumes "\<And>x s t. f x s = Inr t \<Longrightarrow> ok x \<Longrightarrow> keeps_by step good (view s) (view t)"
    "\<And>s. run [] s = Inr s" "\<And>x xs s. run (x # xs) s = bindE (f x s) (run xs)"
    "list_all ok xs" "run xs s = Inr t"
  shows "keeps_by step good (view s) (view t)"
  using assms(4,5)
proof (induction xs arbitrary: s)
  case Nil
  then show ?case using assms(2) keeps_refl by simp
next
  case (Cons x xs)
  from Cons.prems(2) obtain u where u: "f x s = Inr u" "run xs u = Inr t" by (auto simp: assms(3) bindE_Inr_iff)
  then have "keeps_by step good (view s) (view u)" using assms(1) Cons.prems(1) by simp
  then show ?case using Cons.IH [OF _ u(2)] Cons.prems(1) keeps_trans by simp
qed

end

interpretation stage: power_stage conv_move conv_inv
  by unfold_locales (rule conv_move_inv)

abbreviation keeps :: "conv \<Rightarrow> conv \<Rightarrow> bool" where
  "keeps \<equiv> keeps_by conv_move conv_inv"

lemmas keeps_def = keeps_by_def [of conv_move conv_inv]
lemmas keeps_trans [trans] = stage.keeps_trans
lemmas keeps_move = stage.keeps_step

declare stage.keeps_refl [simp]

lemma keeps_disable [simp]: "keeps s (sc_disable s)"
  by (rule keeps_move, rule conv_move [of Disable]) (simp_all add: bad_wake_def)

lemma keeps_minDuty [simp]: "keeps s (sc_syncRectMinDuty s)"
  by (rule keeps_move, rule conv_move [of MinDuty]) (simp_all add: bad_wake_def)

lemma keeps_pairs [simp]: "keeps s (sc_disable (sc_disable s))" "keeps s (sc_disable (sc_syncRectMinDuty s))"
  using keeps_trans keeps_disable keeps_minDuty by blast+

lemma keeps_enableRect [simp]: "keeps s (sc_enableSyncRect e ov s)"
  by (rule keeps_move, rule conv_move [of "EnableRect e ov"]) (simp_all add: bad_wake_def)

lemma keeps_perturb: "sc_perturb d s = Inr t \<Longrightarrow> sc_disabled s \<longrightarrow> 0 < d \<Longrightarrow> keeps s t"
  by (rule keeps_move, rule conv_move [of "Perturb d"]) (auto simp: bad_wake_def)

lemma keeps_syncDuty:
  "sc_updateSyncRectMaxDuty vin vout il s = Inr t \<Longrightarrow> vin \<noteq> Inf True \<Longrightarrow> vout \<noteq> Inf True \<Longrightarrow> keeps s t"
  by (rule keeps_move, rule conv_move [of "SyncDuty vin vout il"]) (simp_all add: bad_wake_def)

lemma carry_not_negative:
  assumes "num_inv s" "fle (fabs d) (to_float (uint (sc_driverPwmMax s)))" "fle (Fin 0) d"
  shows "0 \<le> trunc_int (fadd d (sc_fbuf s))"
proof -
  have p: "to_float (uint (sc_driverPwmMax s)) = Fin (of_int (uint (sc_driverPwmMax s)))" by (rule to_float_u16)
  have fd: "isfinite d" using assms(2,3) p by (cases d) (auto simp: fle_def)
  have b: "isfinite (sc_fbuf s)" "fl_ok F32 (sc_fbuf s)" "\<bar>val (sc_fbuf s)\<bar> < 1" using assms(1) by (auto simp: num_inv_def)
  have s: "isfinite (fadd d (sc_fbuf s))" using fractional_sum [OF assms(1,2)] by simp
  have "rnd F32 (val (sc_fbuf s)) \<le> rnd F32 (val d + val (sc_fbuf s))" by (rule rnd_mono) (use assms(3) fd in simp)
  then have "val (sc_fbuf s) \<le> val (fadd d (sc_fbuf s))" using s fd b by (simp add: val_gadd fl_ok_rnd)
  then have "- 1 < val (fadd d (sc_fbuf s))" using b(3) by linarith
  then show ?thesis by (auto simp: trunc_int_def floor_less_iff not_le)
qed

lemma keeps_fractional:
  assumes "sc_perturbFractional d s = Inr t" "sc_disabled s \<longrightarrow> fle (Fin 0) d \<or> isnan d"
  shows "keeps s t"
proof (rule keeps_move, rule conv_move [of "Fractional d"])
  assume i: "conv_inv s"
  have f: "fle (fabs d) (to_float (uint (sc_driverPwmMax s)))" using assms(1) by (auto simp: sc_perturbFractional_def split: if_splits)
  then have "\<not> isnan d" by (cases d) auto
  then show "\<not> bad_wake (Fractional d) s"
    using carry_not_negative [OF _ f] i assms(2) by (auto simp: bad_wake_def conv_inv_def)
qed (use assms(1) in simp_all)

section \<open>Shutdown\<close>

definition tripped :: "u64 \<Rightarrow> mppt \<Rightarrow> bool" where
  "tripped now m = (conv_off m \<and> \<not> bf_state (mt_bflow m) \<and> \<not> mt_sweeping m \<and> inBackoff now m)"

lemma shutdown_conv [simp]: "mt_conv (shutdownDcdc now sec m) = sc_disable (mt_conv m)"
  "mt_bflow (shutdownDcdc now sec m) = bf_enable False (mt_bflow m)"
  "mt_limits (shutdownDcdc now sec m) = mt_limits m" "mt_charger (shutdownDcdc now sec m) = mt_charger m"
  "mt_physIn (shutdownDcdc now sec m) = mt_physIn m"
  by (simp_all add: shutdownDcdc_def Let_def)

lemma disable_off [simp]: "sc_disabled (sc_disable s)" "sc_boost (sc_disable s) = sc_boost s"
  by (simp_all add: sc_disabled_def sc_disable_def drv_shutdown_def sd_write_def sc_gate_def)

lemma backoff_deadline:
  assumes "sec \<noteq> 0" "uint now < 2 ^ 63"
  shows "uint (now + ucast (sec :: u32) * 1000000 :: u64) = uint now + uint sec * 1000000" "now < now + ucast sec * 1000000"
proof -
  have s: "uint sec < 2 ^ 32" "0 \<le> uint sec" using uint_lt2p [of sec] by auto
  then have m: "uint (ucast sec * 1000000 :: u64) = uint sec * 1000000"
    by (simp add: uint_word_ariths(3) unsigned_ucast_eq take_bit_int_eq_self)
  show u: "uint (now + ucast sec * 1000000 :: u64) = uint now + uint sec * 1000000"
    using s assms(2) by (simp add: uint_word_ariths(1) m)
  have "uint sec \<noteq> 0" using assms(1) by (simp add: uint_0_iff)
  then show "now < now + ucast sec * 1000000" using s(2) unfolding word_less_def u by linarith
qed

lemma shutdown_tripped: "sec \<noteq> 0 \<Longrightarrow> uint now < 2 ^ 63 \<Longrightarrow> tripped now (shutdownDcdc now sec m)"
  using backoff_deadline(2) [of sec now]
  by (auto simp: tripped_def inBackoff_def shutdownDcdc_def Let_def)

lemma trip_tripped: "trip now sec m = Inr (ok, m') \<Longrightarrow> sec \<noteq> 0 \<Longrightarrow> uint now < 2 ^ 63 \<Longrightarrow> \<not> ok \<and> tripped now m'"
  using shutdown_tripped by (auto simp: trip_def)

lemma keeps_shutdown [simp]: "keeps (mt_conv m) (mt_conv (shutdownDcdc now sec m))"
  by simp

section \<open>Protection\<close>

lemma and_then_cases:
  assumes "and_then r k = Inr (ok, m')"
  obtains "r = Inr (False, m')" "\<not> ok" | m1 where "r = Inr (True, m1)" "k m1 = Inr (ok, m')"
  using assms by (auto simp: and_then_def bindE_Inr_iff split: if_splits)

named_theorems checks
lemmas [checks] = protect_ov_def protect_oc_def protect_reverse_def protect_buck_def protect_short_def protect_bflow_def

lemma checks_trip:
  assumes "uint (in_now i) < 2 ^ 63"
  shows "protect_ov i m = Inr (False, m') \<Longrightarrow> tripped (in_now i) m'"
    "protect_oc i m = Inr (False, m') \<Longrightarrow> tripped (in_now i) m'"
    "protect_reverse i m = Inr (False, m') \<Longrightarrow> tripped (in_now i) m'"
    "protect_buck i m = Inr (False, m') \<Longrightarrow> tripped (in_now i) m'"
    "protect_short i m = Inr (False, m') \<Longrightarrow> tripped (in_now i) m'"
    "protect_bflow i m = Inr (False, m') \<Longrightarrow> tripped (in_now i) m'"
    "protect_ratio i m = Inr (False, m') \<Longrightarrow> tripped (in_now i) m'"
proof -
  have t: "tripped (in_now i) (shutdownDcdc (in_now i) n x)" if "n \<noteq> 0" for n x
    using shutdown_tripped [OF that assms] .
  have e: "tripped n (m\<lparr>mt_events := ev\<rparr>) = tripped n m" "tripped n (m\<lparr>mt_charger := ch\<rparr>) = tripped n m" for n m ev ch
    by (simp_all add: tripped_def inBackoff_def)
  show "protect_ov i m = Inr (False, m') \<Longrightarrow> tripped (in_now i) m'"
    by (auto simp: protect_ov_def trip_def t e Let_def split: if_splits)
  show "protect_oc i m = Inr (False, m') \<Longrightarrow> tripped (in_now i) m'"
    by (auto simp: protect_oc_def trip_def t Let_def split: if_splits)
  show "protect_reverse i m = Inr (False, m') \<Longrightarrow> tripped (in_now i) m'"
    by (auto simp: protect_reverse_def trip_def t Let_def split: if_splits)
  show "protect_buck i m = Inr (False, m') \<Longrightarrow> tripped (in_now i) m'"
    by (auto simp: protect_buck_def trip_def t Let_def split: if_splits)
  show "protect_short i m = Inr (False, m') \<Longrightarrow> tripped (in_now i) m'"
    by (auto simp: protect_short_def trip_def t split: if_splits)
  show "protect_bflow i m = Inr (False, m') \<Longrightarrow> tripped (in_now i) m'"
    by (auto simp: protect_bflow_def trip_def t Let_def split: if_splits)
  show "protect_ratio i m = Inr (False, m') \<Longrightarrow> tripped (in_now i) m'"
    by (auto simp: protect_ratio_def trip_def t Let_def bindE_Inr_iff split: if_splits)
qed

lemma protect_trip:
  assumes "protect i m = Inr (False, m')" "uint (in_now i) < 2 ^ 63"
  shows "tripped (in_now i) m'"
  using assms(1) unfolding protect_def
  by (elim and_then_cases) (auto dest: checks_trip [OF assms(2)])

definition inputs_sane :: "inputs \<Rightarrow> bool" where
  \<comment> \<open>no averaged voltage is negative infinity; NaN and positive infinity are allowed\<close>
  "inputs_sane i = (sn_avg (in_Vin i) \<noteq> Inf True \<and> sn_avg (in_Vout i) \<noteq> Inf True)"

lemma checks_keep:
  "protect_ov i m = Inr (ok, m') \<Longrightarrow> keeps (mt_conv m) (mt_conv m')"
  "protect_oc i m = Inr (ok, m') \<Longrightarrow> keeps (mt_conv m) (mt_conv m')"
  "protect_reverse i m = Inr (ok, m') \<Longrightarrow> keeps (mt_conv m) (mt_conv m')"
  "protect_buck i m = Inr (ok, m') \<Longrightarrow> keeps (mt_conv m) (mt_conv m')"
  "protect_short i m = Inr (ok, m') \<Longrightarrow> keeps (mt_conv m) (mt_conv m')"
  "protect_bflow i m = Inr (ok, m') \<Longrightarrow> keeps (mt_conv m) (mt_conv m')"
proof -
  show "protect_ov i m = Inr (ok, m') \<Longrightarrow> keeps (mt_conv m) (mt_conv m')"
    by (auto simp: protect_ov_def trip_def Let_def split: if_splits)
  show "protect_oc i m = Inr (ok, m') \<Longrightarrow> keeps (mt_conv m) (mt_conv m')"
    by (auto simp: protect_oc_def trip_def Let_def split: if_splits)
  show "protect_reverse i m = Inr (ok, m') \<Longrightarrow> keeps (mt_conv m) (mt_conv m')"
    by (auto simp: protect_reverse_def trip_def Let_def split: if_splits)
  show "protect_buck i m = Inr (ok, m') \<Longrightarrow> keeps (mt_conv m) (mt_conv m')"
    by (auto simp: protect_buck_def trip_def Let_def split: if_splits)
  show "protect_short i m = Inr (ok, m') \<Longrightarrow> keeps (mt_conv m) (mt_conv m')"
    by (auto simp: protect_short_def trip_def split: if_splits)
  show "protect_bflow i m = Inr (ok, m') \<Longrightarrow> keeps (mt_conv m) (mt_conv m')"
    by (auto simp: protect_bflow_def trip_def Let_def split: if_splits)
qed

lemma ratio_keep:
  assumes "protect_ratio i m = Inr (ok, m')" "inputs_sane i"
  shows "keeps (mt_conv m) (mt_conv m')"
proof -
  let ?vi = "sn_avg (in_Vin i)" and ?vo = "sn_avg (in_Vout i)"
    and ?il = "sn_avg (if sc_boost (mt_conv m) then in_Iin i else in_Iout i)"
  obtain c where c: "sc_updateSyncRectMaxDuty ?vi ?vo ?il (mt_conv m) = Inr c" "mt_conv m' = c \<or> mt_conv m' = sc_disable c"
    using assms(1) by (auto simp: protect_ratio_def bindE_Inr_iff trip_def Let_def split: if_splits)
  have "keeps (mt_conv m) c" by (rule keeps_syncDuty [OF c(1)]) (use assms(2) in \<open>auto simp: inputs_sane_def\<close>)
  then show ?thesis using c(2) keeps_trans keeps_disable by auto
qed

definition verdict_all :: "(mppt \<Rightarrow> bool) \<Rightarrow> verdict \<Rightarrow> bool" where
  "verdict_all P r = (\<forall>ok m'. r = Inr (ok, m') \<longrightarrow> P m')"

abbreviation verdict_keeps :: "conv \<Rightarrow> verdict \<Rightarrow> bool" where
  "verdict_keeps s \<equiv> verdict_all (\<lambda>m'. keeps s (mt_conv m'))"

lemma and_then_all:
  "verdict_all P r \<Longrightarrow> (\<And>m. P m \<Longrightarrow> verdict_all P (k m)) \<Longrightarrow> verdict_all P (and_then r k)"
  unfolding verdict_all_def by (blast elim: and_then_cases)

lemma and_then_keeps:
  "verdict_keeps s r \<Longrightarrow> (\<And>m. verdict_keeps (mt_conv m) (k m)) \<Longrightarrow> verdict_keeps s (and_then r k)"
  unfolding verdict_all_def by (blast elim: and_then_cases intro: keeps_trans)

lemma protect_keep:
  assumes "protect i m = Inr (ok, m')" "inputs_sane i"
  shows "keeps (mt_conv m) (mt_conv m')"
proof -
  have "verdict_keeps (mt_conv m) (protect i m)"
    unfolding protect_def
    by (intro and_then_keeps) (auto simp: verdict_all_def dest: checks_keep ratio_keep [OF _ assms(2)])
  then show ?thesis using assms(1) by (simp add: verdict_all_def)
qed

lemma protectLf_keep: "protectLf ig i m = (ok, m') \<Longrightarrow> keeps (mt_conv m) (mt_conv m')"
  by (auto simp: protectLf_def Let_def split: if_splits)

definition same_plant :: "mppt \<Rightarrow> mppt \<Rightarrow> bool" where
  "same_plant m m' = (mt_limits m' = mt_limits m \<and> mt_charger m' = mt_charger m \<and> mt_physIn m' = mt_physIn m \<and>
     sc_boost (mt_conv m') = sc_boost (mt_conv m))"

lemma same_plant_trans: "same_plant m m1 \<Longrightarrow> same_plant m1 m2 \<Longrightarrow> same_plant m m2"
  by (simp add: same_plant_def)

lemma minDuty_boost [simp]: "sc_boost (sc_syncRectMinDuty s) = sc_boost s" "sc_disabled (sc_syncRectMinDuty s) = sc_disabled s"
  by (simp_all add: sc_syncRectMinDuty_def drv_commitLsOff_def sc_gate_def sc_disabled_def Let_def)

lemma checks_pass:
  "protect_ov i m = Inr (True, m') \<Longrightarrow> m' = m"
  "protect_oc i m = Inr (True, m') \<Longrightarrow> m' = m"
  "protect_reverse i m = Inr (True, m') \<Longrightarrow> same_plant m m'"
  "protect_buck i m = Inr (True, m') \<Longrightarrow> same_plant m m'"
  "protect_short i m = Inr (True, m') \<Longrightarrow> m' = m"
  by (auto simp: checks same_plant_def trip_def Let_def split: if_splits)

section \<open>What a passing check guarantees\<close>

definition in_envelope :: "inputs \<Rightarrow> mppt \<Rightarrow> bool" where
  \<comment> \<open>no measured value is beyond its limit\<close>
  "in_envelope i m =
    (let l = mt_limits m; io = in_Iout i in
     \<not> fgt (sn_last (in_Vin i)) (lm_Vin_max l) \<and> \<not> fgt (sn_last (in_Vout i)) (ov_threshold m) \<and>
     (\<not> conv_off m \<longrightarrow>
        \<not> fgt (sn_last (in_Iin i)) (fmul (lm_Iin_max l) (f32 (13 / 10))) \<and>
        \<not> fgt (sn_last io) (fmul (lm_Iout_max l) (Fin (3 / 2))) \<and> \<not> fgt (sn_med3 io) (fmul (lm_Iout_max l) (Fin (5 / 4))) \<and>
        \<not> fgt (sn_avg io) (fmul (lm_Iout_max l) (f32 (23 / 20)))) \<and>
     \<not> flt (sn_avg (physI m i)) (Fin (- 1)) \<and>
     (\<not> sc_boost (mt_conv m) \<longrightarrow>
        \<not> fgt (sn_avg (in_Vout i)) (fmul (fadd (sn_avg (in_Vin i)) (Fin 1)) (Fin (5 / 4)))) \<and>
     \<not> (fgt (sn_avg io) (lm_Ishort l) \<and> flt (sn_avg (in_Vout i)) (Fin 1)))"

lemma protect_pass:
  assumes "protect i m = Inr (True, m')"
  shows "in_envelope i m"
proof -
  obtain m2 m3 m4 where s: "protect_ov i m = Inr (True, m)" "protect_oc i m = Inr (True, m)"
    "protect_reverse i m = Inr (True, m2)" "protect_buck i m2 = Inr (True, m3)" "protect_short i m3 = Inr (True, m4)"
    using assms checks_pass(1,2) unfolding protect_def by (elim and_then_cases) metis+
  have a: "\<not> fgt (sn_last (in_Vin i)) (lm_Vin_max (mt_limits m)) \<and> \<not> fgt (sn_last (in_Vout i)) (ov_threshold m)"
    using s(1) by (auto simp: protect_ov_def trip_def Let_def split: if_splits)
  have r: "\<not> flt (sn_avg (physI m i)) (Fin (- 1))"
    using s(3) by (auto simp: protect_reverse_def trip_def Let_def split: if_splits)
  have p2: "same_plant m m2" using s(3) by (rule checks_pass)
  then have b: "\<not> sc_boost (mt_conv m) \<longrightarrow>
      \<not> fgt (sn_avg (in_Vout i)) (fmul (fadd (sn_avg (in_Vin i)) (Fin 1)) (Fin (5 / 4)))"
    using s(4) by (auto simp: protect_buck_def trip_def same_plant_def Let_def split: if_splits)
  have p3: "same_plant m m3" using same_plant_trans [OF p2 checks_pass(4) [OF s(4)]] .
  then have c: "\<not> (fgt (sn_avg (in_Iout i)) (lm_Ishort (mt_limits m)) \<and> flt (sn_avg (in_Vout i)) (Fin 1))"
    using s(5) by (auto simp: protect_short_def trip_def same_plant_def split: if_splits)
  show ?thesis using a r b c s(2) by (auto simp: in_envelope_def protect_oc_def trip_def Let_def split: if_splits)
qed

lemma protectLf_pass: "protectLf ig i m = (True, m') \<Longrightarrow>
   \<not> over_temp i m \<and> (ig \<or> \<not> boardPowerSupplyUnderVoltage False i)"
  by (auto simp: protectLf_def over_temp_def Let_def split: if_splits)

section \<open>The checks always return\<close>

lemma syncDuty_total:
  assumes "num_inv s" "vin \<noteq> Inf True" "vout \<noteq> Inf True"
  shows "\<exists>t. sc_updateSyncRectMaxDuty vin vout il s = Inr t"
proof -
  let ?s1 = "sc_computeSyncRectRatio (if sc_boost s then vout else vin) (if sc_boost s then vin else vout) il s"
  have "num_inv ?s1" by (rule computeSyncRectRatio_num) (use assms in auto)
  then obtain s2 where "sc_computeRectMax ?s1 = Inr s2" using computeRectMax_num by blast
  then show ?thesis by (simp add: sc_updateSyncRectMaxDuty_def Let_def)
qed

definition verdict_total :: "conv \<Rightarrow> verdict \<Rightarrow> bool" where
  "verdict_total s r = (conv_inv s \<longrightarrow> (\<exists>ok m'. r = Inr (ok, m') \<and> conv_inv (mt_conv m')))"

lemma and_then_total:
  "verdict_total s r \<Longrightarrow> (\<And>m. verdict_total (mt_conv m) (k m)) \<Longrightarrow> verdict_total s (and_then r k)"
  unfolding verdict_total_def and_then_def by (fastforce split: sum.splits)

lemma total_keep: "\<exists>ok m'. r = Inr (ok, m') \<Longrightarrow> verdict_keeps s r \<Longrightarrow> verdict_total s r"
  by (auto simp: verdict_total_def verdict_all_def keeps_def)

lemma protect_total:
  assumes "conv_inv (mt_conv m)" "inputs_sane i"
  shows "\<exists>ok m'. protect i m = Inr (ok, m') \<and> conv_inv (mt_conv m')"
proof -
  have c1: "verdict_total (mt_conv m) (protect_ov i m)" for m
    by (rule total_keep) (auto simp: protect_ov_def trip_def Let_def verdict_all_def dest: checks_keep)
  have c2: "verdict_total (mt_conv m) (protect_oc i m)" for m
    by (rule total_keep) (auto simp: protect_oc_def trip_def Let_def verdict_all_def dest: checks_keep)
  have c3: "verdict_total (mt_conv m) (protect_reverse i m)" for m
    by (rule total_keep) (auto simp: protect_reverse_def trip_def Let_def verdict_all_def dest: checks_keep)
  have c4: "verdict_total (mt_conv m) (protect_buck i m)" for m
    by (rule total_keep) (auto simp: protect_buck_def trip_def Let_def verdict_all_def dest: checks_keep)
  have c5: "verdict_total (mt_conv m) (protect_short i m)" for m
    by (rule total_keep) (auto simp: protect_short_def trip_def Let_def verdict_all_def dest: checks_keep)
  have c6: "verdict_total (mt_conv m) (protect_bflow i m)" for m
    by (rule total_keep) (auto simp: protect_bflow_def trip_def Let_def verdict_all_def dest: checks_keep)
  have r: "verdict_total (mt_conv m) (protect_ratio i m)" for m
  proof (cases "conv_inv (mt_conv m)")
    case True
    let ?il = "sn_avg (if sc_boost (mt_conv m) then in_Iin i else in_Iout i)"
    obtain t where "sc_updateSyncRectMaxDuty (sn_avg (in_Vin i)) (sn_avg (in_Vout i)) ?il (mt_conv m) = Inr t"
      using syncDuty_total [of "mt_conv m" "sn_avg (in_Vin i)" "sn_avg (in_Vout i)" ?il] True assms(2)
      by (auto simp: conv_inv_def inputs_sane_def)
    then have "\<exists>ok m'. protect_ratio i m = Inr (ok, m')" by (auto simp: protect_ratio_def trip_def Let_def)
    then show ?thesis by (rule total_keep) (auto simp: verdict_all_def ratio_keep [OF _ assms(2)])
  qed (simp add: verdict_total_def)
  have "verdict_total (mt_conv m) (protect i m)"
    unfolding protect_def by (intro and_then_total c1 c2 c3 c4 c5 c6 r) (auto simp: verdict_total_def)
  then show ?thesis using assms(1) by (simp add: verdict_total_def)
qed

section \<open>A faulty tick switches the power stage off\<close>

definition fault :: "inputs \<Rightarrow> bool \<Rightarrow> mppt \<Rightarrow> bool" where
  "fault i manual m = (\<not> in_envelope i m \<or> over_temp i m \<or> \<not> manual \<and> boardPowerSupplyUnderVoltage False i)"

lemma off_gates:
  assumes "conv_inv s" "sc_disabled s" "0 \<le> k" "sc_useMcpwm s \<longrightarrow> k < uint (lg_periodTicks (gt_leg (sc_gates s)))"
  shows "gate_levels s k = (False, False)"
proof -
  have m: "conv_ok s" "drv_match s" "sc_pwmCtrl s = 0" using assms(1,2) by (auto simp: conv_inv_def sc_disabled_def)
  have n: "sc_pwmCtrl s \<noteq> sc_ctrlMax s" using m(1,3) by (auto simp: conv_ok_def conv_cfg_def)
  have "sc_pwmRect s = 0" using m by (auto simp: drv_match_def Let_def)
  moreover have "gate_levels s k = conv_spec s k" by (rule gate_levels_spec) (use m n assms in auto)
  ultimately show ?thesis using m assms(3) by (simp add: conv_spec_def)
qed

lemma protect_limits:
  assumes "protect i m = Inr (ok, m')"
  shows "mt_limits m' = mt_limits m"
proof -
  let ?P = "\<lambda>m'. mt_limits m' = mt_limits m"
  have "verdict_all ?P (protect i m)" unfolding protect_def
    by (intro and_then_all) (auto simp: verdict_all_def checks protect_ratio_def trip_def bindE_Inr_iff Let_def split: if_splits)
  then show ?thesis using assms by (simp add: verdict_all_def)
qed

lemma protectLf_total_fault:
  assumes "over_temp i m \<or> \<not> manual \<and> boardPowerSupplyUnderVoltage False i"
  shows "\<not> fst (protectLf manual i m)"
  using assms by (auto simp: protectLf_def over_temp_def Let_def)

lemma guard_fault:
  assumes "conv_inv (mt_conv m)" "inputs_sane i" "\<not> conv_off m" "fault i manual m"
  shows "\<exists>m1. guard_checks i manual m = Inr (False, m1) \<and> conv_inv (mt_conv m1)"
proof -
  obtain ok m1 where p: "protect i m = Inr (ok, m1)" "conv_inv (mt_conv m1)" using protect_total assms(1,2) by blast
  obtain ok' m2 where l: "protectLf manual i m1 = (ok', m2)" by force
  have "conv_inv (mt_conv m2)" using protectLf_keep [OF l] p(2) by (simp add: keeps_def)
  moreover have "\<not> (ok \<and> ok')"
  proof
    assume "ok \<and> ok'"
    then have "in_envelope i m" "\<not> over_temp i m1 \<and> (manual \<or> \<not> boardPowerSupplyUnderVoltage False i)"
      using p(1) l protect_pass protectLf_pass by auto
    moreover have "over_temp i m1 = over_temp i m" using protect_limits [OF p(1)] by (simp add: over_temp_def)
    ultimately show False using assms(4) by (auto simp: fault_def)
  qed
  ultimately show ?thesis using p(1) l assms(3) by (auto simp: guard_checks_def)
qed

lemma fault_tick:
  assumes "conv_inv (mt_conv (rt_m r))" "inputs_sane i" "uint (in_now i) < 2 ^ 63"
    "\<not> in_calib i" "\<not> conv_off (rt_m r)" "fault i (rt_manual r) (rt_m r)"
  shows "\<exists>r'. rt_new_data i n r = Inr r' \<and> tripped (in_now i) (rt_m r') \<and> conv_inv (mt_conv (rt_m r')) \<and>
    rt_delayStart r' = in_now i + 4000000"
proof -
  let ?r1 = "if n - rt_lastN r > 0 then r\<lparr>rt_timeLastSampler := in_now i\<rparr> else r"
  have e: "rt_m ?r1 = rt_m r" "rt_manual ?r1 = rt_manual r" by simp_all
  obtain m1 where m1: "guard_checks i (rt_manual r) (rt_m r) = Inr (False, m1)" "conv_inv (mt_conv m1)"
    using guard_fault assms by blast
  have c: "rt_control i n (n - rt_lastN r > 0) ?r1 = Inr (stopAndBackoff (in_now i) 4 (?r1\<lparr>rt_m := m1\<rparr>))"
    unfolding rt_control_def e Let_def using m1 assms(5) by (simp add: active_def)
  let ?r2 = "stopAndBackoff (in_now i) 4 (?r1\<lparr>rt_m := m1\<rparr>)"
  have s: "tripped (in_now i) (rt_m ?r2)" using shutdown_tripped [of 5 "in_now i" m1] assms(3) by (simp add: stopAndBackoff_def)
  have k: "conv_inv (mt_conv (rt_m ?r2))"
    using keeps_disable [of "mt_conv m1"] m1(2) by (simp add: stopAndBackoff_def keeps_def)
  have "rt_new_data i n r = Inr ?r2"
    unfolding rt_new_data_def Let_def using assms(4) c s by (simp add: tripped_def)
  then show ?thesis using s k by (intro exI [of _ ?r2]) (simp add: stopAndBackoff_def)
qed

section \<open>Every tick keeps the converter's invariant\<close>

lemma ctl_update_conv [simp]: "mt_conv (snd (ctl_update n act tgt m)) = mt_conv m"
  by (simp add: ctl_update_def Let_def split: prod.split)

lemma ctl_loop_keep: "ctl_loop now cs best lc m = (v, l, m') \<Longrightarrow> keeps (mt_conv m) (mt_conv m')"
proof (induction now cs best lc m rule: ctl_loop.induct)
  case (2 now n mode act tgt cs best lc m)
  obtain cv m1 where u: "ctl_update n act tgt m = (cv, m1)" by force
  have c: "mt_conv m1 = mt_conv m" using ctl_update_conv [of n act tgt m] u by simp
  let ?bad = "\<not> isfinite cv \<and> \<not> conv_off m1 \<and> fgt (sc_dutyCycle (mt_conv m1)) (f32 (1 / 100))"
  let ?m2 = "if ?bad then shutdownDcdc now 5 m1 else m1" and ?cv = "if ?bad then Fin (- 1) else cv"
  have "keeps (mt_conv ?m2) (mt_conv m')"
  proof (cases "flt ?cv best")
    case True
    have "ctl_loop now cs ?cv (Some (n, mode)) ?m2 = (v, l, m')" using True 2(3) u by (simp add: Let_def split: if_splits)
    then show ?thesis by (rule 2(1) [OF u [symmetric] refl refl refl refl True])
  next
    case False
    have "ctl_loop now cs best lc ?m2 = (v, l, m')" using False 2(3) u by (simp add: Let_def split: if_splits)
    then show ?thesis by (rule 2(2) [OF u [symmetric] refl refl refl refl False])
  qed
  moreover have "keeps (mt_conv m) (mt_conv ?m2)" using c by simp
  ultimately show ?case using keeps_trans by blast
qed simp

lemma limit_mode_conv: "limit_mode lcv lc m = (mode, v, m') \<Longrightarrow> mt_conv m' = mt_conv m"
  by (auto simp: limit_mode_def split: if_splits option.splits)

lemma startSweep_conv [simp]: "mt_conv (startSweep m) = sc_disable (mt_conv m)"
  by (simp add: startSweep_def Let_def)

lemma stopSweep_keep [simp]: "keeps (mt_conv m) (mt_conv (stopSweep now m))"
  by (simp add: stopSweep_def Let_def)

lemma sweep_capture_conv [simp]: "mt_conv (sweep_capture pw vin m) = mt_conv m"
  by (simp add: sweep_capture_def)

lemma sweep_or_fade_keep:
  assumes "sweep_or_fade i pw lcv mode v m = Inr (Some (mode', v', m'))"
  shows "keeps (mt_conv m) (mt_conv m')"
proof (cases "mt_sweeping m \<and> \<not> in_calib i")
  case True
  then obtain m1 where m1: "(if conv_off m then on_convE (sc_perturb 1) m else Inr m) = Inr m1"
    "m' = sweep_capture pw (sn_med3 (in_Vin i)) m1 \<or> m' = stopSweep (in_now i) m1"
    using assms by (auto simp: sweep_or_fade_def bindE_Inr_iff split: if_splits)
  have "keeps (mt_conv m) (mt_conv m1)" using m1(1) keeps_perturb [of 1 "mt_conv m"] by (auto simp: bindE_Inr_iff split: if_splits)
  then show ?thesis using m1(2) stopSweep_keep keeps_trans by auto
next
  case False
  then show ?thesis using assms by (auto simp: sweep_or_fade_def Let_def split: if_splits)
qed

lemma track_conv: "track i pw mode v m = Inr (mode', v', m') \<Longrightarrow> mt_conv m' = mt_conv m"
  by (auto simp: track_def bindE_Inr_iff split: if_splits)

lemma step_max_nonneg: "fle (Fin 0) (step_max c)"
proof -
  let ?n = "uint (sc_ctrlMax c)"
  have f: "isfinite (fmul (Fin 16) (to_float ?n)) \<and> 0 \<le> val (fmul (Fin 16) (to_float ?n))"
  proof -
    have "\<bar>16 * rat_of_int n\<bar> \<le> pow2 20" if "0 \<le> n" "n < 65536" for n using that by (simp add: pow2_def abs_mult)
    then have "\<bar>16 * rat_of_int ?n\<bar> \<le> pow2 20" using uint_u16_range [of "sc_ctrlMax c"] by blast
    note m = mk_finite_bound [where f = F32, OF this]
    show ?thesis using m by (auto simp: to_float_u16 gmul_finite_eq val_mk_nonneg)
  qed
  have "fle (Fin 0) (mk F32 (signbit (fmul (Fin 16) (to_float ?n)) \<noteq> signbit (Fin 2000)) (val (fmul (Fin 16) (to_float ?n)) / val (Fin 2000)))"
    by (rule fle_zero_mk) (use f in simp)
  then show ?thesis using f by (simp add: step_max_def gdiv_finite_eq)
qed

lemma step_clamp_off: "sc_disabled c \<Longrightarrow> fle (Fin 0) (step_clamp c fp) \<or> isnan (step_clamp c fp)"
proof -
  assume "sc_disabled c"
  then have z: "fneg (to_float (uint (sc_pwmCtrl c))) = NZero" by (simp add: sc_disabled_def)
  have "fle (Fin 0) NZero" by code_simp
  then show ?thesis unfolding step_clamp_def z fconstrain_def
    using step_max_nonneg [of c] by (cases fp) (auto simp: flt_def fle_def)
qed

lemma drive_keep: "drive i v m = Inr m' \<Longrightarrow> keeps (mt_conv m) (mt_conv m')"
  using keeps_fractional step_clamp_off by (fastforce simp: drive_def bindE_Inr_iff split: if_splits)

lemma finish_keep [simp]: "keeps (mt_conv m) (mt_conv (finish_tick i a mode v m))"
  by (simp add: finish_tick_def Let_def)

lemma update_control_keep:
  assumes "update_control i pw pl m = Inr m'"
  shows "keeps (mt_conv m) (mt_conv m')"
proof -
  let ?cs = "control_values i pw (std_min (lm_Iout_max (mt_limits m)) (ch_Iout_max (mt_charger m))) pl m"
  obtain lcv lc m1 where c: "ctl_loop (in_now i) ?cs (Inf False) None m = (lcv, lc, m1)" by (metis prod_cases3)
  obtain mode0 v0 m2 where l: "limit_mode lcv lc m1 = (mode0, v0, m2)" by (metis prod_cases3)
  obtain mode1 v1 where b: "bounce m2 (mode0, v0) = (mode1, v1)" by force
  have k2: "keeps (mt_conv m) (mt_conv m2)" using ctl_loop_keep [OF c] limit_mode_conv [OF l] by simp
  obtain r where r: "sweep_or_fade i pw lcv mode1 v1 m2 = Inr r"
    using assms unfolding update_control_def Let_def c l b prod.case by (auto simp: bindE_Inr_iff)
  show ?thesis
  proof (cases r)
    case None
    then show ?thesis using assms k2 unfolding update_control_def Let_def c l b prod.case by (simp add: r)
  next
    case (Some t)
    obtain mode2 v2 m3 where t: "t = (mode2, v2, m3)" by (metis prod_cases3)
    obtain mode3 v3 m4 m5 where d: "track i pw mode2 v2 m3 = Inr (mode3, v3, m4)"
      "drive i (std_min v3 lcv) (m4\<lparr>mt_mode := mode3, mt_cntrlValue := std_min v3 lcv\<rparr>) = Inr m5"
      "m' = finish_tick i (above_threshold i m3) mode3 (std_min v3 lcv) m5"
      using assms unfolding update_control_def Let_def c l b prod.case by (auto simp: r Some t bindE_Inr_iff)
    have "keeps (mt_conv m2) (mt_conv m3)" using r by (simp add: Some t sweep_or_fade_keep)
    moreover have "keeps (mt_conv m3) (mt_conv m5)" using drive_keep [OF d(2)] track_conv [OF d(1)] by simp
    ultimately show ?thesis using k2 d(3) finish_keep keeps_trans by metis
  qed
qed

lemma cv_drive_keep: "cv_drive i cv m = Inr m' \<Longrightarrow> keeps (mt_conv m) (mt_conv m')"
  using keeps_fractional step_clamp_off by (fastforce simp: cv_drive_def bindE_Inr_iff split: if_splits)

lemma updateCV_keep:
  assumes "updateCV i m = Inr m'"
  shows "keeps (mt_conv m) (mt_conv m')"
proof -
  obtain cv vc where u: "pd_update (sn_last (in_Vout i)) (ch_Vout_max (mt_charger m)) (mt_VoutCtl m) = (cv, vc)" by force
  let ?m1 = "m\<lparr>mt_VoutCtl := vc, mt_mode := MCV, mt_cntrlValue := cv\<rparr>"
  show ?thesis
  proof (cases "isfinite cv")
    case False
    then show ?thesis using assms by (auto simp: updateCV_def u Let_def split: if_splits)
  next
    case True
    then obtain m2 e where m2: "cv_drive i cv ?m1 = Inr m2" "mt_conv m' = sc_enableSyncRect e False (mt_conv m2)"
      using assms by (auto simp: updateCV_def u Let_def bindE_Inr_iff)
    have "keeps (mt_conv m) (mt_conv m2)" using cv_drive_keep [OF m2(1)] by simp
    then show ?thesis using m2(2) keeps_enableRect keeps_trans by metis
  qed
qed

lemma mppt_update_keep: "mppt_update i m = Inr m' \<Longrightarrow> keeps (mt_conv m) (mt_conv m')"
  using updateCV_keep [of i m m'] update_control_keep [of i _ _ "update_meters i _ _ m" m']
  by (auto simp: mppt_update_def update_meters_def bindE_Inr_iff Let_def split: if_splits)

lemma ramp_step_range:
  assumes "ramp_step c = Inr n"
  shows "1 \<le> n \<and> n \<le> 128"
proof -
  let ?p = "uint (sc_driverPwmMax c)" and ?x = "fdiv (to_float (uint (sc_driverPwmMax c))) (Fin 512)"
  have p: "0 \<le> ?p" "?p \<le> 65535" by simp_all
  have "fle ?x (fdiv (to_float 65535) (Fin 512))"
    by (rule fdiv_mono [OF to_float_mono [OF p(2)]]) (simp, code_simp, simp_all)
  moreover have "fle (fdiv (to_float 65535) (Fin 512)) (Fin 128) \<and> isfinite (fdiv (to_float 65535) (Fin 512))" by code_simp
  ultimately have h: "fle ?x (Fin 128)" using fle_trans by blast
  have "fle (fdiv (to_float 0) (Fin 512)) ?x" by (rule fdiv_mono [OF to_float_mono [OF p(1)]]) simp_all
  moreover have "fdiv (to_float 0) (Fin 512) = Fin 0" by code_simp
  ultimately have l: "fle (Fin 0) ?x" by simp
  have f: "isfinite ?x" using fle_between_finite [OF l h] by simp
  then have v: "0 \<le> val ?x" "val ?x \<le> 128" using l h by auto
  have "lround_int ?x \<le> 128" using v by (simp add: lround_int_def floor_le_iff)
  then have "uint (word_of_int (max 1 (lround_int ?x)) :: u16) = max 1 (lround_int ?x)"
    by (intro uint_of_int_u16) linarith+
  moreover have "n = sint (word_of_int (max 1 (lround_int ?x)) :: u16)"
    using assms by (auto simp: ramp_step_def bindE_Inr_iff lround_long_def split: if_splits)
  moreover have "sint (word_of_int (max 1 (lround_int ?x)) :: u16) = max 1 (lround_int ?x)"
    using \<open>lround_int ?x \<le> 128\<close> by (intro sint_of_int_s16) linarith+
  ultimately show ?thesis using \<open>lround_int ?x \<le> 128\<close> by linarith
qed

lemma updateManual_keep:
  assumes "updateManual i m = Inr m'"
  shows "keeps (mt_conv m) (mt_conv m')"
proof -
  let ?m1 = "m\<lparr>mt_lastUs := in_now i, mt_mode := MNone\<rparr>"
  obtain n where n: "ramp_step (mt_conv m) = Inr n" using assms by (auto simp: updateManual_def Let_def bindE_Inr_iff)
  note r = ramp_step_range [OF n]
  consider "inBackoff (in_now i) ?m1" | "\<not> inBackoff (in_now i) ?m1" "mt_manualTarget m = 0"
    | "\<not> inBackoff (in_now i) ?m1" "mt_manualTarget m \<noteq> 0" by blast
  then show ?thesis
  proof cases
    case 1
    then show ?thesis using assms n by (auto simp: updateManual_def Let_def split: if_splits)
  next
    case 2
    then show ?thesis using assms n keeps_perturb
      by (auto simp: updateManual_def Let_def bindE_Inr_iff split: if_splits)
  next
    case 3
    define m2 where "m2 = (if conv_off ?m1 \<and> \<not> lm_paranoia (mt_limits ?m1)
      then bf_set True (on_conv (sc_enableSyncRect True False) ?m1) else ?m1)"
    define st where "st = constrain (uint (mt_manualTarget m2) - uint (sc_pwmCtrl (mt_conv m2))) (- n) n"
    have k: "keeps (mt_conv m) (mt_conv m2)" by (simp add: m2_def)
    have t: "mt_manualTarget m2 = mt_manualTarget m" by (simp add: m2_def)
    have u: "(if st \<noteq> 0 then on_convE (sc_perturb st) m2 else Inr m2) = Inr m'"
      using assms n 3 unfolding updateManual_def Let_def st_def m2_def by simp
    have "0 < st" if "conv_off m2"
    proof -
      have "0 < uint (mt_manualTarget m2)" using 3(2) t by (simp add: u16_zero_iff order.strict_iff_order)
      then show ?thesis using that r by (simp add: st_def sc_disabled_def constrain_def)
    qed
    then have "keeps (mt_conv m2) (mt_conv m')"
      using u keeps_perturb [of st "mt_conv m2"] by (auto simp: bindE_Inr_iff split: if_splits)
    then show ?thesis using k keeps_trans by blast
  qed
qed

abbreviation rt_conv :: "rt \<Rightarrow> conv" where "rt_conv r \<equiv> mt_conv (rt_m r)"

lemma guard_keep:
  assumes "guard_checks i manual m = Inr (ok, m')" "inputs_sane i"
  shows "keeps (mt_conv m) (mt_conv m')"
proof (cases "conv_off m")
  case False
  then obtain ok1 m1 ok2 where s: "protect i m = Inr (ok1, m1)" "protectLf manual i m1 = (ok2, m')"
    using assms(1) by (auto simp: guard_checks_def bindE_Inr_iff Let_def case_prod_beta prod_eq_iff)
  show ?thesis using keeps_trans [OF protect_keep [OF s(1) assms(2)] protectLf_keep [OF s(2)]] .
qed (use assms(1) in \<open>simp add: guard_checks_def\<close>)

lemma rt_control_keep:
  assumes "rt_control i n fresh r = Inr r'" "inputs_sane i"
  shows "keeps (rt_conv r) (rt_conv r')"
proof (cases "active i (rt_m r) \<or> rt_manual r")
  case True
  then obtain ok m1 where g: "guard_checks i (rt_manual r) (rt_m r) = Inr (ok, m1)"
    using assms(1) by (auto simp: rt_control_def Let_def bindE_Inr_iff)
  have k: "keeps (rt_conv r) (mt_conv m1)" using guard_keep [OF g assms(2)] .
  have "keeps (mt_conv m1) (rt_conv r')"
    using assms(1) True g updateManual_keep mppt_update_keep
    by (auto simp: rt_control_def Let_def bindE_Inr_iff stopAndBackoff_def split: if_splits)
  then show ?thesis using k keeps_trans by blast
next
  case False
  then show ?thesis using assms(1) by (auto simp: rt_control_def bms_wait_def Let_def split: if_splits)
qed

lemma rt_new_data_keep:
  assumes "rt_new_data i n r = Inr r'" "inputs_sane i"
  shows "keeps (rt_conv r) (rt_conv r')"
proof -
  let ?r1 = "if n - rt_lastN r > 0 then r\<lparr>rt_timeLastSampler := in_now i\<rparr> else r"
  obtain r2 where r2: "(if in_calib i then Inr (on_m (shutdownDcdc (in_now i) 0) ?r1)
       else rt_control i n (n - rt_lastN r > 0) ?r1) = Inr r2"
    "(if rt_manual r2 \<and> \<not> conv_off (rt_m r2)
      then bindE (sc_perturb 0 (rt_conv r2)) (\<lambda>c. Inr (on_m (on_conv (\<lambda>_. c)) r2)) else Inr r2) = Inr r'"
    using assms(1) by (auto simp only: rt_new_data_def Let_def bindE_Inr_iff)
  have "keeps (rt_conv r) (rt_conv r2)"
    using r2(1) rt_control_keep [of i n "n - rt_lastN r > 0" ?r1 r2] assms(2) by (auto split: if_splits)
  moreover have "keeps (rt_conv r2) (rt_conv r')"
    using r2(2) keeps_perturb [of 0 "rt_conv r2"] by (auto simp: bindE_Inr_iff split: if_splits)
  ultimately show ?thesis using keeps_trans by blast
qed

lemma stall_keep: "keeps (rt_conv r) (rt_conv (stall_watchdog i ret r))"
  by (auto simp: stall_watchdog_def stopAndBackoff_def Let_def intro: keeps_trans [OF keeps_disable])

lemma rt_loop_keep:
  assumes "rt_loop i ret h n r = Inr r'" "inputs_sane i"
  shows "keeps (rt_conv r) (rt_conv r')"
proof (cases h)
  case False
  let ?r1 = "if ret = CalibFailure then stopAndBackoff (in_now i) 4 r else r"
  have a: "keeps (rt_conv r) (rt_conv ?r1)" by (simp add: stopAndBackoff_def)
  have "keeps (rt_conv (stall_watchdog i ret ?r1)) (rt_conv r')"
    using assms False rt_new_data_keep by (auto simp: rt_loop_def rt_no_data_def Let_def split: if_splits)
  then show ?thesis using a stall_keep keeps_trans by blast
qed (use assms in \<open>simp add: rt_loop_def\<close>)

lemma rt_run_keep:
  assumes "rt_run ts r = Inr r'" "list_all (\<lambda>t. inputs_sane (fst t)) ts"
  shows "keeps (rt_conv r) (rt_conv r')"
  by (rule stage.keeps_run [where f = "\<lambda>(i, ret, h, n). rt_loop i ret h n" and run = rt_run, OF _ _ _ assms(2,1)])
    (auto dest: rt_loop_keep)

section \<open>Properties\<close>

definition example_limits :: limits where
  "example_limits = \<lparr>lm_Vin_max = Fin 80, lm_Vin_min = Fin 10, lm_Vout_max = Fin 30, lm_Iin_max = Fin 20, lm_Ishort = Fin 40,
     lm_Iout_max = Fin 30, lm_P_max = Fin 800, lm_Temp_max = Fin 90, lm_Temp_derate = Fin 70, lm_paranoia = True\<rparr>"

definition example_on :: conv where
  \<comment> \<open>\<open>example_leg\<close> running at 1000 counts\<close>
  "example_on = example_leg\<lparr>sc_pwmCtrl := 1000, sc_pwmRect := 320, sc_gates := (sc_gates example_leg)\<lparr>gt_leg :=
     (gt_leg (sc_gates example_leg))\<lparr>lg_forcedLow := False, lg_cmpHS := 1000, lg_cmpLS := 1320\<rparr>\<rparr>\<rparr>"

definition example_mppt :: "conv \<Rightarrow> mppt" where
  "example_mppt c = (mppt_new c)\<lparr>mt_limits := example_limits,
     mt_charger := charger_new\<lparr>ch_params := bparams_new\<lparr>bp_Vbat_max := Fin 29\<rparr>\<rparr>, mt_lastUs := 1000000\<rparr>"

definition steady :: "rat \<Rightarrow> sens" where
  "steady q = \<lparr>sn_last = Fin q, sn_prev = Fin q, sn_med3 = Fin q, sn_avg = Fin q, sn_calibAvg = Fin q\<rparr>"

definition example_inputs :: "rat \<Rightarrow> rat \<Rightarrow> inputs" where
  "example_inputs vout iout = \<lparr>in_Vin = steady 40, in_Vout = steady vout, in_Iin = steady (iout / 2), in_Iout = steady iout,
     in_ntc = Fin 30, in_uc = Fin 40, in_now = 6000000, in_calib = False, in_lastCalib = 0\<rparr>"

lemma example_facts: "conv_inv example_on" "conv_off (example_mppt example_on) = False"
  "fault (example_inputs 30 7) False (example_mppt example_on)" "inputs_sane (example_inputs 30 7)"
  by code_simp+





end
