(* ===== verification/MpptProps.thy ===== *)
theory MpptProps
  imports MpptSafe
begin

text \<open>
  Functional properties of the MPPT controller: temperature derating, the backoff timer, the sweep's
  target and the manual ramp.
\<close>

section \<open>Temperature derating\<close>

definition derate_ok :: "limits \<Rightarrow> bool" where
  \<comment> \<open>finite single-precision limits as \<open>Limits\<close> accepts them, whose knees are a finite
      distance apart, with a non-negative power limit\<close>
  "derate_ok l = (isfinite (lm_Temp_max l) \<and> isfinite (lm_Temp_derate l) \<and> val (lm_Temp_derate l) < val (lm_Temp_max l) \<and>
     isfinite (fsub (lm_Temp_max l) (lm_Temp_derate l)) \<and> 0 < val (fsub (lm_Temp_max l) (lm_Temp_derate l)) \<and>
     isfinite (lm_P_max l) \<and> fl_ok F32 (lm_P_max l) \<and> 0 \<le> val (lm_P_max l))"

lemma fmul_fraction:
  assumes "isfinite p" "fl_ok F32 p" "0 \<le> val p" "isfinite s" "0 \<le> val s" "val s \<le> 1"
  shows "fle (Fin 0) (fmul p s) \<and> fle (fmul p s) p"
proof -
  have b: "0 \<le> val p * val s" "val p * val s \<le> val p" using assms by (simp_all add: mult_left_le)
  have r: "rnd F32 (val p) = val p" using assms fl_ok_rnd by blast
  have "0 \<le> rnd F32 (val p * val s)" "rnd F32 (val p * val s) \<le> val p"
    using rnd_nonneg b rnd_le_repr [OF b(2) r] by auto
  moreover have "isfinite (fmul p s)"
  proof -
    have "\<bar>val p\<bar> < pow2 (emax F32)" using assms fl_ok_bound by blast
    then show ?thesis using assms calculation by (simp add: gmul_finite_eq isfinite_mk)
  qed
  ultimately show ?thesis using assms(1,4) by (simp add: val_gmul)
qed

definition derate_scale :: "limits \<Rightarrow> fl \<Rightarrow> fl" where
  "derate_scale l t = fdiv (fsub (lm_Temp_max l) t) (fsub (lm_Temp_max l) (lm_Temp_derate l))"

lemma power_limit_hot:
  "fgt t (lm_Temp_derate l) \<Longrightarrow> power_limit l t =
    (if flt (derate_scale l t) (Fin 1) then Inr (fmul (lm_P_max l) (if flt (derate_scale l t) (Fin 0) then Fin 0 else derate_scale l t))
     else Inl AssertFail)"
  by (simp add: power_limit_def derate_scale_def Let_def)

lemma derate_range:
  assumes "derate_ok l" "flt s (Fin 1)"
  shows "fle (Fin 0) (fmul (lm_P_max l) (if flt s (Fin 0) then Fin 0 else s)) \<and>
    fle (fmul (lm_P_max l) (if flt s (Fin 0) then Fin 0 else s)) (lm_P_max l)"
proof -
  let ?s = "if flt s (Fin 0) then Fin 0 else s"
  have n: "\<not> isnan s" using assms(2) flt_not_nan by blast
  have "fle (Fin 0) ?s" using n not_flt_fle [of s "Fin 0"] by (auto simp: fle_refl)
  moreover have "fle ?s (Fin 1)" using assms(2) flt_imp_fle by simp
  ultimately have f: "isfinite ?s" "0 \<le> val ?s" "val ?s \<le> 1" using fle_between_finite [of "Fin 0" ?s "Fin 1"] by auto
  show ?thesis by (rule fmul_fraction) (use assms(1) f in \<open>auto simp: derate_ok_def\<close>)
qed

lemma derate_zero:
  assumes "derate_ok l" "isfinite t" "val (lm_Temp_max l) \<le> val t" "flt (derate_scale l t) (Fin 1)"
  shows "fle (derate_scale l t) (Fin 0)"
proof -
  let ?n = "fsub (lm_Temp_max l) t" and ?d = "fsub (lm_Temp_max l) (lm_Temp_derate l)"
  have d: "isfinite ?d" "0 < val ?d" using assms(1) by (auto simp: derate_ok_def)
  have nn: "\<not> isnan ?n" using assms(1,2) by (simp add: derate_ok_def gsub_finite_eq)
  have "fle ?n (Fin 0)" by (rule gsub_sign(2) [OF _ nn]) (use assms in \<open>simp add: derate_ok_def\<close>)
  show ?thesis
  proof (cases "isfinite ?n")
    case True
    then have "val ?n / val ?d \<le> 0" using \<open>fle ?n (Fin 0)\<close> d by (simp add: divide_le_0_iff)
    then have "fle (mk F32 (signbit ?n \<noteq> signbit ?d) (val ?n / val ?d)) (mk F32 False 0)" by (rule mk_mono)
    then show ?thesis using True d by (simp add: derate_scale_def gdiv_finite_eq)
  next
    case False
    then have "?n = Inf True" using \<open>fle ?n (Fin 0)\<close> by (cases ?n) (auto simp: fle_def split: if_splits)
    then show ?thesis using d by (cases ?d) (auto simp: derate_scale_def gdiv_def fle_def iszero_def)
  qed
qed



text \<open>the assertion \<open>powerScale < 1\<close> of the derating can fail, and then a control tick ends in a panic.
  It does when the temperature is just above the knee and the distance to the maximum rounds to
  the same float as the distance of the knee, which happens when the knee is below about half
  of the maximum (with a knee of 20 and a maximum of 90 degrees the next float above 20 is enough).\<close>
theorem derate_panic:
  assumes "derate_ok (mt_limits m)" "mt_targetPwmCnt m = 0" "\<not> conv_off m"
    "t = (if fgt (in_uc i) (in_ntc i) then in_uc i else in_ntc i)" "fgt t (lm_Temp_derate (mt_limits m))"
    "fsub (lm_Temp_max (mt_limits m)) t = fsub (lm_Temp_max (mt_limits m)) (lm_Temp_derate (mt_limits m))"
  shows "mppt_update i m = Inl AssertFail"
proof -
  let ?l = "mt_limits m"
  let ?d = "fsub (lm_Temp_max ?l) (lm_Temp_derate ?l)"
  have d: "isfinite ?d" "0 < val ?d" using assms(1) by (auto simp: derate_ok_def)
  have one: "mk F32 False 1 = Fin 1" by code_simp
  have "derate_scale ?l t = Fin 1" unfolding derate_scale_def assms(6) using d one by (simp add: gdiv_finite_eq)
  then have p: "power_limit ?l t = Inl AssertFail" using assms(5) by (simp add: power_limit_hot)
  show ?thesis using assms(2,3) p unfolding mppt_update_def assms(4) by (simp add: update_meters_def Let_def)
qed

lemma derate_panic_witness:
  "mppt_update ((example_inputs 20 7)\<lparr>in_ntc := Fin (20 + 1 / 2 ^ 19), in_uc := Fin 19\<rparr>)
     ((example_mppt example_on)\<lparr>mt_limits := example_limits\<lparr>lm_Temp_derate := Fin 20\<rparr>\<rparr>) = Inl AssertFail"
proof -
  let ?i = "(example_inputs 20 7)\<lparr>in_ntc := Fin (20 + 1 / 2 ^ 19), in_uc := Fin 19\<rparr>"
    and ?m = "(example_mppt example_on)\<lparr>mt_limits := example_limits\<lparr>lm_Temp_derate := Fin 20\<rparr>\<rparr>"
    and ?t = "Fin (20 + 1 / 2 ^ 19)"
  have l: "mt_limits ?m = example_limits\<lparr>lm_Temp_derate := Fin 20\<rparr>" by simp
  have a: "derate_ok (example_limits\<lparr>lm_Temp_derate := Fin 20\<rparr>)" by code_simp
  have b: "mt_targetPwmCnt ?m = 0" "\<not> conv_off ?m" using example_facts(2) by (simp_all add: example_mppt_def mppt_new_def)
  have t: "?t = (if fgt (in_uc ?i) (in_ntc ?i) then in_uc ?i else in_ntc ?i)" by simp
  have c: "fgt ?t (lm_Temp_derate (mt_limits ?m))" by simp
  have "fsub (Fin 90) ?t = fsub (Fin 90) (Fin 20)" by code_simp
  then have d: "fsub (lm_Temp_max (mt_limits ?m)) ?t = fsub (lm_Temp_max (mt_limits ?m)) (lm_Temp_derate (mt_limits ?m))"
    by (simp add: example_limits_def)
  show ?thesis by (rule derate_panic [OF _ b t c d]) (use a l in simp)
qed

section \<open>Backoff\<close>

fun trip_run :: "(u64 \<times> u32) list \<Rightarrow> mppt \<Rightarrow> mppt" where
  "trip_run [] m = m"
| "trip_run ((now, sec) # ts) m = trip_run ts (shutdownDcdc now sec m)"

lemma trip_run_backoff:
  assumes "list_all (\<lambda>(now, sec). now < mt_backoffUntil m \<and> sec \<le> mt_backoffArmed m) ts"
  shows "mt_backoffUntil (trip_run ts m) = mt_backoffUntil m \<and> mt_backoffArmed (trip_run ts m) = mt_backoffArmed m"
  using assms
proof (induction ts arbitrary: m)
  case (Cons t ts)
  obtain now sec where t: "t = (now, sec)" by force
  have "mt_backoffUntil (shutdownDcdc now sec m) = mt_backoffUntil m \<and> mt_backoffArmed (shutdownDcdc now sec m) = mt_backoffArmed m"
    using Cons.prems t by (auto simp: shutdownDcdc_def inBackoff_def Let_def)
  then show ?case using Cons.IH [of "shutdownDcdc now sec m"] Cons.prems t by simp
qed simp

text \<open>C32: a backoff expires. However often a persisting condition trips the protection again during the backoff,
  with the same or a shorter length, the deadline of the first trip stands, so the restart is blocked
  exactly until it has passed; a longer trip moves the deadline.\<close>
theorem backoff_expires:
  assumes "\<not> inBackoff t0 m" "s \<noteq> 0" "uint t0 < 2 ^ 63"
    "list_all (\<lambda>(now, sec). uint now < uint t0 + uint s * 1000000 \<and> sec \<le> s) ts"
  shows "(inBackoff now (trip_run ((t0, s) # ts) m) \<longleftrightarrow> uint now < uint t0 + uint s * 1000000) \<and>
    (s < s' \<longrightarrow> mt_backoffUntil (shutdownDcdc now s' (trip_run ((t0, s) # ts) m)) = now + ucast s' * 1000000)"
proof -
  let ?m1 = "shutdownDcdc t0 s m"
  have m1: "mt_backoffUntil ?m1 = t0 + ucast s * 1000000" "mt_backoffArmed ?m1 = s"
    using assms(1,2) by (simp_all add: shutdownDcdc_def inBackoff_def Let_def)
  have u: "uint (mt_backoffUntil ?m1) = uint t0 + uint s * 1000000" unfolding m1 by (rule backoff_deadline(1) [OF assms(2,3)])
  have "list_all (\<lambda>(now, sec). now < mt_backoffUntil ?m1 \<and> sec \<le> mt_backoffArmed ?m1) ts"
    using assms(4) unfolding word_less_def u m1(2) .
  from trip_run_backoff [OF this] have r: "mt_backoffUntil (trip_run ts ?m1) = mt_backoffUntil ?m1"
    "mt_backoffArmed (trip_run ts ?m1) = s" using m1(2) by simp_all
  have "mt_backoffUntil (shutdownDcdc now s' (trip_run ts ?m1)) = now + ucast s' * 1000000" if "s < s'"
  proof -
    have "s' \<noteq> 0" using that by (auto simp: word_less_nat_alt)
    then show ?thesis using that r(2) by (simp add: shutdownDcdc_def inBackoff_def Let_def)
  qed
  moreover have "inBackoff now (trip_run ts ?m1) \<longleftrightarrow> uint now < uint t0 + uint s * 1000000"
    unfolding inBackoff_def r(1) word_less_def u ..
  ultimately show ?thesis by simp
qed

lemma backoff_expires_witness:
  "inBackoff 5999999 (trip_run [(1000000, 5), (1200000, 5), (5900000, 4)] (example_mppt example_on)) \<and>
    \<not> inBackoff 6000000 (trip_run [(1000000, 5), (1200000, 5), (5900000, 4)] (example_mppt example_on))"
proof -
  let ?m = "example_mppt example_on" and ?ts = "[(1200000, 5), (5900000, 4)] :: (u64 \<times> u32) list"
  have a: "\<not> inBackoff 1000000 ?m" by (simp add: inBackoff_def example_mppt_def mppt_new_def)
  have b: "list_all (\<lambda>(now, sec). uint now < uint (1000000 :: u64) + uint (5 :: u32) * 1000000 \<and> sec \<le> 5) ?ts" by simp
  show ?thesis
    using backoff_expires [OF a _ _ b, of 5999999] backoff_expires [OF a _ _ b, of 6000000] by simp
qed

section \<open>Sweep\<close>

type_synonym sample = "fl \<times> fl \<times> conv"

fun sweep_run :: "sample list \<Rightarrow> mppt \<Rightarrow> mppt" where
  \<comment> \<open>the samples a sweep takes: power, input voltage and the converter at that time\<close>
  "sweep_run [] m = m"
| "sweep_run ((pw, vin, c) # xs) m = sweep_run xs (sweep_capture pw vin (m\<lparr>mt_conv := c\<rparr>))"

fun best_of :: "sample list \<Rightarrow> sweep_mpp \<Rightarrow> sweep_mpp" where
  "best_of [] b = b"
| "best_of ((pw, vin, c) # xs) b =
    best_of xs (if fgt pw (sm_power b) \<and> fge pw (Fin 5) then \<lparr>sm_power = pw, sm_voltage = vin, sm_duty = sc_pwmCtrl c\<rparr> else b)"

lemma sweep_run_mpp: "mt_mpp (sweep_run xs m) = best_of xs (mt_mpp m)"
  by (induction xs m rule: sweep_run.induct) (simp_all add: sweep_capture_def)

definition sample_power :: "sample \<Rightarrow> fl" where "sample_power s = fst s"

lemma best_of_max:
  assumes "\<not> isnan (sm_power b)" "flt (sm_power b) (Fin 5) \<or> fge (sm_power b) (Fin 5)"
  shows "fle (sm_power b) (sm_power (best_of xs b)) \<and>
    (\<forall>s \<in> set xs. fge (sample_power s) (Fin 5) \<longrightarrow> fle (sample_power s) (sm_power (best_of xs b))) \<and>
    (best_of xs b = b \<or> fge (sm_power (best_of xs b)) (Fin 5) \<and>
      (\<exists>(pw, vin, c) \<in> set xs. best_of xs b = \<lparr>sm_power = pw, sm_voltage = vin, sm_duty = sc_pwmCtrl c\<rparr>))"
  using assms
proof (induction xs arbitrary: b)
  case Nil
  then show ?case by (auto simp: fle_refl)
next
  case (Cons x xs)
  obtain pw vin c where x: "x = (pw, vin, c)" by (metis prod_cases3)
  let ?b = "if fgt pw (sm_power b) \<and> fge pw (Fin 5) then \<lparr>sm_power = pw, sm_voltage = vin, sm_duty = sc_pwmCtrl c\<rparr> else b"
  have n: "\<not> isnan (sm_power ?b)" using Cons.prems(1) flt_not_nan by auto
  have five: "flt (sm_power ?b) (Fin 5) \<or> fge (sm_power ?b) (Fin 5)" using Cons.prems(2) by auto
  note ih = Cons.IH [OF n five]
  have b: "fle (sm_power b) (sm_power ?b)" using Cons.prems(1) by (auto simp: fle_refl flt_imp_fle)
  have p: "fge pw (Fin 5) \<longrightarrow> fle pw (sm_power ?b)"
    using Cons.prems(1) not_flt_fle [of "sm_power b" pw] fle_not_nan by (auto simp: fle_refl)
  have e: "best_of (x # xs) b = best_of xs ?b" by (simp add: x)
  have "fle (sm_power b) (sm_power (best_of xs ?b))" using b ih fle_trans by blast
  moreover have "fge pw (Fin 5) \<longrightarrow> fle pw (sm_power (best_of xs ?b))" using p ih fle_trans by blast
  moreover have "best_of xs ?b = b \<or> fge (sm_power (best_of xs ?b)) (Fin 5) \<and>
      (\<exists>(pw, vin, c) \<in> set (x # xs). best_of xs ?b = \<lparr>sm_power = pw, sm_voltage = vin, sm_duty = sc_pwmCtrl c\<rparr>)"
  proof (cases "best_of xs ?b = ?b")
    case True
    show ?thesis unfolding True using x by auto
  next
    case False
    then show ?thesis using ih by auto
  qed
  ultimately show ?case unfolding e using ih x by (auto simp: sample_power_def)
qed



section \<open>Manual mode\<close>

fun manual_run :: "inputs list \<Rightarrow> mppt \<Rightarrow> mppt res" where
  "manual_run [] m = Inr m"
| "manual_run (i # is) m = bindE (updateManual i m) (manual_run is)"

lemma sd_write_same [simp]: "sc_pwmCtrl (sd_write b s) = sc_pwmCtrl s" "sc_ctrlMax (sd_write b s) = sc_ctrlMax s"
  "sc_driverPwmMax (sd_write b s) = sc_driverPwmMax s"
  by (simp_all add: sd_write_def sc_gate_def)

lemma perturb_config:
  assumes "sc_perturb d s = Inr t" "conv_cfg s"
  shows "sc_ctrlMax t = sc_ctrlMax s \<and> sc_driverPwmMax t = sc_driverPwmMax s"
proof -
  let ?b = "if sc_disabled s \<and> d > 0 then sd_write False s else s"
  obtain s3 en ld where s3: "same_frame (?b\<lparr>sc_pwmCtrl := ctrl_next d s\<rparr>) s3" "t = drv_commit en ld d s3"
    using perturb_ok [OF assms] by blast
  have "sc_ctrlMax ?b = sc_ctrlMax s \<and> sc_driverPwmMax ?b = sc_driverPwmMax s" by simp
  then show ?thesis using s3 by (simp add: same_frame_def drv_commit_def sc_gate_def)
qed

lemma enableRect_config [simp]:
  "sc_pwmCtrl (sc_enableSyncRect e b s) = sc_pwmCtrl s" "sc_ctrlMax (sc_enableSyncRect e b s) = sc_ctrlMax s"
  "sc_driverPwmMax (sc_enableSyncRect e b s) = sc_driverPwmMax s"
  by (simp_all add: sc_enableSyncRect_def sc_syncRectMinDuty_def drv_commitLsOff_def sc_gate_def Let_def)

definition manual_gap :: "mppt \<Rightarrow> int" where
  "manual_gap m = \<bar>uint (mt_manualTarget m) - uint (sc_pwmCtrl (mt_conv m))\<bar>"

definition manual_ready :: "int \<Rightarrow> mppt \<Rightarrow> bool" where
  \<comment> \<open>a configured converter and a target within its duty range; \<open>n\<close> is the ramp step\<close>
  "manual_ready n m = (conv_inv (mt_conv m) \<and> ramp_step (mt_conv m) = Inr n \<and> mt_manualTarget m \<noteq> 0 \<and>
     uint (mt_manualTarget m) \<le> uint (sc_ctrlMax (mt_conv m)))"

lemma ramp_arith:
  "0 \<le> c \<Longrightarrow> c \<le> m \<Longrightarrow> 0 < t \<Longrightarrow> t \<le> m \<Longrightarrow> 1 \<le> n \<Longrightarrow>
   \<bar>t - constrain (c + constrain (t - c) (- n) n) 1 m\<bar> = max 0 (\<bar>t - c\<bar> - n)"
  by (auto simp: constrain_def)

lemma ramp_next:
  assumes "conv_cfg s" "0 < t" "t \<le> uint (sc_ctrlMax s)" "1 \<le> n" "d = constrain (t - uint (sc_pwmCtrl s)) (- n) n"
    "uint (sc_pwmCtrl s) \<le> uint (sc_ctrlMax s)"
  shows "\<bar>t - uint (ctrl_next d s)\<bar> = max 0 (\<bar>t - uint (sc_pwmCtrl s)\<bar> - n)"
  using ctrl_next_range [OF assms(1), of d] ramp_arith [OF uint_u16_range(1) assms(6) assms(2-4)] assms(5) by simp

lemma manual_tick:
  assumes "manual_ready n m" "\<not> inBackoff (in_now i) m"
  shows "\<exists>m'. updateManual i m = Inr m' \<and> manual_ready n m' \<and> mt_manualTarget m' = mt_manualTarget m \<and>
    mt_backoffUntil m' = mt_backoffUntil m \<and> manual_gap m' = max 0 (manual_gap m - n)"
proof -
  let ?m1 = "m\<lparr>mt_lastUs := in_now i, mt_mode := MNone\<rparr>"
  define m2 where "m2 = (if conv_off ?m1 \<and> \<not> lm_paranoia (mt_limits ?m1)
    then bf_set True (on_conv (sc_enableSyncRect True False) ?m1) else ?m1)"
  define st where "st = constrain (uint (mt_manualTarget m2) - uint (sc_pwmCtrl (mt_conv m2))) (- n) n"
  let ?t = "uint (mt_manualTarget m)" and ?c = "uint (sc_pwmCtrl (mt_conv m))"
  have r: "ramp_step (mt_conv m) = Inr n" "1 \<le> n" using assms(1) ramp_step_range by (auto simp: manual_ready_def)
  have m2: "mt_manualTarget m2 = mt_manualTarget m" "mt_backoffUntil m2 = mt_backoffUntil m"
    "sc_pwmCtrl (mt_conv m2) = sc_pwmCtrl (mt_conv m)" "sc_ctrlMax (mt_conv m2) = sc_ctrlMax (mt_conv m)"
    "sc_driverPwmMax (mt_conv m2) = sc_driverPwmMax (mt_conv m)" by (simp_all add: m2_def)
  have "keeps (mt_conv m) (mt_conv m2)" by (simp add: m2_def)
  then have i2: "conv_inv (mt_conv m2)" using assms(1) by (simp add: keeps_def manual_ready_def)
  then have cfg: "conv_cfg (mt_conv m2)" "?c \<le> uint (sc_ctrlMax (mt_conv m2))" "num_inv (mt_conv m2)"
    using m2 by (auto simp: conv_inv_def conv_ok_def duty_inv_def)
  have t0: "0 < ?t" "?t \<le> uint (sc_ctrlMax (mt_conv m2))"
    using assms(1) m2 by (auto simp: manual_ready_def u16_zero_iff order.strict_iff_order)
  have u: "updateManual i m = (if st \<noteq> 0 then on_convE (sc_perturb st) m2 else Inr m2)"
    using assms r(1) unfolding updateManual_def Let_def st_def m2_def by (simp add: manual_ready_def inBackoff_def)
  show ?thesis
  proof (cases "st = 0")
    case True
    have "?t = ?c" using True r(2) unfolding st_def m2 constrain_def by (auto split: if_splits)
    then show ?thesis using u True m2 i2 assms(1) r
      by (auto simp: manual_ready_def manual_gap_def ramp_step_def)
  next
    case False
    obtain c' where c': "sc_perturb st (mt_conv m2) = Inr c'" using perturb_num [OF cfg(3)] by blast
    let ?m' = "m2\<lparr>mt_conv := c'\<rparr>"
    have g: "updateManual i m = Inr ?m'" using u False c' by simp
    have k: "keeps (mt_conv m) (mt_conv ?m')" using updateManual_keep [OF g] .
    have n: "sc_pwmCtrl c' = ctrl_next st (mt_conv m2)" using perturb_step [OF c' cfg(1)] by simp
    have f: "sc_ctrlMax c' = sc_ctrlMax (mt_conv m)" "sc_driverPwmMax c' = sc_driverPwmMax (mt_conv m)"
      using perturb_config [OF c' cfg(1)] m2 by simp_all
    have "manual_gap ?m' = max 0 (manual_gap m - n)"
      using ramp_next [OF cfg(1) t0 r(2), of st] cfg(2) unfolding manual_gap_def st_def m2 by (simp add: n m2 st_def)
    then show ?thesis using g k f m2 assms(1)
      by (intro exI [of _ ?m']) (simp add: manual_ready_def keeps_def ramp_step_def)
  qed
qed



end
