(* ===== verification/SamplerProps.thy ===== *)
theory SamplerProps
  imports RtLoop
begin

text \<open>
  What the sampler guarantees: which fields an operation leaves alone, the channel a muxed ADC has
  selected, the results it reports to the real-time loop and the offset calibration.
\<close>

section \<open>Frames\<close>

definition sa_frame :: "sampler \<Rightarrow> sampler \<Rightarrow> bool" where
  \<comment> \<open>the wiring is untouched\<close>
  "sa_frame s s' =
    (sa_adcs s' = sa_adcs s \<and> map se_params (sa_sensors s') = map se_params (sa_sensors s) \<and>
     sa_real s' = sa_real s \<and> sa_virtual s' = sa_virtual s \<and> sa_halted s' = sa_halted s \<and> sa_ignore s' = sa_ignore s)"

lemma sa_frame_refl [simp]: "sa_frame s s"
  by (simp add: sa_frame_def)

lemma sa_frame_trans: "sa_frame s t \<Longrightarrow> sa_frame t u \<Longrightarrow> sa_frame s u"
  by (simp add: sa_frame_def)

lemma map_params_set [simp]:
  "se_params x = se_params (xs ! i) \<Longrightarrow> map se_params (xs[i := x]) = map se_params xs"
  by (cases "i < length xs") (auto simp: map_update list_update_same_conv list_update_beyond)

lemma sa_frame_length: "sa_frame s s' \<Longrightarrow> length (sa_sensors s') = length (sa_sensors s)"
  by (metis sa_frame_def length_map)

lemma sa_frame_params:
  assumes "sa_frame s s'" "i < length (sa_sensors s)"
  shows "se_params (sensor_at s' i) = se_params (sensor_at s i)"
  using assms sa_frame_length [OF assms(1)] by (metis sa_frame_def nth_map)

lemma sensor_reset_params [simp]: "se_params (sensor_reset b x) = se_params x"
  by (simp add: sensor_reset_def Let_def)

lemma filter_stages_params [simp]:
  "filter_stages d k v x = (v2, y) \<Longrightarrow> se_params y = se_params x \<and> se_numSamples y = se_numSamples x
    \<and> se_calibBuffer y = se_calibBuffer x \<and> se_calibrationAvg y = se_calibrationAvg x \<and> se_last y = se_last x
    \<and> se_adc y = se_adc x \<and> se_isVirtual y = se_isVirtual x"
  by (auto simp: filter_stages_def notch_stage_def despike_def Let_def split: prod.splits option.splits if_splits)

lemma add_sample_frame:
  assumes "add_sample d k an v x = Inr y"
  shows "se_params y = se_params x" "se_numSamples y = se_numSamples x + 1"
    "se_calibBuffer y = se_calibBuffer x" "se_calibrationAvg y = se_calibrationAvg x"
    "se_last y = sample_value v x" "se_isVirtual y = se_isVirtual x"
  using assms
  by (auto simp: add_sample_def Let_def bindE_Inr_iff split: prod.splits dest!: filter_stages_params)

lemma calib_round_frame: "calib_round now i s = Inr (r, s') \<Longrightarrow> sa_frame s s'"
  by (auto simp: calib_round_def sa_frame_def macc_pop_def Let_def split: if_splits)

lemma handleSensorCalib_frame: "handleSensorCalib now i s = Inr (r, s') \<Longrightarrow> sa_frame s s'"
  by (auto simp: handleSensorCalib_def bindE_Inr_iff Let_def split: if_splits dest!: calib_round_frame)
    (auto simp: sa_frame_def)

lemma addSensorSample_frame: "addSensorSample d now i v s = Inr (r, s') \<Longrightarrow> sa_frame s s'"
  by (auto simp: addSensorSample_def bindE_Inr_iff Let_def add_sample_frame(1) split: if_splits
      dest!: handleSensorCalib_frame) (auto simp: sa_frame_def add_sample_frame(1))

section \<open>What calibration does to one sensor\<close>

definition calibrated :: "fl \<Rightarrow> sensor \<Rightarrow> sensor" where
  \<comment> \<open>a sensor after a round that passed\<close>
  "calibrated avg x = sensor_reset False (x\<lparr>se_calibBuffer := macc_clear, se_calibrationAvg := avg\<rparr>)"

lemma calibrated_fields [simp]:
  "se_params (calibrated avg x) = se_params x" "se_calibrationAvg (calibrated avg x) = avg"
  "se_calibBuffer (calibrated avg x) = macc_clear" "se_numSamples (calibrated avg x) = 0"
  by (simp_all add: calibrated_def sensor_reset_def Let_def)

lemma bad_buffer [simp]:
  "abs_bad avg (x\<lparr>se_calibBuffer := b\<rparr>) = abs_bad avg x"
  "std_bad avg std (x\<lparr>se_calibBuffer := b\<rparr>) = std_bad avg std x"
  by (simp_all add: abs_bad_def std_bad_def)

lemma handleSensorCalib_cases:
  assumes "handleSensorCalib now i s = Inr (r, s')" "i < length (sa_sensors s)"
  obtains
    (idle) "r = NoNewData" "s' = s" "sa_calibrating s = 0 \<or> se_numSamples (sensor_at s i) < 100"
  | (collect) b where "macc_add (se_last (sensor_at s i)) (se_calibBuffer (sensor_at s i)) = Inr b" "\<not> 100 < ma_num b"
      "r = NoNewData" "s' = set_sensor i ((sensor_at s i)\<lparr>se_calibBuffer := b\<rparr>) s"
      "sa_calibrating s \<noteq> 0" "100 \<le> se_numSamples (sensor_at s i)"
  | (fail) "r = CalibFailure" "s' = (set_sensor i ((sensor_at s i)\<lparr>se_calibBuffer := macc_clear\<rparr>) s)\<lparr>sa_calibrating := 0\<rparr>"
  | (pass) b lc where "macc_add (se_last (sensor_at s i)) (se_calibBuffer (sensor_at s i)) = Inr b" "100 < ma_num b"
      "sa_ignore s \<or> \<not> abs_bad (macc_mean b) (sensor_at s i)" "100 \<le> se_numSamples (sensor_at s i)"
      "s' = (set_sensor i (calibrated (macc_mean b) (sensor_at s i)) s)
         \<lparr>sa_calibrating := sa_calibrating s - 1, sa_lastCalib := lc\<rparr>"
      "sa_calibrating s \<noteq> 0" "unat (sa_calibrating s - 1) < length (sa_real s)"
      "r = (if sa_calibrating s - 1 = 0 then Calibrating else NoNewData)"
proof (cases "sa_calibrating s \<noteq> 0 \<and> 100 \<le> se_numSamples (sensor_at s i)")
  case False
  then have "r = NoNewData \<and> s' = s" using assms(1) unfolding handleSensorCalib_def by (simp only: if_False) simp
  then show thesis using False idle by (auto simp: not_le)
next
  case True
  then obtain b where b: "macc_add (se_last (sensor_at s i)) (se_calibBuffer (sensor_at s i)) = Inr b"
    using assms by (auto simp: handleSensorCalib_def bindE_Inr_iff)
  let ?s1 = "set_sensor i ((sensor_at s i)\<lparr>se_calibBuffer := b\<rparr>) s"
  have h: "(if 100 < ma_num b then calib_round now i ?s1 else Inr (NoNewData, ?s1)) = Inr (r, s')"
    using assms True b by (simp add: handleSensorCalib_def Let_def split del: if_split)
  show thesis
  proof (cases "100 < ma_num b")
    case False
    then show thesis using collect [OF b] h True by simp
  next
    case full: True
    have "calib_round now i ?s1 = Inr (r, s')" using h full by simp
    then show thesis
      using assms(2) True fail pass [OF b full, of "if sa_calibrating s = 1 then now else sa_lastCalib s"]
      by (auto simp: calib_round_def macc_pop_def Let_def calibrated_def split: if_splits)
  qed
qed

lemma addSensorSample_cases:
  assumes "addSensorSample d now i v s = Inr (r, s')"
  obtains (nan) "isnan v" "r = CalibFailure" "s' = s"
  | (add) x rp where "\<not> isnan v" "add_sample d (sa_despikeK s) (sa_anfEnabled s) v (sensor_at s i) = Inr x"
      "handleSensorCalib now i ((set_sensor i x s)\<lparr>sa_ripple := rp\<rparr>) = Inr (r, s')"
proof (cases "isnan v")
  case True
  then show thesis using assms nan by (simp add: addSensorSample_def)
next
  case False
  then obtain x where x: "add_sample d (sa_despikeK s) (sa_anfEnabled s) v (sensor_at s i) = Inr x"
    using assms by (auto simp: addSensorSample_def bindE_Inr_iff)
  have same: "(set_sensor i x s)\<lparr>sa_ripple := sa_ripple s\<rparr> = set_sensor i x s" by simp
  show thesis
  proof (cases "sa_notchAdaptive s \<and> sa_rippleSrc s = Some i \<and> ripple_configured (sa_ripple s)")
    case True
    then show thesis using assms False x add [OF False x, of "ripple_push (dsp_sqrt d) (se_last x) (sa_ripple s)"]
      by (simp add: addSensorSample_def)
  next
    case c: False
    have "handleSensorCalib now i (set_sensor i x s) = Inr (r, s')"
      using assms False x c by (auto simp: addSensorSample_def Let_def split: if_splits)
    then show thesis using add [OF False x, of "sa_ripple s"] unfolding same by blast
  qed
qed

lemma read_one_frame: "read_one d now k v (r0, s) = Inr (r, s') \<Longrightarrow> sa_frame s s'"
  by (auto simp: read_one_def bindE_Inr_iff split: option.splits dest: addSensorSample_frame)

section \<open>Steps of the sampler\<close>

inductive sampler_step :: "sampler \<Rightarrow> sampler \<Rightarrow> bool" where
  update: "sampler_update d now inp s = Inr (r, s') \<Longrightarrow> sampler_step s s'"
| start: "sampler_step s (startCalibration s)"
| cancel: "sampler_step s (cancelCalibration s)"

inductive sampler_reach :: "sampler \<Rightarrow> sampler \<Rightarrow> bool" where
  refl [intro]: "sampler_reach s s"
| step: "sampler_reach s t \<Longrightarrow> sampler_step t u \<Longrightarrow> sampler_reach s u"

inductive_cases sampler_stepE: "sampler_step s s'"

section \<open>Invariants of the sampler\<close>

text \<open>
  What the parts of an update must respect for a predicate on the sampler to hold in every reachable state.
\<close>

locale sampler_inv =
  fixes inv :: "sampler \<Rightarrow> bool"
  assumes sample: "add_sample d kk an v (sensor_at s i) = Inr x \<Longrightarrow> inv s \<Longrightarrow> inv (set_sensor i x s)"
    and calib: "handleSensorCalib now i s = Inr (r, s') \<Longrightarrow> inv s \<Longrightarrow> inv s'"
    and retune: "retuneNotch d f q g (sensor_at s i) = Inr x \<Longrightarrow> inv s \<Longrightarrow> inv (set_sensor i x s)"
    and select: "as_mode (sa_adcs s ! k) \<noteq> MuxedRoundRobin \<Longrightarrow> inv s \<Longrightarrow> inv (startReading k ch s)"
    and advance: "unat (as_pos (sa_adcs s ! k)) < length (as_order (sa_adcs s ! k)) \<Longrightarrow> inv s \<Longrightarrow> inv (cycle_advance k s)"
    and ripple: "inv s \<Longrightarrow> inv (s\<lparr>sa_ripple := rp\<rparr>)"
    and tuned: "inv s \<Longrightarrow> inv (s\<lparr>sa_notchFreq := t\<rparr>)"
    and snr: "inv s \<Longrightarrow> inv (s\<lparr>sa_rippleSnr := t\<rparr>)"
    and warn: "inv s \<Longrightarrow> inv (s\<lparr>sa_warnDiv := n\<rparr>)"
    and trips: "inv s \<Longrightarrow> inv (s\<lparr>sa_tripsPrev := n\<rparr>)"
    and start: "inv s \<Longrightarrow> inv (startCalibration s)"
    and cancel: "inv s \<Longrightarrow> inv (cancelCalibration s)"
begin

lemma addSensorSample_inv:
  assumes h: "addSensorSample d now i v s = Inr (r, s')" and a: "inv s"
  shows "inv s'"
  using h
proof (cases rule: addSensorSample_cases)
  case (add x rp)
  show ?thesis by (rule calib [OF add(3) ripple [OF sample [OF add(2) a]]])
qed (use a in simp)

lemma read_one_inv: "read_one d now k v (r0, s) = Inr (r, s') \<Longrightarrow> inv s \<Longrightarrow> inv s'"
  by (auto simp: read_one_def bindE_Inr_iff split: option.splits dest: addSensorSample_inv)

lemma read_stream_inv: "read_stream d now k xs (r0, s) = Inr (r, s') \<Longrightarrow> inv s \<Longrightarrow> inv s'"
proof (induction xs arbitrary: r0 s)
  case (Cons x xs)
  then show ?case by (cases x) (fastforce simp: bindE_Inr_iff Let_def split: if_splits dest: read_one_inv)
qed simp

lemma read_snapshot_inv:
  "read_snapshot d now k get is (r0, s) = Inr (r, s') \<Longrightarrow> as_mode (sa_adcs s ! k) \<noteq> MuxedRoundRobin \<Longrightarrow> inv s \<Longrightarrow> inv s'"
proof (induction "is" arbitrary: r0 s)
  case (Cons i js)
  show ?case
  proof (cases "as_byCh (sa_adcs s ! k) ! i")
    case None
    then show ?thesis using Cons by simp
  next
    case (Some n)
    then obtain r1 s1 where one: "read_one d now (Some n) (get (of_nat i)) (r0, startReading k (of_nat i) s) = Inr (r1, s1)"
      and rest: "read_snapshot d now k get js (r1, s1) = Inr (r, s')"
      using Cons.prems by (auto simp: bindE_Inr_iff)
    have "as_mode (sa_adcs (startReading k (of_nat i) s) ! k) = as_mode (sa_adcs s ! k)"
      by (cases "k < length (sa_adcs s)") (simp_all add: list_update_beyond)
    moreover have "sa_adcs s1 = sa_adcs (startReading k (of_nat i) s)" using read_one_frame [OF one] by (simp add: sa_frame_def)
    ultimately have "as_mode (sa_adcs s1 ! k) \<noteq> MuxedRoundRobin" using Cons.prems(2) by metis
    then show ?thesis using Cons.IH [OF rest] read_one_inv [OF one] select [OF Cons.prems(2,3)] by blast
  qed
qed simp

lemma read_muxed_inv: "read_muxed d now k get s = Inr (r, s') \<Longrightarrow> inv s \<Longrightarrow> inv s'"
  by (auto simp: read_muxed_def Let_def not_le split: option.splits if_splits dest!: addSensorSample_inv intro: advance)

lemma updateAdc_inv: "updateAdc d now inp k s = Inr (r, s') \<Longrightarrow> inv s \<Longrightarrow> inv s'"
  by (auto simp: updateAdc_def bindE_Inr_iff Let_def split: if_splits
      dest: read_stream_inv read_snapshot_inv read_muxed_inv)

lemma updateAdcs_inv: "updateAdcs d now inp ks (r0, v0, s) = Inr (r, v, s') \<Longrightarrow> inv s \<Longrightarrow> inv s'"
  by (induction ks arbitrary: r0 v0 s) (auto simp: bindE_Inr_iff dest: updateAdc_inv)

lemma updateVirtuals_inv: "updateVirtuals d vs s = Inr s' \<Longrightarrow> inv s \<Longrightarrow> inv s'"
proof (induction vs arbitrary: s)
  case (Cons v vs)
  then show ?case by (cases v) (auto simp: bindE_Inr_iff intro: sample)
qed simp

lemma retune_all_inv: "retune_all d f is s = Inr s' \<Longrightarrow> inv s \<Longrightarrow> inv s'"
  by (induction "is" arbitrary: s) (auto simp: bindE_Inr_iff intro: retune)

lemma autotune_inv: "autotune d s = Inr s' \<Longrightarrow> inv s \<Longrightarrow> inv s'"
  by (auto simp: autotune_def tune_to_def Let_def ripple_poll_def split: if_splits
      dest!: retune_all_inv intro: ripple tuned snr)

lemma despikeWarnTick_inv: "inv s \<Longrightarrow> inv (despikeWarnTick s)"
  by (auto simp: despikeWarnTick_def Let_def intro: warn trips [OF warn])

lemma update_inv: "sampler_update d now inp s = Inr (r, s') \<Longrightarrow> inv s \<Longrightarrow> inv s'"
  by (auto simp: sampler_update_def bindE_Inr_iff split: if_splits
      dest!: updateAdcs_inv updateVirtuals_inv autotune_inv intro: despikeWarnTick_inv)

lemma step_inv: "sampler_step s s' \<Longrightarrow> inv s \<Longrightarrow> inv s'"
  by (auto elim!: sampler_stepE intro: update_inv start cancel)

lemma reach_inv: "sampler_reach s s' \<Longrightarrow> inv s \<Longrightarrow> inv s'"
  by (induction rule: sampler_reach.induct) (auto intro: step_inv)

end

section \<open>An invariant of every sensor\<close>

text \<open>
  What a sensor operation must respect for a predicate on sensors to hold of all of them.
  \<open>ign\<close> is whether the calibration constraints may be ignored.
\<close>

locale sensor_inv =
  fixes ok :: "sensor \<Rightarrow> bool" and ign :: bool
  assumes one_sample: "add_sample d k an v x = Inr y \<Longrightarrow> ok x \<Longrightarrow> ok y"
    and one_reset: "ok x \<Longrightarrow> ok (sensor_reset c x)"
    and one_retune: "retuneNotch d f q g x = Inr y \<Longrightarrow> ok x \<Longrightarrow> ok y"
    and one_buffer: "macc_add v (se_calibBuffer x) = Inr b \<Longrightarrow> \<not> 100 < ma_num b \<Longrightarrow> ok x \<Longrightarrow> ok (x\<lparr>se_calibBuffer := b\<rparr>)"
    and one_cleared: "ok x \<Longrightarrow> ok (x\<lparr>se_calibBuffer := macc_clear\<rparr>)"
    and one_round: "ok x \<Longrightarrow> ign \<or> \<not> abs_bad avg x \<Longrightarrow>
      ok (sensor_reset False (x\<lparr>se_calibBuffer := macc_clear, se_calibrationAvg := avg\<rparr>))"
begin

definition all_ok :: "sampler \<Rightarrow> bool" where
  "all_ok s = ((sa_ignore s \<longrightarrow> ign) \<and> (\<forall>x\<in>set (sa_sensors s). ok x))"

lemma all_ok_set: "all_ok s \<Longrightarrow> (i < length (sa_sensors s) \<Longrightarrow> ok x) \<Longrightarrow> all_ok (set_sensor i x s)"
proof -
  assume a: "all_ok s" and x: "i < length (sa_sensors s) \<Longrightarrow> ok x"
  have "ok y" if "y \<in> set ((sa_sensors s)[i := x])" for y
  proof (cases "i < length (sa_sensors s)")
    case True
    then show ?thesis using that a x set_update_subset_insert [of "sa_sensors s" i x] by (auto simp: all_ok_def)
  next
    case False
    then show ?thesis using that a by (auto simp: all_ok_def list_update_beyond)
  qed
  then show "all_ok (set_sensor i x s)" using a by (auto simp: all_ok_def)
qed

lemma all_ok_at: "all_ok s \<Longrightarrow> i < length (sa_sensors s) \<Longrightarrow> ok (sensor_at s i)"
  by (simp add: all_ok_def)

lemma all_ok_fields:
  "all_ok s \<Longrightarrow> sa_sensors s' = sa_sensors s \<Longrightarrow> sa_ignore s' = sa_ignore s \<Longrightarrow> all_ok s'"
  by (simp add: all_ok_def)

lemma handleSensorCalib_ok:
  assumes h: "handleSensorCalib now i s = Inr (r, s')" and a: "all_ok s"
  shows "all_ok s'"
proof (cases "i < length (sa_sensors s)")
  case False
  have "sa_sensors s' = sa_sensors s \<and> sa_ignore s' = sa_ignore s"
    using h False by (auto simp: handleSensorCalib_def calib_round_def bindE_Inr_iff Let_def list_update_beyond
        split: if_splits prod.splits)
  then show ?thesis using a by (auto intro: all_ok_fields)
next
  case True
  have x: "ok (sensor_at s i)" using a True by (rule all_ok_at)
  show ?thesis using h True
  proof (cases rule: handleSensorCalib_cases)
    case (collect b)
    then show ?thesis using one_buffer [OF collect(1,2) x] all_ok_set [OF a] by simp
  next
    case fail
    then show ?thesis using all_ok_set [OF a one_cleared [OF x]] by (simp add: all_ok_def)
  next
    case (pass b lc)
    then have "ok (calibrated (macc_mean b) (sensor_at s i))"
      using a unfolding calibrated_def by (intro one_round x) (auto simp: all_ok_def)
    then show ?thesis using all_ok_set [OF a] pass by (simp add: all_ok_def)
  qed (use a in simp)
qed

end

sublocale sensor_inv \<subseteq> sampler_inv all_ok
proof unfold_locales
  fix s :: sampler assume a: "all_ok s"
  show "add_sample d k an v (sensor_at s i) = Inr x \<Longrightarrow> all_ok (set_sensor i x s)" for d k an v i x
    using all_ok_set [OF a] one_sample all_ok_at [OF a] by blast
  show "handleSensorCalib now i s = Inr (r, s') \<Longrightarrow> all_ok s'" for now i r s'
    using handleSensorCalib_ok a by blast
  show "retuneNotch d f q g (sensor_at s i) = Inr x \<Longrightarrow> all_ok (set_sensor i x s)" for d f q g i x
    using all_ok_set [OF a] one_retune all_ok_at [OF a] by blast
qed (auto simp: all_ok_def cycle_advance_def startCalibration_def cancelCalibration_def Let_def intro: one_reset)

section \<open>The offset stays within its constraint\<close>

definition offset_ok :: "sensor \<Rightarrow> bool" where
  "offset_ok x =
    (\<not> flt (sp_maxAbsValue (se_params x)) (Fin 0) \<and> isfinite (se_calibrationAvg x) \<and>
     \<not> fgt (fabs (se_calibrationAvg x)) (sp_maxAbsValue (se_params x)))"

lemma retuneNotch_fields:
  assumes "retuneNotch d f q g x = Inr y"
  shows "se_params y = se_params x" "se_calibBuffer y = se_calibBuffer x" "se_calibrationAvg y = se_calibrationAvg x"
    "se_numSamples y = se_numSamples x" "se_isVirtual y = se_isVirtual x"
  using assms by (auto simp: retuneNotch_def Let_def bindE_Inr_iff split: if_splits)

interpretation offset: sensor_inv offset_ok False
proof unfold_locales
  show "add_sample d k an v x = Inr y \<Longrightarrow> offset_ok x \<Longrightarrow> offset_ok y" for d k an v x y
    by (simp add: offset_ok_def add_sample_frame)
  show "offset_ok x \<Longrightarrow> offset_ok (sensor_reset c x)" for c x
    by (auto simp: offset_ok_def sensor_reset_def Let_def)
  show "retuneNotch d f q g x = Inr y \<Longrightarrow> offset_ok x \<Longrightarrow> offset_ok y" for d f q g x y
    by (simp add: offset_ok_def retuneNotch_fields)
qed (auto simp: offset_ok_def abs_bad_def sensor_reset_def Let_def)

section \<open>The calibration buffer never overflows\<close>

definition buffer_ok :: "sensor \<Rightarrow> bool" where
  "buffer_ok x = (ma_num (se_calibBuffer x) \<le> 100)"

interpretation buffer: sensor_inv buffer_ok True
proof unfold_locales
  show "add_sample d k an v x = Inr y \<Longrightarrow> buffer_ok x \<Longrightarrow> buffer_ok y" for d k an v x y
    by (simp add: buffer_ok_def add_sample_frame)
  show "buffer_ok x \<Longrightarrow> buffer_ok (sensor_reset c x)" for c x
    by (auto simp: buffer_ok_def sensor_reset_def Let_def macc_clear_def)
  show "retuneNotch d f q g x = Inr y \<Longrightarrow> buffer_ok x \<Longrightarrow> buffer_ok y" for d f q g x y
    by (simp add: buffer_ok_def retuneNotch_fields)
qed (auto simp: buffer_ok_def sensor_reset_def Let_def macc_clear_def not_less)

lemma macc_add_small: "ma_num m \<le> 100 \<Longrightarrow> \<exists>b. macc_add x m = Inr b"
  using macc_add_ok [of x m] by (simp add: word_le_def)

section \<open>The calibration counter\<close>

definition count_ok :: "sampler \<Rightarrow> bool" where
  "count_ok s = (unat (sa_calibrating s) \<le> length (sa_real s))"

lemma u8_pred: "c \<noteq> 0 \<Longrightarrow> unat (c - 1 :: u8) = unat c - 1"
  by (simp add: unat_minus_one)

lemma count_ok_start: "count_ok (startCalibration s)"
  by (simp add: count_ok_def startCalibration_def unat_of_nat)

lemma handleSensorCalib_total:
  assumes "count_ok s" "buffer_ok (sensor_at s i)" "i < length (sa_sensors s)"
  shows "\<exists>r s'. handleSensorCalib now i s = Inr (r, s')"
proof -
  obtain b where b: "macc_add (se_last (sensor_at s i)) (se_calibBuffer (sensor_at s i)) = Inr b"
    using macc_add_small assms(2) unfolding buffer_ok_def by blast
  have lt: "unat (sa_calibrating s - 1) < length (sa_real s)" if "sa_calibrating s \<noteq> 0"
  proof -
    have "unat (sa_calibrating s) \<noteq> 0" using that by (simp add: unat_eq_0)
    then show ?thesis using assms(1) u8_pred [OF that] by (simp add: count_ok_def)
  qed
  show ?thesis
    using b lt assms(3) by (auto simp: handleSensorCalib_def calib_round_def macc_pop_def Let_def)
qed

lemma handleSensorCalib_count:
  assumes "handleSensorCalib now i s = Inr (r, s')" "count_ok s"
  shows "count_ok s'"
proof -
  have "unat (sa_calibrating s - 1) \<le> length (sa_real s)" if "sa_calibrating s \<noteq> 0"
    using assms(2) u8_pred [OF that] by (simp add: count_ok_def)
  then show ?thesis using assms
    by (auto simp: handleSensorCalib_def calib_round_def bindE_Inr_iff macc_pop_def Let_def count_ok_def Suc_le_eq split: if_splits)
qed

lemma add_sample_set_frame: "add_sample d k an v (sensor_at s i) = Inr x \<Longrightarrow> sa_frame s (set_sensor i x s)"
  by (simp add: sa_frame_def add_sample_frame(1))

lemma retuneNotch_set_frame: "retuneNotch d f q g (sensor_at s i) = Inr x \<Longrightarrow> sa_frame s (set_sensor i x s)"
  by (simp add: sa_frame_def retuneNotch_fields(1))

lemma startCalibration_frame: "sa_frame s (startCalibration s)" "sa_frame s (cancelCalibration s)"
  by (simp_all add: sa_frame_def startCalibration_def cancelCalibration_def comp_def)

interpretation calib_count: sampler_inv count_ok
proof unfold_locales
  show "count_ok s \<Longrightarrow> count_ok (cancelCalibration s)" for s
    by (simp add: count_ok_def cancelCalibration_def)
qed (erule (1) handleSensorCalib_count | rule count_ok_start | simp add: count_ok_def cycle_advance_def Let_def)+

section \<open>The channel a muxed ADC converts\<close>

definition mux_ready :: "sampler \<Rightarrow> adc_state \<Rightarrow> bool" where
  \<comment> \<open>the channel selected is the one of the sensor that gets the next sample\<close>
  "mux_ready s a =
    (unat (as_pos a) < length (as_order a) \<and> length (as_order a) \<le> 256 \<and>
     (\<forall>j\<in>set (as_order a). as_cycle a ! unat j < length (sa_sensors s)) \<and>
     as_selected a = Some (sp_adcCh (se_params (sensor_at s (cycle_sensor a)))))"

definition mux_ok :: "sampler \<Rightarrow> bool" where
  "mux_ok s = (\<forall>a\<in>set (sa_adcs s). as_mode a = MuxedRoundRobin \<longrightarrow> mux_ready s a)"

lemma mux_ready_frame:
  assumes "sa_frame s s'" "mux_ready s a"
  shows "mux_ready s' a"
proof -
  have "cycle_sensor a < length (sa_sensors s)"
    using assms(2) by (auto simp: mux_ready_def cycle_sensor_def)
  then show ?thesis
    using assms sa_frame_length [OF assms(1)] sa_frame_params [OF assms(1)] by (auto simp: mux_ready_def)
qed

lemma mux_ok_frame: "sa_frame s s' \<Longrightarrow> mux_ok s \<Longrightarrow> mux_ok s'"
  using mux_ready_frame by (auto simp: mux_ok_def sa_frame_def)

lemma mux_ok_adc:
  assumes "mux_ok s" "as_mode a = MuxedRoundRobin \<Longrightarrow> k < length (sa_adcs s) \<Longrightarrow> mux_ready s a"
  shows "mux_ok (on_adc k (\<lambda>_. a) s)"
proof -
  have fields: "mux_ready (on_adc k (\<lambda>_. a) s) b = mux_ready s b" for b by (simp add: mux_ready_def)
  have "mux_ready s b" if "b \<in> set ((sa_adcs s)[k := a])" "as_mode b = MuxedRoundRobin" for b
  proof (cases "k < length (sa_adcs s)")
    case True
    then show ?thesis using that assms set_update_subset_insert [of "sa_adcs s" k a] by (auto simp: mux_ok_def)
  next
    case False
    then show ?thesis using that assms(1) by (auto simp: mux_ok_def list_update_beyond)
  qed
  then show ?thesis by (auto simp: mux_ok_def fields)
qed

lemma advance_pos:
  assumes "p < n" "n \<le> 256"
  shows "unat (of_nat ((p + 1) mod n) :: u8) = (p + 1) mod n"
proof -
  have "(p + 1) mod n < 256" using mod_less_divisor [of n "p + 1"] assms by linarith
  then show ?thesis by (simp add: unat_of_nat)
qed

lemma mux_ready_advance:
  assumes "mux_ready s a"
  defines "b \<equiv> a\<lparr>as_pos := of_nat ((unat (as_pos a) + 1) mod length (as_order a))\<rparr>"
  shows "mux_ready s (b\<lparr>as_selected := Some (sp_adcCh (se_params (sensor_at s (cycle_sensor b))))\<rparr>)"
proof -
  have "(unat (as_pos a) + 1) mod length (as_order a) < length (as_order a)"
    by (rule mod_less_divisor) (use assms(1) in \<open>auto simp: mux_ready_def\<close>)
  then show ?thesis using assms advance_pos [of "unat (as_pos a)" "length (as_order a)"]
    by (auto simp: mux_ready_def cycle_sensor_def b_def)
qed

interpretation mux: sampler_inv mux_ok
proof unfold_locales
  fix s :: sampler assume m: "mux_ok s"
  show "mux_ok (startReading k ch s)" if "as_mode (sa_adcs s ! k) \<noteq> MuxedRoundRobin" for k ch
    using mux_ok_adc [OF m, of "as_selected_update (\<lambda>_. Some ch) (sa_adcs s ! k)" k] that by simp
  show "mux_ok (cycle_advance k s)" if "unat (as_pos (sa_adcs s ! k)) < length (as_order (sa_adcs s ! k))" for k
    unfolding cycle_advance_def Let_def
  proof (rule mux_ok_adc [OF m])
    assume mx: "as_mode ((sa_adcs s ! k)\<lparr>as_pos := of_nat ((unat (as_pos (sa_adcs s ! k)) + 1) mod length (as_order (sa_adcs s ! k))),
        as_selected := Some (sp_adcCh (se_params (sensor_at s (cycle_sensor ((sa_adcs s ! k)\<lparr>as_pos := of_nat ((unat (as_pos (sa_adcs s ! k)) + 1) mod length (as_order (sa_adcs s ! k)))\<rparr>)))))\<rparr>) = MuxedRoundRobin"
      and k: "k < length (sa_adcs s)"
    have "mux_ready s (sa_adcs s ! k)" using m mx k by (simp add: mux_ok_def)
    then show "mux_ready s ((sa_adcs s ! k)\<lparr>as_pos := of_nat ((unat (as_pos (sa_adcs s ! k)) + 1) mod length (as_order (sa_adcs s ! k))),
        as_selected := Some (sp_adcCh (se_params (sensor_at s (cycle_sensor ((sa_adcs s ! k)\<lparr>as_pos := of_nat ((unat (as_pos (sa_adcs s ! k)) + 1) mod length (as_order (sa_adcs s ! k)))\<rparr>)))))\<rparr>)"
      by (rule mux_ready_advance)
  qed
qed (auto intro: mux_ok_frame add_sample_set_frame retuneNotch_set_frame startCalibration_frame handleSensorCalib_frame
    elim!: mux_ok_frame [rotated] simp: sa_frame_def)

section \<open>The polling order\<close>

lemma pairs_nth:
  "length (concat (map (\<lambda>i. [f i, c]) [0..<m])) = 2 * m"
  "p < 2 * m \<Longrightarrow> concat (map (\<lambda>i. [f i, c]) [0..<m]) ! p = (if even p then f (p div 2) else c)"
proof -
  show len: "length (concat (map (\<lambda>i. [f i, c]) [0..<m])) = 2 * m" for m
    by (induction m) auto
  show "p < 2 * m \<Longrightarrow> concat (map (\<lambda>i. [f i, c]) [0..<m]) ! p = (if even p then f (p div 2) else c)"
  proof (induction m)
    case (Suc m)
    consider "p < 2 * m" | "p = 2 * m" | "p = 2 * m + 1"
      using Suc.prems by (cases "p < 2 * m"; cases "p = 2 * m") auto
    then show ?case using Suc.IH len [of m] by cases (simp_all add: nth_append)
  qed simp
qed

lemma unat_u8: "n < 256 \<Longrightarrow> unat (of_nat n :: u8) = n"
  by (simp add: unat_of_nat)

lemma cycle_order_pairs:
  assumes "2 < n" "n \<le> 128"
  shows "cycle_order (of_nat n) = concat (map (\<lambda>i. [of_nat i, of_nat (n - 1)]) [0..<n - 1])"
proof -
  have two: "(2 :: u8) < of_nat n" using assms unat_u8 [of n] by (simp add: word_less_nat_alt)
  have pred: "of_nat n - (1 :: u8) = of_nat (n - 1)" using assms by (simp add: of_nat_diff)
  have "unat (of_nat n - 1 :: u8) = n - 1" using pred unat_u8 [of "n - 1"] assms by simp
  then show ?thesis using two pred by (simp add: cycle_order_def)
qed

lemma cycle_order_nth:
  assumes "2 < n" "n \<le> 128" "p < 2 * (n - 1)"
  shows "unat (cycle_order (of_nat n) ! p) = (if even p then p div 2 else n - 1)"
proof -
  have "p div 2 < 256" "n - 1 < 256" using assms by linarith+
  then have "unat (of_nat (p div 2) :: u8) = p div 2" "unat (of_nat (n - 1) :: u8) = n - 1" by (simp_all only: unat_u8)
  then show ?thesis unfolding cycle_order_pairs [OF assms(1,2)]
    using pairs_nth(2) [of p "n - 1" "of_nat :: nat \<Rightarrow> u8" "of_nat (n - 1)"] assms(3) by simp
qed

lemma cycle_order_length: "2 < n \<Longrightarrow> n \<le> 128 \<Longrightarrow> length (cycle_order (of_nat n)) = 2 * (n - 1)"
  by (simp only: cycle_order_pairs pairs_nth)

lemma cycle_order_small: "n \<le> 2 \<Longrightarrow> cycle_order (of_nat n) = map of_nat [0..<n]"
  by (auto simp: cycle_order_def unat_u8 word_less_nat_alt)

lemma cycle_order_ok:
  assumes "0 < n" "n \<le> 128"
  shows "0 < length (cycle_order (of_nat n)) \<and> length (cycle_order (of_nat n)) \<le> 256 \<and>
    (\<forall>j\<in>set (cycle_order (of_nat n)). unat j < n)"
proof (cases "2 < n")
  case True
  have "unat j < n" if "j \<in> set (cycle_order (of_nat n))" for j
    using that True assms(2) cycle_order_nth [OF True assms(2)] cycle_order_length [OF True assms(2)]
    by (auto simp: in_set_conv_nth split: if_splits)
  then show ?thesis using cycle_order_length [OF True] True assms(2) by auto
next
  case False
  then show ?thesis using assms cycle_order_small [of n] by (auto simp: unat_u8)
qed

section \<open>\<open>begin\<close> primes every muxed ADC\<close>

definition mux_wired :: "sampler \<Rightarrow> bool" where
  \<comment> \<open>what \<open>addSensor\<close> sets up: at most 128 sensors on a muxed ADC, all of them known\<close>
  "mux_wired s =
    (\<forall>a\<in>set (sa_adcs s). as_mode a = MuxedRoundRobin \<longrightarrow>
       length (as_cycle a) \<le> 128 \<and> (\<forall>i\<in>set (as_cycle a). i < length (sa_sensors s)))"

lemma begin_adc_ready:
  assumes "begin_adc k s = Inr s'" "k < length (sa_adcs s)" "mux_wired s"
  shows "mux_wired s'" "sa_sensors s' = sa_sensors s" "length (sa_adcs s') = length (sa_adcs s)"
    "\<And>j. j \<noteq> k \<Longrightarrow> sa_adcs s' ! j = sa_adcs s ! j"
    "as_mode (sa_adcs s' ! k) = MuxedRoundRobin \<longrightarrow> mux_ready s' (sa_adcs s' ! k)"
proof -
  let ?a = "sa_adcs s ! k"
  have w: "as_mode ?a = MuxedRoundRobin \<longrightarrow> length (as_cycle ?a) \<le> 128 \<and> (\<forall>i\<in>set (as_cycle ?a). i < length (sa_sensors s))"
    using assms(3) nth_mem [OF assms(2)] unfolding mux_wired_def by blast
  show wired: "mux_wired s'" using assms w set_update_subset_insert [of "sa_adcs s" k]
    by (auto simp: begin_adc_def mux_wired_def bindE_Inr_iff Let_def buildCycleOrder_def split: if_splits
        dest!: subsetD [OF set_update_subset_insert])
  show "sa_sensors s' = sa_sensors s" "length (sa_adcs s') = length (sa_adcs s)"
    "\<And>j. j \<noteq> k \<Longrightarrow> sa_adcs s' ! j = sa_adcs s ! j"
    using assms(1) by (auto simp: begin_adc_def bindE_Inr_iff Let_def split: if_splits)
  show "as_mode (sa_adcs s' ! k) = MuxedRoundRobin \<longrightarrow> mux_ready s' (sa_adcs s' ! k)"
  proof (cases "as_mode ?a = MuxedRoundRobin")
    case True
    then have ne: "0 < length (as_cycle ?a)" using assms(1) by (auto simp: begin_adc_def bindE_Inr_iff)
    note ord = cycle_order_ok [OF ne]
    then show ?thesis using True assms(1,2) w
      by (auto simp: begin_adc_def bindE_Inr_iff Let_def mux_ready_def buildCycleOrder_def cycle_sensor_def)
  next
    case False
    then show ?thesis using assms(1,2) by (auto simp: begin_adc_def bindE_Inr_iff Let_def split: if_splits)
  qed
qed

lemma begin_adcs_ready:
  assumes "begin_adcs ks s = Inr s'" "mux_wired s" "\<forall>k\<in>set ks. k < length (sa_adcs s)"
    "\<forall>k<length (sa_adcs s). k \<in> set ks \<or> as_mode (sa_adcs s ! k) = MuxedRoundRobin \<longrightarrow> k \<in> set ks \<or> mux_ready s (sa_adcs s ! k)"
  shows "mux_ok s'"
  using assms
proof (induction ks arbitrary: s)
  case Nil
  then show ?case by (auto simp: mux_ok_def in_set_conv_nth)
next
  case (Cons k ks)
  then obtain s1 where s1: "begin_adc k s = Inr s1" and r: "begin_adcs ks s1 = Inr s'" by (auto simp: bindE_Inr_iff)
  note b = begin_adc_ready [OF s1 _ Cons.prems(2)]
  have k: "k < length (sa_adcs s)" using Cons.prems(3) by simp
  have ready: "mux_ready s1 a = mux_ready s a" for a by (simp add: mux_ready_def b(2) [OF k])
  show ?case
  proof (rule Cons.IH [OF r b(1) [OF k]])
    show "\<forall>k\<in>set ks. k < length (sa_adcs s1)" using Cons.prems(3) b(3) [OF k] by simp
    show "\<forall>j<length (sa_adcs s1). j \<in> set ks \<or> as_mode (sa_adcs s1 ! j) = MuxedRoundRobin \<longrightarrow>
        j \<in> set ks \<or> mux_ready s1 (sa_adcs s1 ! j)"
      using Cons.prems(4) b(3,4,5) [OF k] ready by (metis set_ConsD)
  qed
qed

lemma begin_notches_frame: "begin_notches d rate is s = Inr s' \<Longrightarrow> sa_frame s s'"
proof (induction "is" arbitrary: s)
  case (Cons i js)
  show ?case
  proof (cases "se_isVirtual (sensor_at s i)")
    case False
    then obtain x where x: "createNotchFilter d (effectiveSampleRate rate i s) (sa_notchFreq s) (sa_notchQ s) (sa_notchGain s) (sensor_at s i) = Inr x"
      and r: "begin_notches d rate js (set_sensor i x s) = Inr s'" using Cons.prems by (auto simp: bindE_Inr_iff)
    have "se_params x = se_params (sensor_at s i)"
      using retuneNotch_fields(1) x unfolding createNotchFilter_def by fastforce
    then have "sa_frame s (set_sensor i x s)" by (simp add: sa_frame_def)
    then show ?thesis using Cons.IH [OF r] sa_frame_trans by blast
  qed (use Cons in simp)
qed simp

lemma begin_mux_ok: "sampler_begin d rate s0 = Inr s \<Longrightarrow> mux_wired s0 \<Longrightarrow> mux_ok s"
proof -
  assume h: "sampler_begin d rate s0 = Inr s" and w: "mux_wired s0"
  obtain s1 s2 where 1: "begin_adcs [0..<length (sa_adcs s0)] s0 = Inr s1"
    and 2: "begin_notches d rate [0..<length (sa_sensors s1)] s1 = Inr s2" and 3: "begin_ripple d rate s2 = Inr s"
    using h by (auto simp: sampler_begin_def bindE_Inr_iff)
  have "mux_ok s1" by (rule begin_adcs_ready [OF 1 w]) auto
  then have "mux_ok s2" by (rule mux_ok_frame [OF begin_notches_frame [OF 2]])
  moreover have "sa_frame s2 s"
    using 3 by (auto simp: begin_ripple_def sa_frame_def bindE_Inr_iff Let_def split: option.splits if_splits)
  ultimately show "mux_ok s" by (rule mux_ok_frame [rotated])
qed

lemma zero_like: "feq x (Fin 0) \<Longrightarrow> isfinite x \<and> flt y (fabs x) = flt y (Fin 0)"
  by (cases x) (simp_all add: feq_def flt_def split: if_splits)

section \<open>Properties\<close>

definition example_params :: "u8 \<Rightarrow> sparams" where
  "example_params ch = \<lparr>sp_adcCh = ch, sp_transform = \<lparr>lt_factor = Fin 1, lt_midpoint = Fin 0\<rparr>,
     sp_maxAbsValue = Fin 2, sp_maxStddev = Fin 1, sp_calibrateOffset = True\<rparr>"

definition example_dsp :: dsp where
  "example_dsp = \<lparr>dsp_gen = \<lambda>f g q. Some [], dsp_biquad = \<lambda>c w x. (x, w), dsp_cos = \<lambda>x. x, dsp_sqrt = \<lambda>x. x\<rparr>"

definition example_sampler :: "read_mode \<Rightarrow> sampler res" where
  \<comment> \<open>three sensors on one ADC\<close>
  "example_sampler md =
    bindE (addSensor 0 md (example_params 0) 10 sampler_new) (\<lambda>(_, s1).
    bindE (addSensor 0 md (example_params 1) 10 s1) (\<lambda>(_, s2).
    bindE (addSensor 0 md (example_params 2) 10 s2) (\<lambda>(_, s3). Inr s3)))"

definition example_begun :: "sampler res" where
  "example_begun = bindE (example_sampler MuxedRoundRobin) (sampler_begin example_dsp (\<lambda>_ _. Fin 0))"


text \<open>The offset a sensor subtracts from its samples is always a number within the sensor's limit:
  when the calibration constraints are not ignored, no sequence of updates, calibrations and
  cancellations leaves a sensor with an offset that is not finite or above \<open>maxAbsValue\<close>.\<close>
theorem calib_offset_bounded:
  assumes "sampler_reach s0 s" "\<not> sa_ignore s0"
    and "\<forall>x\<in>set (sa_sensors s0). feq (se_calibrationAvg x) (Fin 0) \<and> \<not> flt (sp_maxAbsValue (se_params x)) (Fin 0)"
    and "x \<in> set (sa_sensors s)"
  shows "isfinite (se_calibrationAvg x) \<and> \<not> fgt (fabs (se_calibrationAvg x)) (sp_maxAbsValue (se_params x))"
proof -
  have zero: "offset_ok y" if "feq (se_calibrationAvg y) (Fin 0)" "\<not> flt (sp_maxAbsValue (se_params y)) (Fin 0)" for y
    using that zero_like [OF that(1)] by (auto simp: offset_ok_def)
  have "offset.all_ok s0" using assms(2,3) zero by (simp add: offset.all_ok_def)
  then have "offset.all_ok s" by (rule offset.reach_inv [OF assms(1)])
  then show ?thesis using assms(4) by (auto simp: offset.all_ok_def offset_ok_def)
qed

text \<open>C37: Calibration cannot panic the device: whatever updates, calibrations and cancellations came
  before, handling the calibration of any sensor returns, so neither the sample counter of the
  accumulator overflows its assertion nor does the count of open calibrations underflow.\<close>
theorem calib_never_panics:
  assumes "sampler_reach s0 s" "sa_calibrating s0 = 0"
    and "\<forall>x\<in>set (sa_sensors s0). se_calibBuffer x = macc_clear" "i < length (sa_sensors s)"
  shows "\<exists>r s'. handleSensorCalib now i s = Inr (r, s')"
proof (rule handleSensorCalib_total)
  show "count_ok s" using calib_count.reach_inv [OF assms(1)] assms(2) by (simp add: count_ok_def)
  have "buffer.all_ok s0" using assms(3) by (auto simp: buffer.all_ok_def buffer_ok_def macc_clear_def)
  then have "buffer.all_ok s" by (rule buffer.reach_inv [OF assms(1)])
  then show "buffer_ok (sensor_at s i)" using assms(4) by (rule buffer.all_ok_at)
qed (rule assms(4))

lemma example_setup:
  obtains s where "example_sampler MuxedRoundRobin = Inr s" "mux_wired s" "length (sa_sensors s) = 3"
    "sa_calibrating s = 0" "\<not> sa_ignore s" "\<forall>x\<in>set (sa_sensors s). se_calibBuffer x = macc_clear"
    "\<forall>x\<in>set (sa_sensors s). feq (se_calibrationAvg x) (Fin 0) \<and> \<not> flt (sp_maxAbsValue (se_params x)) (Fin 0)"
proof -
  have "resD (example_sampler MuxedRoundRobin) (\<lambda>s. mux_wired s \<and> length (sa_sensors s) = 3 \<and> sa_calibrating s = 0
      \<and> \<not> sa_ignore s \<and> (\<forall>x\<in>set (sa_sensors s). se_calibBuffer x = macc_clear)
      \<and> (\<forall>x\<in>set (sa_sensors s). feq (se_calibrationAvg x) (Fin 0) \<and> \<not> flt (sp_maxAbsValue (se_params x)) (Fin 0)))"
    by code_simp
  then show thesis using that by (elim resD_E) blast
qed

lemma example_started:
  obtains s0 s where "example_sampler MuxedRoundRobin = Inr s0" "mux_wired s0"
    "sampler_begin example_dsp (\<lambda>_ _. Fin 0) s0 = Inr s" "sa_adcs s \<noteq> []" "as_mode (hd (sa_adcs s)) = MuxedRoundRobin"
proof -
  have b: "resD example_begun (\<lambda>s. sa_adcs s \<noteq> [] \<and> as_mode (hd (sa_adcs s)) = MuxedRoundRobin)" by code_simp
  obtain s0 where 0: "example_sampler MuxedRoundRobin = Inr s0" "mux_wired s0" by (rule example_setup)
  then show thesis using that [OF 0] b by (auto simp: example_begun_def elim: resD_E)
qed


lemma calib_offset_bounded_witness:
  "\<exists>s0. example_sampler MuxedRoundRobin = Inr s0 \<and> isfinite (se_calibrationAvg (sensor_at (startCalibration s0) 0))"
proof -
  obtain s where s: "example_sampler MuxedRoundRobin = Inr s" "length (sa_sensors s) = 3" "\<not> sa_ignore s"
    "\<forall>x\<in>set (sa_sensors s). feq (se_calibrationAvg x) (Fin 0) \<and> \<not> flt (sp_maxAbsValue (se_params x)) (Fin 0)"
    by (rule example_setup)
  have r: "sampler_reach s (startCalibration s)" by (rule sampler_reach.step [OF sampler_reach.refl sampler_step.start])
  have "sensor_at (startCalibration s) 0 \<in> set (sa_sensors (startCalibration s))"
    using s(2) by (simp add: startCalibration_def)
  then show ?thesis using calib_offset_bounded [OF r s(3,4)] s(1) by blast
qed

lemma calib_never_panics_witness:
  "\<exists>s0 r s'. example_sampler MuxedRoundRobin = Inr s0 \<and> handleSensorCalib 0 1 (startCalibration s0) = Inr (r, s')"
proof -
  obtain s where s: "example_sampler MuxedRoundRobin = Inr s" "length (sa_sensors s) = 3" "sa_calibrating s = 0"
    "\<forall>x\<in>set (sa_sensors s). se_calibBuffer x = macc_clear"
    by (rule example_setup)
  have r: "sampler_reach s (startCalibration s)" by (rule sampler_reach.step [OF sampler_reach.refl sampler_step.start])
  show ?thesis using calib_never_panics [OF r s(3,4), of 1 0] s(1,2) by (auto simp: startCalibration_def)
qed

end
