(* ===== verification/Calibration.thy ===== *)
theory Calibration
  imports SamplerProps MpptSafe
begin

text \<open>
  What an update of the sampler reports to the real-time loop, and how calibration counts the sensors
  it has finished.
\<close>

section \<open>The results of a poll\<close>

lemma update_ret_le [simp]:
  "NoNewData \<le> r" "r \<le> AdcError"
  by (cases r; simp add: less_eq_update_ret_def)+

lemma handleSensorCalib_ret:
  "handleSensorCalib now i s = Inr (r, s') \<Longrightarrow> r = NoNewData \<or> r = Calibrating \<or> r = CalibFailure"
  by (auto simp: handleSensorCalib_def calib_round_def bindE_Inr_iff macc_pop_def Let_def split: if_splits)

lemma addSensorSample_ret:
  "addSensorSample d now i v s = Inr (r, s') \<Longrightarrow> r = NoNewData \<or> r = Calibrating \<or> r = CalibFailure"
  by (erule addSensorSample_cases) (auto dest: handleSensorCalib_ret)

lemma ret_max_failure:
  "max a b = AdcError \<longleftrightarrow> a = AdcError \<or> b = AdcError"
  "max a b = CalibFailure \<Longrightarrow> a = CalibFailure \<or> b = CalibFailure"
  "a = CalibFailure \<Longrightarrow> b \<noteq> AdcError \<Longrightarrow> max a b = CalibFailure"
  "b = CalibFailure \<Longrightarrow> a \<noteq> AdcError \<Longrightarrow> max a b = CalibFailure"
  by (cases a; cases b; simp add: max_def less_eq_update_ret_def)+

section \<open>Counting rounds\<close>

definition round_inv :: "nat \<Rightarrow> (nat \<Rightarrow> nat) \<Rightarrow> sampler \<Rightarrow> bool" where
  \<comment> \<open>\<open>c j\<close> is the number of samples sensor \<open>j\<close> got since calibration started\<close>
  "round_inv n c s =
    (\<forall>j<length (sa_sensors s).
       (sa_calibrating s \<noteq> 0 \<longrightarrow>
          unat (se_numSamples (sensor_at s j)) = c j mod 200 \<and>
          unat (ma_num (se_calibBuffer (sensor_at s j))) = c j mod 200 - 99 \<and>
          unat (sa_calibrating s) + c j div 200 \<le> n) \<and>
       (c j < 200 \<longrightarrow> feq (se_calibrationAvg (sensor_at s j)) (Fin 0)))"

lemma round_arith:
  fixes c :: nat
  shows "c mod 200 < 199 \<Longrightarrow> (c + 1) mod 200 = c mod 200 + 1" "c mod 200 < 199 \<Longrightarrow> (c + 1) div 200 = c div 200"
    "c mod 200 = 199 \<Longrightarrow> (c + 1) mod 200 = 0" "c mod 200 = 199 \<Longrightarrow> (c + 1) div 200 = c div 200 + 1"
    "c mod 200 = 199 \<Longrightarrow> 200 \<le> c + 1"
  using mod_less_eq_dividend [of c 200] by (simp_all add: mod_Suc div_Suc)

lemma macc_add_num_nat: "macc_add x m = Inr b \<Longrightarrow> unat (ma_num b) = unat (ma_num m) + 1"
proof -
  assume "macc_add x m = Inr b"
  then have "int (unat (ma_num b)) = int (unat (ma_num m)) + 1"
    unfolding of_nat_unat by (rule macc_add_num)
  then show ?thesis by linarith
qed

lemma u32_succ: "unat w < 1000 \<Longrightarrow> unat (w + 1 :: u32) = unat w + 1"
proof -
  assume w: "unat w < 1000"
  have p: "(2 :: nat) ^ LENGTH(32) = 4294967296" by simp
  have "unat (w + 1) = (unat w + 1) mod 4294967296" by (simp only: unat_word_ariths(1) p unat_1)
  then show ?thesis using w by (simp only: mod_less)
qed

lemma round_inv_other:
  assumes "round_inv n c s" "i < length (sa_sensors s)" "sa_sensors s' = (sa_sensors s)[i := x]"
    "sa_calibrating s' \<noteq> 0 \<Longrightarrow> sa_calibrating s \<noteq> 0 \<and> unat (sa_calibrating s') \<le> unat (sa_calibrating s)"
    "sa_calibrating s' \<noteq> 0 \<Longrightarrow> unat (se_numSamples x) = (c i + 1) mod 200 \<and>
        unat (ma_num (se_calibBuffer x)) = (c i + 1) mod 200 - 99 \<and> unat (sa_calibrating s') + (c i + 1) div 200 \<le> n"
    "c i + 1 < 200 \<Longrightarrow> feq (se_calibrationAvg x) (Fin 0)"
  shows "round_inv n (c(i := c i + 1)) s'"
  unfolding round_inv_def
proof (intro allI impI)
  fix j assume j: "j < length (sa_sensors s')"
  show "(sa_calibrating s' \<noteq> 0 \<longrightarrow>
          unat (se_numSamples (sensor_at s' j)) = (c(i := c i + 1)) j mod 200 \<and>
          unat (ma_num (se_calibBuffer (sensor_at s' j))) = (c(i := c i + 1)) j mod 200 - 99 \<and>
          unat (sa_calibrating s') + (c(i := c i + 1)) j div 200 \<le> n) \<and>
       ((c(i := c i + 1)) j < 200 \<longrightarrow> feq (se_calibrationAvg (sensor_at s' j)) (Fin 0))"
  proof (cases "j = i")
    case True
    then show ?thesis using assms(2,3,5,6) by simp
  next
    case False
    have s: "j < length (sa_sensors s)" "sensor_at s' j = sensor_at s j" using j False assms(3) by simp_all
    then show ?thesis using assms(1,4) False unfolding round_inv_def by fastforce
  qed
qed

lemma round_inv_step:
  assumes h: "addSensorSample d now i v s = Inr (r, s')" "r \<noteq> CalibFailure" and i: "i < length (sa_sensors s)"
    and inv: "round_inv n c s"
  shows "round_inv n (c(i := c i + 1)) s'"
  using h(1)
proof (cases rule: addSensorSample_cases)
  case nan
  then show ?thesis using h(2) by simp
next
  case (add x rp)
  define t where "t = (set_sensor i x s)\<lparr>sa_ripple := rp\<rparr>"
  note f = add_sample_frame [OF add(2)]
  have t: "i < length (sa_sensors t)" "sensor_at t i = x" "sa_sensors t = (sa_sensors s)[i := x]"
    "sa_calibrating t = sa_calibrating s" using i by (simp_all add: t_def)
  let ?c = "c i mod 200"
  have old: "unat (se_numSamples (sensor_at s i)) = ?c" "unat (ma_num (se_calibBuffer x)) = ?c - 99"
      "unat (sa_calibrating s) + c i div 200 \<le> n" if "sa_calibrating s \<noteq> 0"
    using inv i that f(3) by (auto simp: round_inv_def)
  have num: "unat (se_numSamples x) = ?c + 1" if "sa_calibrating s \<noteq> 0"
    using old(1) [OF that] f(2) u32_succ [of "se_numSamples (sensor_at s i)"] mod_less_divisor [of 200 "c i"] by simp
  have avg: "feq (se_calibrationAvg x) (Fin 0)" if "c i + 1 < 200" using inv i that f(4) by (simp add: round_inv_def)
  from add(3) [folded t_def] t(1) show ?thesis
  proof (cases rule: handleSensorCalib_cases)
    case idle
    show ?thesis
    proof (rule round_inv_other [OF inv i, of s' x])
      assume c: "sa_calibrating s' \<noteq> 0"
      then have "se_numSamples x < 100" using idle t by auto
      then have "?c + 1 < 100" using num c idle(2) t(4) by (simp add: word_less_nat_alt)
      then show "unat (se_numSamples x) = (c i + 1) mod 200 \<and>
        unat (ma_num (se_calibBuffer x)) = (c i + 1) mod 200 - 99 \<and> unat (sa_calibrating s') + (c i + 1) div 200 \<le> n"
        using num old round_arith(1,2) [of "c i"] c idle(2) t(4) by simp
    qed (use idle t avg in auto)
  next
    case (collect b)
    have cs: "sa_calibrating s \<noteq> 0" using collect(5) t(4) by simp
    have "99 \<le> ?c" using collect(6) num [OF cs] t(2) by (simp add: word_le_nat_alt)
    moreover have bn: "unat (ma_num b) = ?c - 99 + 1" using macc_add_num_nat [OF collect(1)] old(2) [OF cs] t(2) by simp
    moreover have "?c < 199" using collect(2) calculation by (simp add: word_less_nat_alt)
    moreover have "unat (ma_num b) = (c i + 1) mod 200 - 99"
      using calculation round_arith(1) [of "c i"] by linarith
    ultimately show ?thesis
      using round_inv_other [OF inv i, of s' "x\<lparr>se_calibBuffer := b\<rparr>"] collect(4) t avg num [OF cs] old(3) [OF cs]
        round_arith(1,2) [of "c i"] cs by simp
  next
    case fail
    then show ?thesis using h(2) by simp
  next
    case (pass b lc)
    have cs: "sa_calibrating s \<noteq> 0" using pass(6) t(4) by simp
    have "unat (ma_num b) = ?c - 99 + 1" using macc_add_num_nat [OF pass(1)] old(2) [OF cs] t(2) by simp
    then have c199: "?c = 199" using pass(2) mod_less_divisor [of 200 "c i"] by (simp add: word_less_nat_alt)
    have "unat (sa_calibrating s - 1) = unat (sa_calibrating s) - 1" "unat (sa_calibrating s) \<noteq> 0"
      using cs u8_pred [OF cs] by (simp_all add: unat_eq_0)
    then show ?thesis
      using round_inv_other [OF inv i, of s' "calibrated (macc_mean b) x"] pass(5) t cs old(3) [OF cs]
        round_arith(3,4,5) [OF c199] by (simp add: macc_clear_def)
  qed
qed

definition sample_count :: "nat option list \<Rightarrow> nat \<Rightarrow> (u8 \<times> fl) list \<Rightarrow> nat" where
  \<comment> \<open>the samples of a batch that go to sensor \<open>j\<close>\<close>
  "sample_count by j xs = length (filter (\<lambda>(ch, v). by ! unat ch = Some j) xs)"

definition wired :: "nat \<Rightarrow> sampler \<Rightarrow> bool" where
  "wired k s = (\<forall>i. Some i \<in> set (as_byCh (sa_adcs s ! k)) \<longrightarrow> i < length (sa_sensors s))"

lemma wired_frame: "sa_frame s s' \<Longrightarrow> wired k s \<Longrightarrow> wired k s'"
  by (simp add: wired_def sa_frame_length) (simp add: sa_frame_def)

lemma read_stream_ConsE:
  assumes "read_stream d now k ((ch, v) # xs) (r0, s) = Inr (r, s')"
  obtains i c s1 where "unat ch < length (as_byCh (sa_adcs s ! k))" "as_byCh (sa_adcs s ! k) ! unat ch = Some i"
    "addSensorSample d now i v s = Inr (c, s1)" "read_stream d now k xs (max r0 c, s1) = Inr (r, s')"
proof -
  let ?by = "as_byCh (sa_adcs s ! k)"
  have len: "unat ch < length ?by" using assms by (auto simp: Let_def split: if_splits)
  obtain q t where one: "read_one d now (?by ! unat ch) v (r0, s) = Inr (q, t)" and rest: "read_stream d now k xs (q, t) = Inr (r, s')"
    using assms len by (auto simp: bindE_Inr_iff)
  obtain i where i: "?by ! unat ch = Some i" using one by (cases "?by ! unat ch") (simp_all add: read_one_def)
  then obtain c where "addSensorSample d now i v s = Inr (c, t)" "q = max r0 c" using one by (auto simp: read_one_def bindE_Inr_iff)
  then show thesis using that [OF len i] rest by blast
qed

lemma read_stream_mono: "read_stream d now k xs (r0, s) = Inr (r, s') \<Longrightarrow> r0 \<le> r"
proof (induction xs arbitrary: r0 s)
  case (Cons x xs)
  obtain ch v where x: "x = (ch, v)" by force
  obtain c s1 where "read_stream d now k xs (max r0 c, s1) = Inr (r, s')"
    using Cons.prems unfolding x by (rule read_stream_ConsE)
  then have "max r0 c \<le> r" by (rule Cons.IH)
  then show ?case by simp
qed simp

lemma read_stream_frame: "read_stream d now k xs (r0, s) = Inr (r, s') \<Longrightarrow> sa_frame s s'"
proof (induction xs arbitrary: r0 s)
  case (Cons x xs)
  obtain ch v where x: "x = (ch, v)" by force
  obtain i c s1 where "addSensorSample d now i v s = Inr (c, s1)" "read_stream d now k xs (max r0 c, s1) = Inr (r, s')"
    using Cons.prems unfolding x by (rule read_stream_ConsE)
  then show ?case using Cons.IH addSensorSample_frame sa_frame_trans by blast
qed simp

lemma read_stream_rounds:
  assumes "read_stream d now k xs (r0, s) = Inr (r, s')" "r < CalibFailure" "wired k s" "round_inv n c s"
  shows "round_inv n (\<lambda>j. c j + sample_count (as_byCh (sa_adcs s ! k)) j xs) s'"
  using assms
proof (induction xs arbitrary: r0 s c)
  case Nil
  then show ?case by (simp add: sample_count_def)
next
  case (Cons x xs)
  obtain ch v where x: "x = (ch, v)" by force
  obtain i q s1 where 1: "unat ch < length (as_byCh (sa_adcs s ! k))" "as_byCh (sa_adcs s ! k) ! unat ch = Some i"
    and a: "addSensorSample d now i v s = Inr (q, s1)" and r: "read_stream d now k xs (max r0 q, s1) = Inr (r, s')"
    using Cons.prems(1) unfolding x by (rule read_stream_ConsE)
  have "i < length (sa_sensors s)" using 1 Cons.prems(3) by (metis wired_def nth_mem)
  moreover have "q \<noteq> CalibFailure" using read_stream_mono [OF r] Cons.prems(2) by auto
  ultimately have "round_inv n (c(i := c i + 1)) s1" by (intro round_inv_step [OF a _ _ Cons.prems(4)])
  moreover have f: "sa_frame s s1" by (rule addSensorSample_frame [OF a])
  ultimately have "round_inv n (\<lambda>j. (c(i := c i + 1)) j + sample_count (as_byCh (sa_adcs s1 ! k)) j xs) s'"
    using Cons.IH [OF r Cons.prems(2)] wired_frame [OF f Cons.prems(3)] by blast
  moreover have "(\<lambda>j. (c(i := c i + 1)) j + sample_count (as_byCh (sa_adcs s1 ! k)) j xs) =
      (\<lambda>j. c j + sample_count (as_byCh (sa_adcs s ! k)) j (x # xs))"
    using f 1 by (auto simp: sample_count_def x sa_frame_def)
  ultimately show ?case by simp
qed

lemma round_inv_start:
  assumes "\<forall>x\<in>set (sa_sensors s). se_calibBuffer x = macc_clear"
  shows "round_inv (length (sa_real s)) (\<lambda>_. 0) (startCalibration s)"
proof -
  have "se_numSamples (sensor_reset True x) = 0 \<and> feq (se_calibrationAvg (sensor_reset True x)) (Fin 0)"
    and "se_calibBuffer x = macc_clear \<Longrightarrow> se_calibBuffer (sensor_reset True x) = macc_clear" for x
    by (auto simp: sensor_reset_def Let_def feq_def)
  then show ?thesis using assms count_ok_start [of s]
    by (simp add: round_inv_def startCalibration_def count_ok_def macc_clear_def)
qed

text \<open>A batch with no NaN is always taken when the constraints are ignored and the noise filter is off.\<close>

lemma add_sample_total: "\<exists>y. add_sample d k False x s = Inr y"
  by (auto simp: add_sample_def Let_def split: prod.splits)

lemma handleSensorCalib_ignore:
  "handleSensorCalib now i s = Inr (r, s') \<Longrightarrow> sa_ignore s \<Longrightarrow> r < CalibFailure"
  by (auto simp: handleSensorCalib_def calib_round_def bindE_Inr_iff macc_pop_def Let_def less_update_ret_def split: if_splits)

definition calm :: "nat \<Rightarrow> sampler \<Rightarrow> bool" where
  "calm k s = (sa_ignore s \<and> \<not> sa_anfEnabled s \<and> wired k s \<and> count_ok s \<and> buffer.all_ok s)"

lemma handleSensorCalib_anf: "handleSensorCalib now i s = Inr (r, s') \<Longrightarrow> sa_anfEnabled s' = sa_anfEnabled s"
  by (auto simp: handleSensorCalib_def calib_round_def bindE_Inr_iff macc_pop_def Let_def split: if_splits)

lemma addSensorSample_anf: "addSensorSample d now i v s = Inr (r, s') \<Longrightarrow> sa_anfEnabled s' = sa_anfEnabled s"
  by (erule addSensorSample_cases) (auto dest: handleSensorCalib_anf)

lemma addSensorSample_calm:
  assumes "calm k s" "\<not> isnan v" "i < length (sa_sensors s)"
  shows "\<exists>r s'. addSensorSample d now i v s = Inr (r, s') \<and> r < CalibFailure \<and> calm k s'"
proof -
  obtain x where x: "add_sample d (sa_despikeK s) (sa_anfEnabled s) v (sensor_at s i) = Inr x"
    using add_sample_total [of d "sa_despikeK s" v "sensor_at s i"] assms(1) unfolding calm_def by auto
  have handled: "\<exists>r s'. handleSensorCalib now i t = Inr (r, s') \<and> r < CalibFailure"
    if t: "sa_sensors t = (sa_sensors s)[i := x]" "sa_calibrating t = sa_calibrating s" "sa_real t = sa_real s"
      "sa_ignore t = sa_ignore s" for t
  proof -
    have "buffer_ok (sensor_at s i)" using assms(1,3) by (auto simp: calm_def intro: buffer.all_ok_at)
    then have "buffer_ok (sensor_at t i)" using t(1) assms(3) add_sample_frame(3) [OF x] by (simp add: buffer_ok_def)
    then show ?thesis
      using handleSensorCalib_total [of t i now] handleSensorCalib_ignore [of now i t] assms t
      by (fastforce simp: calm_def count_ok_def)
  qed
  obtain r s' where r: "addSensorSample d now i v s = Inr (r, s')" "r < CalibFailure"
  proof -
    define t where "t = (if sa_notchAdaptive s \<and> sa_rippleSrc s = Some i \<and> ripple_configured (sa_ripple s)
      then (set_sensor i x s)\<lparr>sa_ripple := ripple_push (dsp_sqrt d) (se_last x) (sa_ripple s)\<rparr> else set_sensor i x s)"
    have "addSensorSample d now i v s = handleSensorCalib now i t" using x assms(2) by (simp add: addSensorSample_def t_def Let_def)
    moreover obtain q u where "handleSensorCalib now i t = Inr (q, u)" "q < CalibFailure"
    proof -
      have "\<exists>r u. handleSensorCalib now i t = Inr (r, u) \<and> r < CalibFailure" by (rule handled) (simp_all add: t_def)
      then show thesis using that by blast
    qed
    ultimately show thesis using that by simp
  qed
  have "calm k s'"
    using assms(1) calib_count.addSensorSample_inv [OF r(1)] buffer.addSensorSample_inv [OF r(1)] addSensorSample_anf [OF r(1)]
      wired_frame [OF addSensorSample_frame [OF r(1)]] addSensorSample_frame [OF r(1)]
    by (auto simp: calm_def sa_frame_def)
  then show ?thesis using r by blast
qed

lemma read_stream_calm:
  assumes "calm k s" "r0 < CalibFailure"
    "\<forall>(ch, v)\<in>set xs. \<not> isnan v \<and> unat ch < length (as_byCh (sa_adcs s ! k)) \<and> as_byCh (sa_adcs s ! k) ! unat ch \<noteq> None"
  shows "\<exists>r s'. read_stream d now k xs (r0, s) = Inr (r, s') \<and> r < CalibFailure"
  using assms
proof (induction xs arbitrary: r0 s)
  case (Cons x xs)
  obtain ch v where x: "x = (ch, v)" by force
  obtain i where i: "as_byCh (sa_adcs s ! k) ! unat ch = Some i" using Cons.prems(3) x by auto
  then have "i < length (sa_sensors s)" using Cons.prems(1,3) x by (auto simp: calm_def wired_def) (metis nth_mem)
  then obtain q s1 where q: "addSensorSample d now i v s = Inr (q, s1)" "q < CalibFailure" "calm k s1"
    using addSensorSample_calm [OF Cons.prems(1), of v i d now] Cons.prems(3) x by auto
  have "sa_adcs s1 = sa_adcs s" using addSensorSample_frame [OF q(1)] by (simp add: sa_frame_def)
  then show ?case
    using Cons.IH [OF q(3), of "max r0 q"] Cons.prems(2,3) q i x by (auto simp: read_one_def Let_def)
qed simp

section \<open>What an update reports\<close>

definition adc_nan :: "adc_in \<Rightarrow> adc_state \<Rightarrow> bool" where
  \<comment> \<open>one of the samples the driver has ready is NaN\<close>
  "adc_nan inp a =
    (ai_hasData inp \<and>
     (case as_mode a of
        StreamedCallback \<Rightarrow> \<exists>(ch, v)\<in>set (ai_read inp). isnan v
      | SnapshotAllChannels \<Rightarrow> \<exists>i<length (as_byCh a). as_byCh a ! i \<noteq> None \<and> isnan (ai_get inp (of_nat i))
      | MuxedRoundRobin \<Rightarrow> (case as_selected a of Some ch \<Rightarrow> isnan (ai_get inp ch) | None \<Rightarrow> False)))"

lemma addSensorSample_verdict:
  assumes "addSensorSample d now i v s = Inr (r, s')"
  shows "r < AdcError" "isnan v \<Longrightarrow> r = CalibFailure"
  using addSensorSample_ret [OF assms] assms by (auto simp: less_update_ret_def addSensorSample_def)

lemma read_one_ret:
  assumes "read_one d now k v (r0, s) = Inr (r, s')" "r0 < AdcError"
  shows "r < AdcError" "isnan v \<or> r0 = CalibFailure \<Longrightarrow> r = CalibFailure"
proof -
  obtain i c where a: "addSensorSample d now i v s = Inr (c, s')" and r: "r = max r0 c"
    using assms(1) by (cases k) (auto simp: read_one_def bindE_Inr_iff)
  show "r < AdcError" using addSensorSample_verdict(1) [OF a] assms(2) r by simp
  show "r = CalibFailure" if "isnan v \<or> r0 = CalibFailure"
    using that addSensorSample_verdict [OF a] assms(2) r
    by (cases r0; cases c) (auto simp: max_def less_eq_update_ret_def less_update_ret_def)
qed

lemma read_stream_ret:
  assumes "read_stream d now k xs (r0, s) = Inr (r, s')" "r0 < AdcError"
  shows "r < AdcError \<and> ((\<exists>(ch, v)\<in>set xs. isnan v) \<or> r0 = CalibFailure \<longrightarrow> r = CalibFailure)"
  using assms
proof (induction xs arbitrary: r0 s)
  case (Cons x xs)
  obtain ch v where x: "x = (ch, v)" by force
  obtain q t where one: "read_one d now (as_byCh (sa_adcs s ! k) ! unat ch) v (r0, s) = Inr (q, t)"
    and r: "read_stream d now k xs (q, t) = Inr (r, s')"
    using Cons.prems(1) unfolding x by (auto simp: bindE_Inr_iff Let_def split: if_splits)
  show ?case using Cons.IH [OF r] read_one_ret [OF one Cons.prems(2)] x by auto
qed simp

lemma read_snapshot_ret:
  assumes "read_snapshot d now k get is (r0, s) = Inr (r, s')" "r0 < AdcError"
  shows "r < AdcError \<and> ((\<exists>i\<in>set is. as_byCh (sa_adcs s ! k) ! i \<noteq> None \<and> isnan (get (of_nat i))) \<or> r0 = CalibFailure \<longrightarrow> r = CalibFailure)"
  using assms
proof (induction "is" arbitrary: r0 s)
  case (Cons i js)
  show ?case
  proof (cases "as_byCh (sa_adcs s ! k) ! i")
    case None
    then show ?thesis using Cons by auto
  next
    case (Some n)
    obtain q t where one: "read_one d now (Some n) (get (of_nat i)) (r0, startReading k (of_nat i) s) = Inr (q, t)"
      and r: "read_snapshot d now k get js (q, t) = Inr (r, s')"
      using Cons.prems(1) Some by (auto simp: bindE_Inr_iff)
    have "as_byCh (sa_adcs t ! k) = as_byCh (sa_adcs s ! k)"
      using read_one_frame [OF one] by (cases "k < length (sa_adcs s)") (simp_all add: sa_frame_def list_update_beyond)
    then show ?thesis using Cons.IH [OF r] read_one_ret [OF one Cons.prems(2)] by auto
  qed
qed simp

lemma updateAdc_ret:
  assumes h: "updateAdc d now inp k s = Inr (r, s')"
  shows "r = AdcError \<longleftrightarrow> \<not> ai_isGood inp" "ai_isGood inp \<Longrightarrow> adc_nan inp (sa_adcs s ! k) \<Longrightarrow> r = CalibFailure"
proof -
  let ?a = "sa_adcs s ! k"
  have no: "NoNewData < AdcError" by (simp add: less_update_ret_def)
  have muxed: "r0 < AdcError \<and> (case as_selected ?a of Some ch \<Rightarrow> isnan (ai_get inp ch) \<longrightarrow> r0 = CalibFailure | None \<Rightarrow> True)"
    if "read_muxed d now k (ai_get inp) s = Inr (r0, t)" for r0 t
    using that by (auto simp: read_muxed_def Let_def split: option.splits if_splits dest: addSensorSample_verdict)
  have stop: "(r = AdcError \<longleftrightarrow> \<not> ai_isGood inp) \<and> (ai_isGood inp \<and> adc_nan inp ?a \<longrightarrow> r = CalibFailure)"
    if "\<not> (ai_isGood inp \<and> ai_hasData inp)"
    using h that by (auto simp: updateAdc_def adc_nan_def bindE_Inr_iff Let_def split: if_splits)
  have go: "(r = AdcError \<longleftrightarrow> \<not> ai_isGood inp) \<and> (ai_isGood inp \<and> adc_nan inp ?a \<longrightarrow> r = CalibFailure)"
    if g: "ai_isGood inp" "ai_hasData inp"
  proof -
    obtain r0 t where r: "r = (if r0 \<noteq> NoNewData then r0 else if sa_calibrating t = 0 then NewData else Calibrating)"
      and src: "(case as_mode ?a of StreamedCallback \<Rightarrow> read_stream d now k (ai_read inp) (NoNewData, s)
         | SnapshotAllChannels \<Rightarrow> read_snapshot d now k (ai_get inp) [0..<length (as_byCh ?a)] (NoNewData, s)
         | MuxedRoundRobin \<Rightarrow> read_muxed d now k (ai_get inp) s) = Inr (r0, t)"
      using h g by (cases "as_mode ?a") (auto simp: updateAdc_def bindE_Inr_iff)
    have "r0 < AdcError \<and> (adc_nan inp ?a \<longrightarrow> r0 = CalibFailure)"
      using src muxed [of r0 t] read_stream_ret [OF _ no, of d now k "ai_read inp" s r0 t]
        read_snapshot_ret [OF _ no, of d now k "ai_get inp" "[0..<length (as_byCh ?a)]" s r0 t]
      by (cases "as_mode ?a") (auto simp: adc_nan_def split: option.splits)
    then show ?thesis using r g by auto
  qed
  show "r = AdcError \<longleftrightarrow> \<not> ai_isGood inp" "ai_isGood inp \<Longrightarrow> adc_nan inp ?a \<Longrightarrow> r = CalibFailure"
    using stop go by blast+
qed

lemma updateAdc_others:
  assumes "updateAdc d now inp k s = Inr (r, s')"
  shows "length (sa_adcs s') = length (sa_adcs s) \<and> (\<forall>j. j \<noteq> k \<longrightarrow> sa_adcs s' ! j = sa_adcs s ! j)"
proof -
  have stream: "sa_adcs t = sa_adcs s" if "read_stream d now k xs (r0, s) = Inr (q, t)" for xs r0 q t s
    using read_stream_frame [OF that] by (simp add: sa_frame_def)
  have snap: "length (sa_adcs t) = length (sa_adcs s) \<and> (\<forall>j. j \<noteq> k \<longrightarrow> sa_adcs t ! j = sa_adcs s ! j)"
    if "read_snapshot d now k get is (r0, s) = Inr (q, t)" for get "is" r0 q t s
    using that
  proof (induction "is" arbitrary: r0 s)
    case (Cons i js)
    show ?case
    proof (cases "as_byCh (sa_adcs s ! k) ! i")
      case (Some n)
      then obtain c u where one: "read_one d now (Some n) (get (of_nat i)) (r0, startReading k (of_nat i) s) = Inr (c, u)"
        and r: "read_snapshot d now k get js (c, u) = Inr (q, t)" using Cons.prems by (auto simp: bindE_Inr_iff)
      show ?thesis using Cons.IH [OF r] read_one_frame [OF one] by (simp add: sa_frame_def)
    qed (use Cons in simp)
  qed simp
  have mux: "length (sa_adcs t) = length (sa_adcs s) \<and> (\<forall>j. j \<noteq> k \<longrightarrow> sa_adcs t ! j = sa_adcs s ! j)"
    if "read_muxed d now k get s = Inr (q, t)" for get q t
    using that by (auto simp: read_muxed_def Let_def cycle_advance_def sa_frame_def split: option.splits if_splits
        dest!: addSensorSample_frame)
  show ?thesis using assms stream snap mux
    by (fastforce simp: updateAdc_def bindE_Inr_iff Let_def split: if_splits)
qed

lemma updateAdcs_ret:
  assumes "updateAdcs d now inp ks (r0, v0, s) = Inr (r, v, s')" "distinct ks"
  shows "r = AdcError \<longleftrightarrow> r0 = AdcError \<or> (\<exists>k\<in>set ks. \<not> ai_isGood (inp k))"
    "r0 < AdcError \<Longrightarrow> \<forall>k\<in>set ks. ai_isGood (inp k) \<Longrightarrow>
      r0 = CalibFailure \<or> (\<exists>k\<in>set ks. adc_nan (inp k) (sa_adcs s ! k)) \<Longrightarrow> r = CalibFailure"
proof -
  have "(r = AdcError \<longleftrightarrow> r0 = AdcError \<or> (\<exists>k\<in>set ks. \<not> ai_isGood (inp k))) \<and>
    (r0 < AdcError \<longrightarrow> (\<forall>k\<in>set ks. ai_isGood (inp k)) \<longrightarrow>
      r0 = CalibFailure \<or> (\<exists>k\<in>set ks. adc_nan (inp k) (sa_adcs s ! k)) \<longrightarrow> r = CalibFailure)"
    using assms
  proof (induction ks arbitrary: r0 v0 s)
    case (Cons k ks)
    obtain q t where u: "updateAdc d now (inp k) k s = Inr (q, t)"
      and rest: "updateAdcs d now inp ks (max r0 q, v0 \<or> as_mode (sa_adcs t ! k) \<noteq> MuxedRoundRobin \<or> as_pos (sa_adcs t ! k) = 0, t) = Inr (r, v, s')"
      using Cons.prems(1) by (auto simp: bindE_Inr_iff)
    have other: "sa_adcs t ! j = sa_adcs s ! j" if "j \<in> set ks" for j
      using updateAdc_others [OF u] that Cons.prems(2) by auto
    have hit: "max r0 q = CalibFailure" if "r0 < AdcError" "ai_isGood (inp k)" "r0 = CalibFailure \<or> adc_nan (inp k) (sa_adcs s ! k)"
      using that updateAdc_ret [OF u] by (cases r0; cases q) (auto simp: max_def less_eq_update_ret_def less_update_ret_def)
    have lt: "max r0 q < AdcError" if "r0 < AdcError" "ai_isGood (inp k)"
      using that updateAdc_ret(1) [OF u] by (cases q) (auto simp: less_update_ret_def max_def)
    have eq: "max r0 q = AdcError \<longleftrightarrow> r0 = AdcError \<or> \<not> ai_isGood (inp k)"
      using ret_max_failure(1) updateAdc_ret(1) [OF u] by blast
    have ih: "r = AdcError \<longleftrightarrow> max r0 q = AdcError \<or> (\<exists>k\<in>set ks. \<not> ai_isGood (inp k))"
      "max r0 q < AdcError \<Longrightarrow> \<forall>k\<in>set ks. ai_isGood (inp k) \<Longrightarrow>
        max r0 q = CalibFailure \<or> (\<exists>k\<in>set ks. adc_nan (inp k) (sa_adcs s ! k)) \<Longrightarrow> r = CalibFailure"
      using Cons.IH [OF rest] Cons.prems(2) other by auto
    show ?case using ih hit lt eq by auto
  qed auto
  then show "r = AdcError \<longleftrightarrow> r0 = AdcError \<or> (\<exists>k\<in>set ks. \<not> ai_isGood (inp k))"
    "r0 < AdcError \<Longrightarrow> \<forall>k\<in>set ks. ai_isGood (inp k) \<Longrightarrow>
      r0 = CalibFailure \<or> (\<exists>k\<in>set ks. adc_nan (inp k) (sa_adcs s ! k)) \<Longrightarrow> r = CalibFailure" by blast+
qed

lemma sampler_update_ret:
  assumes "sampler_update d now inp s = Inr (r, s')" "\<not> sa_halted s"
  shows "r = AdcError \<longleftrightarrow> (\<exists>k<length (sa_adcs s). \<not> ai_isGood (inp k))"
    "\<forall>k<length (sa_adcs s). ai_isGood (inp k) \<Longrightarrow> \<exists>k<length (sa_adcs s). adc_nan (inp k) (sa_adcs s ! k) \<Longrightarrow> r = CalibFailure"
proof -
  obtain v t where u: "updateAdcs d now inp [0..<length (sa_adcs s)] (NoNewData, False, s) = Inr (r, v, t)"
    using assms by (auto simp: sampler_update_def bindE_Inr_iff)
  show "r = AdcError \<longleftrightarrow> (\<exists>k<length (sa_adcs s). \<not> ai_isGood (inp k))"
    using updateAdcs_ret(1) [OF u] by auto
  show "\<forall>k<length (sa_adcs s). ai_isGood (inp k) \<Longrightarrow> \<exists>k<length (sa_adcs s). adc_nan (inp k) (sa_adcs s ! k) \<Longrightarrow> r = CalibFailure"
    using updateAdcs_ret(2) [OF u] by (simp add: less_update_ret_def Bex_def)
qed

section \<open>The loop stops the converter on a failure\<close>

lemma rt_no_data_facts:
  "rt_delayStart (rt_no_data i r) = rt_delayStart r" "tripped now (rt_m r) \<Longrightarrow> tripped now (rt_m (rt_no_data i r))"
  by (auto simp: rt_no_data_def Let_def tripped_def inBackoff_def)

lemma stall_watchdog_tripped:
  assumes "tripped (in_now i) (rt_m r)"
  shows "rt_delayStart (stall_watchdog i ret r) = rt_delayStart r" "tripped (in_now i) (rt_m (stall_watchdog i ret r))"
  using assms by (auto simp: stall_watchdog_def Let_def tripped_def inBackoff_def)

lemma rt_loop_failure:
  assumes "rt_loop i CalibFailure False n r = Inr r'" "uint (in_now i) < 2 ^ 63"
  shows "tripped (in_now i) (rt_m r') \<and> rt_delayStart r' = in_now i + 4000000"
proof -
  let ?r1 = "stopAndBackoff (in_now i) 4 r"
  have 1: "tripped (in_now i) (rt_m ?r1)" "rt_delayStart ?r1 = in_now i + 4000000"
    using shutdown_tripped [OF _ assms(2), of 5] by (simp_all add: stopAndBackoff_def)
  have "r' = rt_no_data i (stall_watchdog i CalibFailure ?r1)" using assms(1) by (simp add: rt_loop_def Let_def)
  then show ?thesis using rt_no_data_facts stall_watchdog_tripped [OF 1(1)] 1(2) by simp
qed

section \<open>Properties\<close>

text \<open>C4: What the sampler tells the real-time loop, and what the loop does with it. An update that returns
  reports an ADC error exactly when some ADC is not good; and when all ADCs are good but one of them has a
  NaN among the samples it delivers (from a streamed batch, a snapshot of its channels, or the selected
  channel of a multiplexed one), the same pass of the loop ends with the converter disabled, the
  back-flow switch open, the sweep ended, a backoff running and the start delayed by four seconds.\<close>
theorem nan_sample_stops:
  assumes "sampler_update d now inp s = Inr (r, s')" "\<not> sa_halted s"
  shows "(r = AdcError \<longleftrightarrow> (\<exists>k<length (sa_adcs s). \<not> ai_isGood (inp k))) \<and>
    ((\<forall>k<length (sa_adcs s). ai_isGood (inp k)) \<and> (\<exists>k<length (sa_adcs s). adc_nan (inp k) (sa_adcs s ! k)) \<and>
     uint (in_now i) < 2 ^ 63 \<and> rt_loop i r False n rt = Inr rt' \<longrightarrow>
       tripped (in_now i) (rt_m rt') \<and> rt_delayStart rt' = in_now i + 4000000)"
  using sampler_update_ret [OF assms] rt_loop_failure [of i n rt rt'] by blast

text \<open>C20: Calibration counts finished rounds, not finished sensors. Take a batch of samples that an ADC
  streams after \<open>startCalibration\<close> and that is accepted without a failure. As soon as some sensor got 200
  samples per real sensor, calibration is over, and every sensor that got fewer than 200
  of them is left without an offset: the rounds of the fast sensor were counted in its place.\<close>
theorem calib_counts_rounds:
  assumes "read_stream d now k xs (NoNewData, startCalibration s) = Inr (r, s')" "r < CalibFailure"
    and "\<forall>x\<in>set (sa_sensors s). se_calibBuffer x = macc_clear" "wired k s"
    and "i < length (sa_sensors s)" "200 * length (sa_real s) \<le> sample_count (as_byCh (sa_adcs s ! k)) i xs"
  shows "sa_calibrating s' = 0 \<and>
    (\<forall>j<length (sa_sensors s). sample_count (as_byCh (sa_adcs s ! k)) j xs < 200 \<longrightarrow>
       feq (se_calibrationAvg (sensor_at s' j)) (Fin 0))"
proof -
  have f: "sa_frame s (startCalibration s)" by (rule startCalibration_frame)
  have inv: "round_inv (length (sa_real s)) (\<lambda>j. 0 + sample_count (as_byCh (sa_adcs s ! k)) j xs) s'"
    using read_stream_rounds [OF assms(1,2) wired_frame [OF f assms(4)] round_inv_start [OF assms(3)]] f
    by (simp add: sa_frame_def)
  have len: "length (sa_sensors s') = length (sa_sensors s)"
    using read_stream_frame [OF assms(1)] sa_frame_length [OF f] sa_frame_length by metis
  have le: "length (sa_real s) \<le> sample_count (as_byCh (sa_adcs s ! k)) i xs div 200" using assms(6) by linarith
  have over: "sa_calibrating s' = 0"
  proof (rule ccontr)
    assume c: "sa_calibrating s' \<noteq> 0"
    have "unat (sa_calibrating s') + sample_count (as_byCh (sa_adcs s ! k)) i xs div 200 \<le> length (sa_real s)"
      using inv c assms(5) len by (simp add: round_inv_def)
    moreover have "unat (sa_calibrating s') \<noteq> 0" using c by (simp add: unat_eq_zero)
    ultimately show False using le by linarith
  qed
  show ?thesis using inv len over by (simp add: round_inv_def)
qed

lemma example_streamed:
  obtains s where "bindE (example_sampler StreamedCallback) (\<lambda>s. Inr (s\<lparr>sa_ignore := True\<rparr>)) = Inr s"
    "\<forall>x\<in>set (sa_sensors s). se_calibBuffer x = macc_clear" "wired 0 s" "length (sa_sensors s) = 3"
    "length (sa_real s) = 3" "as_byCh (sa_adcs s ! 0) = [Some 0, Some 1, Some 2, None, None, None, None, None]"
    "sa_ignore s" "\<not> sa_anfEnabled s"
proof -
  have "resD (bindE (example_sampler StreamedCallback) (\<lambda>s. Inr (s\<lparr>sa_ignore := True\<rparr>)))
    (\<lambda>s. (\<forall>x\<in>set (sa_sensors s). se_calibBuffer x = macc_clear) \<and> length (sa_sensors s) = 3 \<and> length (sa_real s) = 3
      \<and> as_byCh (sa_adcs s ! 0) = [Some 0, Some 1, Some 2, None, None, None, None, None] \<and> sa_ignore s \<and> \<not> sa_anfEnabled s)"
    by code_simp
  then show thesis using that by (elim resD_E) (auto simp: wired_def)
qed

lemma calib_counts_rounds_witness:
  "\<exists>s r s'. bindE (example_sampler StreamedCallback) (\<lambda>s. Inr (s\<lparr>sa_ignore := True\<rparr>)) = Inr s \<and>
     read_stream example_dsp 0 0 (replicate 600 (2, Fin 1)) (NoNewData, startCalibration s) = Inr (r, s') \<and>
     sa_calibrating s' = 0 \<and> feq (se_calibrationAvg (sensor_at s' 0)) (Fin 0)"
proof -
  obtain s where s: "bindE (example_sampler StreamedCallback) (\<lambda>s. Inr (s\<lparr>sa_ignore := True\<rparr>)) = Inr s"
    "\<forall>x\<in>set (sa_sensors s). se_calibBuffer x = macc_clear" "wired 0 s" "length (sa_sensors s) = 3"
    "length (sa_real s) = 3" "as_byCh (sa_adcs s ! 0) = [Some 0, Some 1, Some 2, None, None, None, None, None]"
    "sa_ignore s" "\<not> sa_anfEnabled s" by (rule example_streamed)
  let ?xs = "replicate 600 (2 :: u8, Fin 1)"
  have cnt: "sample_count (as_byCh (sa_adcs s ! 0)) 2 ?xs = 600" "sample_count (as_byCh (sa_adcs s ! 0)) 0 ?xs = 0"
    by (simp_all add: sample_count_def s(6))
  have "buffer.all_ok s" using s(2) by (auto simp: buffer.all_ok_def buffer_ok_def macc_clear_def)
  then have "calm 0 (startCalibration s)"
    using s(3,7,8) buffer.start count_ok_start wired_frame [OF startCalibration_frame(1) s(3)]
    by (auto simp: calm_def startCalibration_def)
  then obtain r s' where r: "read_stream example_dsp 0 0 ?xs (NoNewData, startCalibration s) = Inr (r, s')" "r < CalibFailure"
    using read_stream_calm [of 0 "startCalibration s" NoNewData ?xs example_dsp 0] s(6)
    by (auto simp: less_update_ret_def startCalibration_def)
  show ?thesis using calib_counts_rounds [OF r s(2,3), of 2] s(1,4,5) cnt r(1) by auto
qed

definition example_nan :: "nat \<Rightarrow> adc_in" where
  "example_nan k = \<lparr>ai_hasData = True, ai_isGood = True, ai_read = [(1, NaN)], ai_get = \<lambda>_. Fin 0\<rparr>"

lemma nan_sample_stops_witness:
  "\<exists>s r s' rt'. example_sampler StreamedCallback = Inr s \<and> sampler_update example_dsp 0 example_nan s = Inr (r, s') \<and>
     rt_loop (example_inputs 30 7) r False 1 (rt_new (example_mppt example_on) False) = Inr rt' \<and> conv_off (rt_m rt')"
proof -
  have "resD (example_sampler StreamedCallback) (\<lambda>s. \<not> sa_halted s \<and> length (sa_adcs s) = 1 \<and>
      as_mode (sa_adcs s ! 0) = StreamedCallback \<and> as_byCh (sa_adcs s ! 0) ! 1 = Some 1 \<and> length (as_byCh (sa_adcs s ! 0)) = 8 \<and>
      sa_virtual s = [] \<and> \<not> ripple_configured (sa_ripple s))"
    by code_simp
  then obtain s where s: "example_sampler StreamedCallback = Inr s" "\<not> sa_halted s" "length (sa_adcs s) = 1"
      "as_mode (sa_adcs s ! 0) = StreamedCallback" "as_byCh (sa_adcs s ! 0) ! 1 = Some 1" "length (as_byCh (sa_adcs s ! 0)) = 8"
      "sa_virtual s = []" "\<not> ripple_configured (sa_ripple s)"
    by (elim resD_E) blast
  have "updateAdc example_dsp 0 (example_nan 0) 0 s = Inr (CalibFailure, s)"
    using s(4,5,6) by (simp add: updateAdc_def example_nan_def read_one_def addSensorSample_def max_def less_eq_update_ret_def)
  then obtain r s' where u: "sampler_update example_dsp 0 example_nan s = Inr (r, s')"
    using s(2,3,4,7,8) by (simp add: sampler_update_def autotune_def)
  let ?i = "example_inputs 30 7" and ?rt = "rt_new (example_mppt example_on) False"
  have good: "\<forall>k<length (sa_adcs s). ai_isGood (example_nan k)" by (simp add: example_nan_def)
  have nan: "\<exists>k<length (sa_adcs s). adc_nan (example_nan k) (sa_adcs s ! k)"
    using s(3,4) by (simp add: adc_nan_def example_nan_def)
  have "r = CalibFailure" using sampler_update_ret(2) [OF u s(2) good nan] .
  then obtain rt' where rt: "rt_loop ?i r False 1 ?rt = Inr rt'" by (simp add: rt_loop_def Let_def)
  have "uint (in_now ?i) < 2 ^ 63" by (simp add: example_inputs_def)
  then have "tripped (in_now ?i) (rt_m rt')"
    using nan_sample_stops [OF u s(2), of ?i 1 ?rt rt'] good nan rt by blast
  then show ?thesis using rt s(1) u by (auto simp: tripped_def)
qed

end
