(* ===== verification/SymLine.thy ===== *)
theory SymLine
  imports Prelude
begin

text \<open>
  \<open>src/src/tele/sym_line_protocol.h\<close>: the binary line protocol of the telemetry, its symbol table and the
  decoder. Bytes are \<^typ>\<open>u8\<close>. A \<open>float\<close> or \<open>double\<close> is here the word \<open>memcpy\<close> makes of it, since the code
  only copies and shifts it. The decoder prints floating point values with \<open>%g\<close>; its two instances are the
  arguments \<open>g32\<close> and \<open>g64\<close> of the decoder.
\<close>

unbundle bit_operations_syntax

type_synonym bytes = "u8 list"

section \<open>Data types and frames\<close>

datatype wire_dt = DtStr | DtBool | DtI8 | DtU8 | DtI16 | DtU16 | DtI32 | DtU32 | DtF16 | DtF32 | DtF64

fun dt_code :: "wire_dt \<Rightarrow> u8" where
  "dt_code DtStr = 0" | "dt_code DtBool = 1" | "dt_code DtI8 = 2" | "dt_code DtU8 = 3" | "dt_code DtI16 = 4"
| "dt_code DtU16 = 5" | "dt_code DtI32 = 6" | "dt_code DtU32 = 7" | "dt_code DtF16 = 8" | "dt_code DtF32 = 9"
| "dt_code DtF64 = 10"

fun dtSize :: "wire_dt \<Rightarrow> nat" where
  "dtSize DtStr = 0"
| "dtSize DtBool = 1" | "dtSize DtI8 = 1" | "dtSize DtU8 = 1"
| "dtSize DtI16 = 2" | "dtSize DtU16 = 2" | "dtSize DtF16 = 2"
| "dtSize DtF64 = 8"
| "dtSize DtI32 = 4" | "dtSize DtU32 = 4" | "dtSize DtF32 = 4"

definition frame_Data :: u8 where "frame_Data = 1"
definition frame_Table :: u8 where "frame_Table = 2"

section \<open>Varints and raw values\<close>

function putVarint :: "u64 \<Rightarrow> bytes" where
  "putVarint v =
    (if 0x80 \<le> v then (ucast (v AND 0x7F) OR 0x80) # putVarint (drop_bit 7 v) else [ucast v])"
  by auto
termination
proof (relation "measure unat")
  fix v :: u64 assume "0x80 \<le> v"
  then have "128 \<le> unat v" by (simp add: word_le_nat_alt)
  then have "unat v div 2 ^ 7 < unat v" by simp
  then show "(drop_bit 7 v, v) \<in> measure unat" by (simp add: unat_drop_bit_eq drop_bit_eq_div unat_div_distrib)
qed simp

declare putVarint.simps [simp del]

fun getv :: "nat \<Rightarrow> u64 \<Rightarrow> nat \<Rightarrow> bytes \<Rightarrow> (u64 \<times> bytes) res" where
  \<comment> \<open>the loop of \<open>getVarint\<close> on the bytes from \<open>p\<close> on; \<open>fin\<close> of them lie after \<open>end\<close>. A shift by
    the width of the word or more is undefined.\<close>
  "getv fin v sh [] = Inr (v, [])"
| "getv fin v sh (b # bs) =
    (if length bs < fin then Inr (v, b # bs)
     else if 64 \<le> sh then Inl Undefined
     else let v' = v OR push_bit sh (ucast (b AND 0x7F))
          in if b AND 0x80 = 0 then Inr (v', bs) else getv fin v' (sh + 7) bs)"

definition getVarint :: "nat \<Rightarrow> bytes \<Rightarrow> (u64 \<times> bytes) res" where
  "getVarint fin bs = getv fin 0 0 bs"

fun le_bytes :: "nat \<Rightarrow> 'a::len word \<Rightarrow> bytes" where
  \<comment> \<open>\<open>memcpy\<close> of a value on the little-endian target\<close>
  "le_bytes 0 w = []"
| "le_bytes (Suc n) w = ucast w # le_bytes n (drop_bit 8 w)"

fun le_value :: "bytes \<Rightarrow> 'a::len word" where
  "le_value [] = 0"
| "le_value (b # bs) = ucast b OR push_bit 8 (le_value bs)"

section \<open>binary32 to binary16 and back\<close>

definition f32ToF16 :: "u32 \<Rightarrow> u16" where
  "f32ToF16 x =
    (let sg = drop_bit 16 x AND 0x8000; rawE = drop_bit 23 x AND 0xFF;
         e = uint rawE - 127 + 15; mant = x AND 0x7FFFFF
     in if rawE = 0xFF then ucast (sg OR 0x7C00 OR (if mant \<noteq> 0 then 0x200 else 0))
        else if e \<ge> 0x1F then ucast (sg OR 0x7C00)
        else if e \<le> 0 then
          (if e < - 10 then ucast sg
           else let m = mant OR 0x800000; shift = nat (14 - e); h = ucast (drop_bit shift m) :: u16;
                    h1 = (if drop_bit (shift - 1) m AND 1 \<noteq> 0 then h + 1 else h)
                in ucast sg OR h1)
        else (let h = ucast (sg OR push_bit 10 (word_of_int e) OR drop_bit 13 mant) :: u16
              in if mant AND 0x1000 \<noteq> 0 then h + 1 else h))"

function f16_norm :: "u32 \<Rightarrow> u32 \<Rightarrow> u32 \<times> u32" where
  \<comment> \<open>\<open>while (!(mant & 0x400)) { mant <<= 1; exp--; }\<close>, for a mantissa of at most 10 bits that is not 0,
    which has bit 10 as soon as it is \<open>0x400\<close> or more\<close>
  "f16_norm mant e =
    (if mant = 0 \<or> 0x400 \<le> mant then (mant, e) else f16_norm (push_bit 1 mant) (e - 1))"
  by auto
termination
proof (relation "measure (\<lambda>(m, e). 1024 - unat m)")
  fix m e :: u32 assume "\<not> (m = 0 \<or> 0x400 \<le> m)"
  then have "0 < unat m" "unat m < 1024" by (auto simp: word_le_nat_alt unat_gt_0 not_le)
  moreover from this have "unat (push_bit 1 m) = 2 * unat m"
    by (simp add: push_bit_eq_mult unat_word_ariths)
  ultimately show "((push_bit 1 m, e - 1), m, e) \<in> measure (\<lambda>(m, e). 1024 - unat m)" by simp
qed simp

declare f16_norm.simps [simp del]

definition f16ToF32 :: "u16 \<Rightarrow> u32" where
  "f16ToF32 h =
    (let sg = push_bit 16 (ucast (h AND 0x8000)); e = ucast (drop_bit 10 h) AND 0x1F; mant = ucast (h AND 0x3FF) :: u32
     in if e = 0 then
          (if mant = 0 then sg
           else let (m, e') = f16_norm mant (127 - 15 + 1) in sg OR push_bit 23 e' OR push_bit 13 (m AND 0x3FF))
        else if e = 0x1F then sg OR 0x7F800000 OR push_bit 13 mant
        else sg OR push_bit 23 (e - 15 + 127) OR push_bit 13 mant)"

section \<open>Symbol table\<close>

record symtab =
  st_ids :: "bytes \<rightharpoonup> u32"
  st_names :: "bytes list"          \<comment> \<open>index = SID - 1\<close>
  st_dts :: "wire_dt list"
  st_pts :: u32
  st_lastFullMs :: int
  st_burstLeft :: int
  st_spacedLeft :: int
  st_spacedNextMs :: int

definition symtab_new :: symtab where
  "symtab_new = \<lparr>st_ids = (\<lambda>_. None), st_names = [], st_dts = [], st_pts = 0, st_lastFullMs = 0,
     st_burstLeft = 0, st_spacedLeft = 0, st_spacedNextMs = 0\<rparr>"

definition kBurstCount :: int where "kBurstCount = 3"
definition kSpacedCount :: int where "kSpacedCount = 2"
definition kResendMs :: int where "kResendMs = 20000"
definition kEveryPts :: u32 where "kEveryPts = 200"
definition kEveryMs :: int where "kEveryMs = 120000"

definition intern :: "bytes \<Rightarrow> wire_dt \<Rightarrow> symtab \<Rightarrow> (u32 \<times> bool \<times> symtab) res" where
  \<comment> \<open>the SID, \<open>isNew\<close> and the table\<close>
  "intern s dt t =
    (case st_ids t s of
       Some sid \<Rightarrow> if st_dts t ! (unat sid - 1) = dt then Inr (sid, False, t) else Inl AssertFail
     | None \<Rightarrow> let sid = of_nat (length (st_names t)) + 1
               in Inr (sid, True, t\<lparr>st_ids := (st_ids t)(s \<mapsto> sid), st_names := st_names t @ [s], st_dts := st_dts t @ [dt]\<rparr>))"

definition writeEntry :: "nat \<Rightarrow> symtab \<Rightarrow> bytes" where
  "writeEntry sid t = putVarint (of_nat sid) @ st_names t ! (sid - 1) @ [0, dt_code (st_dts t ! (sid - 1))]"

definition writeFullTable :: "symtab \<Rightarrow> bytes" where
  "writeFullTable t = frame_Table # concat (map (\<lambda>i. writeEntry i t) [1..<length (st_names t) + 1]) @ [0]"

definition forceResend :: "symtab \<Rightarrow> symtab" where
  "forceResend t = t\<lparr>st_burstLeft := kBurstCount, st_spacedLeft := kSpacedCount\<rparr>"

definition tableDue :: "int \<Rightarrow> bool \<Rightarrow> symtab \<Rightarrow> bool \<times> symtab" where
  "tableDue now sawNew t =
    (let t1 = (if sawNew then t\<lparr>st_burstLeft := kBurstCount, st_spacedLeft := kSpacedCount, st_spacedNextMs := now + kResendMs\<rparr> else t);
         t2 = t1\<lparr>st_pts := st_pts t1 + 1\<rparr>;
         full0 = (kEveryPts \<le> st_pts t2 \<or> kEveryMs \<le> now - st_lastFullMs t2);
         (full, t3) = (if 0 < st_burstLeft t2 then (True, t2\<lparr>st_burstLeft := st_burstLeft t2 - 1\<rparr>)
                       else if 0 < st_spacedLeft t2 \<and> st_spacedNextMs t2 \<le> now
                       then (True, t2\<lparr>st_spacedLeft := st_spacedLeft t2 - 1, st_spacedNextMs := now + kResendMs\<rparr>)
                       else (full0, t2))
     in (full, if full then t3\<lparr>st_pts := 0, st_lastFullMs := now\<rparr> else t3))"

section \<open>Building a point\<close>

record blp =
  bl_tab :: symtab
  bl_body :: bytes
  bl_fields :: bool
  bl_sawNew :: bool
  bl_ts :: int

definition putSid :: "bytes \<Rightarrow> wire_dt \<Rightarrow> blp \<Rightarrow> blp res" where
  "putSid s dt b =
    bindE (intern s dt (bl_tab b)) (\<lambda>(sid, isNew, t).
      Inr (b\<lparr>bl_tab := t, bl_body := bl_body b @ putVarint (ucast sid), bl_sawNew := bl_sawNew b \<or> isNew\<rparr>))"

definition beginFields :: "blp \<Rightarrow> blp" where
  "beginFields b = (if bl_fields b then b else b\<lparr>bl_body := bl_body b @ [0], bl_fields := True\<rparr>)"

definition putVal :: "bytes \<Rightarrow> wire_dt \<Rightarrow> bytes \<Rightarrow> blp \<Rightarrow> blp res" where
  "putVal k dt raw b =
    bindE (putSid k dt (beginFields b)) (\<lambda>b1. Inr (b1\<lparr>bl_body := bl_body b1 @ raw\<rparr>))"

definition blp_new :: "symtab \<Rightarrow> bytes \<Rightarrow> blp res" where
  "blp_new t measurement =
    putSid measurement DtStr \<lparr>bl_tab = t, bl_body = [], bl_fields = False, bl_sawNew = False, bl_ts = - 1\<rparr>"

definition addTag :: "bytes \<Rightarrow> bytes \<Rightarrow> blp \<Rightarrow> blp res" where
  "addTag k v b = bindE (putSid k DtStr b) (putSid v DtStr)"

datatype fval = VBool bool | VI32 u32 | VF32 u32 | VI16 u16 | VU16 u16 | VU8 u8 | VF16 u32 | VF64 u64

definition isnan32 :: "u32 \<Rightarrow> bool" where "isnan32 x = (x AND 0x7FFFFFFF > 0x7F800000)"
definition isnan64 :: "u64 \<Rightarrow> bool" where "isnan64 x = (x AND 0x7FFFFFFFFFFFFFFF > 0x7FF0000000000000)"

fun val_dt :: "fval \<Rightarrow> wire_dt" where
  "val_dt (VBool _) = DtBool" | "val_dt (VI32 _) = DtI32" | "val_dt (VF32 _) = DtF32" | "val_dt (VI16 _) = DtI16"
| "val_dt (VU16 _) = DtU16" | "val_dt (VU8 _) = DtU8" | "val_dt (VF16 _) = DtF16" | "val_dt (VF64 _) = DtF64"

fun val_raw :: "fval \<Rightarrow> bytes" where
  "val_raw (VBool b) = [if b then 1 else 0]" | "val_raw (VI32 w) = le_bytes 4 w" | "val_raw (VF32 w) = le_bytes 4 w"
| "val_raw (VI16 w) = le_bytes 2 w" | "val_raw (VU16 w) = le_bytes 2 w" | "val_raw (VU8 w) = [w]"
| "val_raw (VF16 w) = le_bytes 2 (f32ToF16 w)" | "val_raw (VF64 w) = le_bytes 8 w"

fun val_nan :: "fval \<Rightarrow> bool" where
  "val_nan (VF32 w) = isnan32 w" | "val_nan (VF16 w) = isnan32 w" | "val_nan (VF64 w) = isnan64 w" | "val_nan _ = False"

definition addField :: "bytes \<Rightarrow> fval \<Rightarrow> blp \<Rightarrow> blp res" where
  \<comment> \<open>all the \<open>addField\<close> variants; a NaN is skipped\<close>
  "addField k v b = (if val_nan v then Inr b else putVal k (val_dt v) (val_raw v) b)"

definition setTimeMs :: "int \<Rightarrow> blp \<Rightarrow> blp" where
  "setTimeMs ms b = b\<lparr>bl_ts := ms\<rparr>"

definition blp_take :: "blp \<Rightarrow> bytes \<times> symtab" where
  "blp_take b =
    (let ts = (if bl_ts b < 0 then 0 else bl_ts b);
         body = bl_body b @ (if bl_fields b then [] else [0]) @ [0] @ putVarint (word_of_int ts);
         (due, t) = tableDue ts (bl_sawNew b) (bl_tab b);
         tbl = (if due then (let w = writeFullTable t in putVarint (of_nat (length w)) @ w) else [])
     in (tbl @ putVarint (of_nat (length body + 1)) @ [frame_Data] @ body, t))"

section \<open>Decoder\<close>

type_synonym lp_table = "(bytes \<times> u8) list"   \<comment> \<open>\<open>vector<LpSym>\<close>: name and data type byte\<close>

definition chr :: "char \<Rightarrow> u8" where "chr c = of_char c"

definition ascii :: "string \<Rightarrow> bytes" where "ascii s = map chr s"

function u_dec :: "nat \<Rightarrow> bytes" where
  \<comment> \<open>\<open>%u\<close>, \<open>%llu\<close>\<close>
  "u_dec n = (if n < 10 then [of_nat (48 + n)] else u_dec (n div 10) @ [of_nat (48 + n mod 10)])"
  by auto
termination by (relation "measure id") auto

declare u_dec.simps [simp del]

definition i_dec :: "int \<Rightarrow> bytes" where
  \<comment> \<open>\<open>%d\<close>\<close>
  "i_dec i = (if i < 0 then chr CHR ''-'' # u_dec (nat (- i)) else u_dec (nat i))"

definition lp_sym :: "lp_table \<Rightarrow> u64 \<Rightarrow> (bytes \<times> u8) option" where
  "lp_sym tab sid = (if 1 \<le> unat sid \<and> unat sid \<le> length tab then Some (tab ! (unat sid - 1)) else None)"

definition lp_set :: "u64 \<Rightarrow> bytes \<times> u8 \<Rightarrow> lp_table \<Rightarrow> lp_table" where
  "lp_set sid e tab =
    (let tab1 = (if length tab < unat sid then tab @ replicate (unat sid - length tab) ([], 0) else tab)
     in tab1[unat sid - 1 := e])"

definition take_raw :: "nat \<Rightarrow> bytes \<Rightarrow> bytes res" where
  \<comment> \<open>\<open>n\<close> bytes at \<open>p\<close>; reading past the datagram is undefined\<close>
  "take_raw n bs = (if n \<le> length bs then Inr (take n bs) else Inl Undefined)"

definition read_name :: "bytes \<Rightarrow> (bytes \<times> bytes) res" where
  \<comment> \<open>a zero terminated string and what follows it\<close>
  "read_name bs =
    (if 0 \<in> set bs then Inr (takeWhile (\<lambda>b. b \<noteq> 0) bs, tl (dropWhile (\<lambda>b. b \<noteq> 0) bs)) else Inl Undefined)"

lemma getv_length: "getv fin v sh bs = Inr (w, r) \<Longrightarrow> length r \<le> length bs"
  by (induction fin v sh bs rule: getv.induct) (auto simp: Let_def split: if_splits)

lemma getVarint_length: "getVarint fin bs = Inr (w, r) \<Longrightarrow> length r \<le> length bs"
  unfolding getVarint_def by (rule getv_length)

lemma getVarint_progress: "getVarint fin bs = Inr (w, r) \<Longrightarrow> fin < length bs \<Longrightarrow> length r < length bs"
  by (cases bs) (auto simp: getVarint_def Let_def split: if_splits dest: getv_length)

lemma getVarint_end: "length bs \<le> fin \<Longrightarrow> getVarint fin bs = Inr (0, bs)"
  by (cases bs) (auto simp: getVarint_def)

lemma known_progress:
  assumes "getVarint fin bs = Inr (k, r)" "lp_sym tab k = Some x"
  shows "length r < length bs"
proof (cases "fin < length bs")
  case False
  then have "k = 0" using assms(1) getVarint_end [of bs fin] by simp
  then show ?thesis using assms(2) by (simp add: lp_sym_def)
qed (rule getVarint_progress [OF assms(1)])

lemma tags_progress:
  assumes "getVarint fin (b # bs) = Inr (k, r)" "getVarint fin r = Inr (v, r2)" "Some x = lp_sym tab k"
  shows "length r2 < Suc (length bs)"
  using known_progress [OF assms(1) assms(3) [symmetric]] getVarint_length [OF assms(2)] by simp

lemma read_name_length:
  assumes "read_name bs = Inr (n, r)"
  shows "length r < length bs"
proof -
  have z: "0 \<in> set bs" and r: "r = tl (dropWhile (\<lambda>b. b \<noteq> 0) bs)"
    using assms by (auto simp: read_name_def split: if_splits)
  then have "dropWhile (\<lambda>b. b \<noteq> 0) bs \<noteq> []" by (auto simp: dropWhile_eq_Nil_conv)
  then have "length r < length (dropWhile (\<lambda>b. b \<noteq> 0) bs)" using r by simp
  then show ?thesis using length_dropWhile_le [of "\<lambda>b. b \<noteq> 0" bs] by linarith
qed

function dec_table :: "nat \<Rightarrow> bytes \<Rightarrow> lp_table \<Rightarrow> lp_table res" where
  "dec_table fin bs tab =
    (case getVarint fin bs of Inl e \<Rightarrow> Inl e
     | Inr (sid, r1) \<Rightarrow>
         if sid = 0 then Inr tab
         else (case read_name r1 of Inl e \<Rightarrow> Inl e
               | Inr (name, r2) \<Rightarrow>
                   (case r2 of [] \<Rightarrow> Inl Undefined
                    | dt # r3 \<Rightarrow> dec_table fin r3 (lp_set sid (name, dt) tab))))"
  by pat_completeness auto
termination
  by (relation "measure (\<lambda>(fin, bs, tab). length bs)") (auto dest!: getVarint_length read_name_length)

declare dec_table.simps [simp del]

function dec_tags :: "nat \<Rightarrow> lp_table \<Rightarrow> bytes \<Rightarrow> bytes \<Rightarrow> (bytes \<times> bytes) option res" where
  \<comment> \<open>the loop over the tags: the line so far and the bytes after the terminator, or \<open>None\<close> for \<open>return ""\<close>\<close>
  "dec_tags fin tab bs line =
    (case bs of [] \<Rightarrow> Inl Undefined
     | b # bs' \<Rightarrow>
         if b = 0 then Inr (Some (line, bs'))
         else (case getVarint fin bs of Inl e \<Rightarrow> Inl e
               | Inr (k, r1) \<Rightarrow>
                   (case getVarint fin r1 of Inl e \<Rightarrow> Inl e
                    | Inr (v, r2) \<Rightarrow>
                        (case (lp_sym tab k, lp_sym tab v) of
                           (Some (kn, _), Some (vn, _)) \<Rightarrow>
                             dec_tags fin tab r2 (line @ chr CHR '','' # kn @ chr CHR ''='' # vn)
                         | _ \<Rightarrow> Inr None))))"
  by pat_completeness auto
termination
  by (relation "measure (\<lambda>(fin, tab, bs, line). length bs)")
    (auto dest: tags_progress)

declare dec_tags.simps [simp del]

fun dt_of :: "u8 \<Rightarrow> wire_dt option" where
  \<comment> \<open>the cases of the \<open>switch\<close>; \<open>None\<close> is its \<open>default\<close>\<close>
  "dt_of b = (if b = 1 then Some DtBool else if b = 2 then Some DtI8 else if b = 3 then Some DtU8
    else if b = 4 then Some DtI16 else if b = 5 then Some DtU16 else if b = 6 then Some DtI32
    else if b = 7 then Some DtU32 else if b = 8 then Some DtF16 else if b = 9 then Some DtF32
    else if b = 10 then Some DtF64 else None)"

record printf_g =
  g32 :: "u32 \<Rightarrow> bytes"
  g64 :: "u64 \<Rightarrow> bytes"

fun render :: "printf_g \<Rightarrow> wire_dt \<Rightarrow> bytes \<Rightarrow> bytes" where
  "render g DtBool bs = (if hd bs \<noteq> 0 then ascii ''true'' else ascii ''false'')"
| "render g DtI8 bs = i_dec (sint (hd bs)) @ ascii ''i''"
| "render g DtU8 bs = u_dec (unat (hd bs)) @ ascii ''i''"
| "render g DtI16 bs = i_dec (sint (le_value bs :: u16)) @ ascii ''i''"
| "render g DtU16 bs = u_dec (unat (le_value bs :: u16)) @ ascii ''i''"
| "render g DtI32 bs = i_dec (sint (le_value bs :: u32)) @ ascii ''i''"
| "render g DtU32 bs = u_dec (unat (le_value bs :: u32)) @ ascii ''ui''"
| "render g DtF16 bs = g32 g (f16ToF32 (le_value bs))"
| "render g DtF32 bs = g32 g (le_value bs)"
| "render g DtF64 bs = g64 g (le_value bs)"
| "render g DtStr bs = []"

function dec_fields :: "printf_g \<Rightarrow> nat \<Rightarrow> lp_table \<Rightarrow> bytes \<Rightarrow> bool \<Rightarrow> bytes \<Rightarrow> (bytes \<times> bytes) option res" where
  "dec_fields g fin tab bs first line =
    (case bs of [] \<Rightarrow> Inl Undefined
     | b # bs' \<Rightarrow>
         if b = 0 then Inr (Some (line, bs'))
         else (case getVarint fin bs of Inl e \<Rightarrow> Inl e
               | Inr (k, r1) \<Rightarrow>
                   (case lp_sym tab k of None \<Rightarrow> Inr None
                    | Some (kn, dtb) \<Rightarrow>
                        (case dt_of dtb of None \<Rightarrow> Inr None
                         | Some dt \<Rightarrow>
                             (case take_raw (dtSize dt) r1 of Inl e \<Rightarrow> Inl e
                              | Inr raw \<Rightarrow> dec_fields g fin tab (drop (dtSize dt) r1) False
                                  (line @ chr (if first then CHR '' '' else CHR '','') # kn @ chr CHR ''='' # render g dt raw))))))"
  by pat_completeness auto
termination
  by (relation "measure (\<lambda>(g, fin, tab, bs, first, line). length bs)")
    (auto dest!: known_progress [OF _ sym] known_progress)

declare dec_fields.simps [simp del]

definition dec_data :: "printf_g \<Rightarrow> nat \<Rightarrow> lp_table \<Rightarrow> bytes \<Rightarrow> bytes option res" where
  \<comment> \<open>one Data frame after its type byte: the text line\<close>
  "dec_data g fin tab bs =
    bindE (getVarint fin bs) (\<lambda>(m, r1).
      case lp_sym tab m of None \<Rightarrow> Inr None
      | Some (mn, _) \<Rightarrow>
        bindE (dec_tags fin tab r1 mn) (\<lambda>t.
          case t of None \<Rightarrow> Inr None
          | Some (line, r2) \<Rightarrow>
            bindE (dec_fields g fin tab r2 True line) (\<lambda>f.
              case f of None \<Rightarrow> Inr None
              | Some (line2, r3) \<Rightarrow>
                bindE (getVarint fin r3) (\<lambda>(ts, _). Inr (Some (line2 @ chr CHR '' '' # u_dec (unat ts) @ [10]))))))"

function lpDecode :: "printf_g \<Rightarrow> bytes \<Rightarrow> bytes \<Rightarrow> lp_table \<Rightarrow> (bytes option \<times> lp_table) res" where
  \<comment> \<open>the text and the table; \<open>None\<close> is the empty string of a lost definition\<close>
  "lpDecode g bs out tab =
    (if bs = [] then Inr (Some out, tab)
     else (case getVarint 0 bs of Inl e \<Rightarrow> Inl e
           | Inr (flen, r1) \<Rightarrow>
               if length r1 < unat flen then Inr (Some out, tab)
               else (case r1 of [] \<Rightarrow> Inl Undefined
                     | ft # r2 \<Rightarrow>
                         let fin = length r1 - unat flen; rest = drop (unat flen) r1
                         in if ft = frame_Table then
                              (case dec_table fin r2 tab of Inl e \<Rightarrow> Inl e | Inr tab1 \<Rightarrow> lpDecode g rest out tab1)
                            else (case dec_data g fin tab r2 of Inl e \<Rightarrow> Inl e
                                  | Inr None \<Rightarrow> Inr (None, tab)
                                  | Inr (Some line) \<Rightarrow> lpDecode g rest (out @ line) tab))))"
  by pat_completeness auto
termination
  by (relation "measure (\<lambda>(g, bs, out, tab). length bs)") (auto dest!: getVarint_progress simp: less_imp_diff_less)

declare lpDecode.simps [simp del]

end
