(* ===== verification/SymLineProps.thy ===== *)
theory SymLineProps
  imports SymLine "HOL-Library.Sublist"
begin

text \<open>
  Properties of the binary line protocol: varints and raw values decode to what was encoded, a datagram
  decodes to exactly the point that was built or to nothing, and the symbol table is repeated often enough.
\<close>

unbundle bit_operations_syntax

section \<open>Bits of a byte\<close>

lemma bit_7F: "bit (0x7F :: 'a::len word) n \<longleftrightarrow> n < 7 \<and> n < LENGTH('a)"
proof -
  have m: "(0x7F :: 'a word) = mask 7" by (simp add: mask_eq_decr_exp)
  show ?thesis unfolding m by (auto simp only: bit_mask_iff possible_bit_word min_less_iff_conj)
qed

lemma bit_80: "bit (0x80 :: 'a::len word) n \<longleftrightarrow> n = 7 \<and> n < LENGTH('a)"
proof -
  have m: "(0x80 :: 'a word) = 2 ^ 7" by simp
  show ?thesis unfolding m by (auto simp only: bit_exp_iff possible_bit_word)
qed

lemmas word_bits = bit_and_iff bit_or_iff bit_take_bit_iff bit_push_bit_iff bit_drop_bit_eq bit_ucast_iff bit_unsigned_iff comp_def bit_7F bit_80

lemma low7: "(x :: 'a::len word) AND 0x7F = take_bit 7 x"
  by (rule bit_word_eqI) (auto simp only: word_bits possible_bit_word)

lemma or80: "(x :: 'a::len word) OR 0x80 = set_bit 7 x"
  by (rule bit_word_eqI) (auto simp only: word_bits bit_set_bit_iff possible_bit_word)

lemma and80: "(x :: u8) AND 0x80 = 0 \<longleftrightarrow> \<not> bit x 7"
proof
  assume "x AND 0x80 = 0"
  then have "\<not> bit (x AND 0x80) 7" by simp
  then show "\<not> bit x 7" by (simp only: word_bits) simp
next
  assume n: "\<not> bit x 7"
  show "x AND 0x80 = 0"
  proof (rule bit_word_eqI)
    fix m show "bit (x AND 0x80) m = bit 0 m" using n by (auto simp only: word_bits bit_0_eq bot_apply bot_bool_def)
  qed
qed

lemma byte_low:  "ucast ((ucast (v AND 0x7F) OR 0x80 :: u8) AND 0x7F) = (take_bit 7 v :: u64)"
  unfolding low7 or80 by (rule bit_word_eqI) (auto simp: bit_simps)

lemma byte_more: "(ucast (v AND 0x7F :: u64) OR 0x80 :: u8) AND 0x80 \<noteq> 0"
  unfolding and80 or80 by (simp add: bit_simps)

lemma small7: "unat (v :: u64) < 128 \<Longrightarrow> take_bit 7 v = v"
  by (simp add: take_bit_eq_mod word_arith_nat_mod)

lemma small7_bit: assumes "unat (v :: u64) < 128" "bit v n" shows "n < 7"
proof -
  have "bit (take_bit 7 v) n" using assms by (simp add: small7)
  then show ?thesis by (simp add: bit_take_bit_iff)
qed

lemma byte_last: "unat v < 128 \<Longrightarrow> (ucast (v::u64) :: u8) AND 0x80 = 0"
  unfolding and80 by (auto simp: bit_simps dest: small7_bit)

lemma byte_last_low: "unat v < 128 \<Longrightarrow> ucast ((ucast (v::u64) :: u8) AND 0x7F) = v"
  unfolding low7 by (rule bit_word_eqI) (auto simp: bit_simps dest: small7_bit)

lemma low_high: "push_bit sh (take_bit 7 v) OR push_bit (sh + 7) (drop_bit 7 v) = push_bit sh (v :: u64)"
proof -
  have "take_bit 7 v OR push_bit 7 (drop_bit 7 v) = v"
  proof (rule bit_word_eqI)
    fix n show "bit (take_bit 7 v OR push_bit 7 (drop_bit 7 v)) n = bit v n" if "n < LENGTH(64)"
      using that by (cases "n < 7") (auto simp: bit_simps)
  qed
  then have "push_bit sh (take_bit 7 v OR push_bit 7 (drop_bit 7 v)) = push_bit sh v" by simp
  then show ?thesis by (simp add: push_bit_or add.commute)
qed

lemma le_value_bytes: "le_value (le_bytes n w) = take_bit (8 * n) (w :: 'a::len word)"
proof (induction n arbitrary: w)
  case (Suc n)
  show ?case unfolding le_bytes.simps le_value.simps Suc.IH
  proof (rule bit_word_eqI)
    fix m show "bit (ucast (ucast w :: u8) OR push_bit 8 (take_bit (8 * n) (drop_bit 8 w))) m = bit (take_bit (8 * Suc n) w) m"
      if "m < LENGTH('a)" using that by (cases "m < 8") (auto simp: bit_simps)
  qed
qed simp

section \<open>Varints\<close>

lemma getv_putVarint:
  assumes "fin \<le> length r" "sh < 64" "unat v < 2 ^ (64 - sh)"
  shows "getv fin acc sh (putVarint v @ r) = Inr (acc OR push_bit sh v, r)"
  using assms
proof (induction v arbitrary: acc sh rule: putVarint.induct)
  case (1 v)
  show ?case
  proof (cases "0x80 \<le> v")
    case False
    then have "unat v < 128" by (simp add: word_le_nat_alt)
    then show ?thesis using 1 False byte_last [of v] byte_last_low [of v] by (subst putVarint.simps) simp
  next
    case True
    then have v: "128 \<le> unat v" by (simp add: word_le_nat_alt)
    have "sh + 7 < 64"
    proof (rule ccontr)
      assume "\<not> sh + 7 < 64"
      then have "(2 :: nat) ^ (64 - sh) \<le> 2 ^ 7" by (intro power_increasing) auto
      then show False using v "1.prems"(3) by simp
    qed
    moreover have "unat (drop_bit 7 v) < 2 ^ (64 - (sh + 7))"
    proof -
      have "(2 :: nat) ^ (64 - sh) = 2 ^ (64 - (sh + 7)) * 2 ^ 7"
        unfolding power_add [symmetric] using \<open>sh + 7 < 64\<close> by (intro arg_cong [of _ _ "\<lambda>n. 2 ^ n"]) simp
      then have "unat v < 2 ^ (64 - (sh + 7)) * 128" using "1.prems"(3) by simp
      then have "unat v div 128 < 2 ^ (64 - (sh + 7))" by (simp add: less_mult_imp_div_less)
      then show ?thesis by (simp add: unat_drop_bit_eq drop_bit_eq_div unat_div_distrib)
    qed
    ultimately have "getv fin (acc OR push_bit sh (take_bit 7 v)) (sh + 7) (putVarint (drop_bit 7 v) @ r)
        = Inr ((acc OR push_bit sh (take_bit 7 v)) OR push_bit (sh + 7) (drop_bit 7 v), r)"
      using "1.IH" [OF True] "1.prems"(1) by blast
    also have "(acc OR push_bit sh (take_bit 7 v)) OR push_bit (sh + 7) (drop_bit 7 v) = acc OR push_bit sh v"
      by (simp add: or.assoc low_high)
    finally show ?thesis using True "1.prems" byte_low [of v] byte_more [of v]
      by (subst putVarint.simps) (simp add: Let_def)
  qed
qed

lemma getVarint_putVarint [simp]: "fin \<le> length r \<Longrightarrow> getVarint fin (putVarint v @ r) = Inr (v, r)"
  using getv_putVarint [of fin r 0 v 0] unsigned_less [of v] by (simp add: getVarint_def)

lemma putVarint_first:
  assumes "v \<noteq> 0"
  obtains b bs where "putVarint v = b # bs" "b \<noteq> 0"
proof (cases "0x80 \<le> v")
  case True
  have "(ucast (v AND 0x7F) OR 0x80 :: u8) \<noteq> 0"
  proof
    assume z: "(ucast (v AND 0x7F) OR 0x80 :: u8) = 0"
    show False using byte_more [of v] unfolding z by simp
  qed
  then show thesis using that True by (subst (asm) putVarint.simps) auto
next
  case False
  then have v: "unat v < 128" by (simp add: word_le_nat_alt)
  have "(ucast v :: u8) \<noteq> 0" using byte_last_low [OF v] assms by auto
  then show thesis using that False by (subst (asm) putVarint.simps) auto
qed

section \<open>The symbol table\<close>

definition symtab_inv :: "symtab \<Rightarrow> bool" where
  "symtab_inv t =
    (length (st_dts t) = length (st_names t) \<and> (\<forall>s\<in>set (st_names t). 0 \<notin> set s) \<and>
     (\<forall>s sid. st_ids t s = Some sid \<longleftrightarrow>
        1 \<le> unat sid \<and> unat sid \<le> length (st_names t) \<and> st_names t ! (unat sid - 1) = s))"

definition ext :: "symtab \<Rightarrow> symtab \<Rightarrow> bool" where
  \<comment> \<open>symbols are only appended\<close>
  "ext t t' = (prefix (st_names t) (st_names t') \<and> prefix (st_dts t) (st_dts t'))"

definition knows :: "symtab \<Rightarrow> bytes \<Rightarrow> wire_dt \<Rightarrow> bool" where
  "knows t s dt = (\<exists>sid. st_ids t s = Some sid \<and> st_dts t ! (unat sid - 1) = dt)"

definition enc_sid :: "symtab \<Rightarrow> bytes \<Rightarrow> bytes" where
  "enc_sid t s = putVarint (ucast (the (st_ids t s)))"

definition small :: "symtab \<Rightarrow> bool" where
  \<comment> \<open>the 32 bit SID does not wrap\<close>
  "small t = (length (st_names t) < 2 ^ 32)"

lemma symtab_inv_new: "symtab_inv symtab_new"
  by (simp add: symtab_inv_def symtab_new_def)

lemma ext_refl [simp]: "ext t t" by (simp add: ext_def)
lemma ext_trans: "ext t u \<Longrightarrow> ext u v \<Longrightarrow> ext t v" by (auto simp: ext_def)
lemma small_ext: "ext t u \<Longrightarrow> small u \<Longrightarrow> small t" using prefix_length_le by (fastforce simp: ext_def small_def)

lemma unat_u32: "n < 2 ^ 32 \<Longrightarrow> unat (of_nat n :: u32) = n"
  by (simp add: unat_of_nat)

lemma intern_ext: "intern s dt t = Inr (sid, n, t') \<Longrightarrow> ext t t'"
  by (auto simp: intern_def ext_def Let_def split: option.splits if_splits)

lemma intern_ok:
  assumes "intern s dt t = Inr (sid, isNew, t')" "symtab_inv t" "small t'" "0 \<notin> set s"
  shows "symtab_inv t' \<and> ext t t' \<and> st_ids t' s = Some sid \<and> knows t' s dt"
proof (cases "st_ids t s")
  case (Some i)
  then show ?thesis using assms by (auto simp: intern_def knows_def split: if_splits)
next
  case None
  let ?n = "length (st_names t)"
  have t': "t' = t\<lparr>st_ids := (st_ids t)(s \<mapsto> sid), st_names := st_names t @ [s], st_dts := st_dts t @ [dt]\<rparr>"
    and sid: "sid = of_nat (?n + 1)" using assms(1) None by (auto simp: intern_def Let_def add.commute)
  have len: "length (st_dts t) = ?n" "?n + 1 < 2 ^ 32" using assms(2,3) t' by (auto simp: symtab_inv_def small_def)
  have u: "unat sid = ?n + 1" unfolding sid by (rule unat_u32) (use len(2) in simp)
  have old: "st_ids t x = Some i \<longleftrightarrow> 1 \<le> unat i \<and> unat i \<le> ?n \<and> st_names t ! (unat i - 1) = x" for x i
    using assms(2) by (simp add: symtab_inv_def)
  have new: "st_ids t' x = Some i \<longleftrightarrow>
      1 \<le> unat i \<and> unat i \<le> length (st_names t') \<and> st_names t' ! (unat i - 1) = x" for x i
  proof (cases "unat i = ?n + 1")
    case True
    then have "i = sid" using u by (metis word_unat_eq_iff)
    then show ?thesis using u old [of x i] by (auto simp: t' nth_append)
  next
    case False
    then have "i \<noteq> sid" using u by auto
    moreover have "st_ids t s \<noteq> Some i" using None by simp
    ultimately show ?thesis using False old [of x i] old [of s i] by (auto simp: t' nth_append)
  qed
  have "symtab_inv t'" using new len assms(2,4) by (auto simp: symtab_inv_def t')
  moreover have "ext t t'" by (simp add: ext_def t')
  moreover have "st_ids t' s = Some sid" by (simp add: t')
  moreover have "knows t' s dt" using u len by (simp add: knows_def t' nth_append)
  ultimately show ?thesis by blast
qed

lemma knows_ext:
  assumes "symtab_inv t" "symtab_inv t'" "ext t t'" "knows t s dt"
  shows "knows t' s dt" "enc_sid t' s = enc_sid t s"
proof -
  obtain sid where sid: "st_ids t s = Some sid" "st_dts t ! (unat sid - 1) = dt" using assms(4) by (auto simp: knows_def)
  then have r: "1 \<le> unat sid" "unat sid \<le> length (st_names t)" "st_names t ! (unat sid - 1) = s"
    using assms(1) by (auto simp: symtab_inv_def)
  obtain ns ds where p: "st_names t' = st_names t @ ns" "st_dts t' = st_dts t @ ds" using assms(3) by (auto simp: ext_def prefix_def)
  have "st_ids t' s = Some sid" using assms(2) r p by (auto simp: symtab_inv_def nth_append)
  moreover have "st_dts t' ! (unat sid - 1) = dt" using r sid p assms(1) by (auto simp: symtab_inv_def nth_append)
  ultimately show "knows t' s dt" "enc_sid t' s = enc_sid t s" using sid by (auto simp: knows_def enc_sid_def)
qed

section \<open>The body of a point\<close>

fun add_tags :: "(bytes \<times> bytes) list \<Rightarrow> blp \<Rightarrow> blp res" where
  "add_tags [] b = Inr b"
| "add_tags ((k, v) # ts) b = bindE (addTag k v b) (add_tags ts)"

fun add_fields :: "(bytes \<times> fval) list \<Rightarrow> blp \<Rightarrow> blp res" where
  "add_fields [] b = Inr b"
| "add_fields ((k, v) # fs) b = bindE (addField k v b) (add_fields fs)"

definition build :: "symtab \<Rightarrow> bytes \<Rightarrow> (bytes \<times> bytes) list \<Rightarrow> (bytes \<times> fval) list \<Rightarrow> int \<Rightarrow> blp res" where
  \<comment> \<open>how the telemetry builds a point: tags, then fields, then the time\<close>
  "build t m tags fs ms =
    bindE (blp_new t m) (\<lambda>b. bindE (add_tags tags b) (\<lambda>b1. bindE (add_fields fs b1) (\<lambda>b2. Inr (setTimeMs ms b2))))"

definition enc_tags :: "symtab \<Rightarrow> (bytes \<times> bytes) list \<Rightarrow> bytes" where
  "enc_tags t ts = concat (map (\<lambda>(k, v). enc_sid t k @ enc_sid t v) ts)"

definition enc_fields :: "symtab \<Rightarrow> (bytes \<times> fval) list \<Rightarrow> bytes" where
  "enc_fields t fs = concat (map (\<lambda>(k, v). enc_sid t k @ val_raw v) fs)"

definition visible :: "(bytes \<times> fval) list \<Rightarrow> (bytes \<times> fval) list" where
  \<comment> \<open>a NaN is not sent\<close>
  "visible fs = filter (\<lambda>(k, v). \<not> val_nan v) fs"

lemma putSid_ok:
  assumes "putSid s dt b = Inr b'" "symtab_inv (bl_tab b)" "small (bl_tab b')" "0 \<notin> set s"
  shows "symtab_inv (bl_tab b')" "ext (bl_tab b) (bl_tab b')" "knows (bl_tab b') s dt"
    "bl_body b' = bl_body b @ enc_sid (bl_tab b') s" "bl_fields b' = bl_fields b" "bl_ts b' = bl_ts b"
proof -
  obtain sid n t where i: "intern s dt (bl_tab b) = Inr (sid, n, t)"
    and b': "b' = b\<lparr>bl_tab := t, bl_body := bl_body b @ putVarint (ucast sid), bl_sawNew := bl_sawNew b \<or> n\<rparr>"
    using assms(1) by (auto simp: putSid_def bindE_Inr_iff)
  note ok = intern_ok [OF i assms(2) _ assms(4)]
  show "symtab_inv (bl_tab b')" "ext (bl_tab b) (bl_tab b')" "knows (bl_tab b') s dt"
    "bl_body b' = bl_body b @ enc_sid (bl_tab b') s" "bl_fields b' = bl_fields b" "bl_ts b' = bl_ts b"
    using ok assms(3) b' by (auto simp: enc_sid_def)
qed

lemma putSid_ext: "putSid s dt b = Inr b' \<Longrightarrow> ext (bl_tab b) (bl_tab b')"
  by (auto simp: putSid_def bindE_Inr_iff dest: intern_ext)

lemma addTag_ext: "addTag k v b = Inr b' \<Longrightarrow> ext (bl_tab b) (bl_tab b')"
  by (auto simp: addTag_def bindE_Inr_iff dest!: putSid_ext intro: ext_trans)

lemma add_tags_ext: "add_tags ts b = Inr b' \<Longrightarrow> ext (bl_tab b) (bl_tab b')"
  by (induction ts b rule: add_tags.induct) (auto simp: bindE_Inr_iff dest: addTag_ext ext_trans)

lemma addField_ext: "addField k v b = Inr b' \<Longrightarrow> ext (bl_tab b) (bl_tab b')"
  by (auto simp: addField_def putVal_def beginFields_def bindE_Inr_iff split: if_splits dest!: putSid_ext)

lemma add_fields_ext: "add_fields fs b = Inr b' \<Longrightarrow> ext (bl_tab b) (bl_tab b')"
  by (induction fs b rule: add_fields.induct) (auto simp: bindE_Inr_iff dest: addField_ext ext_trans)

lemma ext_knows:
  assumes "symtab_inv t" "symtab_inv T" "ext t T" "knows t s dt"
  shows "knows T s dt" "enc_sid t s = enc_sid T s"
  using knows_ext [OF assms] by auto

lemma add_tags_ok:
  assumes "add_tags ts b = Inr b'" "symtab_inv (bl_tab b)" "small (bl_tab b')"
    "\<forall>(k, v)\<in>set ts. 0 \<notin> set k \<and> 0 \<notin> set v"
  shows "symtab_inv (bl_tab b') \<and> bl_fields b' = bl_fields b \<and> bl_ts b' = bl_ts b \<and>
    (\<forall>T. symtab_inv T \<and> ext (bl_tab b') T \<longrightarrow>
       bl_body b' = bl_body b @ enc_tags T ts \<and> (\<forall>(k, v)\<in>set ts. knows T k DtStr \<and> knows T v DtStr))"
  using assms
proof (induction ts arbitrary: b)
  case Nil
  then show ?case by (simp add: enc_tags_def)
next
  case (Cons kv ts)
  obtain k v where kv: "kv = (k, v)" by force
  obtain b1 b2 where 1: "putSid k DtStr b = Inr b1" and 2: "putSid v DtStr b1 = Inr b2" and r: "add_tags ts b2 = Inr b'"
    using Cons.prems(1) by (auto simp: kv addTag_def bindE_Inr_iff)
  have z: "0 \<notin> set k" "0 \<notin> set v" using Cons.prems(4) kv by auto
  note e = putSid_ext [OF 1] putSid_ext [OF 2] add_tags_ext [OF r]
  have s: "small (bl_tab b2)" "small (bl_tab b1)" using small_ext e Cons.prems(3) by blast+
  note k = putSid_ok [OF 1 Cons.prems(2) s(2) z(1)]
  note v = putSid_ok [OF 2 k(1) s(1) z(2)]
  have ih: "symtab_inv (bl_tab b') \<and> bl_fields b' = bl_fields b2 \<and> bl_ts b' = bl_ts b2 \<and>
    (\<forall>T. symtab_inv T \<and> ext (bl_tab b') T \<longrightarrow>
       bl_body b' = bl_body b2 @ enc_tags T ts \<and> (\<forall>(k, v)\<in>set ts. knows T k DtStr \<and> knows T v DtStr))"
    using Cons.IH [OF r v(1) Cons.prems(3)] Cons.prems(4) by simp
  have "bl_body b' = bl_body b @ enc_tags T (kv # ts) \<and> (\<forall>(k, v)\<in>set (kv # ts). knows T k DtStr \<and> knows T v DtStr)"
    if T: "symtab_inv T" "ext (bl_tab b') T" for T
  proof -
    have x: "ext (bl_tab b1) T" "ext (bl_tab b2) T" using e T(2) ext_trans by blast+
    show ?thesis
      using ih T ext_knows [OF k(1) T(1) x(1) k(3)] ext_knows [OF v(1) T(1) x(2) v(3)] k(4) v(4)
      by (simp add: kv enc_tags_def)
  qed
  then show ?case using ih k v by simp
qed

lemma addField_ok:
  assumes "addField k v b = Inr b'" "symtab_inv (bl_tab b)" "small (bl_tab b')" "0 \<notin> set k" "\<not> val_nan v"
  shows "symtab_inv (bl_tab b')" "bl_fields b'" "bl_ts b' = bl_ts b" "knows (bl_tab b') k (val_dt v)"
    "bl_body b' = bl_body b @ (if bl_fields b then [] else [0]) @ enc_sid (bl_tab b') k @ val_raw v"
proof -
  obtain b1 where 1: "putSid k (val_dt v) (beginFields b) = Inr b1" and b': "b' = b1\<lparr>bl_body := bl_body b1 @ val_raw v\<rparr>"
    using assms(1,5) by (auto simp: addField_def putVal_def bindE_Inr_iff)
  have "symtab_inv (bl_tab (beginFields b))" "small (bl_tab b1)" using assms(2,3) b' by (auto simp: beginFields_def)
  note p = putSid_ok [OF 1 this assms(4)]
  show "symtab_inv (bl_tab b')" "bl_fields b'" "bl_ts b' = bl_ts b" "knows (bl_tab b') k (val_dt v)"
    "bl_body b' = bl_body b @ (if bl_fields b then [] else [0]) @ enc_sid (bl_tab b') k @ val_raw v"
    using p b' by (auto simp: beginFields_def)
qed

lemma add_fields_ok:
  assumes "add_fields fs b = Inr b'" "symtab_inv (bl_tab b)" "small (bl_tab b')" "\<forall>(k, v)\<in>set fs. 0 \<notin> set k"
  shows "symtab_inv (bl_tab b') \<and> bl_fields b' = (bl_fields b \<or> visible fs \<noteq> []) \<and> bl_ts b' = bl_ts b \<and>
    (\<forall>T. symtab_inv T \<and> ext (bl_tab b') T \<longrightarrow>
       bl_body b' = bl_body b @ (if bl_fields b \<or> visible fs = [] then [] else [0]) @ enc_fields T (visible fs) \<and>
       (\<forall>(k, v)\<in>set (visible fs). knows T k (val_dt v)))"
  using assms
proof (induction fs arbitrary: b)
  case Nil
  then show ?case by (simp add: enc_fields_def visible_def)
next
  case (Cons kv fs)
  obtain k v where kv: "kv = (k, v)" by force
  obtain b1 where 1: "addField k v b = Inr b1" and r: "add_fields fs b1 = Inr b'"
    using Cons.prems(1) by (auto simp: kv bindE_Inr_iff)
  have z: "0 \<notin> set k" using Cons.prems(4) kv by auto
  note e = addField_ext [OF 1] add_fields_ext [OF r]
  show ?case
  proof (cases "val_nan v")
    case True
    then have "b1 = b" using 1 by (simp add: addField_def)
    then show ?thesis using Cons.IH [OF r] Cons.prems True by (simp add: kv visible_def)
  next
    case False
    have s: "small (bl_tab b1)" using small_ext e(2) Cons.prems(3) by blast
    note k = addField_ok [OF 1 Cons.prems(2) s z False]
    note ih = Cons.IH [OF r k(1) Cons.prems(3)]
    have vis: "visible (kv # fs) = (k, v) # visible fs" using False by (simp add: kv visible_def)
    have "bl_body b' = bl_body b @ (if bl_fields b then [] else [0]) @ enc_fields T (visible (kv # fs)) \<and>
       (\<forall>(k, v)\<in>set (visible (kv # fs)). knows T k (val_dt v))"
      if T: "symtab_inv T" "ext (bl_tab b') T" for T
      using ih Cons.prems(4) k(2,5) ext_knows [OF k(1) T(1) ext_trans [OF e(2) T(2)] k(4)] T
      by (simp add: vis enc_fields_def)
    then show ?thesis using ih Cons.prems(4) k vis by simp
  qed
qed

section \<open>Decoding\<close>

definition entries :: "symtab \<Rightarrow> lp_table" where
  "entries t = zip (st_names t) (map dt_code (st_dts t))"

definition in_tab :: "lp_table \<Rightarrow> symtab \<Rightarrow> bytes \<Rightarrow> bool" where
  \<comment> \<open>the receiver has the symbol\<close>
  "in_tab R t s = (unat (the (st_ids t s)) \<le> length R)"

lemma unat_ucast_u64 [simp]: "unat (ucast (w :: u32) :: u64) = unat w"
proof -
  have "unat w < 2 ^ 32" using unsigned_less [of w] by simp
  then show ?thesis by (simp add: unsigned_ucast_eq take_bit_nat_eq_self)
qed

lemma lp_sym_known:
  assumes "symtab_inv T" "prefix R (entries T)" "knows T s dt"
  shows "lp_sym R (ucast (the (st_ids T s))) = (if in_tab R T s then Some (s, dt_code dt) else None)"
proof -
  obtain sid where sid: "st_ids T s = Some sid" "st_dts T ! (unat sid - 1) = dt" using assms(3) by (auto simp: knows_def)
  then have r: "1 \<le> unat sid" "unat sid \<le> length (st_names T)" "st_names T ! (unat sid - 1) = s"
    using assms(1) by (auto simp: symtab_inv_def)
  have len: "length (st_dts T) = length (st_names T)" using assms(1) by (simp add: symtab_inv_def)
  have "R ! (unat sid - 1) = entries T ! (unat sid - 1)" if "unat sid \<le> length R"
    using that r(1) assms(2) by (auto simp: prefix_def nth_append)
  then show ?thesis using sid r len by (simp add: lp_sym_def in_tab_def entries_def)
qed

lemma enc_sid_cons:
  assumes "symtab_inv T" "knows T s dt"
  obtains b bs where "enc_sid T s = b # bs" "b \<noteq> 0"
proof -
  obtain sid where sid: "st_ids T s = Some sid" using assms(2) by (auto simp: knows_def)
  then have "1 \<le> unat sid" using assms(1) by (auto simp: symtab_inv_def)
  then have "(ucast sid :: u64) \<noteq> 0" by (metis unat_ucast_u64 unat_0 not_one_le_zero)
  then show thesis using putVarint_first [of "ucast sid"] that sid by (auto simp: enc_sid_def)
qed

lemma getVarint_enc_sid: "fin \<le> length r \<Longrightarrow> getVarint fin (enc_sid T s @ r) = Inr (ucast (the (st_ids T s)), r)"
  by (simp add: enc_sid_def)

definition tags_text :: "(bytes \<times> bytes) list \<Rightarrow> bytes" where
  "tags_text ts = concat (map (\<lambda>(k, v). chr CHR '','' # k @ chr CHR ''='' # v) ts)"

fun val_text :: "printf_g \<Rightarrow> fval \<Rightarrow> bytes" where
  "val_text g (VBool b) = (if b then ascii ''true'' else ascii ''false'')"
| "val_text g (VI32 w) = i_dec (sint w) @ ascii ''i''"
| "val_text g (VI16 w) = i_dec (sint w) @ ascii ''i''"
| "val_text g (VU16 w) = u_dec (unat w) @ ascii ''i''"
| "val_text g (VU8 w) = u_dec (unat w) @ ascii ''i''"
| "val_text g (VF32 w) = g32 g w"
| "val_text g (VF16 w) = g32 g (f16ToF32 (f32ToF16 w))"
| "val_text g (VF64 w) = g64 g w"

fun fields_text :: "printf_g \<Rightarrow> bool \<Rightarrow> (bytes \<times> fval) list \<Rightarrow> bytes" where
  "fields_text g first [] = []"
| "fields_text g first ((k, v) # fs) =
    chr (if first then CHR '' '' else CHR '','') # k @ chr CHR ''='' # val_text g v @ fields_text g False fs"

definition point_line :: "printf_g \<Rightarrow> bytes \<Rightarrow> (bytes \<times> bytes) list \<Rightarrow> (bytes \<times> fval) list \<Rightarrow> nat \<Rightarrow> bytes" where
  \<comment> \<open>the text of a point\<close>
  "point_line g m tags fs ts = m @ tags_text tags @ fields_text g True (visible fs) @ chr CHR '' '' # u_dec ts @ [10]"

lemma le_bytes_length [simp]: "length (le_bytes n w) = n"
  by (induction n arbitrary: w) auto

lemma le_value_le [simp]:
  "le_value (le_bytes 2 (w :: u16)) = w" "le_value (le_bytes 4 (x :: u32)) = x" "le_value (le_bytes 8 (y :: u64)) = y"
  by (simp_all add: le_value_bytes take_bit_word_eq_self)

lemma val_raw_length: "length (val_raw v) = dtSize (val_dt v)"
  by (cases v) simp_all

lemma render_val: "render g (val_dt v) (val_raw v) = val_text g v"
  by (cases v) simp_all

lemma dt_of_code: "dt_of (dt_code (val_dt v)) = Some (val_dt v)"
  by (cases v) simp_all

lemma dec_tags_enc:
  assumes "symtab_inv T" "prefix R (entries T)" "fin \<le> length rest" "\<forall>(k, v)\<in>set ts. knows T k DtStr \<and> knows T v DtStr"
  shows "dec_tags fin R (enc_tags T ts @ 0 # rest) line =
    (if \<forall>(k, v)\<in>set ts. in_tab R T k \<and> in_tab R T v then Inr (Some (line @ tags_text ts, rest)) else Inr None)"
  using assms(4)
proof (induction ts arbitrary: line)
  case Nil
  then show ?case by (simp add: enc_tags_def tags_text_def dec_tags.simps)
next
  case (Cons kv ts)
  obtain k v where kv: "kv = (k, v)" by force
  have kn: "knows T k DtStr" "knows T v DtStr" using Cons.prems kv by auto
  let ?r = "enc_tags T ts @ 0 # rest"
  obtain b bs where b: "enc_sid T k = b # bs" "b \<noteq> 0" by (rule enc_sid_cons [OF assms(1) kn(1)])
  have g1: "getVarint fin (enc_sid T k @ enc_sid T v @ ?r) = Inr (ucast (the (st_ids T k)), enc_sid T v @ ?r)"
    and g2: "getVarint fin (enc_sid T v @ ?r) = Inr (ucast (the (st_ids T v)), ?r)"
    using assms(3) by (simp_all add: getVarint_enc_sid)
  have split: "enc_tags T (kv # ts) @ 0 # rest = enc_sid T k @ enc_sid T v @ ?r" by (simp add: enc_tags_def kv)
  note sy = lp_sym_known [OF assms(1,2) kn(1)] lp_sym_known [OF assms(1,2) kn(2)]
  have ih: "dec_tags fin R ?r l = (if \<forall>(k, v)\<in>set ts. in_tab R T k \<and> in_tab R T v
      then Inr (Some (l @ tags_text ts, rest)) else Inr None)" for l
    using Cons by simp
  have "dec_tags fin R (enc_sid T k @ enc_sid T v @ ?r) line =
      (case (lp_sym R (ucast (the (st_ids T k))), lp_sym R (ucast (the (st_ids T v)))) of
         (Some (kn, _), Some (vn, _)) \<Rightarrow> dec_tags fin R ?r (line @ chr CHR '','' # kn @ chr CHR ''='' # vn)
       | _ \<Rightarrow> Inr None)"
    using g1 g2 b by (subst dec_tags.simps) simp
  then show ?case unfolding split using ih by (auto simp: sy kv tags_text_def)
qed

lemma dec_fields_enc:
  assumes "symtab_inv T" "prefix R (entries T)" "fin \<le> length rest" "\<forall>(k, v)\<in>set fs. knows T k (val_dt v)"
  shows "dec_fields g fin R (enc_fields T fs @ 0 # rest) first line =
    (if \<forall>(k, v)\<in>set fs. in_tab R T k then Inr (Some (line @ fields_text g first fs, rest)) else Inr None)"
  using assms(4)
proof (induction fs arbitrary: line first)
  case Nil
  then show ?case by (simp add: enc_fields_def dec_fields.simps)
next
  case (Cons kv fs)
  obtain k v where kv: "kv = (k, v)" by force
  have kn: "knows T k (val_dt v)" using Cons.prems kv by auto
  let ?r = "enc_fields T fs @ 0 # rest"
  obtain b bs where b: "enc_sid T k = b # bs" "b \<noteq> 0" by (rule enc_sid_cons [OF assms(1) kn])
  have g1: "getVarint fin (enc_sid T k @ val_raw v @ ?r) = Inr (ucast (the (st_ids T k)), val_raw v @ ?r)"
    using assms(3) by (simp add: getVarint_enc_sid)
  have raw: "take_raw (dtSize (val_dt v)) (val_raw v @ ?r) = Inr (val_raw v)" "drop (dtSize (val_dt v)) (val_raw v @ ?r) = ?r"
    by (simp_all add: take_raw_def val_raw_length [symmetric])
  have split: "enc_fields T (kv # fs) @ 0 # rest = enc_sid T k @ val_raw v @ ?r" by (simp add: enc_fields_def kv)
  have ih: "dec_fields g fin R ?r f l = (if \<forall>(k, v)\<in>set fs. in_tab R T k
      then Inr (Some (l @ fields_text g f fs, rest)) else Inr None)" for f l
    using Cons by simp
  have "dec_fields g fin R (enc_sid T k @ val_raw v @ ?r) first line =
      (if in_tab R T k then dec_fields g fin R ?r False
         (line @ chr (if first then CHR '' '' else CHR '','') # k @ chr CHR ''='' # val_text g v) else Inr None)"
    using g1 b lp_sym_known [OF assms(1,2) kn] dt_of_code [of v] raw render_val [of g v] by (subst dec_fields.simps) simp
  then show ?case unfolding split using ih by (auto simp: kv)
qed

lemma read_name_name: "0 \<notin> set s \<Longrightarrow> read_name (s @ 0 # r) = Inr (s, r)"
proof -
  assume s: "0 \<notin> set s"
  then have "takeWhile (\<lambda>b. b \<noteq> 0) (s @ 0 # r) = s" "dropWhile (\<lambda>b. b \<noteq> 0) (s @ 0 # r) = 0 # r"
    by (subst takeWhile_append2 dropWhile_append2, auto)+
  then show ?thesis by (simp add: read_name_def)
qed

lemma getVarint_zero: "fin \<le> length r \<Longrightarrow> getVarint fin (0 # r) = Inr (0, r)"
  by (simp add: getVarint_def Let_def)

lemma unat_u64_small: "n < 2 ^ 32 \<Longrightarrow> unat (of_nat n :: u64) = n"
proof -
  assume "n < 2 ^ 32"
  then have "n < 2 ^ 64" by (rule less_le_trans) simp
  then show ?thesis by (simp add: unat_of_nat)
qed

lemma lp_set_entry:
  assumes "k < length E" "k < 2 ^ 32 - 1" "tab = take (max k n) E"
  shows "lp_set (of_nat (k + 1)) (E ! k) tab = take (max (k + 1) n) E"
proof -
  have u: "unat (of_nat (k + 1) :: u64) = k + 1" by (rule unat_u64_small) (use assms(2) in simp)
  show ?thesis
  proof (cases "k < n")
    case True
    then have "tab = take n E" "k < length tab" using assms by auto
    then have "lp_set (of_nat (k + 1)) (E ! k) tab = tab[k := E ! k]" unfolding lp_set_def u by simp
    moreover have "tab ! k = E ! k" using True assms by simp
    ultimately show ?thesis using True \<open>tab = take n E\<close> by (metis list_update_id max.absorb_iff2 Suc_eq_plus1 Suc_leI)
  next
    case False
    then have t: "tab = take k E" "length tab = k" using assms by auto
    then have "lp_set (of_nat (k + 1)) (E ! k) tab = (tab @ [([], 0)])[k := E ! k]"
      unfolding lp_set_def u by (simp add: Let_def)
    also have "\<dots> = take k E @ [E ! k]" using t by (simp add: list_update_append)
    also have "\<dots> = take (k + 1) E" using assms(1) by (simp add: take_Suc_conv_app_nth)
    also have "\<dots> = take (max (k + 1) n) E" using False by (simp add: max_def)
    finally show ?thesis .
  qed
qed

lemma writeEntry_decode:
  assumes "symtab_inv T" "small T" "k < length (st_names T)" "fin \<le> length r"
  shows "dec_table fin (writeEntry (k + 1) T @ r) tab = dec_table fin r (lp_set (of_nat (k + 1)) (entries T ! k) tab)"
proof -
  let ?s = "st_names T ! k" and ?dt = "dt_code (st_dts T ! k)"
  have s: "0 \<notin> set ?s" and len: "length (st_dts T) = length (st_names T)"
    using assms(1,3) by (auto simp: symtab_inv_def)
  have e: "entries T ! k = (?s, ?dt)" using assms(3) len by (simp add: entries_def)
  have nz: "(of_nat (k + 1) :: u64) \<noteq> 0"
  proof
    assume "(of_nat (k + 1) :: u64) = 0"
    moreover have "unat (of_nat (k + 1) :: u64) = k + 1" by (rule unat_u64_small) (use assms(2,3) in \<open>simp add: small_def\<close>)
    ultimately show False by simp
  qed
  have w: "writeEntry (k + 1) T @ r = putVarint (of_nat (k + 1)) @ (?s @ 0 # ?dt # r)" by (simp add: writeEntry_def)
  have g: "getVarint fin (writeEntry (k + 1) T @ r) = Inr (of_nat (k + 1), ?s @ 0 # ?dt # r)"
    unfolding w using assms(4) by simp
  show ?thesis
    unfolding e dec_table.simps [of fin "writeEntry (k + 1) T @ r"] g sum.case prod.case
    unfolding if_not_P [OF nz] read_name_name [OF s] by simp
qed

lemma dec_table_from:
  assumes "symtab_inv T" "small T" "fin \<le> length r" "n \<le> length (st_names T)" "k \<le> length (st_names T)"
  shows "dec_table fin (concat (map (\<lambda>i. writeEntry i T) [k + 1..<length (st_names T) + 1]) @ 0 # r) (take (max k n) (entries T))
    = Inr (entries T)"
  using assms(5)
proof (induction "length (st_names T) - k" arbitrary: k)
  case 0
  then have "k = length (st_names T)" by simp
  moreover have "length (entries T) = length (st_names T)" using assms(1) by (simp add: entries_def symtab_inv_def)
  ultimately show ?case using assms(3,4) getVarint_zero by (simp add: dec_table.simps)
next
  case (Suc m)
  then have k: "k < length (st_names T)" by simp
  let ?rest = "concat (map (\<lambda>i. writeEntry i T) [k + 2..<length (st_names T) + 1]) @ 0 # r"
  have up: "[k + 1..<length (st_names T) + 1] = (k + 1) # [k + 2..<length (st_names T) + 1]"
    using k by (simp add: upt_conv_Cons)
  have E: "length (entries T) = length (st_names T)" using assms(1) by (simp add: entries_def symtab_inv_def)
  have "dec_table fin (writeEntry (k + 1) T @ ?rest) (take (max k n) (entries T)) =
      dec_table fin ?rest (take (max (k + 1) n) (entries T))"
    using writeEntry_decode [OF assms(1,2) k, of fin ?rest] assms(2,3) k E
      lp_set_entry [OF _ _ refl, of k "entries T" n] by (simp add: small_def)
  also have "\<dots> = Inr (entries T)" using Suc.hyps(1) [of "k + 1"] Suc.hyps(2) k by simp
  finally show ?case unfolding up by simp
qed

lemma dec_table_full:
  assumes "symtab_inv T" "small T" "fin \<le> length r" "prefix R (entries T)"
  shows "dec_table fin (tl (writeFullTable T) @ r) R = Inr (entries T)"
proof -
  have E: "length (entries T) = length (st_names T)" using assms(1) by (simp add: entries_def symtab_inv_def)
  have R: "R = take (max 0 (length R)) (entries T)" "length R \<le> length (st_names T)"
    using assms(4) E prefix_length_le by (auto simp: prefix_def) 
  show ?thesis using dec_table_from [OF assms(1-3) R(2), of 0] R(1) by (simp add: writeFullTable_def)
qed


section \<open>Points and datagrams\<close>

definition point_known :: "lp_table \<Rightarrow> symtab \<Rightarrow> bytes \<Rightarrow> (bytes \<times> bytes) list \<Rightarrow> (bytes \<times> fval) list \<Rightarrow> bool" where
  \<comment> \<open>the receiver has every symbol of the point\<close>
  "point_known R T m tags fs =
    (in_tab R T m \<and> (\<forall>(k, v)\<in>set tags. in_tab R T k \<and> in_tab R T v) \<and> (\<forall>(k, v)\<in>set (visible fs). in_tab R T k))"

definition c_names :: "bytes \<Rightarrow> (bytes \<times> bytes) list \<Rightarrow> (bytes \<times> fval) list \<Rightarrow> bool" where
  \<comment> \<open>the names are C strings\<close>
  "c_names m tags fs =
    (0 \<notin> set m \<and> (\<forall>(k, v)\<in>set tags. 0 \<notin> set k \<and> 0 \<notin> set v) \<and> (\<forall>(k, v)\<in>set fs. 0 \<notin> set k))"

definition point_body :: "symtab \<Rightarrow> bytes \<Rightarrow> (bytes \<times> bytes) list \<Rightarrow> (bytes \<times> fval) list \<Rightarrow> int \<Rightarrow> bytes" where
  "point_body T m tags fs ms =
    enc_sid T m @ enc_tags T tags @ 0 # enc_fields T (visible fs) @ 0 # putVarint (word_of_int ms)"

lemma build_ok:
  assumes "build t m tags fs ms = Inr b" "symtab_inv t" "small (bl_tab b)" "c_names m tags fs"
  shows "symtab_inv (bl_tab b)" "ext t (bl_tab b)" "bl_ts b = ms" "knows (bl_tab b) m DtStr"
    "\<forall>(k, v)\<in>set tags. knows (bl_tab b) k DtStr \<and> knows (bl_tab b) v DtStr"
    "\<forall>(k, v)\<in>set (visible fs). knows (bl_tab b) k (val_dt v)"
    "bl_body b @ (if bl_fields b then [] else [0]) @ [0] @ putVarint (word_of_int ms) = point_body (bl_tab b) m tags fs ms"
proof -
  obtain b0 b1 b2 where 0: "putSid m DtStr \<lparr>bl_tab = t, bl_body = [], bl_fields = False, bl_sawNew = False, bl_ts = - 1\<rparr> = Inr b0"
    and 1: "add_tags tags b0 = Inr b1" and 2: "add_fields fs b1 = Inr b2" and b: "b = setTimeMs ms b2"
    using assms(1) by (auto simp: build_def blp_new_def bindE_Inr_iff)
  have T: "bl_tab b = bl_tab b2" by (simp add: b setTimeMs_def)
  have nul: "0 \<notin> set m" "\<forall>(k, v)\<in>set tags. 0 \<notin> set k \<and> 0 \<notin> set v" "\<forall>(k, v)\<in>set fs. 0 \<notin> set k"
    using assms(4) by (auto simp: c_names_def)
  have s: "small (bl_tab b2)" "small (bl_tab b1)" "small (bl_tab b0)"
    using assms(3) T small_ext [OF add_fields_ext [OF 2]] small_ext [OF add_tags_ext [OF 1]] by auto
  have t: "symtab_inv (bl_tab \<lparr>bl_tab = t, bl_body = [], bl_fields = False, bl_sawNew = False, bl_ts = - 1\<rparr>)"
    using assms(2) by simp
  note p = putSid_ok [OF 0 t s(3) nul(1)]
  note a = add_tags_ok [OF 1 p(1) s(2) nul(2)]
  from a have i1: "symtab_inv (bl_tab b1)" by blast
  note f = add_fields_ok [OF 2 i1 s(1) nul(3)]
  from f have i2: "symtab_inv (bl_tab b2)" by blast
  note e = add_tags_ext [OF 1] add_fields_ext [OF 2]
  note e' = ext_trans [OF e]
  note km = ext_knows [OF p(1) i2 e' p(3)]
  show "symtab_inv (bl_tab b)" using i2 T by simp
  show "ext t (bl_tab b)" using p(2) e' T ext_trans by fastforce
  show "bl_ts b = ms" by (simp add: b setTimeMs_def)
  show "knows (bl_tab b) m DtStr" using km T by simp
  show "\<forall>(k, v)\<in>set tags. knows (bl_tab b) k DtStr \<and> knows (bl_tab b) v DtStr" using a i2 e T by simp
  show "\<forall>(k, v)\<in>set (visible fs). knows (bl_tab b) k (val_dt v)" using f i2 T ext_refl by simp
  have body: "bl_body b2 = bl_body b1 @ (if bl_fields b1 \<or> visible fs = [] then [] else [0]) @ enc_fields (bl_tab b2) (visible fs)"
    "bl_body b1 = bl_body b0 @ enc_tags (bl_tab b2) tags" "bl_body b0 = enc_sid (bl_tab b2) m"
    using f a i2 e ext_refl p(4) km(2) by auto
  have "\<not> bl_fields b1" "bl_fields b2 \<longleftrightarrow> visible fs \<noteq> []" using a f p(5) by auto
  then show "bl_body b @ (if bl_fields b then [] else [0]) @ [0] @ putVarint (word_of_int ms) = point_body (bl_tab b) m tags fs ms"
    using body by (auto simp: T b setTimeMs_def point_body_def enc_fields_def)
qed

lemma dec_data_point:
  assumes "symtab_inv T" "prefix R (entries T)" "fin \<le> length rest" "0 \<le> ms" "ms < 2 ^ 64"
    "knows T m DtStr" "\<forall>(k, v)\<in>set tags. knows T k DtStr \<and> knows T v DtStr" "\<forall>(k, v)\<in>set (visible fs). knows T k (val_dt v)"
  shows "dec_data g fin R (point_body T m tags fs ms @ rest) =
    Inr (if point_known R T m tags fs then Some (point_line g m tags fs (nat ms)) else None)"
proof -
  have ts: "unat (word_of_int ms :: u64) = nat ms" using assms(4,5) by (simp add: unat_eq_nat_uint uint_word_of_int)
  let ?w = "putVarint (word_of_int ms) @ rest" and ?f = "enc_fields T (visible fs)"
  have s: "point_body T m tags fs ms @ rest = enc_sid T m @ enc_tags T tags @ 0 # ?f @ 0 # ?w"
    by (simp add: point_body_def)
  have g1: "getVarint fin (enc_sid T m @ enc_tags T tags @ 0 # ?f @ 0 # ?w) =
      Inr (ucast (the (st_ids T m)), enc_tags T tags @ 0 # ?f @ 0 # ?w)"
    using assms(3) by (simp add: getVarint_enc_sid)
  have le: "fin \<le> length ?w" "fin \<le> length (?f @ 0 # ?w)" using assms(3) by auto
  note d = dec_tags_enc [OF assms(1,2) le(2) assms(7)] dec_fields_enc [OF assms(1,2) le(1) assms(8)]
  show ?thesis unfolding s dec_data_def g1
    using assms(3) d lp_sym_known [OF assms(1,2,6)] by (auto simp: point_known_def point_line_def ts)
qed

lemma lpDecode_frame:
  assumes "length w < 2 ^ 64" "w = ft # w'"
  shows "lpDecode g (putVarint (of_nat (length w)) @ w @ rest) out tab =
    (if ft = frame_Table then bindE (dec_table (length rest) (w' @ rest) tab) (\<lambda>tab1. lpDecode g rest out tab1)
     else bindE (dec_data g (length rest) tab (w' @ rest)) (\<lambda>d. case d of None \<Rightarrow> Inr (None, tab)
       | Some line \<Rightarrow> lpDecode g rest (out @ line) tab))"
proof -
  have g: "getVarint 0 (putVarint (of_nat (length w)) @ w @ rest) = Inr (of_nat (length w), w @ rest)" by simp
  have u: "unat (of_nat (length w) :: u64) = length w" using assms(1) by (simp add: unat_of_nat)
  have ne: "putVarint (of_nat (length w)) @ w @ rest \<noteq> []" using assms(2) by simp
  have a: "w @ rest = ft # w' @ rest" "drop (length w) (w @ rest) = rest" "\<not> length (w @ rest) < length w"
      "length (w @ rest) - length w = length rest"
    using assms(2) by simp_all
  show ?thesis
    unfolding lpDecode.simps [of g "putVarint (of_nat (length w)) @ w @ rest"] if_not_P [OF ne] g sum.case prod.case u
      if_not_P [OF a(3)] a(2) a(4) Let_def
    unfolding a(1) list.case by (auto split: sum.splits option.splits)
qed

lemma lpDecode_end [simp]: "lpDecode g [] out tab = Inr (Some out, tab)"
  by (simp add: lpDecode.simps)

lemma tableDue_syms [simp]:
  "st_ids (snd (tableDue now n t)) = st_ids t" "st_names (snd (tableDue now n t)) = st_names t"
  "st_dts (snd (tableDue now n t)) = st_dts t"
  by (simp_all add: tableDue_def Let_def split: prod.splits)

lemma blp_take_tab: "blp_take b = (out, t') \<Longrightarrow> \<exists>now. t' = snd (tableDue now (bl_sawNew b) (bl_tab b))"
  unfolding blp_take_def Let_def by (auto split: prod.splits) (metis snd_conv)+

lemma blp_take_syms:
  assumes "blp_take b = (out, t')"
  shows "st_ids t' = st_ids (bl_tab b)" "st_names t' = st_names (bl_tab b)" "st_dts t' = st_dts (bl_tab b)"
  using blp_take_tab [OF assms] by auto

lemma same_syms:
  assumes "st_ids u = st_ids t" "st_names u = st_names t" "st_dts u = st_dts t"
  shows "symtab_inv u = symtab_inv t" "entries u = entries t" "small u = small t" "point_known R u = point_known R t"
    "in_tab R u = in_tab R t" "ext x u = ext x t"
  using assms by (auto simp: symtab_inv_def entries_def small_def point_known_def in_tab_def ext_def fun_eq_iff)

lemma blp_take_body:
  assumes "0 \<le> bl_ts b" "bl_body b @ (if bl_fields b then [] else [0]) @ [0] @ putVarint (word_of_int (bl_ts b)) = body"
  shows "blp_take b =
    (let (due, t) = tableDue (bl_ts b) (bl_sawNew b) (bl_tab b)
     in ((if due then putVarint (of_nat (length (writeFullTable t))) @ writeFullTable t else []) @
         putVarint (of_nat (length (frame_Data # body))) @ frame_Data # body, t))"
proof -
  have ts: "(if bl_ts b < 0 then 0 else bl_ts b) = bl_ts b" using assms(1) by simp
  have len: "length body + 1 = length (frame_Data # body)" by simp
  show ?thesis unfolding blp_take_def Let_def ts assms(2) len by (auto split: prod.splits)
qed

lemma symline_roundtrip_lemma:
  assumes "symtab_inv t" "c_names m tags fs" "0 \<le> ms" "ms < 2 ^ 63" "build t m tags fs ms = Inr b"
    "blp_take b = (out, t')" "small t'" "length out < 2 ^ 64" "prefix R (entries t')"
    "R' = (if fst (tableDue ms (bl_sawNew b) (bl_tab b)) then entries t' else R)"
  shows "lpDecode g out [] R = Inr (if point_known R' t' m tags fs then Some (point_line g m tags fs (nat ms)) else None, R')"
proof -
  let ?T = "bl_tab b"
  have T: "st_ids t' = st_ids ?T" "st_names t' = st_names ?T" "st_dts t' = st_dts ?T"
    by (rule blp_take_syms [OF assms(6)])+
  note sy = same_syms [OF T]
  have small: "small ?T" using assms(7) sy by simp
  note bo = build_ok [OF assms(5,1) small assms(2)]
  let ?body = "point_body ?T m tags fs ms"
  let ?due = "fst (tableDue ms (bl_sawNew b) ?T)"
  define w where "w = writeFullTable (snd (tableDue ms (bl_sawNew b) ?T))"
  have out: "out = (if ?due then putVarint (of_nat (length w)) @ w else []) @ putVarint (of_nat (length (frame_Data # ?body))) @ frame_Data # ?body"
    using assms(6) blp_take_body [of b ?body] bo(3,7) assms(3) by (auto simp: Let_def w_def split: prod.splits if_splits)
  have len: "length (frame_Data # ?body) < 2 ^ 64" using assms(8) unfolding out by simp
  have data: "lpDecode g (putVarint (of_nat (length (frame_Data # ?body))) @ frame_Data # ?body) [] R1 =
      Inr (if point_known R1 ?T m tags fs then Some (point_line g m tags fs (nat ms)) else None, R1)" if "prefix R1 (entries ?T)" for R1
    using lpDecode_frame [OF len refl, of g "[]" "[]" R1]
      dec_data_point [OF bo(1) that _ assms(3) _ bo(4-6), of 0 "[]" g] assms(4) by (simp add: frame_Data_def frame_Table_def)
  show ?thesis
  proof (cases ?due)
    case False
    then show ?thesis using data [of R] assms(9,10) sy by (simp add: out)
  next
    case True
    let ?d = "putVarint (of_nat (length (frame_Data # ?body))) @ frame_Data # ?body"
    have w: "w = frame_Table # tl w" by (simp add: w_def writeFullTable_def)
    have "length w < 2 ^ 64" using assms(8) True unfolding out by simp
    note fr = lpDecode_frame [OF this w, of g ?d "[]" R]
    have "dec_table (length ?d) (tl w @ ?d) R = Inr (entries ?T)"
      using dec_table_full [of "snd (tableDue ms (bl_sawNew b) ?T)" "length ?d" ?d R] bo(1) small assms(9)
        same_syms [of "snd (tableDue ms (bl_sawNew b) ?T)" ?T] sy unfolding w_def by simp
    then show ?thesis using fr data [of "entries ?T"] True assms(10) sy unfolding out by simp
  qed
qed


section \<open>A stream of points\<close>

type_synonym point = "bytes \<times> (bytes \<times> bytes) list \<times> (bytes \<times> fval) list \<times> int"

fun send :: "point \<Rightarrow> symtab \<Rightarrow> (bytes \<times> symtab) res" where
  "send (m, tags, fs, ms) t = bindE (build t m tags fs ms) (\<lambda>b. Inr (blp_take b))"

fun line :: "printf_g \<Rightarrow> point \<Rightarrow> bytes" where
  "line g (m, tags, fs, ms) = point_line g m tags fs (nat ms)"

fun point_ok :: "point \<Rightarrow> bool" where
  "point_ok (m, tags, fs, ms) = (c_names m tags fs \<and> 0 \<le> ms \<and> ms < 2 ^ 63)"

fun sends :: "symtab \<Rightarrow> point list \<Rightarrow> (bytes list \<times> symtab) res" where
  "sends t [] = Inr ([], t)"
| "sends t (p # ps) = bindE (send p t) (\<lambda>(d, t1). bindE (sends t1 ps) (\<lambda>(ds, t2). Inr (d # ds, t2)))"

fun receive :: "printf_g \<Rightarrow> lp_table \<Rightarrow> bytes list \<Rightarrow> (bytes option list \<times> lp_table) res" where
  "receive g R [] = Inr ([], R)"
| "receive g R (d # ds) =
    bindE (lpDecode g d [] R) (\<lambda>(x, R1). bindE (receive g R1 ds) (\<lambda>(xs, R2). Inr (x # xs, R2)))"

definition same_or_new :: "blp \<Rightarrow> blp \<Rightarrow> bool" where
  \<comment> \<open>the flag is not cleared, and without it no symbol was added\<close>
  "same_or_new b b' = ((bl_sawNew b \<longrightarrow> bl_sawNew b') \<and> (\<not> bl_sawNew b' \<longrightarrow> bl_tab b' = bl_tab b) \<and>
    st_pts (bl_tab b') = st_pts (bl_tab b))"

lemma new_refl [simp]: "same_or_new b b" by (simp add: same_or_new_def)
lemma new_trans: "same_or_new a b \<Longrightarrow> same_or_new b c \<Longrightarrow> same_or_new a c" by (auto simp: same_or_new_def)

lemma putSid_new: "putSid s dt b = Inr b' \<Longrightarrow> same_or_new b b'"
  by (auto simp: same_or_new_def putSid_def intern_def bindE_Inr_iff Let_def split: option.splits if_splits)

lemma addTag_new: "addTag k v b = Inr b' \<Longrightarrow> same_or_new b b'"
  by (auto simp: addTag_def bindE_Inr_iff dest!: putSid_new intro: new_trans)

lemma addField_new: "addField k v b = Inr b' \<Longrightarrow> same_or_new b b'"
  by (auto simp: addField_def putVal_def beginFields_def bindE_Inr_iff split: if_splits dest!: putSid_new)
    (auto simp: same_or_new_def)

lemma add_tags_new: "add_tags ts b = Inr b' \<Longrightarrow> same_or_new b b'"
  by (induction ts arbitrary: b) (auto simp: bindE_Inr_iff dest!: addTag_new, metis new_trans)

lemma add_fields_new: "add_fields fs b = Inr b' \<Longrightarrow> same_or_new b b'"
  by (induction fs arbitrary: b) (auto simp: bindE_Inr_iff dest!: addField_new, metis new_trans)

lemma build_same: "build t m tags fs ms = Inr b \<Longrightarrow> \<not> bl_sawNew b \<Longrightarrow> bl_tab b = t"
  by (auto simp: build_def blp_new_def setTimeMs_def bindE_Inr_iff
    dest!: putSid_new add_tags_new add_fields_new) (auto simp: same_or_new_def)

lemma build_pts: "build t m tags fs ms = Inr b \<Longrightarrow> st_pts (bl_tab b) = st_pts t"
  by (auto simp: build_def blp_new_def setTimeMs_def bindE_Inr_iff
    dest!: putSid_new add_tags_new add_fields_new) (auto simp: same_or_new_def)

lemma tableDue_new: "fst (tableDue now True t)"
  by (simp add: tableDue_def kBurstCount_def split: prod.splits)

lemma entries_ext: "symtab_inv t \<Longrightarrow> ext t t' \<Longrightarrow> prefix (entries t) (entries t')"
  by (auto simp: symtab_inv_def ext_def entries_def prefix_def)

lemma knows_in_table:
  assumes "symtab_inv T" "knows T s dt"
  shows "in_tab (entries T) T s"
proof -
  obtain sid where sid: "st_ids T s = Some sid" using assms(2) by (auto simp: knows_def)
  then have "unat sid \<le> length (st_names T)" using assms(1) by (auto simp: symtab_inv_def)
  moreover have "length (entries T) = length (st_names T)" using assms(1) by (simp add: entries_def symtab_inv_def)
  ultimately show ?thesis unfolding in_tab_def sid by simp
qed

lemma tableDue_pts: "unat (st_pts t) < 200 \<Longrightarrow> unat (st_pts (snd (tableDue now n t))) < 200"
proof -
  assume "unat (st_pts t) < 200"
  then have "unat (st_pts t + 1) = unat (st_pts t) + 1" by (simp add: unat_word_ariths)
  then show ?thesis by (simp add: tableDue_def Let_def kEveryPts_def word_le_nat_alt split: prod.splits) 
qed

lemma tableDue_not:
  assumes "unat (st_pts t) < 200" "\<not> fst (tableDue now n t)"
  shows "unat (st_pts (snd (tableDue now n t))) = unat (st_pts t) + 1"
proof -
  have "unat (st_pts t + 1) = unat (st_pts t) + 1" using assms(1) by (simp add: unat_word_ariths)
  then show ?thesis using assms(2)
    by (auto simp: tableDue_def Let_def split: prod.splits if_splits)
qed

lemma send_ok:
  assumes "send p t = Inr (d, t')" "symtab_inv t" "small t'" "point_ok p"
  shows "symtab_inv t'" "ext t t'"
proof -
  obtain m tags fs ms where p: "p = (m, tags, fs, ms)" by (cases p)
  obtain b where b: "build t m tags fs ms = Inr b" "blp_take b = (d, t')" using assms(1) by (auto simp: p bindE_Inr_iff)
  note sy = same_syms [OF blp_take_syms [OF b(2)]]
  have "small (bl_tab b)" "c_names m tags fs" using assms(3,4) sy by (auto simp: p)
  note bo = build_ok [OF b(1) assms(2) this]
  show "symtab_inv t'" "ext t t'" using bo sy by auto
qed

lemma send_decode:
  assumes "send p t = Inr (d, t')" "symtab_inv t" "small t'" "point_ok p" "length d < 2 ^ 64" "prefix R (entries t)"
  obtains x R' where "lpDecode g d [] R = Inr (x, R')" "prefix R' (entries t')" "x = None \<or> x = Some (line g p)"
    "R = entries t \<Longrightarrow> x = Some (line g p) \<and> R' = entries t'"
    "unat (st_pts t) < 200 \<Longrightarrow> unat (st_pts t') < 200 \<and>
      (x = Some (line g p) \<and> R' = entries t' \<or> unat (st_pts t') = unat (st_pts t) + 1)"
proof -
  obtain m tags fs ms where p: "p = (m, tags, fs, ms)" by (cases p)
  obtain b where b: "build t m tags fs ms = Inr b" "blp_take b = (d, t')" using assms(1) by (auto simp: p bindE_Inr_iff)
  have ok: "c_names m tags fs" "0 \<le> ms" "ms < 2 ^ 63" using assms(4) by (auto simp: p)
  note sy = same_syms [OF blp_take_syms [OF b(2)]]
  have small: "small (bl_tab b)" using assms(3) sy by simp
  note bo = build_ok [OF b(1) assms(2) small ok(1)]
  have pre: "prefix R (entries t')" using entries_ext [OF assms(2) bo(2)] assms(6) prefix_order.trans sy(2) by metis
  let ?R = "if fst (tableDue ms (bl_sawNew b) (bl_tab b)) then entries t' else R"
  have dec: "lpDecode g d [] R = Inr (if point_known ?R t' m tags fs then Some (point_line g m tags fs (nat ms)) else None, ?R)"
    by (rule symline_roundtrip_lemma [OF assms(2) ok b assms(3,5) pre refl])
  have "point_known (entries (bl_tab b)) (bl_tab b) m tags fs"
    unfolding point_known_def using bo(4-6) knows_in_table [OF bo(1)] by blast
  then have known: "point_known (entries t') t' m tags fs" using sy(2,4) by simp
  have "?R = entries t'" if "R = entries t"
    using that tableDue_new [of ms "bl_tab b"] build_same [OF b(1)] sy(2) by (cases "bl_sawNew b") auto
  then have a: "?R = entries t' \<and> point_known ?R t' m tags fs" if "R = entries t" using that known by simp
  have t': "t' = snd (tableDue ms (bl_sawNew b) (bl_tab b))"
    using blp_take_body [of b, OF _ refl] b(2) bo(3) ok(2) by (simp add: Let_def split: prod.splits)
  have c: "unat (st_pts t') < 200 \<and>
      (fst (tableDue ms (bl_sawNew b) (bl_tab b)) \<or> unat (st_pts t') = unat (st_pts t) + 1)" if "unat (st_pts t) < 200"
    using that tableDue_pts [of "bl_tab b" ms "bl_sawNew b"] tableDue_not [of "bl_tab b" ms "bl_sawNew b"] build_pts [OF b(1)]
    unfolding t' by auto
  show thesis
  proof (rule that [OF dec])
    show "prefix ?R (entries t')" using pre by simp
  qed (use a c known in \<open>auto simp: p\<close>)
qed

lemma sends_ext:
  assumes "sends t ps = Inr (ds, t')" shows "ext t t'"
  using assms
proof (induction ps arbitrary: t ds)
  case (Cons p ps)
  obtain m tags fs ms where p: "p = (m, tags, fs, ms)" by (cases p)
  from Cons.prems obtain d t1 ds1 where 1: "send p t = Inr (d, t1)" "sends t1 ps = Inr (ds1, t')"
    by (auto simp: bindE_Inr_iff)
  obtain b where b: "build t m tags fs ms = Inr b" "blp_take b = (d, t1)" using 1(1) by (auto simp: p bindE_Inr_iff)
  have "ext t (bl_tab b)" using b(1)
    by (auto simp: build_def blp_new_def setTimeMs_def bindE_Inr_iff
      dest!: putSid_ext add_tags_ext add_fields_ext) (blast intro: ext_trans)
  then show ?case using Cons.IH [OF 1(2)] same_syms(6) [OF blp_take_syms [OF b(2)]] ext_trans by blast
qed simp

section \<open>A stream to instantiate the properties with\<close>

definition demo_point :: "int \<Rightarrow> point" where
  "demo_point ms = ([112], [([100], [97])], [([118], VI16 (- 5)), ([102], VF32 0x7FC00000)], ms)"

lemma demo_ok: "point_ok (demo_point 1)" "point_ok (demo_point 2)" by (simp_all add: demo_point_def c_names_def)
lemma putVarint_1: "unat v < 128 \<Longrightarrow> putVarint v = [ucast v]"
  by (subst putVarint.simps) (simp add: word_le_nat_alt)
lemmas build_defs = build_def blp_new_def putSid_def intern_def symtab_new_def addTag_def addField_def putVal_def beginFields_def isnan32_def Let_def setTimeMs_def putVarint_1
lemmas take_defs = blp_take_def Let_def tableDue_def kBurstCount_def writeFullTable_def writeEntry_def putVarint_1
lemma demo_one: "resD (sends (symtab_new\<lparr>st_pts := 199\<rparr>) [demo_point 1]) (\<lambda>(ds, t). small t \<and> (\<forall>d\<in>set ds. length d < 2 ^ 64))"
  by (simp add: demo_point_def build_defs, simp add: take_defs small_def)

lemma demo_two: "resD (sends symtab_new [demo_point 1, demo_point 2]) (\<lambda>(ds, t). small t \<and> (\<forall>d\<in>set ds. length d < 2 ^ 64))"
  by (simp add: demo_point_def build_defs, simp add: take_defs build_defs, simp add: take_defs small_def)

lemma symtab_inv_pts: "symtab_inv (symtab_new\<lparr>st_pts := 199\<rparr>)"
  by (simp add: symtab_inv_def symtab_new_def)

definition hex_g :: printf_g where "hex_g = \<lparr>g32 = le_bytes 4, g64 = le_bytes 8\<rparr>"

lemma demo_line: "line hex_g (demo_point 1) = ascii ''p,d=a v=-5i 1'' @ [10]"
  by (simp add: demo_point_def point_line_def tags_text_def visible_def isnan32_def i_dec_def u_dec.simps chr_def ascii_def)

text \<open>C13: Whatever datagrams of a stream of points are lost, the receiver answers every datagram it gets with the
  exact text of that point or, when it misses a symbol, with nothing; it never decodes a wrong line and never reads
  outside the datagram. Its table stays a prefix of the sender's.\<close>
theorem symline_never_wrong:
  assumes "sends t ps = Inr (ds, t')" "symtab_inv t" "small t'" "\<forall>p\<in>set ps. point_ok p" "\<forall>d\<in>set ds. length d < 2 ^ 64"
    "prefix R (entries t)"
  shows "\<exists>xs R'. receive g R (nths ds I) = Inr (xs, R') \<and> prefix R' (entries t') \<and>
    list_all2 (\<lambda>p x. x = None \<or> x = Some (line g p)) (nths ps I) xs"
  using assms
proof (induction ps arbitrary: t ds R I)
  case Nil
  then show ?case by simp
next
  case (Cons p ps)
  from Cons.prems(1) obtain d t1 ds1 where 1: "send p t = Inr (d, t1)" "sends t1 ps = Inr (ds1, t')" and ds: "ds = d # ds1"
    by (auto simp: bindE_Inr_iff)
  have s: "small t1" using small_ext [OF sends_ext [OF 1(2)] Cons.prems(3)] .
  have ok: "point_ok p" "length d < 2 ^ 64" using Cons.prems(4,5) ds by auto
  note so = send_ok [OF 1(1) Cons.prems(2) s ok(1)]
  obtain x R1 where d: "lpDecode g d [] R = Inr (x, R1)" "prefix R1 (entries t1)" "x = None \<or> x = Some (line g p)"
    by (rule send_decode [OF 1(1) Cons.prems(2) s ok Cons.prems(6)]) blast
  let ?J = "{j. Suc j \<in> I}"
  have ih: "\<exists>xs R'. receive g R0 (nths ds1 ?J) = Inr (xs, R') \<and> prefix R' (entries t') \<and>
    list_all2 (\<lambda>p x. x = None \<or> x = Some (line g p)) (nths ps ?J) xs" if "prefix R0 (entries t1)" for R0
    using Cons.IH [OF 1(2) so(1) Cons.prems(3) _ _ that] Cons.prems(4,5) ds by simp
  have "prefix R (entries t1)" using Cons.prems(6) entries_ext [OF Cons.prems(2) so(2)] prefix_order.trans by blast
  show ?case
  proof (cases "0 \<in> I")
    case True
    then show ?thesis using ih [OF d(2)] d by (auto simp: ds nths_Cons)
  next
    case False
    then show ?thesis using ih [OF \<open>prefix R (entries t1)\<close>] by (simp add: ds nths_Cons)
  qed
qed

lemma symline_never_wrong_witness:
  "\<exists>ds t'. sends symtab_new [demo_point 1, demo_point 2] = Inr (ds, t') \<and>
    (\<exists>xs R'. receive hex_g [] (nths ds {1}) = Inr (xs, R') \<and> prefix R' (entries t') \<and>
      list_all2 (\<lambda>p x. x = None \<or> x = Some (line hex_g p)) (nths [demo_point 1, demo_point 2] {1}) xs)"
proof (rule resD_pairE [OF demo_two])
  fix ds t' assume s: "sends symtab_new [demo_point 1, demo_point 2] = Inr (ds, t')"
    and "case (ds, t') of (ds, t) \<Rightarrow> small t \<and> (\<forall>d\<in>set ds. length d < 2 ^ 64)"
  then show ?thesis
    using symline_never_wrong [OF s symtab_inv_new, of "[]" hex_g "{1}"] demo_ok by auto
qed

lemma receive_lossless:
  assumes "sends t ps = Inr (ds, t')" "symtab_inv t" "small t'" "\<forall>p\<in>set ps. point_ok p" "\<forall>d\<in>set ds. length d < 2 ^ 64"
  shows "receive g (entries t) ds = Inr (map (\<lambda>p. Some (line g p)) ps, entries t')"
  using assms
proof (induction ps arbitrary: t ds)
  case Nil
  then show ?case by simp
next
  case (Cons p ps)
  from Cons.prems(1) obtain d t1 ds1 where 1: "send p t = Inr (d, t1)" "sends t1 ps = Inr (ds1, t')" and ds: "ds = d # ds1"
    by (auto simp: bindE_Inr_iff)
  have s: "small t1" using small_ext [OF sends_ext [OF 1(2)] Cons.prems(3)] .
  have ok: "point_ok p" "length d < 2 ^ 64" using Cons.prems(4,5) ds by auto
  have "lpDecode g d [] (entries t) = Inr (Some (line g p), entries t1)"
    by (rule send_decode [OF 1(1) Cons.prems(2) s ok prefix_order.refl]) auto
  then show ?case using Cons.IH [OF 1(2) send_ok(1) [OF 1(1) Cons.prems(2) s ok(1)] Cons.prems(3)] Cons.prems(4,5) ds by simp
qed


text \<open>C14: Over a link that loses nothing, a receiver that starts with an empty table decodes every point of a
  stream built from a fresh symbol table to exactly its text, in order, and ends with the sender's symbols.\<close>
theorem symline_roundtrip:
  assumes "sends symtab_new ps = Inr (ds, t')" "small t'" "\<forall>p\<in>set ps. point_ok p" "\<forall>d\<in>set ds. length d < 2 ^ 64"
  shows "receive g [] ds = Inr (map (\<lambda>p. Some (line g p)) ps, entries t')"
proof -
  have "entries symtab_new = []" by (simp add: entries_def symtab_new_def)
  then show ?thesis using receive_lossless [OF assms(1) symtab_inv_new assms(2-4)] by simp
qed

lemma symline_roundtrip_witness:
  "\<exists>ds t'. sends symtab_new [demo_point 1, demo_point 2] = Inr (ds, t') \<and>
    receive hex_g [] ds = Inr ([Some (ascii ''p,d=a v=-5i 1'' @ [10]), Some (line hex_g (demo_point 2))], entries t')"
proof (rule resD_pairE [OF demo_two])
  fix ds t' assume s: "sends symtab_new [demo_point 1, demo_point 2] = Inr (ds, t')"
    and "case (ds, t') of (ds, t) \<Rightarrow> small t \<and> (\<forall>d\<in>set ds. length d < 2 ^ 64)"
  then show ?thesis using symline_roundtrip [OF s, of hex_g] demo_ok demo_line by auto
qed

section \<open>Repetition of the table\<close>

text \<open>C31: A receiver that joins a stream late, with an empty or outdated table, is complete after fewer than 200
  datagrams: from one of the next 200 points on it decodes every point exactly.\<close>
theorem symline_recovers:
  assumes "sends t ps = Inr (ds, t')" "symtab_inv t" "small t'" "\<forall>p\<in>set ps. point_ok p" "\<forall>d\<in>set ds. length d < 2 ^ 64"
    "prefix R (entries t)" "unat (st_pts t) < 200" "200 \<le> length ps + unat (st_pts t)"
  shows "\<exists>i xs R'. i < 200 - unat (st_pts t) \<and> receive g R ds = Inr (xs, R') \<and>
    drop i xs = map (\<lambda>p. Some (line g p)) (drop i ps)"
  using assms
proof (induction ps arbitrary: t ds R)
  case Nil
  then show ?case by simp
next
  case (Cons p ps)
  from Cons.prems(1) obtain d t1 ds1 where 1: "send p t = Inr (d, t1)" "sends t1 ps = Inr (ds1, t')" and ds: "ds = d # ds1"
    by (auto simp: bindE_Inr_iff)
  have s: "small t1" using small_ext [OF sends_ext [OF 1(2)] Cons.prems(3)] .
  have ok: "point_ok p" "length d < 2 ^ 64" "\<forall>p\<in>set ps. point_ok p" "\<forall>d\<in>set ds1. length d < 2 ^ 64"
    using Cons.prems(4,5) ds by auto
  have inv: "symtab_inv t1" by (rule send_ok(1) [OF 1(1) Cons.prems(2) s ok(1)])
  obtain x R1 where d: "lpDecode g d [] R = Inr (x, R1)" "prefix R1 (entries t1)" and pts: "unat (st_pts t1) < 200"
    and c: "x = Some (line g p) \<and> R1 = entries t1 \<or> unat (st_pts t1) = unat (st_pts t) + 1"
    by (rule send_decode [OF 1(1) Cons.prems(2) s ok(1,2) Cons.prems(6)]) (use Cons.prems(7) in blast)
  from c show ?case
  proof
    assume "x = Some (line g p) \<and> R1 = entries t1"
    then have "receive g R ds = Inr (map (\<lambda>p. Some (line g p)) (p # ps), entries t')"
      using d receive_lossless [OF 1(2) inv Cons.prems(3) ok(3,4), of g] by (simp add: ds)
    then show ?thesis using Cons.prems(7) by (intro exI [of _ 0]) simp
  next
    assume n: "unat (st_pts t1) = unat (st_pts t) + 1"
    then have "200 \<le> length ps + unat (st_pts t1)" using Cons.prems(8) by simp
    from Cons.IH [OF 1(2) inv Cons.prems(3) ok(3,4) d(2) pts this]
    obtain i xs R' where "i < 200 - unat (st_pts t1)" "receive g R1 ds1 = Inr (xs, R')"
      "drop i xs = map (\<lambda>p. Some (line g p)) (drop i ps)" by blast
    then show ?thesis using d(1) n by (intro exI [of _ "Suc i"]) (auto simp: ds)
  qed
qed

lemma symline_recovers_witness:
  "\<exists>ds t'. sends (symtab_new\<lparr>st_pts := 199\<rparr>) [demo_point 1] = Inr (ds, t') \<and>
    (\<exists>i xs R'. i < 1 \<and> receive hex_g [] ds = Inr (xs, R') \<and>
      drop i xs = map (\<lambda>p. Some (line hex_g p)) (drop i [demo_point 1]))"
proof (rule resD_pairE [OF demo_one])
  fix ds t' assume s: "sends (symtab_new\<lparr>st_pts := 199\<rparr>) [demo_point 1] = Inr (ds, t')"
    and "case (ds, t') of (ds, t) \<Rightarrow> small t \<and> (\<forall>d\<in>set ds. length d < 2 ^ 64)"
  then show ?thesis using symline_recovers [OF s symtab_inv_pts, of "[]" hex_g] demo_ok by auto
qed

end
