(* ===== verification/Scope.thy ===== *)
theory Scope
  imports SymLine
begin

text \<open>
  \<open>src/src/tele/scope.h\<close>: the raw sample stream over TCP. The real-time task packs samples into one of two
  buffers, the network task sends the other one; the task notification between them is its count. An address is its
  32 bit value, bytes handed to the client are what \<open>write\<close> is called with. The decoder is the one for the host.
\<close>

unbundle bit_operations_syntax

section \<open>Channels\<close>

record scope_ch =
  h_cid :: u8
  h_ch :: u8
  h_typ :: u8
  h_bitLen :: u8
  h_name :: bytes

record scope =
  sp_cid :: "u32 \<rightharpoonup> u8"            \<comment> \<open>\<open>ptr2Cid\<close>, keyed by the address of the ADC plus its channel\<close>
  sp_channels :: "scope_ch list"
  sp_buf :: "bytes list"
  sp_sel :: u8
  sp_pos :: "u16 list"
  sp_connected :: bool
  sp_dropping :: bool
  sp_subscribed :: bool
  sp_notes :: u32                    \<comment> \<open>pending notifications of the network task\<close>
  sp_hostname :: bytes

definition BufSize :: nat where "BufSize = 2048"
definition BufNum :: nat where "BufNum = 2"

definition scope_new :: scope where
  "scope_new = \<lparr>sp_cid = (\<lambda>_. None), sp_channels = [], sp_buf = replicate BufNum (replicate BufSize 0), sp_sel = 0,
     sp_pos = replicate BufNum 0, sp_connected = False, sp_dropping = False, sp_subscribed = False, sp_notes = 0,
     sp_hostname = []\<rparr>"

definition scope_end :: "scope \<Rightarrow> scope" where
  "scope_end s = s\<lparr>sp_connected := False\<rparr>"

definition addChannel :: "u32 \<Rightarrow> u8 \<Rightarrow> u8 \<Rightarrow> u8 \<Rightarrow> bytes \<Rightarrow> scope \<Rightarrow> scope res" where
  "addChannel adc chNum typ bitLen name s =
    (let cid = (if sp_channels s = [] then 0 else h_cid (last (sp_channels s)) + 1);
         s1 = s\<lparr>sp_channels := sp_channels s @ [\<lparr>h_cid = cid, h_ch = chNum, h_typ = typ, h_bitLen = bitLen, h_name = name\<rparr>]\<rparr>;
         key = adc + ucast chNum
     in if sp_cid s1 key \<noteq> None then Inl AssertFail
        else Inr (s1\<lparr>sp_cid := (sp_cid s1)(key \<mapsto> cid)\<rparr>))"

definition scope_cid :: "scope \<Rightarrow> u32 \<Rightarrow> u8 \<Rightarrow> u8 res" where
  \<comment> \<open>an address that was not added dereferences \<open>end()\<close>\<close>
  "scope_cid s adc chNum = (case sp_cid s (adc + ucast chNum) of None \<Rightarrow> Inl Undefined | Some c \<Rightarrow> Inr c)"

section \<open>Adding samples\<close>

definition pack12 :: "u8 \<Rightarrow> u16 \<Rightarrow> bytes" where
  \<comment> \<open>\<open>Data12Ch4\<close> in memory: bit 0 is \<open>_zero\<close>, three bits \<open>channel\<close>, twelve bits \<open>data\<close>\<close>
  "pack12 cid x = le_bytes 2 (push_bit 1 (ucast (cid AND 7)) OR push_bit 4 x :: u16)"

definition put2 :: "nat \<Rightarrow> bytes \<Rightarrow> bytes \<Rightarrow> bytes" where
  "put2 i w b = b[i := w ! 0, i + 1 := w ! 1]"

definition scope_notify :: "scope \<Rightarrow> scope res" where
  \<comment> \<open>\<open>xTaskNotifyGive\<close> of no task is an assertion of the kernel\<close>
  "scope_notify s = (if sp_subscribed s then Inr (s\<lparr>sp_notes := sp_notes s + 1\<rparr>) else Inl AssertFail)"

definition addSample_room :: "scope \<Rightarrow> (bool \<times> scope) res" where
  \<comment> \<open>the first part of \<open>addSample12\<close>: switch to the other buffer when this one is full; \<open>False\<close> drops the sample\<close>
  "addSample_room s =
    (if BufNum \<le> unat (sp_sel s) then Inl Undefined
     else if BufSize < unat (sp_pos s ! unat (sp_sel s)) + 2 then
       (let nextBuf = (unat (sp_sel s) + 1) mod BufNum
        in if sp_pos s ! nextBuf \<noteq> 0 then Inr (False, s\<lparr>sp_dropping := True\<rparr>)
           else bindE (scope_notify (s\<lparr>sp_dropping := False, sp_sel := of_nat nextBuf\<rparr>)) (\<lambda>s1. Inr (True, s1)))
     else Inr (True, s))"

definition addSample_write :: "u32 \<Rightarrow> u8 \<Rightarrow> u16 \<Rightarrow> scope \<Rightarrow> scope res" where
  "addSample_write adc ch x s =
    (let b = unat (sp_sel s); p = unat (sp_pos s ! b)
     in if BufSize < p + 2 then Inl Undefined
        else bindE (scope_cid s adc ch) (\<lambda>cid.
          Inr (s\<lparr>sp_buf := (sp_buf s)[b := put2 p (pack12 cid x) (sp_buf s ! b)],
                 sp_pos := (sp_pos s)[b := sp_pos s ! b + 2]\<rparr>)))"

definition addSample12 :: "u32 \<Rightarrow> u8 \<Rightarrow> u16 \<Rightarrow> scope \<Rightarrow> scope res" where
  "addSample12 adc ch x s =
    (if \<not> sp_connected s then Inr s
     else bindE (addSample_room s) (\<lambda>(ok, s1). if ok then addSample_write adc ch x s1 else Inr s1))"

section \<open>The network task\<close>

definition netSend :: "scope \<Rightarrow> (nat \<times> bytes) option \<times> scope" where
  \<comment> \<open>\<open>netLoop\<close> up to the \<open>write\<close>: the buffer that is sent and its bytes, if any\<close>
  "netSend s =
    (let s1 = s\<lparr>sp_subscribed := True\<rparr>
     in if BufNum \<le> unat (sp_sel s1) \<or> BufSize < unat (sp_pos s1 ! 0) \<or> BufSize < unat (sp_pos s1 ! 1)
        then (None, s1\<lparr>sp_sel := 0, sp_pos := [0, 0]\<rparr>)
        else if sp_notes s1 \<noteq> 0
        then (let b = (unat (sp_sel s1) + BufNum - 1) mod BufNum
              in (Some (b, take (unat (sp_pos s1 ! b)) (sp_buf s1 ! b)), s1\<lparr>sp_notes := 0\<rparr>))
        else (None, s1))"

definition netClear :: "nat \<Rightarrow> scope \<Rightarrow> scope" where
  \<comment> \<open>the rest of \<open>netLoop\<close> after the \<open>write\<close>\<close>
  "netClear b s = s\<lparr>sp_pos := (sp_pos s)[b := 0]\<rparr>"

definition netLoop :: "scope \<Rightarrow> bytes option \<times> scope" where
  "netLoop s = (case netSend s of (None, s1) \<Rightarrow> (None, s1) | (Some (b, w), s1) \<Rightarrow> (Some w, netClear b s1))"

definition scope_entry :: "scope_ch \<Rightarrow> bytes" where
  \<comment> \<open>\<open>snprintf\<close> into 64 bytes\<close>
  "scope_entry h = take 63 (u_dec (unat (h_cid h)) @ chr CHR ''$'' # h_name h @ chr CHR ''='' # h_typ h #
     u_dec (unat (h_bitLen h)) @ ascii '','')"

definition sendHeader :: "scope \<Rightarrow> bytes" where
  "sendHeader s = ascii ''###ScopeHead:'' @
     (if sp_hostname s \<noteq> [] then ascii ''@host='' @ sp_hostname s @ ascii '','' else []) @
     concat (map scope_entry (sp_channels s)) @ ascii ''###ENDHEAD'' @ [10]"

definition scope_update :: "bool \<Rightarrow> bool \<Rightarrow> scope \<Rightarrow> bytes option \<times> scope" where
  \<comment> \<open>whether the client is connected, and whether the server accepts one that is; the header sent to a new client\<close>
  "scope_update cconn accepted s =
    (if \<not> cconn then
       (let s1 = s\<lparr>sp_connected := False\<rparr>
        in if accepted then (Some (sendHeader s1), s1\<lparr>sp_connected := True\<rparr>) else (None, s1))
     else (None, s\<lparr>sp_connected := True\<rparr>))"

section \<open>The decoder\<close>

type_synonym scope_ev = "u8 \<times> int"     \<comment> \<open>a call of \<open>onInt\<close>\<close>

record scope_dec =
  sd_buf :: bytes
  sd_bufPos :: nat

definition scope_dec_new :: scope_dec where
  "scope_dec_new = \<lparr>sd_buf = replicate 128 0, sd_bufPos = 0\<rparr>"

definition dec12 :: "u8 \<Rightarrow> u8 \<Rightarrow> scope_ev" where
  "dec12 b0 b1 = (drop_bit 1 b0 AND 7, uint (drop_bit 4 (le_value [b0, b1] :: u16)))"

fun readBuffer :: "scope_dec \<Rightarrow> bytes \<Rightarrow> (scope_ev list \<times> nat) res" where
  \<comment> \<open>the calls made and the number of bytes read; the 16 bit formats are read from \<open>buf\<close>, as the code does\<close>
  "readBuffer d (b0 # b1 # bs) =
    (if b0 AND 1 = 0 then
       bindE (readBuffer d bs) (\<lambda>(evs, n). Inr (dec12 b0 b1 # evs, n + 2))
     else (case bs of
       b2 # b3 # bs' \<Rightarrow>
         (let h = sd_buf d ! 0; v = uint (le_value [sd_buf d ! 1, sd_buf d ! 2] :: u16); fmt = drop_bit 5 h AND 3
          in if h AND 0x10 = 0 then
               (if fmt = 0 \<or> fmt = 1
                then bindE (readBuffer d bs') (\<lambda>(evs, n). Inr ((drop_bit 1 b0 AND 7, v) # evs, n + 4))
                else Inl (Throw ''not impl''))
             else if sd_bufPos d < 5 then Inr ([], 0)
             else Inl (Throw ''not impl''))
       | _ \<Rightarrow> Inr ([], 0)))"
| "readBuffer d bs = Inr ([], 0)"

definition dec_put :: "nat \<Rightarrow> bytes \<Rightarrow> bytes \<Rightarrow> bytes" where
  \<comment> \<open>\<open>memcpy\<close> into the buffer\<close>
  "dec_put i w b = take i b @ w @ drop (i + length w) b"

definition dec_write :: "bytes \<Rightarrow> scope_dec \<Rightarrow> (scope_ev list \<times> scope_dec) res" where
  "dec_write bs d =
    (if bs = [] then Inr ([], d)
     else if sd_bufPos d \<noteq> 0 \<or> length bs < 2 then
       (if 128 < sd_bufPos d + length bs then Inl Undefined
        else let d1 = d\<lparr>sd_buf := dec_put (sd_bufPos d) bs (sd_buf d), sd_bufPos := sd_bufPos d + length bs\<rparr>
             in bindE (readBuffer d1 (take (sd_bufPos d1) (sd_buf d1))) (\<lambda>(evs, r).
                  Inr (evs,
                    if r < sd_bufPos d1
                    then d1\<lparr>sd_buf := dec_put 0 (take (sd_bufPos d1 - r) (drop r (sd_buf d1))) (sd_buf d1),
                            sd_bufPos := sd_bufPos d1 - r\<rparr>
                    else d1)))
     else bindE (readBuffer d bs) (\<lambda>(evs, r).
       if r = length bs then Inr (evs, d)
       else if 128 < length bs - r then Inl Undefined
       else Inr (evs, d\<lparr>sd_buf := dec_put 0 (drop r bs) (sd_buf d), sd_bufPos := length bs - r\<rparr>)))"

end
