(* ===== verification/ScopeProps.thy ===== *)
theory ScopeProps
  imports Scope SymLineProps "HOL-Library.Sublist"
begin

text \<open>
  Properties of the sample stream: whatever way the real-time task and the network task interleave, the bytes sent
  and the bytes still buffered are the accepted samples in order; the decoder returns them.
\<close>

unbundle bit_operations_syntax

section \<open>The two tasks\<close>

record scope_sys =
  sy_sc :: scope
  sy_tx :: "nat option"      \<comment> \<open>the buffer the network task is writing to the client\<close>
  sy_in :: "(u8 \<times> u16) list"  \<comment> \<open>the samples accepted so far, with their channel\<close>
  sy_wire :: bytes           \<comment> \<open>the bytes handed to the client so far\<close>

definition enc :: "(u8 \<times> u16) list \<Rightarrow> bytes" where
  "enc xs = concat (map (\<lambda>(c, x). pack12 c x) xs)"

definition sample_taken :: "scope \<Rightarrow> bool" where
  "sample_taken s = (sp_connected s \<and> (case addSample_room s of Inl e \<Rightarrow> False | Inr (ok, s1) \<Rightarrow> ok))"

inductive scope_step :: "scope_sys \<Rightarrow> scope_sys \<Rightarrow> bool" where
  sample: "sp_cid (sy_sc y) (adc + ucast ch) = Some c \<Longrightarrow> addSample12 adc ch x (sy_sc y) = Inr s' \<Longrightarrow>
    scope_step y (y\<lparr>sy_sc := s', sy_in := sy_in y @ (if sample_taken (sy_sc y) then [(c, x)] else [])\<rparr>)"
| send: "sy_tx y = None \<Longrightarrow> netSend (sy_sc y) = (Some (b, bs), s') \<Longrightarrow>
    scope_step y (y\<lparr>sy_sc := s', sy_tx := Some b, sy_wire := sy_wire y @ bs\<rparr>)"
| poll: "sy_tx y = None \<Longrightarrow> netSend (sy_sc y) = (None, s') \<Longrightarrow> scope_step y (y\<lparr>sy_sc := s'\<rparr>)"
| clear: "sy_tx y = Some b \<Longrightarrow> scope_step y (y\<lparr>sy_sc := netClear b (sy_sc y), sy_tx := None\<rparr>)"
| client: "sy_tx y = None \<Longrightarrow> scope_update cconn accepted (sy_sc y) = (h, s') \<Longrightarrow> scope_step y (y\<lparr>sy_sc := s'\<rparr>)"
| stop: "sy_tx y = None \<Longrightarrow> scope_step y (y\<lparr>sy_sc := scope_end (sy_sc y)\<rparr>)"
| channel: "addChannel adc chNum typ bitLen name (sy_sc y) = Inr s' \<Longrightarrow> scope_step y (y\<lparr>sy_sc := s'\<rparr>)"

inductive scope_reach :: "scope_sys \<Rightarrow> bool" where
  start: "scope_reach \<lparr>sy_sc = scope_new, sy_tx = None, sy_in = [], sy_wire = []\<rparr>"
| step: "scope_reach y \<Longrightarrow> scope_step y z \<Longrightarrow> scope_reach z"

definition content :: "scope \<Rightarrow> nat \<Rightarrow> bytes" where
  "content s b = take (unat (sp_pos s ! b)) (sp_buf s ! b)"

abbreviation cur :: "scope \<Rightarrow> nat" where "cur s \<equiv> unat (sp_sel s)"

definition scope_shape :: "scope \<Rightarrow> bool" where
  "scope_shape s = (cur s < 2 \<and> length (sp_buf s) = 2 \<and> length (sp_pos s) = 2 \<and>
     (\<forall>b<2. length (sp_buf s ! b) = 2048 \<and> unat (sp_pos s ! b) \<le> 2048 \<and> even (unat (sp_pos s ! b))))"

definition pending :: "scope_sys \<Rightarrow> bytes" where
  "pending y = (if sy_tx y = None then content (sy_sc y) (1 - cur (sy_sc y)) else []) @ content (sy_sc y) (cur (sy_sc y))"

definition scope_inv :: "scope_sys \<Rightarrow> bool" where
  "scope_inv y = (let s = sy_sc y; oth = sp_pos s ! (1 - cur s) in
     scope_shape s \<and> enc (sy_in y) = sy_wire y @ pending y \<and>
     (\<forall>b. sy_tx y = Some b \<longrightarrow> b = 1 - cur s \<and> oth \<noteq> 0) \<and>
     sp_notes s = (if sy_tx y = None \<and> oth \<noteq> 0 then 1 else 0))"

lemma enc_simps [simp]: "enc [] = []" "enc ((c, x) # xs) = pack12 c x @ enc xs" "enc (xs @ ys) = enc xs @ enc ys"
  by (simp_all add: enc_def)

lemma pack12_length [simp]: "length (pack12 c x) = 2"
  by (simp add: pack12_def numeral_2_eq_2)

lemma put2_content: "p + 2 \<le> length b \<Longrightarrow> length w = 2 \<Longrightarrow> take (p + 2) (put2 p w b) = take p b @ w"
proof -
  assume p: "p + 2 \<le> length b" and w: "length w = 2"
  obtain w0 w1 where "w = [w0, w1]" using w by (auto simp: numeral_2_eq_2 length_Suc_conv)
  then show ?thesis using p
    by (intro nth_equalityI) (auto simp: put2_def nth_append nth_list_update less_Suc_eq nth_Cons split: nat.splits)
qed

lemma put2_length [simp]: "length (put2 p w b) = length b"
  by (simp add: put2_def)

lemma other_buffer: "b < 2 \<Longrightarrow> (b + 1) mod 2 = 1 - b" "b < 2 \<Longrightarrow> (b + 2 - 1) mod 2 = (1 - b :: nat)"
  by (auto simp: less_Suc_eq numeral_2_eq_2)

lemma room_cases:
  assumes "scope_shape s" "addSample_room s = Inr (ok, s1)"
  obtains (same) "ok" "s1 = s" "unat (sp_pos s ! cur s) \<le> 2046"
  | (drop) "\<not> ok" "s1 = s\<lparr>sp_dropping := True\<rparr>" "sp_pos s ! (1 - cur s) \<noteq> 0"
  | (switch) "ok" "sp_pos s ! (1 - cur s) = 0" "sp_pos s ! cur s = 2048"
      "s1 = s\<lparr>sp_dropping := False, sp_sel := of_nat (1 - cur s), sp_notes := sp_notes s + 1\<rparr>" "sp_subscribed s"
proof -
  have sel: "cur s < 2" and full: "unat (sp_pos s ! cur s) \<le> 2048" "even (unat (sp_pos s ! cur s))"
    using assms(1) by (auto simp: scope_shape_def)
  have "sp_pos s ! cur s = 2048" if "\<not> unat (sp_pos s ! cur s) \<le> 2046"
  proof -
    have "unat (sp_pos s ! cur s) = 2048" using that full by presburger
    then have "unat (sp_pos s ! cur s) = unat (2048 :: u16)" by simp
    then show ?thesis by (simp only: word_unat_eq_iff)
  qed
  note e = other_buffer(1) [OF sel]
  have lt: "\<not> BufNum \<le> cur s" using sel by (simp add: BufNum_def)
  show thesis
  proof (cases "unat (sp_pos s ! cur s) \<le> 2046")
    case True
    then have "addSample_room s = Inr (True, s)"
      using lt by (simp add: addSample_room_def BufSize_def)
    then show thesis using assms(2) True by (intro same) auto
  next
    case False
    then have f: "BufSize < unat (sp_pos s ! cur s) + 2" by (simp add: BufSize_def)
    have r: "addSample_room s = (if sp_pos s ! (1 - cur s) \<noteq> 0 then Inr (False, s\<lparr>sp_dropping := True\<rparr>)
        else bindE (scope_notify (s\<lparr>sp_dropping := False, sp_sel := of_nat (1 - cur s)\<rparr>)) (\<lambda>s1. Inr (True, s1)))"
      unfolding addSample_room_def if_not_P [OF lt] if_P [OF f] by (simp only: Let_def BufNum_def e)
    show thesis
    proof (cases "sp_pos s ! (1 - cur s) = 0")
      case True
      then show thesis using assms(2) False unfolding r
        by (intro switch \<open>\<not> unat (sp_pos s ! cur s) \<le> 2046 \<Longrightarrow> sp_pos s ! cur s = 2048\<close>)
          (auto simp: scope_notify_def split: if_splits)
    next
      case False
      then show thesis using assms(2) unfolding r by (intro drop) auto
    qed
  qed
qed

lemma write_result:
  assumes "scope_shape s" "unat (sp_pos s ! cur s) \<le> 2046" "sp_cid s (adc + ucast ch) = Some c"
  shows "addSample_write adc ch x s = Inr (s\<lparr>sp_buf := (sp_buf s)[cur s := put2 (unat (sp_pos s ! cur s)) (pack12 c x) (sp_buf s ! cur s)],
    sp_pos := (sp_pos s)[cur s := sp_pos s ! cur s + 2]\<rparr>)"
  using assms by (simp add: addSample_write_def scope_cid_def BufSize_def Let_def)

lemma write_shape:
  assumes "scope_shape s" "unat (sp_pos s ! cur s) \<le> 2046"
    "s' = s\<lparr>sp_buf := (sp_buf s)[cur s := put2 (unat (sp_pos s ! cur s)) (pack12 c x) (sp_buf s ! cur s)],
      sp_pos := (sp_pos s)[cur s := sp_pos s ! cur s + 2]\<rparr>"
  shows "scope_shape s'" "content s' (cur s) = content s (cur s) @ pack12 c x" "content s' (1 - cur s) = content s (1 - cur s)"
    "sp_pos s' ! (1 - cur s) = sp_pos s ! (1 - cur s)"
proof -
  have sel: "cur s < 2" and len: "length (sp_buf s ! cur s) = 2048" and ev: "even (unat (sp_pos s ! cur s))"
    and lens: "length (sp_buf s) = 2" "length (sp_pos s) = 2"
    using assms(1) by (auto simp: scope_shape_def)
  have u: "unat (sp_pos s ! cur s + 2) = unat (sp_pos s ! cur s) + 2"
    using assms(2) by (simp add: unat_word_ariths)
  have ne: "cur s \<noteq> 1 - cur s" using sel by (auto simp: less_2_cases_iff)
  show "scope_shape s'" using assms(1,2) u ev unfolding assms(3) scope_shape_def by (auto simp: nth_list_update)
  show "content s' (cur s) = content s (cur s) @ pack12 c x"
    using put2_content [of "unat (sp_pos s ! cur s)" "sp_buf s ! cur s" "pack12 c x"] sel len lens u assms(2)
    by (simp add: content_def assms(3))
  show "content s' (1 - cur s) = content s (1 - cur s)" "sp_pos s' ! (1 - cur s) = sp_pos s ! (1 - cur s)"
    using ne by (simp_all add: content_def assms(3))
qed

lemma sample_inv:
  assumes "scope_inv y" "sp_cid (sy_sc y) (adc + ucast ch) = Some c" "addSample12 adc ch x (sy_sc y) = Inr s'"
  shows "scope_inv (y\<lparr>sy_sc := s', sy_in := sy_in y @ (if sample_taken (sy_sc y) then [(c, x)] else [])\<rparr>)"
proof (cases "sp_connected (sy_sc y)")
  case False
  then have "s' = sy_sc y" using assms(3) by (simp add: addSample12_def)
  then show ?thesis using assms(1) False by (simp add: sample_taken_def)
next
  case True
  define s where "s = sy_sc y"
  have sh: "scope_shape s" and io: "enc (sy_in y) = sy_wire y @ pending y"
    and tx: "\<And>b. sy_tx y = Some b \<Longrightarrow> b = 1 - cur s \<and> sp_pos s ! (1 - cur s) \<noteq> 0"
    and nt: "sp_notes s = (if sy_tx y = None \<and> sp_pos s ! (1 - cur s) \<noteq> 0 then 1 else 0)"
    using assms(1) by (simp_all add: scope_inv_def Let_def s_def)
  have sel: "cur s < 2" using sh by (simp add: scope_shape_def)
  obtain ok s1 where r: "addSample_room s = Inr (ok, s1)" and w: "(if ok then addSample_write adc ch x s1 else Inr s1) = Inr s'"
    using assms(3) True by (auto simp: addSample12_def s_def bindE_Inr_iff)
  have tk: "sample_taken s = ok" using r True by (simp add: sample_taken_def s_def)
  from sh r show ?thesis
  proof (cases rule: room_cases)
    case same
    have s': "s' = s\<lparr>sp_buf := (sp_buf s)[cur s := put2 (unat (sp_pos s ! cur s)) (pack12 c x) (sp_buf s ! cur s)],
      sp_pos := (sp_pos s)[cur s := sp_pos s ! cur s + 2]\<rparr>"
      using w same write_result [OF sh same(3), of adc ch c x] assms(2) by (simp add: s_def)
    note ws = write_shape [OF sh same(3) s']
    have "cur s' = cur s" by (simp add: s')
    then show ?thesis using ws io tx nt tk same(1) unfolding scope_inv_def pending_def Let_def s_def [symmetric]
      by (cases "sy_tx y") (simp_all add: s')
  next
    case drop
    then have s': "s' = s\<lparr>sp_dropping := True\<rparr>" using w by simp
    then have "scope_shape s'" "content s' = content s" using sh by (auto simp: scope_shape_def content_def fun_eq_iff)
    then show ?thesis using io tx nt tk drop(1) s' unfolding scope_inv_def pending_def Let_def s_def [symmetric]
      by (cases "sy_tx y") simp_all
  next
    case switch
    have u: "unat (of_nat (1 - cur s) :: u8) = 1 - cur s" by (simp add: unat_of_nat)
    have c1: "cur s1 = 1 - cur s" unfolding switch(4) using u by simp
    have flip: "1 - cur s1 = cur s" using c1 sel by simp
    have sh1: "scope_shape s1" using sh c1 by (auto simp: scope_shape_def switch(4))
    have co: "content s1 = content s" by (simp add: switch(4) content_def fun_eq_iff)
    have z: "unat (sp_pos s1 ! cur s1) = 0" unfolding c1 using switch(2) by (simp add: switch(4) del: One_nat_def)
    then have le: "unat (sp_pos s1 ! cur s1) \<le> 2046" by simp
    have s': "s' = s1\<lparr>sp_buf := (sp_buf s1)[cur s1 := put2 (unat (sp_pos s1 ! cur s1)) (pack12 c x) (sp_buf s1 ! cur s1)],
      sp_pos := (sp_pos s1)[cur s1 := sp_pos s1 ! cur s1 + 2]\<rparr>"
      using w switch(1) write_result [OF sh1 le, of adc ch c x] assms(2) by (simp add: s_def switch(4))
    note ws = write_shape [OF sh1 le s']
    have notx: "sy_tx y = None" using tx switch(2) by (cases "sy_tx y") auto
    have "cur s' = cur s1" "sp_notes s' = 1" using nt switch(2) by (simp_all add: s') (simp add: switch(4))
    moreover have "content s' (cur s1) = pack12 c x" using ws(2) z by (simp add: content_def)
    moreover have "content s (1 - cur s) = []" using switch(2) by (simp add: content_def)
    moreover have "sp_pos s1 ! (1 - cur s1) \<noteq> 0" unfolding flip using switch(3) by (simp add: switch(4))
    ultimately show ?thesis using ws io notx tk switch(1) flip co
      unfolding scope_inv_def pending_def Let_def s_def [symmetric] by simp
  qed
qed

lemma netSend_inv:
  assumes "scope_inv y" "sy_tx y = None"
  shows "netSend (sy_sc y) = (Some (b, bs), s') \<Longrightarrow> scope_inv (y\<lparr>sy_sc := s', sy_tx := Some b, sy_wire := sy_wire y @ bs\<rparr>)"
    and "netSend (sy_sc y) = (None, s') \<Longrightarrow> scope_inv (y\<lparr>sy_sc := s'\<rparr>)"
proof -
  define s where "s = sy_sc y"
  have sh: "scope_shape s" and io: "enc (sy_in y) = sy_wire y @ content s (1 - cur s) @ content s (cur s)"
    and nt: "sp_notes s = (if sp_pos s ! (1 - cur s) \<noteq> 0 then 1 else 0)"
    using assms by (simp_all add: scope_inv_def pending_def Let_def s_def)
  have sel: "cur s < 2" using sh by (simp add: scope_shape_def)
  have ok: "\<not> (BufNum \<le> cur s \<or> BufSize < unat (sp_pos s ! 0) \<or> BufSize < unat (sp_pos s ! 1))"
    using sh by (auto simp: scope_shape_def BufNum_def BufSize_def not_less)
  have e: "(cur s + BufNum - 1) mod BufNum = 1 - cur s" using other_buffer(2) [OF sel] by (simp add: BufNum_def)
  have r: "netSend s = (if sp_notes s \<noteq> 0 then (Some (1 - cur s, content s (1 - cur s)), s\<lparr>sp_subscribed := True, sp_notes := 0\<rparr>)
      else (None, s\<lparr>sp_subscribed := True\<rparr>))"
    using ok e by (simp add: netSend_def content_def Let_def)
  have sh': "scope_shape (s\<lparr>sp_subscribed := True\<rparr>)" "scope_shape (s\<lparr>sp_subscribed := True, sp_notes := 0\<rparr>)"
    "content (s\<lparr>sp_subscribed := True\<rparr>) = content s" "content (s\<lparr>sp_subscribed := True, sp_notes := 0\<rparr>) = content s"
    using sh by (auto simp: scope_shape_def content_def fun_eq_iff)
  show "scope_inv (y\<lparr>sy_sc := s', sy_tx := Some b, sy_wire := sy_wire y @ bs\<rparr>)" if "netSend (sy_sc y) = (Some (b, bs), s')"
    using that r nt io sh' unfolding s_def [symmetric] by (auto simp: scope_inv_def pending_def Let_def split: if_splits)
  show "scope_inv (y\<lparr>sy_sc := s'\<rparr>)" if "netSend (sy_sc y) = (None, s')"
    using that r nt io sh' assms(2) unfolding s_def [symmetric] by (auto simp: scope_inv_def pending_def Let_def split: if_splits)
qed

lemma clear_inv:
  assumes "scope_inv y" "sy_tx y = Some b"
  shows "scope_inv (y\<lparr>sy_sc := netClear b (sy_sc y), sy_tx := None\<rparr>)"
proof -
  define s where "s = sy_sc y"
  have sh: "scope_shape s" and io: "enc (sy_in y) = sy_wire y @ content s (cur s)" and b: "b = 1 - cur s" and nt: "sp_notes s = 0"
    using assms by (auto simp: scope_inv_def pending_def Let_def s_def)
  have sel: "cur s < 2" "length (sp_pos s) = 2" using sh by (auto simp: scope_shape_def)
  have ne: "cur s \<noteq> 1 - cur s" using sel by (auto simp: less_2_cases_iff)
  have z: "sp_pos (netClear b s) ! (1 - cur s) = 0" using sel by (simp add: netClear_def b)
  have "(sp_pos s)[b := 0] ! i = (if i = b then 0 else sp_pos s ! i)" if "i < 2" for i
    using that sel by (cases "i = b") auto
  then have "scope_shape (netClear b s)" using sh by (simp add: scope_shape_def netClear_def)
  moreover have "content (netClear b s) (1 - cur s) = []" using z by (simp add: content_def)
  moreover have "content (netClear b s) (cur s) = content s (cur s)" using ne by (simp add: content_def netClear_def b)
  moreover have "sp_sel (netClear b s) = sp_sel s" "sp_notes (netClear b s) = 0" using nt by (simp_all add: netClear_def)
  ultimately show ?thesis using io z unfolding s_def [symmetric] by (simp add: scope_inv_def pending_def Let_def)
qed

lemma same_buffers_inv:
  assumes "scope_inv y" "sp_buf s' = sp_buf (sy_sc y)" "sp_pos s' = sp_pos (sy_sc y)" "sp_sel s' = sp_sel (sy_sc y)"
    "sp_notes s' = sp_notes (sy_sc y)"
  shows "scope_inv (y\<lparr>sy_sc := s'\<rparr>)"
proof -
  have "content s' = content (sy_sc y)" using assms(2,3) by (simp add: content_def fun_eq_iff)
  moreover have "scope_shape s' = scope_shape (sy_sc y)" using assms(2-4) by (simp add: scope_shape_def)
  ultimately show ?thesis using assms by (cases "sy_tx y") (simp_all add: scope_inv_def pending_def Let_def)
qed

lemma scope_step_inv: "scope_step y z \<Longrightarrow> scope_inv y \<Longrightarrow> scope_inv z"
proof (induction rule: scope_step.induct)
  case (client y cconn accepted h s')
  then show ?case
    by (intro same_buffers_inv) (auto simp: scope_update_def Let_def split: if_splits)
next
  case (channel adc chNum ty bitLen name y s')
  then show ?case
    by (intro same_buffers_inv) (auto simp: addChannel_def Let_def split: if_splits)
next
  case (sample y adc ch c x s')
  then show ?case by (intro sample_inv)
qed (auto intro: netSend_inv clear_inv same_buffers_inv simp: scope_end_def)

lemma scope_new_inv: "scope_inv \<lparr>sy_sc = scope_new, sy_tx = None, sy_in = [], sy_wire = []\<rparr>"
  by (simp add: scope_inv_def pending_def Let_def scope_new_def scope_shape_def content_def BufNum_def BufSize_def
    nth_Cons numeral_2_eq_2 split: nat.split)

lemma scope_reach_inv: "scope_reach y \<Longrightarrow> scope_inv y"
  by (induction rule: scope_reach.induct) (auto intro: scope_step_inv scope_new_inv)

section \<open>The stream and its decoder\<close>

lemma enc_length [simp]: "length (enc xs) = 2 * length xs"
  by (induction xs) auto

lemma enc_take: "take (2 * n) (enc xs) = enc (take n xs)"
proof (induction xs arbitrary: n)
  case (Cons x xs)
  then show ?case by (cases x; cases n) auto
qed simp

fun dec_run :: "bytes list \<Rightarrow> scope_dec \<Rightarrow> (scope_ev list \<times> scope_dec) res" where
  "dec_run [] d = Inr ([], d)"
| "dec_run (b # bs) d = bindE (dec_write b d) (\<lambda>(e, d1). bindE (dec_run bs d1) (\<lambda>(es, d2). Inr (e @ es, d2)))"

definition sample_ev :: "u8 \<times> u16 \<Rightarrow> scope_ev" where
  "sample_ev = (\<lambda>(c, x). (c AND 7, uint (take_bit 12 x)))"

lemma pack12_decode:
  obtains b0 b1 where "pack12 c x = [b0, b1]" "b0 AND 1 = 0" "dec12 b0 b1 = sample_ev (c, x)"
proof -
  define p where "p = (push_bit 1 (ucast (c AND 7)) :: u16)"
  have m7: "(7 :: u8) = mask 3" by (simp add: mask_eq_decr_exp)
  have bp: "bit p n \<longleftrightarrow> 1 \<le> n \<and> n < 4 \<and> bit c (n - 1)" for n
  proof -
    have "bit p n \<longleftrightarrow> n < 16 \<and> 1 \<le> n \<and> n - 1 < 8 \<and> bit c (n - 1) \<and> n - 1 < 3"
      unfolding p_def m7 by (simp only: bit_push_bit_iff bit_ucast_iff bit_and_iff bit_mask_iff possible_bit_word len_num1 len_num0
        len_bit0 len_bit1) (auto dest: bit_imp_le_length)
    then show ?thesis by auto
  qed
  let ?w = "p OR push_bit 4 x"
  let ?b0 = "ucast ?w :: u8" and ?b1 = "ucast (drop_bit 8 ?w) :: u8"
  have p: "pack12 c x = [?b0, ?b1]" by (simp only: pack12_def p_def [symmetric] numeral_2_eq_2 le_bytes.simps)
  have z: "?b0 AND 1 = 0"
    by (rule bit_word_eqI) (auto simp: bit_simps bp)
  have "le_value [ucast w, ucast (drop_bit 8 w)] = w" for w :: u16
    using le_value_le(1) [of w] by (simp only: numeral_2_eq_2 le_bytes.simps)
  then have v: "le_value [?b0, ?b1] = ?w" .
  have ch: "drop_bit 1 ?b0 AND 7 = c AND 7"
    unfolding m7 by (rule bit_word_eqI) (auto simp: bit_simps bp)
  have "drop_bit 4 ?w = take_bit 12 x"
    by (rule bit_word_eqI) (auto simp: bit_simps bp)
  then have "dec12 ?b0 ?b1 = sample_ev (c, x)" unfolding dec12_def v ch by (simp add: sample_ev_def)
  then show thesis using that p z by blast
qed

lemma readBuffer_enc: "readBuffer d (enc xs) = Inr (map sample_ev xs, length (enc xs))"
proof (induction xs)
  case (Cons cx xs)
  obtain c x where cx: "cx = (c, x)" by force
  obtain b0 b1 where "pack12 c x = [b0, b1]" "b0 AND 1 = 0" "dec12 b0 b1 = sample_ev (c, x)" by (rule pack12_decode)
  then show ?case using Cons by (simp add: cx)
qed simp

lemma dec_write_enc: "sd_bufPos d = 0 \<Longrightarrow> dec_write (enc xs) d = Inr (map sample_ev xs, d)"
proof -
  assume z: "sd_bufPos d = 0"
  show ?thesis
  proof (cases "xs = []")
    case True
    then show ?thesis by (simp add: dec_write_def)
  next
    case False
    then have "2 \<le> length (enc xs)" by (cases xs) simp_all
    then have "enc xs \<noteq> []" "\<not> length (enc xs) < 2" by (auto simp del: enc_length)
    then show ?thesis unfolding dec_write_def readBuffer_enc using z by simp
  qed
qed

lemma dec_run_enc:
  assumes "concat bs = enc xs" "\<forall>b\<in>set bs. even (length b)" "sd_bufPos d = 0"
  shows "dec_run bs d = Inr (map sample_ev xs, d)"
  using assms(1,2)
proof (induction bs arbitrary: xs)
  case Nil
  then have "xs = []" using enc_length [of xs] by simp
  then show ?case by simp
next
  case (Cons b bs)
  obtain n where n: "length b = 2 * n" using Cons.prems(2) by auto
  have b: "b = enc (take n xs)" using arg_cong [OF Cons.prems(1), of "take (2 * n)"] n by (simp add: enc_take)
  then have r: "concat bs = enc (drop n xs)" using Cons.prems(1) append_take_drop_id [of n xs] enc_simps(3) [of "take n xs" "drop n xs"]
    by (metis concat.simps(2) same_append_eq)
  have "dec_run bs d = Inr (map sample_ev (drop n xs), d)" using Cons.IH [OF r] Cons.prems(2) by simp
  then show ?case using dec_write_enc [OF assms(3), of "take n xs"] b
    by (simp add: map_append [symmetric] del: map_append)
qed

lemma pending_length: "scope_inv y \<Longrightarrow> even (length (pending y)) \<and> length (pending y) \<le> 4096"
proof -
  assume i: "scope_inv y"
  define s where "s = sy_sc y"
  have sh: "scope_shape s" using i by (simp add: scope_inv_def Let_def s_def)
  have c: "length (content s b) = unat (sp_pos s ! b)" "even (unat (sp_pos s ! b))" "unat (sp_pos s ! b) \<le> 2048" if "b < 2" for b
    using sh that by (auto simp: scope_shape_def content_def)
  have "cur s < 2" "1 - cur s < 2" using sh by (auto simp: scope_shape_def)
  from c [OF this(1)] c [OF this(2)] show ?thesis unfolding pending_def s_def [symmetric] by (simp del: One_nat_def)
qed

lemma addSample_defined:
  assumes "scope_shape s" "sp_cid s (adc + ucast ch) = Some c"
  shows "addSample12 adc ch x s \<noteq> Inl Undefined"
proof (cases "sp_connected s \<and> (\<exists>r. addSample_room s = Inr r)")
  case False
  have "addSample_room s \<noteq> Inl Undefined"
    using assms(1) by (auto simp: scope_shape_def addSample_room_def BufNum_def scope_notify_def Let_def split: if_splits)
  then show ?thesis using False by (cases "addSample_room s") (auto simp: addSample12_def)
next
  case True
  then obtain ok s1 where c: "sp_connected s" and r: "addSample_room s = Inr (ok, s1)" by auto
  show ?thesis
  proof (cases ok)
    case False
    then show ?thesis using r c by (simp add: addSample12_def)
  next
    case ok: True
    have "scope_shape s1 \<and> unat (sp_pos s1 ! cur s1) \<le> 2046 \<and> sp_cid s1 = sp_cid s"
      using assms(1) r ok
    proof (cases rule: room_cases)
      case switch
      have "cur s1 = 1 - cur s" unfolding switch(4) by (simp add: unat_of_nat)
      then show ?thesis using assms(1) switch(2) unfolding switch(4) by (auto simp: scope_shape_def)
    qed (use assms(1) ok in auto)
    then show ?thesis using write_result [of s1 adc ch c x] assms(2) r c ok by (simp add: addSample12_def)
  qed
qed

text \<open>C15: Under every interleaving of the real-time task that adds samples and the network task that sends, polls, clears and
  handles clients: the bytes handed to the client are exactly the encoding of an initial part of the accepted
  samples, nothing lost, repeated or torn, with at most 2048 samples still buffered; and adding a sample of a
  registered channel never writes outside the buffers.\<close>
theorem scope_fifo:
  assumes "scope_reach y"
  shows "(\<exists>sent rest. sy_in y = sent @ rest \<and> sy_wire y = enc sent \<and> length rest \<le> 2048) \<and>
    (sp_cid (sy_sc y) (adc + ucast ch) = Some c \<longrightarrow> addSample12 adc ch x (sy_sc y) \<noteq> Inl Undefined)"
proof (intro conjI)
  have i: "scope_inv y" by (rule scope_reach_inv [OF assms])
  then have e: "enc (sy_in y) = sy_wire y @ pending y" and sh: "scope_shape (sy_sc y)" by (simp_all add: scope_inv_def Let_def)
  note p = pending_length [OF i]
  have len: "2 * length (sy_in y) = length (sy_wire y) + length (pending y)" using arg_cong [OF e, of length] by simp
  then have "even (length (sy_wire y) + length (pending y))" by (metis dvd_triv_left)
  then have "even (length (sy_wire y))" using p by simp
  then obtain n where n: "length (sy_wire y) = 2 * n" by blast
  have "sy_wire y = enc (take n (sy_in y))" using enc_take [of n "sy_in y"] n unfolding e by simp
  moreover have "length (drop n (sy_in y)) \<le> 2048" using len n p by (simp del: One_nat_def) linarith
  ultimately show "\<exists>sent rest. sy_in y = sent @ rest \<and> sy_wire y = enc sent \<and> length rest \<le> 2048"
    using append_take_drop_id [of n "sy_in y"] by metis
  show "sp_cid (sy_sc y) (adc + ucast ch) = Some c \<longrightarrow> addSample12 adc ch x (sy_sc y) \<noteq> Inl Undefined"
    using addSample_defined [OF sh] by blast
qed

lemma scope_example:
  "\<exists>y. scope_reach y \<and> sy_in y = [(0, 5)] \<and> sp_cid (sy_sc y) 0x1000 = Some 0"
proof -
  define s0 where "s0 = scope_new"
  obtain s1 where s1: "addChannel 0x1000 0 117 12 [86] s0 = Inr s1" "sp_cid s1 0x1000 = Some 0" "sp_connected s1 = False"
    "scope_shape s1" "sp_sel s1 = 0" "sp_pos s1 = [0, 0]"
    by (auto simp: s0_def scope_new_def addChannel_def BufNum_def BufSize_def scope_shape_def numeral_2_eq_2 nth_Cons split: nat.splits)
  let ?s2 = "s1\<lparr>sp_connected := True\<rparr>"
  have u: "scope_update False True s1 = (Some (sendHeader s1), ?s2)" using s1(3) by (cases s1) (simp add: scope_update_def)
  have sh: "scope_shape ?s2" using s1(4) by (simp add: scope_shape_def)
  have a: "addSample12 0x1000 0 5 ?s2 = addSample_write 0x1000 0 5 ?s2" and tk: "sample_taken ?s2"
    using s1(5,6) by (simp_all add: addSample12_def addSample_room_def sample_taken_def BufNum_def BufSize_def)
  obtain s3 where s3: "addSample12 0x1000 0 5 ?s2 = Inr s3" "sp_cid s3 = sp_cid s1"
    using write_result [OF sh, of "0x1000" 0 0 5] s1 unfolding a by simp
  let ?y0 = "\<lparr>sy_sc = s0, sy_tx = None, sy_in = [], sy_wire = []\<rparr>"
  have "scope_reach ?y0" unfolding s0_def by (rule scope_reach.start)
  moreover have "scope_step ?y0 (?y0\<lparr>sy_sc := s1\<rparr>)" using scope_step.channel [of "0x1000" 0 117 12 "[86]" ?y0 s1] s1(1) by simp
  ultimately have "scope_reach (?y0\<lparr>sy_sc := s1\<rparr>)" by (rule scope_reach.step)
  moreover have "scope_step (?y0\<lparr>sy_sc := s1\<rparr>) (?y0\<lparr>sy_sc := ?s2\<rparr>)"
    using scope_step.client [of "?y0\<lparr>sy_sc := s1\<rparr>" False True] u by simp
  ultimately have "scope_reach (?y0\<lparr>sy_sc := ?s2\<rparr>)" by (rule scope_reach.step)
  moreover have "scope_step (?y0\<lparr>sy_sc := ?s2\<rparr>) (?y0\<lparr>sy_sc := s3, sy_in := [(0, 5)]\<rparr>)"
    using scope_step.sample [of "?y0\<lparr>sy_sc := ?s2\<rparr>" "0x1000" 0 0 5 s3] s1(2) s3(1) tk by simp
  ultimately have "scope_reach (?y0\<lparr>sy_sc := s3, sy_in := [(0, 5)]\<rparr>)" by (rule scope_reach.step)
  then show ?thesis using s3(2) s1(2) by (intro exI [of _ "?y0\<lparr>sy_sc := s3, sy_in := [(0, 5)]\<rparr>"]) simp
qed

lemma scope_fifo_witness:
  "\<exists>y. scope_reach y \<and> sy_in y = [(0, 5)] \<and>
    (\<exists>sent rest. sy_in y = sent @ rest \<and> sy_wire y = enc sent \<and> length rest \<le> 2048) \<and>
    addSample12 0x1000 0 7 (sy_sc y) \<noteq> Inl Undefined"
proof -
  obtain y where y: "scope_reach y" "sy_in y = [(0, 5)]" "sp_cid (sy_sc y) 0x1000 = Some 0" using scope_example by blast
  from scope_fifo [OF y(1), of "0x1000" 0 0 7] y show ?thesis by (intro exI [of _ y]) simp
qed

text \<open>C16: A client that receives the samples of any stream cut at sample boundaries decodes exactly the samples, their data
  cut to 12 bits and their channel number to 3.\<close>
theorem scope_roundtrip:
  assumes "concat bs = enc xs" "\<forall>b\<in>set bs. even (length b)"
  shows "dec_run bs scope_dec_new = Inr (map (\<lambda>(c, x). (c AND 7, uint (take_bit 12 x))) xs, scope_dec_new)"
  using dec_run_enc [OF assms, of scope_dec_new] by (simp add: scope_dec_new_def sample_ev_def)

lemma scope_roundtrip_witness:
  "dec_run [enc [(1, 5), (2, 0x1FFF)], [], enc [(9, 7)]] scope_dec_new = Inr ([(1, 5), (2, 0xFFF), (1, 7)], scope_dec_new)"
  using scope_roundtrip [of "[enc [(1, 5), (2, 0x1FFF)], [], enc [(9, 7)]]" "[(1, 5), (2, 0x1FFF), (9, 7)]"] by simp

text \<open>A stream cut inside a sample: the decoder does not forget the bytes it has consumed from its buffer and reports the
  sample again with the next part.\<close>
lemma dec_write_buffered:
  assumes "bs \<noteq> []" "sd_bufPos d \<noteq> 0 \<or> length bs < 2" "sd_bufPos d + length bs \<le> 128" "length (sd_buf d) = 128"
    "take (sd_bufPos d) (sd_buf d) = pre"
    "d1 = d\<lparr>sd_buf := dec_put (sd_bufPos d) bs (sd_buf d), sd_bufPos := sd_bufPos d + length bs\<rparr>"
    "readBuffer d1 (pre @ bs) = Inr (evs, r)" "r = 0 \<or> r = length (pre @ bs)"
  shows "\<exists>d'. dec_write bs d = Inr (evs, d') \<and> sd_bufPos d' = sd_bufPos d + length bs \<and> length (sd_buf d') = 128 \<and>
    take (sd_bufPos d') (sd_buf d') = pre @ bs"
proof -
  have t: "take (sd_bufPos d1) (sd_buf d1) = pre @ bs" and l: "length (sd_buf d1) = 128" "sd_bufPos d1 = length (pre @ bs)"
    using assms(3-6) by (auto simp: dec_put_def)
  have "dec_put 0 (take (sd_bufPos d1) (sd_buf d1)) (sd_buf d1) = sd_buf d1" by (simp add: dec_put_def l min_def)
  then have "dec_write bs d = Inr (evs, d1)"
    using assms(1-3,7,8) t l unfolding dec_write_def assms(6) [symmetric] Let_def by auto
  then show ?thesis using t l assms(6) by simp
qed

lemma scope_decoder_repeats:
  "\<exists>d. dec_run [[0x50], [0], [0x60, 0]] scope_dec_new = Inr ([(0, 5), (0, 5), (0, 6)], d)"
proof -
  have ev: "dec12 0x50 0 = (0, 5)" "dec12 0x60 0 = (0, 6)" by (simp_all add: dec12_def)
  obtain d1 where 1: "dec_write [0x50] scope_dec_new = Inr ([], d1)" "sd_bufPos d1 = 1" "length (sd_buf d1) = 128"
    "take 1 (sd_buf d1) = [0x50]"
    using dec_write_buffered [of "[0x50]" scope_dec_new "[]" _ "[]" 0] by (auto simp: scope_dec_new_def)
  obtain d2 where 2: "dec_write [0] d1 = Inr ([(0, 5)], d2)" "sd_bufPos d2 = 2" "length (sd_buf d2) = 128"
    "take 2 (sd_buf d2) = [0x50, 0]"
    using dec_write_buffered [of "[0]" d1 "[0x50]" _ "[(0, 5)]" 2] 1 by (auto simp: ev numeral_2_eq_2)
  obtain d3 where 3: "dec_write [0x60, 0] d2 = Inr ([(0, 5), (0, 6)], d3)"
    using dec_write_buffered [of "[0x60, 0]" d2 "[0x50, 0]" _ "[(0, 5), (0, 6)]" 4] 2 by (auto simp: ev)
  show ?thesis using 1 2 3 by simp
qed

end
