(* ===== verification/AdcDrivers.thy ===== *)
theory AdcDrivers
  imports Sampler Conf StatMath
begin

text \<open>
  The ADC drivers: the continuous ESP32 ADC (\<open>adc/adc_esp32_cont.*\<close>), the INA226 (\<open>adc/ina226*.h\<close>), the ADS1x15
  (\<open>adc/ads.h\<close>), the single-shot ESP32 ADC (\<open>adc/adc_esp32.h\<close>) and the NTC (\<open>adc/temperature.h\<close>). What the
  SDK and the chip libraries answer (results of calls, register values, calibration curves, notifications) are
  arguments. Each driver ends in the \<^typ>\<open>adc_in\<close> the sampler reads. The scope output is left out.
\<close>

unbundle bit_operations_syntax

section \<open>Continuous ESP32 ADC\<close>

definition ADC_CHANNELS :: nat where "ADC_CHANNELS = 10"   \<comment> \<open>\<open>ADC_CHANNEL_9 + 1\<close>\<close>

record cont_adc =
  co_cal :: "bool list"               \<comment> \<open>whether a calibration handle exists, by attenuation\<close>
  co_atten :: "nat option list"       \<comment> \<open>\<open>attenByCh\<close>; \<open>None\<close> is \<open>ADC_ATTEN_NA\<close>\<close>
  co_handle :: bool
  co_good :: bool
  co_lastData :: int
  co_lastWarn :: int
  co_sr :: u32
  co_avgNum :: u16
  co_ntcCh :: u8
  co_avg :: "(nat \<times> nat) list"       \<comment> \<open>\<open>avgBuf\<close>: the bit fields \<open>agg\<close> (22 bits) and \<open>num\<close> (10 bits)\<close>

definition kNoDataTimeoutUs :: int where "kNoDataTimeoutUs = 250000"

definition cont_new :: "conf \<Rightarrow> cont_adc res" where
  "cont_new c =
    bindE (conf_getLong ''esp32adc1_avg'' LONG_MAX c) (\<lambda>avg.
    bindE (conf_getLong ''esp32adc1_sr'' LONG_MAX c) (\<lambda>sr.
    let s = \<lparr>co_cal = replicate 4 False, co_atten = None # replicate 9 (Some 0), co_handle = False, co_good = True,
             co_lastData = 0, co_lastWarn = 0, co_sr = word_of_int sr, co_avgNum = word_of_int avg, co_ntcCh = 255,
             co_avg = replicate ADC_CHANNELS (0, 0)\<rparr>
    in bindE (assert_throw (1 \<le> unat (co_avgNum s) \<and> unat (co_avgNum s) \<le> 1023) ''esp32adc1_avg must be 1..1023'')
         (\<lambda>_. Inr s)))"

definition cont_init :: "cont_adc \<Rightarrow> cont_adc" where
  "cont_init s = s\<lparr>co_atten := replicate ADC_CHANNELS None, co_avg := replicate ADC_CHANNELS (0, 0)\<rparr>"

definition setNtcCh :: "u8 \<Rightarrow> cont_adc \<Rightarrow> cont_adc" where
  "setNtcCh ch s = s\<lparr>co_ntcCh := ch\<rparr>"

definition cont_deinit :: "cont_adc \<Rightarrow> cont_adc" where
  "cont_deinit s = (if co_handle s then s\<lparr>co_handle := False\<rparr> else s)"

definition used_channels :: "cont_adc \<Rightarrow> nat list" where
  "used_channels s = filter (\<lambda>ch. co_atten s ! ch \<noteq> None) [0..<ADC_CHANNELS]"

definition cont_ratio :: "u8 \<Rightarrow> cont_adc \<Rightarrow> nat \<times> nat" where
  \<comment> \<open>the factor and the pattern length \<open>getSamplingRate\<close> uses\<close>
  "cont_ratio ch s =
    (let n = 2 * length (used_channels s);
         len = (if unat (co_ntcCh s) < ADC_CHANNELS then n - 1 else n)
     in (if co_ntcCh s = ch then 1 else 2, len))"

definition cont_getSamplingRate :: "u8 \<Rightarrow> cont_adc \<Rightarrow> fl res" where
  "cont_getSamplingRate ch s =
    (if used_channels s = [] then Inl (Throw [])
     else let (k, len) = cont_ratio ch s;
              r = fdiv (to_float (uint (co_sr s))) (to_float (uint (co_avgNum s) * int len))
          in Inr (if k = 1 then r else fmul r (Fin 2)))"

definition cont_pattern :: "nat \<Rightarrow> cont_adc \<Rightarrow> (nat \<times> nat) list res" where
  \<comment> \<open>attenuation and channel of each entry; \<open>maxLen\<close> is \<open>SOC_ADC_PATT_LEN_MAX\<close>\<close>
  "cont_pattern maxLen s =
    (let chs = used_channels s;
         hasNtc = (unat (co_ntcCh s) \<in> set chs);
         dup = (if hasNtc \<and> (length chs - 1) * 2 \<le> maxLen then filter (\<lambda>ch. ch \<noteq> unat (co_ntcCh s)) chs else []);
         pat = chs @ dup
     in if maxLen < length pat then Inl AssertFail
        else if pat = [] then Inl (Throw [])
        else Inr (map (\<lambda>ch. (the (co_atten s ! ch), ch)) pat))"

definition cont_start :: "nat \<Rightarrow> (nat \<Rightarrow> bool) \<Rightarrow> int \<Rightarrow> cont_adc \<Rightarrow> unit res \<times> cont_adc" where
  \<comment> \<open>\<open>ok i\<close> is whether the \<open>i\<close>th SDK call succeeds: new handle, configuration, callbacks, start\<close>
  "cont_start maxLen ok now s =
    (let s1 = s\<lparr>co_good := True, co_lastData := now\<rparr>
     in if \<not> ok 0 then (Inl (Throw ''adc_continuous_new_handle''), s1)
        else let s2 = s1\<lparr>co_handle := True\<rparr>
             in case cont_pattern maxLen s2 of Inl e \<Rightarrow> (Inl e, s2)
                | Inr pat \<Rightarrow>
                    if \<not> ok 1 then (Inl (Throw ''adc_continuous_config''), s2)
                    else if \<not> ok 2 then (Inl (Throw ''adc_continuous_register_event_callbacks''), s2)
                    else if \<not> ok 3 then (Inl (Throw ''adc_continuous_start''), s2)
                    else (Inr (), s2))"

definition cont_resetPeripherals :: "nat \<Rightarrow> (nat \<Rightarrow> bool) \<Rightarrow> int \<Rightarrow> cont_adc \<Rightarrow> bool res \<times> cont_adc" where
  \<comment> \<open>the handler takes exceptions only\<close>
  "cont_resetPeripherals maxLen ok now s =
    (case cont_start maxLen ok now (cont_deinit s) of
       (Inr _, s1) \<Rightarrow> (Inr True, s1)
     | (Inl (Throw m), s1) \<Rightarrow> (Inr False, s1\<lparr>co_good := False\<rparr>)
     | (Inl e, s1) \<Rightarrow> (Inl e, s1))"

definition cont_isGood :: "int \<Rightarrow> cont_adc \<Rightarrow> bool \<times> cont_adc" where
  "cont_isGood now s =
    (if \<not> co_good s then (False, s)
     else if kNoDataTimeoutUs < now - co_lastData s
     then (False, if 5000000 < now - co_lastWarn s then s\<lparr>co_lastWarn := now\<rparr> else s)
     else (True, s))"

definition maxVolt :: fl where "maxVolt = f32 (3548134 / 1000000)"

definition esp32_atten :: "fl \<Rightarrow> nat" where
  \<comment> \<open>\<open>ADC_ATTEN_DB_0\<close> is 0, \<open>_2_5\<close> 1, \<open>_6\<close> 2 and \<open>_12\<close> 3\<close>
  "esp32_atten v =
    (if fgt v (f32 (16 / 10)) then 3 else if fgt v (fmul (f32 (8 / 10)) (f32 (133 / 100))) then 2
     else if fgt v (f32 (8 / 10)) then 1 else 0)"

definition cont_setMaxExpectedVoltage :: "bool \<Rightarrow> u8 \<Rightarrow> fl \<Rightarrow> cont_adc \<Rightarrow> cont_adc res" where
  \<comment> \<open>\<open>calOk\<close>: the SDK creates the calibration; \<open>ESP_ERROR_CHECK\<close> aborts when it does not\<close>
  "cont_setMaxExpectedVoltage calOk ch v s =
    (if \<not> unat ch < ADC_CHANNELS then Inl (Throw ''adc channel out of range'')
     else if fgt v maxVolt then Inl (Throw ''expected voltage too high'')
     else if co_handle s then Inl (Throw ''adc already started'')
     else let a = esp32_atten v
          in if \<not> co_cal s ! a \<and> \<not> calOk then Inl AssertFail
             else Inr (s\<lparr>co_atten := (co_atten s)[unat ch := Some a], co_cal := (co_cal s)[a := True]\<rparr>))"

fun cont_add :: "(nat \<Rightarrow> nat \<Rightarrow> int) \<Rightarrow> nat \<Rightarrow> (u32 \<times> u32) list \<Rightarrow> cont_adc \<Rightarrow> ((u8 \<times> fl) list \<times> cont_adc) res" where
  \<comment> \<open>the loop of \<open>read\<close> over the results of a frame; \<open>cali\<close> gives the millivolts of a raw value at an attenuation,
    \<open>chNum\<close> is \<open>SOC_ADC_CHANNEL_NUM\<close>\<close>
  "cont_add cali chNum [] s = Inr ([], s)"
| "cont_add cali chNum ((chw, dat) # xs) s =
    (let ch = unat chw in
     if ch < chNum then
       let num = (snd (co_avg s ! ch) + 1) mod 2 ^ 10;
           agg = (fst (co_avg s ! ch) + unat dat) mod 2 ^ 22
       in if num = unat (co_avgNum s) then
            if num = 0 then Inl Undefined
            else case co_atten s ! ch of None \<Rightarrow> Inl Undefined
              | Some a \<Rightarrow>
                  bindE (cont_add cali chNum xs (s\<lparr>co_avg := (co_avg s)[ch := (0, 0)]\<rparr>)) (\<lambda>(evs, s1).
                    Inr ((of_nat ch, fmul (to_float (cali a (agg div num))) (f32 (1 / 1000))) # evs, s1))
          else cont_add cali chNum xs (s\<lparr>co_avg := (co_avg s)[ch := (agg, num)]\<rparr>)
     else cont_add cali chNum xs s)"

datatype cont_result = ReadOk "(u32 \<times> u32) list" | ReadTimeout | ReadError

definition cont_read :: "(nat \<Rightarrow> nat \<Rightarrow> int) \<Rightarrow> nat \<Rightarrow> int \<Rightarrow> cont_result \<Rightarrow> cont_adc \<Rightarrow> ((u8 \<times> fl) list \<times> cont_adc) res" where
  "cont_read cali chNum now r s =
    (case r of
       ReadOk frame \<Rightarrow> cont_add cali chNum frame (if frame \<noteq> [] then s\<lparr>co_lastData := now\<rparr> else s)
     | ReadTimeout \<Rightarrow> Inr ([], s)
     | ReadError \<Rightarrow> Inr ([], s\<lparr>co_good := False\<rparr>))"

definition cont_poll :: "(nat \<Rightarrow> nat \<Rightarrow> int) \<Rightarrow> nat \<Rightarrow> int \<Rightarrow> bool \<Rightarrow> cont_result \<Rightarrow> cont_adc \<Rightarrow> (adc_in \<times> cont_adc) res" where
  \<comment> \<open>what one \<open>updateAdc\<close> of the sampler sees of this driver; \<open>noted\<close> is what \<open>hasData\<close> returns\<close>
  "cont_poll cali chNum now noted r s =
    bindE (if noted then cont_read cali chNum now r s else Inr ([], s)) (\<lambda>(evs, s1).
      let (good, s2) = cont_isGood now s1
      in Inr (\<lparr>ai_hasData = noted, ai_isGood = good, ai_read = evs, ai_get = (\<lambda>_. NaN)\<rparr>, s2))"

section \<open>INA226\<close>

definition ina_times :: "nat list" where
  "ina_times = [140, 204, 332, 588, 1100, 2116, 4156, 8244]"

fun first_at_least :: "int \<Rightarrow> nat list \<Rightarrow> nat option" where
  "first_at_least us [] = None"
| "first_at_least us (t # ts) = (if us \<le> int t then Some t else first_at_least us ts)"

definition ina226ConvTimeAtLeast :: "int \<Rightarrow> nat" where
  \<comment> \<open>the time; the setting is its position in \<open>ina_times\<close>\<close>
  "ina226ConvTimeAtLeast us = (case first_at_least us ina_times of Some t \<Rightarrow> t | None \<Rightarrow> last ina_times)"

definition ina226AlertTimeoutMs :: "u16 \<Rightarrow> u32" where
  "ina226AlertTimeoutMs convUs =
    (let pairMs = (2 * ucast convUs + 999) div 1000; t = pairMs * 2 in if t < 3 then 3 else t)"

definition ina226SampleRate :: "u16 \<Rightarrow> fl" where
  "ina226SampleRate convUs = fdiv (Fin 1000000) (fmul (Fin 2) (to_float (uint convUs)))"

record ina =
  in_newData :: bool
  in_overflow :: bool
  in_readCh :: u8
  in_convUs :: u16
  in_timeoutMs :: u32
  in_pairUs :: u32
  in_timeouts :: u32
  in_recovered :: u32

definition ina_getSamplingRate :: "bool \<Rightarrow> ina \<Rightarrow> fl" where
  \<comment> \<open>\<open>measured\<close> is \<open>CONFIG_FUGU_INA226_MEASURED_RATE\<close>\<close>
  "ina_getSamplingRate measured s =
    (if measured \<and> 0 < in_pairUs s then fdiv (Fin 1000000) (to_float (uint (in_pairUs s)))
     else ina226SampleRate (in_convUs s))"

definition ina_startReading :: "u8 \<Rightarrow> ina \<Rightarrow> ina res" where
  "ina_startReading ch s = bindE (assert_throw (ch \<le> 1) []) (\<lambda>_. Inr (s\<lparr>in_readCh := ch\<rparr>))"

definition alertNewDataFromISR :: "ina \<Rightarrow> ina" where
  "alertNewDataFromISR s = s\<lparr>in_newData := True\<rparr>"

definition ina_hasData :: "bool \<Rightarrow> bool \<Rightarrow> u16 \<Rightarrow> ina \<Rightarrow> bool \<times> ina" where
  \<comment> \<open>\<open>noted\<close>: the wait ended with a notification; \<open>edge\<close>: the alert interrupt ran during it; \<open>me\<close>: the MASK_EN register\<close>
  "ina_hasData noted edge me s =
    (let waits = \<not> in_newData s;
         s1 = (if waits \<and> edge then alertNewDataFromISR s else s);
         cvrf = (drop_bit 3 me AND 1 \<noteq> 0)
     in if waits \<and> \<not> noted then
          (let s2 = s1\<lparr>in_timeouts := in_timeouts s1 + 1, in_overflow := (drop_bit 2 me AND 1 \<noteq> 0)\<rparr>
           in if cvrf then (True, s2\<lparr>in_recovered := in_recovered s2 + 1\<rparr>) else (False, s2))
        else if \<not> in_newData s1 then (False, s1)
        else (cvrf, s1\<lparr>in_newData := False, in_overflow := (drop_bit 2 me AND 1 \<noteq> 0)\<rparr>))"

definition ina_getSample :: "u16 option \<Rightarrow> u16 option \<Rightarrow> fl \<Rightarrow> ina \<Rightarrow> fl res" where
  \<comment> \<open>the bus voltage and current registers, \<open>None\<close> when the transfer fails; \<open>div_mA\<close> is \<open>currentDivider_mA\<close>\<close>
  "ina_getSample bus cur div_mA s =
    (if in_readCh s = 0 then
       Inr (case bus of None \<Rightarrow> NaN | Some raw \<Rightarrow> fmul (to_float (uint raw)) (f32 (125 / 100000)))
     else if in_readCh s = 1 then
       Inr (case cur of None \<Rightarrow> NaN | Some raw \<Rightarrow> fdiv (fdiv (to_float (sint raw)) div_mA) (Fin 1000))
     else Inl AssertFail)"

definition ina_setMaxExpectedVoltage :: "u8 \<Rightarrow> fl \<Rightarrow> unit res" where
  "ina_setMaxExpectedVoltage ch v =
    (if ch = 0 then assert_throw (fle v (Fin 36)) [] else if ch = 1 then Inr () else Inl AssertFail)"

section \<open>ADS1x15\<close>

datatype adsGain = GAIN_TWOTHIRDS | GAIN_ONE | GAIN_TWO | GAIN_FOUR | GAIN_EIGHT | GAIN_SIXTEEN

record ads =
  ad_gains :: "adsGain list"
  ad_readCh :: u8
  ad_usedMask :: u8
  ad_newData :: bool
  ad_16bit :: bool

definition ads_new :: "bool \<Rightarrow> ads" where
  "ads_new b16 = \<lparr>ad_gains = replicate 4 GAIN_ONE, ad_readCh = 255, ad_usedMask = 0, ad_newData = False, ad_16bit = b16\<rparr>"

fun gainVoltageRange :: "adsGain \<Rightarrow> fl" where
  "gainVoltageRange GAIN_TWOTHIRDS = f32 (6144 / 1000)" | "gainVoltageRange GAIN_ONE = f32 (4096 / 1000)"
| "gainVoltageRange GAIN_TWO = f32 (2048 / 1000)" | "gainVoltageRange GAIN_FOUR = f32 (1024 / 1000)"
| "gainVoltageRange GAIN_EIGHT = f32 (512 / 1000)" | "gainVoltageRange GAIN_SIXTEEN = f32 (256 / 1000)"

definition ads_gain_for :: "fl \<Rightarrow> adsGain" where
  "ads_gain_for v =
    (if fgt v (f32 (4096 / 1000)) then GAIN_TWOTHIRDS else if fgt v (f32 (2048 / 1000)) then GAIN_ONE
     else if fgt v (f32 (1024 / 1000)) then GAIN_TWO else if fgt v (f32 (512 / 1000)) then GAIN_FOUR
     else if fgt v (f32 (256 / 1000)) then GAIN_EIGHT else GAIN_SIXTEEN)"

definition setChannelGain :: "u8 \<Rightarrow> adsGain \<Rightarrow> ads \<Rightarrow> ads res" where
  "setChannelGain ch g s =
    bindE (assert_throw (ch \<le> 3) []) (\<lambda>_. Inr (s\<lparr>ad_gains := (ad_gains s)[unat ch := g]\<rparr>))"

definition ads_setMaxExpectedVoltage :: "u8 \<Rightarrow> fl \<Rightarrow> ads \<Rightarrow> ads res" where
  \<comment> \<open>a channel of 8 or more leaves the mask as it is: the shifted bit is cut off\<close>
  "ads_setMaxExpectedVoltage ch v s =
    (if \<not> fle v (f32 (6144 / 1000)) then Inl AssertFail
     else setChannelGain ch (ads_gain_for v) (s\<lparr>ad_usedMask := ad_usedMask s OR push_bit (unat ch) 1\<rparr>))"

definition ads_getSamplingRate :: "ads \<Rightarrow> fl" where
  \<comment> \<open>the data rates are those \<open>init\<close> sets\<close>
  "ads_getSamplingRate s =
    (let n = length (filter (bit (ad_usedMask s)) [0..<8]); used = (if n < 1 then 1 else n)
     in fdiv (if ad_16bit s then Fin 128 else Fin 490) (to_float (int used)))"

definition ads_startReading :: "u8 \<Rightarrow> ads \<Rightarrow> ads res" where
  \<comment> \<open>the gain array is indexed by the channel\<close>
  "ads_startReading ch s = (if unat ch < 4 then Inr (s\<lparr>ad_readCh := ch\<rparr>) else Inl Undefined)"

definition ads_hasData :: "bool \<Rightarrow> ads \<Rightarrow> (bool \<times> ads) res" where
  \<comment> \<open>after 30 ms without a notification the conversion is started again\<close>
  "ads_hasData noted s =
    (if \<not> noted then bindE (ads_startReading (ad_readCh s) s) (\<lambda>s1. Inr (False, s1))
     else if ad_newData s then Inr (True, s\<lparr>ad_newData := False\<rparr>) else Inr (False, s))"

definition ads_alert :: "ads \<Rightarrow> ads" where "ads_alert s = s\<lparr>ad_newData := True\<rparr>"

section \<open>Single-shot ESP32 ADC\<close>

record esp_adc =
  ea_ch :: u8
  ea_atten :: "nat list"

definition esp_setMaxExpectedVoltage :: "bool \<Rightarrow> u8 \<Rightarrow> fl \<Rightarrow> esp_adc \<Rightarrow> esp_adc res" where
  \<comment> \<open>\<open>ok\<close> is whether the SDK takes the attenuation\<close>
  "esp_setMaxExpectedVoltage ok ch v s =
    (if \<not> unat ch < ADC_CHANNELS then Inl AssertFail
     else if fgt v (fmul (f32 (81 / 100)) maxVolt) then Inl (Throw ''expected voltage too high'')
     else if \<not> ok then Inl AssertFail
     else Inr (s\<lparr>ea_atten := (ea_atten s)[unat ch := esp32_atten v]\<rparr>))"

definition esp_startReading :: "u8 \<Rightarrow> esp_adc \<Rightarrow> esp_adc" where "esp_startReading ch s = s\<lparr>ea_ch := ch\<rparr>"

definition esp_getSample :: "(nat \<Rightarrow> nat \<Rightarrow> int) \<Rightarrow> nat \<Rightarrow> esp_adc \<Rightarrow> fl" where
  "esp_getSample cali raw s = fmul (to_float (cali (ea_atten s ! unat (ea_ch s)) raw)) (f32 (1 / 1000))"

section \<open>NTC\<close>

record ntc =
  nt_ref :: bool          \<comment> \<open>\<open>valuePtr\<close> is set\<close>
  nt_ewma :: ewma

definition ntc_new :: ntc where "ntc_new = \<lparr>nt_ref = False, nt_ewma = ewma_new 2\<rparr>"

definition volt2Temp :: "(fl \<Rightarrow> fl) \<Rightarrow> fl \<Rightarrow> fl" where
  \<comment> \<open>\<open>lg\<close> is \<open>logf\<close>; \<open>Rp / R0\<close> is folded to 1 by the compiler\<close>
  "volt2Temp lg vr =
    (let T0 = fadd (Fin 25) (f32 (27315 / 100));
         l = lg (fmul (Fin 1) (fsub (fdiv (Fin 1) vr) (Fin 1)))
     in fsub (fdiv (Fin 1) (fadd (fdiv l (Fin 3380)) (fdiv (Fin 1) T0))) (f32 (27315 / 100)))"

definition ntc_begin :: "conf \<Rightarrow> ntc \<Rightarrow> unit res" where
  "ntc_begin c s =
    (if nt_ref s then Inr ()
     else bindE (conf_getByte ''ntc_ch'' 255 c) (\<lambda>ch. if ch = 255 then Inr ()
       else Inl (Throw ''ntc: adc1 not implemented, only by ptr'')))"

definition ntc_setValueRef :: "ntc \<Rightarrow> ntc" where "ntc_setValueRef s = s\<lparr>nt_ref := True\<rparr>"

definition ntc_last :: "ntc \<Rightarrow> fl" where "ntc_last s = ewma_get (nt_ewma s)"

definition ntc_read :: "(fl \<Rightarrow> fl) \<Rightarrow> fl \<Rightarrow> ntc \<Rightarrow> fl \<times> ntc" where
  \<comment> \<open>\<open>volt\<close> is the value referred to\<close>
  "ntc_read lg volt s =
    (let s1 = (if nt_ref s then s\<lparr>nt_ewma := ewma_add (volt2Temp lg (fdiv volt (f32 (33 / 10)))) (nt_ewma s)\<rparr> else s)
     in (ntc_last s1, s1))"

section \<open>Chip temperature\<close>

record chip_temp =
  \<comment> \<open>\<open>Esp32TempSensor\<close> of the ESP32-S3 under IDF 5\<close>
  ct_med3 :: rmed3
  ct_ewma :: ewma
  ct_out :: fl
  ct_started :: bool

definition chip_temp_new :: chip_temp where
  "chip_temp_new = \<lparr>ct_med3 = rmed3_reset, ct_ewma = ewma_new 20, ct_out = NaN, ct_started = False\<rparr>"

definition chip_temp_begin :: "bool \<Rightarrow> chip_temp \<Rightarrow> chip_temp res" where
  \<comment> \<open>\<open>ok\<close>: the SDK installs and enables the sensor; \<open>ESP_ERROR_CHECK\<close> aborts otherwise\<close>
  "chip_temp_begin ok s = (if ok then Inr (s\<lparr>ct_started := True\<rparr>) else Inl AssertFail)"

definition chip_temp_last :: "chip_temp \<Rightarrow> fl" where "chip_temp_last s = ewma_get (ct_ewma s)"

definition chip_temp_read :: "fl option \<Rightarrow> chip_temp \<Rightarrow> fl \<times> chip_temp" where
  \<comment> \<open>the answer of the SDK, \<open>None\<close> on an error\<close>
  "chip_temp_read r s =
    (if \<not> ct_started s then (NaN, s)
     else case r of None \<Rightarrow> (NaN, s)
       | Some t \<Rightarrow>
           (let m = rmed3_next t (ct_med3 s);
                s1 = s\<lparr>ct_out := t, ct_med3 := m, ct_ewma := ewma_add (r3_last m) (ct_ewma s)\<rparr>
            in (chip_temp_last s1, s1)))"

end
