(* ===== verification/AdcProps.thy ===== *)
theory AdcProps
  imports AdcDrivers Calibration
begin

text \<open>
  Properties of the ADC drivers: the continuous ADC delivers the averages of consecutive samples, its sampling rate is
  the one of its pattern, gains cover the voltages they are chosen for, and an ADC that stops delivering stops the
  converter.
\<close>

section \<open>Averages\<close>

function chunk_means :: "nat \<Rightarrow> nat list \<Rightarrow> nat list" where
  \<comment> \<open>the means of consecutive groups of \<open>n\<close>\<close>
  "chunk_means n xs = (if n = 0 \<or> length xs < n then [] else sum_list (take n xs) div n # chunk_means n (drop n xs))"
  by auto
termination by (relation "measure (\<lambda>(n, xs). length xs)") auto

declare chunk_means.simps [simp del]

definition chan_data :: "nat \<Rightarrow> (u32 \<times> u32) list \<Rightarrow> nat list" where
  "chan_data c xs = map (\<lambda>(ch, d). unat d) (filter (\<lambda>(ch, d). unat ch = c) xs)"

definition chan_events :: "nat \<Rightarrow> (u8 \<times> fl) list \<Rightarrow> fl list" where
  "chan_events c evs = map snd (filter (\<lambda>(ch, v). ch = of_nat c) evs)"

definition avg_rel :: "cont_adc \<Rightarrow> (nat \<Rightarrow> nat list) \<Rightarrow> bool" where
  \<comment> \<open>the accumulators hold the samples \<open>acc\<close> since the last average\<close>
  "avg_rel s acc = (length (co_avg s) = ADC_CHANNELS \<and> 1 \<le> unat (co_avgNum s) \<and> unat (co_avgNum s) \<le> 1023 \<and>
     (\<forall>c<ADC_CHANNELS. co_avg s ! c = (sum_list (acc c), length (acc c)) \<and> length (acc c) < unat (co_avgNum s) \<and>
       (\<forall>d\<in>set (acc c). d \<le> 4095)))"

definition cont_value :: "(nat \<Rightarrow> nat \<Rightarrow> int) \<Rightarrow> cont_adc \<Rightarrow> nat \<Rightarrow> nat \<Rightarrow> fl" where
  "cont_value cali s c m = fmul (to_float (cali (the (co_atten s ! c)) m)) (f32 (1 / 1000))"

lemma chunk_means_full: "n \<noteq> 0 \<Longrightarrow> length xs = n \<Longrightarrow> chunk_means n (xs @ ys) = sum_list xs div n # chunk_means n ys"
  by (subst chunk_means.simps) simp

lemma chunk_means_short: "length xs < n \<Longrightarrow> chunk_means n xs = []"
  by (subst chunk_means.simps) simp

lemma sum_list_le: "\<forall>d\<in>set xs. d \<le> (b :: nat) \<Longrightarrow> sum_list xs \<le> b * length xs"
  by (induction xs) auto

lemma chan_data_Cons: "chan_data c ((ch, d) # xs) = (if unat ch = c then unat d # chan_data c xs else chan_data c xs)"
  by (simp add: chan_data_def)

lemma chan_data_append [simp]: "chan_data c (xs @ ys) = chan_data c xs @ chan_data c ys"
  by (simp add: chan_data_def)

lemma avg_fields:
  assumes "avg_rel s acc" "c < ADC_CHANNELS" "d \<le> 4095"
  shows "(snd (co_avg s ! c) + 1) mod 2 ^ 10 = length (acc c) + 1"
    "(fst (co_avg s ! c) + d) mod 2 ^ 22 = sum_list (acc c @ [d])"
proof -
  have a: "co_avg s ! c = (sum_list (acc c), length (acc c))" "length (acc c) < 1023" "\<forall>d\<in>set (acc c). d \<le> 4095"
    using assms(1,2) by (auto simp: avg_rel_def)
  have "sum_list (acc c) \<le> 4095 * length (acc c)" by (rule sum_list_le [OF a(3)])
  then have "sum_list (acc c) + d < 2 ^ 22" using a(2) assms(3) by simp
  then show "(snd (co_avg s ! c) + 1) mod 2 ^ 10 = length (acc c) + 1"
    "(fst (co_avg s ! c) + d) mod 2 ^ 22 = sum_list (acc c @ [d])" using a by simp_all
qed

lemma avg_rel_upd:
  assumes "avg_rel s acc" "c < ADC_CHANNELS" "length xs < unat (co_avgNum s)" "\<forall>d\<in>set xs. d \<le> 4095"
  shows "avg_rel (s\<lparr>co_avg := (co_avg s)[c := (sum_list xs, length xs)]\<rparr>) (acc(c := xs))"
  using assms by (auto simp: avg_rel_def nth_list_update)

lemma of_nat_u8_inj: "a < 10 \<Longrightarrow> b < 10 \<Longrightarrow> (of_nat a :: u8) = of_nat b \<longleftrightarrow> a = b"
proof -
  assume "a < 10" "b < 10"
  then have "unat (of_nat a :: u8) = a" "unat (of_nat b :: u8) = b" by (simp_all add: unat_of_nat)
  then show ?thesis by metis
qed

lemma cont_add_means:
  assumes "cont_add cali chNum xs s = Inr (evs, s')" "avg_rel s acc" "chNum \<le> ADC_CHANNELS" "\<forall>(ch, d)\<in>set xs. unat d \<le> 4095"
  shows "co_avgNum s' = co_avgNum s \<and> co_atten s' = co_atten s \<and>
    (\<exists>acc'. avg_rel s' acc' \<and> (\<forall>c<chNum. \<forall>ys.
      map (cont_value cali s c) (chunk_means (unat (co_avgNum s)) (acc c @ chan_data c xs @ ys)) =
      chan_events c evs @ map (cont_value cali s c) (chunk_means (unat (co_avgNum s)) (acc' c @ ys))))"
  using assms(1,2,4)
proof (induction xs arbitrary: s acc evs)
  case Nil
  then show ?case by (auto simp: chan_data_def chan_events_def)
next
  case (Cons x xs)
  obtain chw dat where x: "x = (chw, dat)" by force
  let ?ch = "unat chw" and ?n = "unat (co_avgNum s)"
  have d: "unat dat \<le> 4095" and dx: "\<forall>(ch, d)\<in>set xs. unat d \<le> 4095" using Cons.prems(3) x by auto
  have n: "?n \<noteq> 0" using Cons.prems(2) by (simp add: avg_rel_def)
  show ?case
  proof (cases "?ch < chNum")
    case False
    then have "cont_add cali chNum xs s = Inr (evs, s')" using Cons.prems(1) by (simp add: x Let_def)
    from Cons.IH [OF this Cons.prems(2) dx] show ?thesis using False by (auto simp: x chan_data_Cons)
  next
    case True
    then have c: "?ch < ADC_CHANNELS" using assms(3) by simp
    note f = avg_fields [OF Cons.prems(2) c d]
    have bd: "\<forall>d\<in>set (acc ?ch @ [unat dat]). d \<le> 4095" and lt: "length (acc ?ch) < ?n"
      using Cons.prems(2) c d by (auto simp: avg_rel_def)
    show ?thesis
    proof (cases "length (acc ?ch) + 1 = ?n")
      case False
      let ?s = "s\<lparr>co_avg := (co_avg s)[?ch := (sum_list (acc ?ch @ [unat dat]), length (acc ?ch @ [unat dat]))]\<rparr>"
      have r: "cont_add cali chNum xs ?s = Inr (evs, s')" using Cons.prems(1) True False f by (simp add: x Let_def)
      have a: "avg_rel ?s (acc(?ch := acc ?ch @ [unat dat]))"
        by (rule avg_rel_upd [OF Cons.prems(2) c]) (use False lt bd in auto)
      have v: "cont_value cali ?s = cont_value cali s" by (simp add: cont_value_def fun_eq_iff)
      from Cons.IH [OF r a dx] obtain acc' where ih: "co_avgNum s' = co_avgNum s" "co_atten s' = co_atten s" "avg_rel s' acc'"
        "\<And>c ys. c < chNum \<Longrightarrow>
          map (cont_value cali s c) (chunk_means ?n ((acc(?ch := acc ?ch @ [unat dat])) c @ chan_data c xs @ ys)) =
          chan_events c evs @ map (cont_value cali s c) (chunk_means ?n (acc' c @ ys))" unfolding v by auto
      have "(acc(?ch := acc ?ch @ [unat dat])) c @ chan_data c xs @ ys = acc c @ chan_data c (x # xs) @ ys" for c ys
        by (simp add: x chan_data_Cons)
      then show ?thesis using ih by metis
    next
      case full: True
      let ?s = "s\<lparr>co_avg := (co_avg s)[?ch := (sum_list ([] :: nat list), length ([] :: nat list))]\<rparr>"
      let ?m = "sum_list (acc ?ch @ [unat dat]) div ?n"
      obtain att evs1 where at: "co_atten s ! ?ch = Some att" and r: "cont_add cali chNum xs ?s = Inr (evs1, s')"
        and evs: "evs = (of_nat ?ch, cont_value cali s ?ch ?m) # evs1"
        using Cons.prems(1) True full f n by (auto simp: x Let_def bindE_Inr_iff cont_value_def split: option.splits)
      have a: "avg_rel ?s (acc(?ch := []))"
        by (rule avg_rel_upd [OF Cons.prems(2) c]) (use n in auto)
      have v: "cont_value cali ?s = cont_value cali s" by (simp add: cont_value_def fun_eq_iff)
      from Cons.IH [OF r a dx] obtain acc' where ih: "co_avgNum s' = co_avgNum s" "co_atten s' = co_atten s" "avg_rel s' acc'"
        "\<And>c ys. c < chNum \<Longrightarrow>
          map (cont_value cali s c) (chunk_means ?n ((acc(?ch := [])) c @ chan_data c xs @ ys)) =
          chan_events c evs1 @ map (cont_value cali s c) (chunk_means ?n (acc' c @ ys))" unfolding v by auto
      have "map (cont_value cali s c) (chunk_means ?n (acc c @ chan_data c (x # xs) @ ys)) =
          chan_events c evs @ map (cont_value cali s c) (chunk_means ?n (acc' c @ ys))" if "c < chNum" for c ys
      proof (cases "c = ?ch")
        case True
        have "chunk_means ?n ((acc ?ch @ [unat dat]) @ chan_data ?ch xs @ ys) = ?m # chunk_means ?n (chan_data ?ch xs @ ys)"
          by (rule chunk_means_full [OF n]) (use full in simp)
        then show ?thesis using ih(4) [OF that, of ys] True by (simp add: x chan_data_Cons evs chan_events_def)
      next
        case False
        have "?ch < 10" "c < 10" using that c assms(3) by (simp_all add: ADC_CHANNELS_def)
        from of_nat_u8_inj [OF this] False have "(of_nat ?ch :: u8) \<noteq> of_nat c" by blast
        then show ?thesis using ih(4) [OF that, of ys] False by (simp add: x chan_data_Cons evs chan_events_def)
      qed
      then show ?thesis using ih by blast
    qed
  qed
qed

fun cont_polls :: "(nat \<Rightarrow> nat \<Rightarrow> int) \<Rightarrow> nat \<Rightarrow> (int \<times> bool \<times> cont_result) list \<Rightarrow> cont_adc \<Rightarrow> ((u8 \<times> fl) list \<times> cont_adc) res" where
  \<comment> \<open>the samples of a sequence of polls\<close>
  "cont_polls cali chNum [] s = Inr ([], s)"
| "cont_polls cali chNum ((now, noted, r) # ps) s =
    bindE (cont_poll cali chNum now noted r s) (\<lambda>(inp, s1).
      bindE (cont_polls cali chNum ps s1) (\<lambda>(evs, s2). Inr (ai_read inp @ evs, s2)))"

fun poll_data :: "(int \<times> bool \<times> cont_result) list \<Rightarrow> (u32 \<times> u32) list" where
  "poll_data [] = []"
| "poll_data ((now, noted, r) # ps) = (case (noted, r) of (True, ReadOk xs) \<Rightarrow> xs | _ \<Rightarrow> []) @ poll_data ps"

lemma avg_rel_fields: "co_avg t = co_avg s \<Longrightarrow> co_avgNum t = co_avgNum s \<Longrightarrow> avg_rel t = avg_rel s"
  by (simp add: avg_rel_def fun_eq_iff)

lemma cont_isGood_fields:
  "cont_isGood now s = (g, t) \<Longrightarrow> co_avg t = co_avg s \<and> co_avgNum t = co_avgNum s \<and> co_atten t = co_atten s \<and>
    co_good t = co_good s \<and> co_lastData t = co_lastData s"
  by (auto simp: cont_isGood_def split: if_splits)

lemma cont_pollE:
  assumes "cont_poll cali chNum now noted r s = Inr (inp, s')"
  obtains evs s1 where "(if noted then cont_read cali chNum now r s else Inr ([], s)) = Inr (evs, s1)" "ai_read inp = evs"
    "cont_isGood now s1 = (ai_isGood inp, s')"
proof -
  obtain x where x: "(if noted then cont_read cali chNum now r s else Inr ([], s)) = Inr x"
    using assms by (cases "if noted then cont_read cali chNum now r s else Inr ([], s)") (simp_all add: cont_poll_def)
  then show thesis using assms that [of "fst x" "snd x"]
    by (cases x; cases "cont_isGood now (snd x)") (simp add: cont_poll_def, auto)
qed

lemma cont_poll_means:
  assumes "cont_poll cali chNum now noted r s = Inr (inp, s')" "avg_rel s acc" "chNum \<le> ADC_CHANNELS"
    "\<forall>(ch, d)\<in>set (poll_data [(now, noted, r)]). unat d \<le> 4095"
  shows "co_avgNum s' = co_avgNum s \<and> co_atten s' = co_atten s \<and>
    (\<exists>acc'. avg_rel s' acc' \<and> (\<forall>c<chNum. \<forall>ys.
      map (cont_value cali s c) (chunk_means (unat (co_avgNum s)) (acc c @ chan_data c (poll_data [(now, noted, r)]) @ ys)) =
      chan_events c (ai_read inp) @ map (cont_value cali s c) (chunk_means (unat (co_avgNum s)) (acc' c @ ys))))"
proof -
  from assms(1) obtain evs s1 where 1: "(if noted then cont_read cali chNum now r s else Inr ([], s)) = Inr (evs, s1)"
    and inp: "ai_read inp = evs" and g: "cont_isGood now s1 = (ai_isGood inp, s')"
    by (rule cont_pollE)
  note f = cont_isGood_fields [OF g]
  have av: "avg_rel s' = avg_rel s1" by (rule avg_rel_fields) (use f in auto)
  show ?thesis
  proof (cases "\<exists>xs. noted \<and> r = ReadOk xs")
    case True
    then obtain xs where xs: "noted" "r = ReadOk xs" by blast
    let ?s0 = "if xs \<noteq> [] then s\<lparr>co_lastData := now\<rparr> else s"
    have e0: "co_avg ?s0 = co_avg s" "co_avgNum ?s0 = co_avgNum s" "co_atten ?s0 = co_atten s" by auto
    have a0: "avg_rel ?s0 acc" using assms(2) avg_rel_fields [OF e0(1,2)] by simp
    have c: "cont_add cali chNum xs ?s0 = Inr (evs, s1)" using 1 xs by (simp add: cont_read_def)
    have v: "cont_value cali ?s0 = cont_value cali s" using e0(3) by (simp add: cont_value_def fun_eq_iff)
    have d: "\<forall>(ch, d)\<in>set xs. unat d \<le> 4095" using assms(4) xs by simp
    from cont_add_means [OF c a0 assms(3) d] show ?thesis unfolding v e0 using f av inp xs by simp
  next
    case False
    then have "evs = []" "co_avg s1 = co_avg s" "co_avgNum s1 = co_avgNum s" "co_atten s1 = co_atten s"
      using 1 by (auto simp: cont_read_def split: if_splits cont_result.splits)
    moreover have "poll_data [(now, noted, r)] = []" using False by (cases noted; cases r) auto
    ultimately show ?thesis using f assms(2) avg_rel_fields [of s1 s] av inp by (auto simp: chan_data_def chan_events_def)
  qed
qed

lemma cont_value_cong: "co_atten t = co_atten s \<Longrightarrow> cont_value cali t = cont_value cali s"
  by (simp add: cont_value_def fun_eq_iff)

lemma chan_events_append [simp]: "chan_events c (xs @ ys) = chan_events c xs @ chan_events c ys"
  by (simp add: chan_events_def)

lemma cont_polls_means:
  assumes "cont_polls cali chNum ps s = Inr (evs, s')" "avg_rel s acc" "chNum \<le> ADC_CHANNELS"
    "\<forall>(ch, d)\<in>set (poll_data ps). unat d \<le> 4095"
  shows "\<forall>c<chNum. chan_events c evs = map (cont_value cali s c) (chunk_means (unat (co_avgNum s)) (acc c @ chan_data c (poll_data ps)))"
  using assms(1,2,4)
proof (induction ps arbitrary: s acc evs)
  case Nil
  then show ?case using assms(3) by (auto simp: chan_data_def chan_events_def chunk_means_short avg_rel_def)
next
  case (Cons p ps)
  obtain now noted r where p: "p = (now, noted, r)" by (cases p)
  from Cons.prems(1) obtain inp s1 evs1 where 1: "cont_poll cali chNum now noted r s = Inr (inp, s1)"
    and 2: "cont_polls cali chNum ps s1 = Inr (evs1, s')" and evs: "evs = ai_read inp @ evs1"
    by (auto simp: p bindE_Inr_iff)
  let ?d = "poll_data [(now, noted, r)]"
  have pd: "poll_data (p # ps) = ?d @ poll_data ps" by (simp add: p)
  then have d: "\<forall>(ch, d)\<in>set ?d. unat d \<le> 4095" "\<forall>(ch, d)\<in>set (poll_data ps). unat d \<le> 4095" using Cons.prems(3) by auto
  from cont_poll_means [OF 1 Cons.prems(2) assms(3) d(1)]
  obtain acc' where m: "co_avgNum s1 = co_avgNum s" "co_atten s1 = co_atten s" "avg_rel s1 acc'"
    "\<And>c ys. c < chNum \<Longrightarrow> map (cont_value cali s c) (chunk_means (unat (co_avgNum s)) (acc c @ chan_data c ?d @ ys)) =
      chan_events c (ai_read inp) @ map (cont_value cali s c) (chunk_means (unat (co_avgNum s)) (acc' c @ ys))" by blast
  from Cons.IH [OF 2 m(3) d(2)] m(1) cont_value_cong [OF m(2)] show ?case
    using m(4) by (simp add: pd evs)
qed

text \<open>C19: Over any sequence of polls of the continuous ADC, with missed notifications, timeouts and read errors in between,
  the samples delivered for a channel are the calibrated means of consecutive groups of \<open>esp32adc1_avg\<close> raw values of
  that channel, across frame boundaries, none left out or counted twice; the 22 and 10 bit accumulators never wrap.\<close>
theorem cont_averages:
  assumes "cont_polls cali chNum ps s = Inr (evs, s')" "co_avg s = replicate ADC_CHANNELS (0, 0)"
    "1 \<le> unat (co_avgNum s)" "unat (co_avgNum s) \<le> 1023" "chNum \<le> ADC_CHANNELS" "c < chNum"
    "\<forall>(ch, d)\<in>set (poll_data ps). unat d \<le> 4095"
  shows "chan_events c evs = map (cont_value cali s c) (chunk_means (unat (co_avgNum s)) (chan_data c (poll_data ps)))"
proof -
  have "avg_rel s (\<lambda>_. [])" using assms(2-4) by (auto simp: avg_rel_def)
  from cont_polls_means [OF assms(1) this assms(5,7)] assms(6) show ?thesis by simp
qed

definition cont_example :: cont_adc where
  "cont_example = \<lparr>co_cal = replicate 4 True, co_atten = [Some 3, Some 1] @ replicate 8 None, co_handle = True, co_good = True,
     co_lastData = 0, co_lastWarn = 0, co_sr = 80000, co_avgNum = 2, co_ntcCh = 255, co_avg = replicate ADC_CHANNELS (0, 0)\<rparr>"

lemma cont_averages_witness:
  "\<exists>evs s'. cont_polls (\<lambda>a m. int m) 10 [(10, True, ReadOk [(0, 100), (1, 7), (0, 301)]), (20, True, ReadTimeout), (30, True, ReadOk [(1, 9)])]
      cont_example = Inr (evs, s') \<and>
    chan_events 1 evs = [cont_value (\<lambda>a m. int m) cont_example 1 8]"
proof -
  let ?ps = "[(10, True, ReadOk [(0, 100), (1, 7), (0, 301)]), (20, True, ReadTimeout), (30, True, ReadOk [(1, 9)])]"
  have "\<exists>evs s'. cont_polls (\<lambda>a m. int m) 10 ?ps cont_example = Inr (evs, s')"
    by (simp add: cont_example_def cont_poll_def cont_read_def ADC_CHANNELS_def Let_def cont_isGood_def kNoDataTimeoutUs_def)
  then obtain evs s' where r: "cont_polls (\<lambda>a m. int m) 10 ?ps cont_example = Inr (evs, s')" by blast
  show ?thesis using r cont_averages [OF r, of 1]
    by (simp add: cont_example_def ADC_CHANNELS_def chan_data_def chunk_means.simps)
qed

section \<open>Sampling rate\<close>

lemma used_distinct: "distinct (used_channels s)" "c \<in> set (used_channels s) \<Longrightarrow> c < ADC_CHANNELS"
  by (auto simp: used_channels_def)

lemma count_distinct: "distinct xs \<Longrightarrow> count_list xs c = (if c \<in> set xs then 1 else 0)"
  by (induction xs) auto

lemma filter_neq_length: "distinct xs \<Longrightarrow> length (filter (\<lambda>x. x \<noteq> c) xs) = length xs - (if c \<in> set xs then 1 else 0)"
proof (induction xs)
  case (Cons x xs)
  then show ?case using length_pos_if_in_set [of c xs] by auto
qed simp

lemma count_filter: "count_list (filter (\<lambda>x. x \<noteq> n) xs) c = (if c = n then 0 else count_list xs c)"
  by (induction xs) auto

text \<open>The sampling rate the continuous ADC reports for a channel is the driver's rate times the channel's share of the
  conversion pattern over the averaging: factor and length used by \<open>getSamplingRate\<close> stand in the same ratio as the
  channel's occurrences and the length of the pattern \<open>start\<close> configures. It holds when the NTC channel is either not
  set or one of the channels of this ADC and the pattern has room for the duplicate.\<close>
theorem cont_rate_matches_pattern:
  assumes "cont_pattern maxLen s = Inr pat" "unat ch \<in> set (used_channels s)"
    "unat (co_ntcCh s) \<in> set (used_channels s) \<and> (length (used_channels s) - 1) * 2 \<le> maxLen \<or> ADC_CHANNELS \<le> unat (co_ntcCh s)"
  shows "0 < snd (cont_ratio ch s) \<and>
    fst (cont_ratio ch s) * length pat = count_list (map snd pat) (unat ch) * snd (cont_ratio ch s)"
proof -
  define U where "U = used_channels s"
  define n where "n = unat (co_ntcCh s)"
  have U: "distinct U" "unat ch \<in> set U" "U \<noteq> []" using assms(2) used_distinct(1) by (auto simp: U_def)
  have len: "0 < length U" using U by simp
  have eq: "co_ntcCh s = ch \<longleftrightarrow> unat ch = n" unfolding n_def by (metis word_unat_eq_iff)
  show ?thesis
  proof (cases "n \<in> set U")
    case True
    then have small: "n < ADC_CHANNELS" using used_distinct(2) by (simp add: U_def)
    then have dup: "(length U - 1) * 2 \<le> maxLen" using assms(3) by (auto simp: U_def n_def)
    let ?p = "U @ filter (\<lambda>c. c \<noteq> n) U"
    have pat: "pat = map (\<lambda>c. (the (co_atten s ! c), c)) ?p"
      using assms(1) True dup by (auto simp: cont_pattern_def Let_def U_def [symmetric] n_def [symmetric] split: if_splits)
    have pl: "length pat = 2 * length U - 1" using filter_neq_length [OF U(1), of n] True len by (simp add: pat)
    have cnt: "count_list (map snd pat) (unat ch) = (if unat ch = n then 1 else 2)"
      using count_distinct [OF U(1)] U(2) by (simp add: pat comp_def count_filter)
    have "cont_ratio ch s = (if unat ch = n then 1 else 2, 2 * length U - 1)"
      using small eq by (simp add: cont_ratio_def U_def n_def)
    moreover have "0 < 2 * length U - 1" using len by linarith
    ultimately show ?thesis using pl cnt by simp
  next
    case False
    then have big: "\<not> n < ADC_CHANNELS" using assms(3) by (auto simp: U_def n_def)
    have ne: "unat ch \<noteq> n" using False U(2) by blast
    have pat: "pat = map (\<lambda>c. (the (co_atten s ! c), c)) U"
      using assms(1) False by (auto simp: cont_pattern_def Let_def U_def [symmetric] n_def [symmetric] split: if_splits)
    have "count_list (map snd pat) (unat ch) = 1" using count_distinct [OF U(1)] U(2) by (simp add: pat comp_def)
    moreover have "cont_ratio ch s = (2, 2 * length U)" using big ne eq by (simp add: cont_ratio_def U_def n_def)
    ultimately show ?thesis using len by (simp add: pat)
  qed
qed

lemma cont_rate_matches_pattern_witness:
  "cont_pattern 24 (cont_example\<lparr>co_ntcCh := 1\<rparr>) = Inr [(3, 0), (1, 1), (3, 0)] \<and>
   cont_ratio 0 (cont_example\<lparr>co_ntcCh := 1\<rparr>) = (2, 3) \<and>
   fst (cont_ratio 0 (cont_example\<lparr>co_ntcCh := 1\<rparr>)) * 3 = 2 * snd (cont_ratio 0 (cont_example\<lparr>co_ntcCh := 1\<rparr>))"
proof -
  have u: "used_channels (cont_example\<lparr>co_ntcCh := 1\<rparr>) = [0, 1]" by code_simp
  have p: "cont_pattern 24 (cont_example\<lparr>co_ntcCh := 1\<rparr>) = Inr [(3, 0), (1, 1), (3, 0)]" by code_simp
  have r: "cont_ratio 0 (cont_example\<lparr>co_ntcCh := 1\<rparr>) = (2, 3)" by code_simp
  have n: "unat (co_ntcCh (cont_example\<lparr>co_ntcCh := 1\<rparr>)) = 1" by simp
  from cont_rate_matches_pattern [OF p, of 0] show ?thesis unfolding u n r using p by simp
qed

lemma cont_rate_foreign_ntc:
  \<comment> \<open>an NTC on another ADC: the rate is computed for a pattern of three, the ADC runs one of two\<close>
  "cont_pattern 24 (cont_example\<lparr>co_ntcCh := 5\<rparr>) = Inr [(3, 0), (1, 1)] \<and> cont_ratio 0 (cont_example\<lparr>co_ntcCh := 5\<rparr>) = (2, 3)"
  by code_simp

section \<open>Gains\<close>

lemma gain_consts:
  "f32 (768 / 125) = Fin (6442451 / 1048576)" "f32 (512 / 125) = Fin (8589935 / 2097152)"
  "f32 (256 / 125) = Fin (8589935 / 4194304)" "f32 (128 / 125) = Fin (8589935 / 8388608)"
  "f32 (64 / 125) = Fin (8589935 / 16777216)" "f32 (32 / 125) = Fin (8589935 / 33554432)"
  by code_simp+

lemma gain_for_Inf: "ads_gain_for (Inf True) = GAIN_SIXTEEN" "ads_gain_for NZero = GAIN_SIXTEEN"
  by (simp_all add: ads_gain_for_def gain_consts flt_def)

lemma gain_for_Fin: "ads_gain_for (Fin q) =
    (if 8589935 / 2097152 < q then GAIN_TWOTHIRDS else if 8589935 / 4194304 < q then GAIN_ONE
     else if 8589935 / 8388608 < q then GAIN_TWO else if 8589935 / 16777216 < q then GAIN_FOUR
     else if 8589935 / 33554432 < q then GAIN_EIGHT else GAIN_SIXTEEN)"
  by (simp add: ads_gain_for_def gain_consts flt_def)

lemma fle_Fin: "fle (Fin p) (Fin q) \<longleftrightarrow> p \<le> q" "fle (Inf b) (Fin q) \<longleftrightarrow> b" "fle NZero (Fin q) \<longleftrightarrow> 0 \<le> q" "\<not> fle NaN x"
  by (auto simp: fle_def)

lemma gain_range: "gainVoltageRange g = Fin (case g of GAIN_TWOTHIRDS \<Rightarrow> 6442451 / 1048576 | GAIN_ONE \<Rightarrow> 8589935 / 2097152
    | GAIN_TWO \<Rightarrow> 8589935 / 4194304 | GAIN_FOUR \<Rightarrow> 8589935 / 8388608 | GAIN_EIGHT \<Rightarrow> 8589935 / 16777216
    | GAIN_SIXTEEN \<Rightarrow> 8589935 / 33554432)"
  by (cases g) (simp_all add: gain_consts)

lemma gain_top: "fle v (gainVoltageRange g) \<Longrightarrow> fle v (f32 (6144 / 1000))"
  by (cases v; cases g) (simp_all add: gain_range gain_consts fle_Fin)

lemma gain_for_covers:
  assumes "fle v (f32 (6144 / 1000))"
  shows "fle v (gainVoltageRange (ads_gain_for v))"
    "fle v (gainVoltageRange g) \<Longrightarrow> fle (gainVoltageRange (ads_gain_for v)) (gainVoltageRange g)"
proof -
  show "fle v (gainVoltageRange (ads_gain_for v))"
    using assms by (cases v) (simp_all add: gain_range gain_consts fle_Fin gain_for_Inf gain_for_Fin)
  show "fle (gainVoltageRange (ads_gain_for v)) (gainVoltageRange g)" if "fle v (gainVoltageRange g)"
    using that by (cases v; cases g) (simp_all add: gain_range fle_Fin gain_for_Inf gain_for_Fin)
qed

text \<open>The gain the ADS1x15 gets for an expected voltage covers it (the voltage is at most its full scale), and it is the
  most sensitive one that does; a voltage no gain covers, or NaN, trips the assertion.\<close>
theorem ads_gain_covers:
  "(case ads_setMaxExpectedVoltage ch v s of
      Inr s' \<Rightarrow> \<exists>g. ad_gains s' = (ad_gains s)[unat ch := g] \<and> fle v (gainVoltageRange g) \<and>
        (\<forall>g'. fle v (gainVoltageRange g') \<longrightarrow> fle (gainVoltageRange g) (gainVoltageRange g'))
    | Inl AssertFail \<Rightarrow> \<forall>g. \<not> fle v (gainVoltageRange g)
    | Inl e \<Rightarrow> 3 < ch)"
proof (cases "fle v (f32 (6144 / 1000))")
  case False
  then show ?thesis using gain_top [of v] by (auto simp: ads_setMaxExpectedVoltage_def)
next
  case True
  show ?thesis
  proof (cases "ch \<le> 3")
    case False
    then show ?thesis using True by (auto simp: ads_setMaxExpectedVoltage_def setChannelGain_def assert_throw_def)
  next
    case ch: True
    then show ?thesis using True gain_for_covers [OF True]
      by (auto simp: ads_setMaxExpectedVoltage_def setChannelGain_def assert_throw_def intro!: exI [of _ "ads_gain_for v"])
  qed
qed

section \<open>An ADC that stops\<close>

lemma cont_silent:
  assumes "cont_poll cali chNum now noted r s = Inr (inp, s')" "kNoDataTimeoutUs < now - co_lastData s"
    "noted \<longrightarrow> r = ReadTimeout \<or> r = ReadError \<or> r = ReadOk []"
  shows "\<not> ai_isGood inp" "co_lastData s' = co_lastData s"
proof -
  from assms(1) obtain evs s1 where 1: "(if noted then cont_read cali chNum now r s else Inr ([], s)) = Inr (evs, s1)"
    and g: "cont_isGood now s1 = (ai_isGood inp, s')"
    by (rule cont_pollE)
  have "co_lastData s1 = co_lastData s" using 1 assms(3) by (auto simp: cont_read_def split: if_splits)
  then show "\<not> ai_isGood inp" "co_lastData s' = co_lastData s"
    using g assms(2) by (auto simp: cont_isGood_def split: if_splits)
qed

end
