(* ===== verification/FwLoop.thy ===== *)
theory FwLoop
  imports AdcProps
begin

record fw =
  fw_adc :: cont_adc
  fw_sampler :: sampler
  fw_rt :: rt

record fw_in =
  fi_i :: inputs
  fi_n :: u32
  fi_time :: int                \<comment> \<open>\<open>esp_timer_get_time()\<close> when the driver reads it\<close>
  fi_noted :: bool
  fi_read :: cont_result
  fi_others :: "nat \<Rightarrow> adc_in"
  fi_ok :: "nat \<Rightarrow> bool"

record fw_env =
  fe_dsp :: dsp
  fe_cali :: "nat \<Rightarrow> nat \<Rightarrow> int"
  fe_chNum :: nat
  fe_pattMax :: nat
  fe_k :: nat                   \<comment> \<open>the place of the continuous ADC in \<open>adcStates\<close>\<close>

definition fw_resets :: "rt \<Rightarrow> rt \<Rightarrow> bool" where
  "fw_resets r r' = (ResetPeripherals \<in> set (drop (length (rt_events r)) (rt_events r')))"

definition fw_pass :: "fw_env \<Rightarrow> fw_in \<Rightarrow> fw \<Rightarrow> (update_ret \<times> fw) res" where
  "fw_pass e x st =
    bindE (cont_poll (fe_cali e) (fe_chNum e) (fi_time x) (fi_noted x) (fi_read x) (fw_adc st)) (\<lambda>(inp, a).
    bindE (sampler_update (fe_dsp e) (in_now (fi_i x)) ((fi_others x)(fe_k e := inp)) (fw_sampler st)) (\<lambda>(ret, s).
    bindE (rt_loop (fi_i x) ret (sa_halted s) (fi_n x) (fw_rt st)) (\<lambda>r.
      if fw_resets (fw_rt st) r then
        (case cont_resetPeripherals (fe_pattMax e) (fi_ok x) (fi_time x) a of
           (Inl err, _) \<Rightarrow> Inl err
         | (Inr _, a') \<Rightarrow> Inr (ret, \<lparr>fw_adc = a', fw_sampler = s, fw_rt = r\<rparr>))
      else Inr (ret, \<lparr>fw_adc = a, fw_sampler = s, fw_rt = r\<rparr>))))"

fun fw_run :: "fw_env \<Rightarrow> fw_in list \<Rightarrow> fw \<Rightarrow> (update_ret list \<times> fw) res" where
  "fw_run e [] st = Inr ([], st)"
| "fw_run e (x # xs) st = bindE (fw_pass e x st) (\<lambda>(ret, st1). bindE (fw_run e xs st1) (\<lambda>(rets, st2). Inr (ret # rets, st2)))"

lemma fw_passE:
  assumes "fw_pass e x st = Inr (ret, st')"
  obtains inp a s where
    "cont_poll (fe_cali e) (fe_chNum e) (fi_time x) (fi_noted x) (fi_read x) (fw_adc st) = Inr (inp, a)"
    "sampler_update (fe_dsp e) (in_now (fi_i x)) ((fi_others x)(fe_k e := inp)) (fw_sampler st) = Inr (ret, s)"
    "rt_loop (fi_i x) ret (sa_halted s) (fi_n x) (fw_rt st) = Inr (fw_rt st')" "fw_sampler st' = s"
    "\<not> fw_resets (fw_rt st) (fw_rt st') \<Longrightarrow> fw_adc st' = a"
    "fw_resets (fw_rt st) (fw_rt st') \<Longrightarrow> \<exists>b. cont_resetPeripherals (fe_pattMax e) (fi_ok x) (fi_time x) a = (Inr b, fw_adc st')"
  using assms that
  by (auto simp: fw_pass_def bindE_Inr_iff split: if_splits prod.splits sum.splits)

lemma cont_poll_hasData: "cont_poll cali chNum now noted r s = Inr (inp, s') \<Longrightarrow> ai_hasData inp = noted"
  by (auto simp: cont_poll_def bindE_Inr_iff split_def Let_def)

lemma updateAdc_idle: "updateAdc d now inp k s = Inr (r, s') \<Longrightarrow> \<not> ai_hasData inp \<Longrightarrow> r = NoNewData \<or> r = AdcError"
  by (auto simp: updateAdc_def Let_def split: if_splits)

lemma max_idle: "a = NoNewData \<or> a = AdcError \<Longrightarrow> b = NoNewData \<or> b = AdcError \<Longrightarrow> max a b = NoNewData \<or> max a b = AdcError"
  by (auto simp: max_def)

lemma updateAdcs_idle:
  "updateAdcs d now inp ks (r0, v0, s) = Inr (r, v, s') \<Longrightarrow> \<forall>k. \<not> ai_hasData (inp k) \<Longrightarrow> r0 = NoNewData \<or> r0 = AdcError \<Longrightarrow>
    r = NoNewData \<or> r = AdcError"
  by (induction ks arbitrary: r0 v0 s) (auto simp: bindE_Inr_iff dest!: updateAdc_idle dest: max_idle)

lemma sampler_update_idle:
  "sampler_update d now inp s = Inr (r, s') \<Longrightarrow> \<forall>k. \<not> ai_hasData (inp k) \<Longrightarrow> r = NoNewData \<or> r = AdcError"
  by (auto simp: sampler_update_def bindE_Inr_iff split: if_splits dest: updateAdcs_idle)

lemma awake_frame: "sa_frame s t \<Longrightarrow> sa_halted t = sa_halted s"
  by (simp add: sa_frame_def)

interpretation awake: sampler_inv "\<lambda>s. \<not> sa_halted s"
  by unfold_locales (auto simp: cycle_advance_def Let_def startCalibration_def cancelCalibration_def
      dest!: awake_frame [OF handleSensorCalib_frame])

lemma ms_mono: "uint (in_now i) \<le> uint (in_now j) \<Longrightarrow> uint (in_ms i) \<le> uint (in_ms j)"
  by (simp add: in_ms_def uint_div zdiv_mono1)

lemma watchdog_stalled:
  assumes "adc_stalled i ret r" "0 < in_ms i"
  shows "rt_stalledSince (stall_watchdog i ret r) = (if rt_stalledSince r = 0 then in_ms i else rt_stalledSince r)"
    "rt_timeLastSampler (stall_watchdog i ret r) = rt_timeLastSampler r"
    "rt_m (stall_watchdog i ret r) = rt_m r \<or> conv_off (rt_m (stall_watchdog i ret r))"
    "rt_stalledSince r \<noteq> 0 \<Longrightarrow> 800 < in_ms i - rt_stalledSince r \<Longrightarrow> conv_off (rt_m r) \<or> \<not> inBackoff (in_now i) (rt_m r) \<Longrightarrow>
      conv_off (rt_m (stall_watchdog i ret r))"
  using assms by (auto simp: stall_watchdog_def stopAndBackoff_def Let_def)

lemma dead_loop:
  assumes "rt_loop i ret False n r = Inr r'" "ret = NoNewData \<or> ret = AdcError" "\<not> in_calib i" "rt_timeLastSampler r \<noteq> 0"
    "adc_stalled i ret r" "0 < in_ms i"
  shows "r' = stall_watchdog i ret r"
  using assms watchdog_stalled(2) [OF assms(5,6)] by (auto simp: rt_loop_def rt_no_data_def Let_def)

definition fw_dead :: "fw_in \<Rightarrow> bool" where
  \<comment> \<open>no ADC delivers and no calibration runs\<close>
  "fw_dead x = (\<not> fi_noted x \<and> (\<forall>k. \<not> ai_hasData (fi_others x k)) \<and> \<not> in_calib (fi_i x))"

lemma dead_pass:
  assumes "fw_pass e x st = Inr (ret, st')" "fw_dead x" "\<not> sa_halted (fw_sampler st)"
    "rt_timeLastSampler (fw_rt st) \<noteq> 0" "uint (rt_timeLastSampler (fw_rt st)) + 200000 < uint (in_now (fi_i x))"
  shows "\<not> sa_halted (fw_sampler st')" "rt_timeLastSampler (fw_rt st') = rt_timeLastSampler (fw_rt st)"
    "rt_stalledSince (fw_rt st') = (if rt_stalledSince (fw_rt st) = 0 then in_ms (fi_i x) else rt_stalledSince (fw_rt st))"
    "rt_m (fw_rt st') = rt_m (fw_rt st) \<or> conv_off (rt_m (fw_rt st'))"
    "rt_stalledSince (fw_rt st) \<noteq> 0 \<Longrightarrow> 800 < in_ms (fi_i x) - rt_stalledSince (fw_rt st) \<Longrightarrow>
      conv_off (rt_m (fw_rt st)) \<or> \<not> inBackoff (in_now (fi_i x)) (rt_m (fw_rt st)) \<Longrightarrow> conv_off (rt_m (fw_rt st'))"
proof -
  let ?i = "fi_i x" and ?r = "fw_rt st"
  from assms(1) obtain inp a where
    poll: "cont_poll (fe_cali e) (fe_chNum e) (fi_time x) (fi_noted x) (fi_read x) (fw_adc st) = Inr (inp, a)"
    and up: "sampler_update (fe_dsp e) (in_now ?i) ((fi_others x)(fe_k e := inp)) (fw_sampler st) = Inr (ret, fw_sampler st')"
    and rt: "rt_loop ?i ret (sa_halted (fw_sampler st')) (fi_n x) ?r = Inr (fw_rt st')"
    by (rule fw_passE) auto
  have "\<not> ai_hasData inp" using cont_poll_hasData [OF poll] assms(2) by (simp add: fw_dead_def)
  then have ret: "ret = NoNewData \<or> ret = AdcError" using sampler_update_idle [OF up] assms(2) by (auto simp: fw_dead_def)
  show h: "\<not> sa_halted (fw_sampler st')" by (rule awake.update_inv [OF up assms(3)])
  have "uint (in_now ?i - rt_timeLastSampler ?r) = uint (in_now ?i) - uint (rt_timeLastSampler ?r)"
    using assms(5) uint_sub_lem [of "rt_timeLastSampler ?r" "in_now ?i"] by linarith
  then have "200000 < in_now ?i - rt_timeLastSampler ?r" using assms(5) by (simp add: word_less_def)
  then have st: "adc_stalled ?i ret ?r" using ret assms(2,4) by (auto simp: adc_stalled_def fw_dead_def)
  have "0 \<le> uint (rt_timeLastSampler ?r)" by simp
  then have "200000 < uint (in_now ?i)" using assms(5) by linarith
  then have pos: "0 < in_ms ?i" by (simp add: word_less_def in_ms_def uint_div)
  have eq: "fw_rt st' = stall_watchdog ?i ret ?r"
    by (rule dead_loop [OF _ ret _ assms(4) st pos]) (use rt h assms(2) in \<open>simp_all add: fw_dead_def\<close>)
  show "rt_timeLastSampler (fw_rt st') = rt_timeLastSampler (fw_rt st)"
    "rt_stalledSince (fw_rt st') = (if rt_stalledSince (fw_rt st) = 0 then in_ms (fi_i x) else rt_stalledSince (fw_rt st))"
    "rt_m (fw_rt st') = rt_m (fw_rt st) \<or> conv_off (rt_m (fw_rt st'))"
    "rt_stalledSince (fw_rt st) \<noteq> 0 \<Longrightarrow> 800 < in_ms (fi_i x) - rt_stalledSince (fw_rt st) \<Longrightarrow>
      conv_off (rt_m (fw_rt st)) \<or> \<not> inBackoff (in_now (fi_i x)) (rt_m (fw_rt st)) \<Longrightarrow> conv_off (rt_m (fw_rt st'))"
    unfolding eq using watchdog_stalled [OF st pos] by simp_all
qed

definition clock_up :: "fw_in list \<Rightarrow> bool" where
  "clock_up xs = sorted (map (\<lambda>x. uint (in_now (fi_i x))) xs)"

lemma backoff_later: "\<not> inBackoff t m \<Longrightarrow> uint t \<le> uint u \<Longrightarrow> \<not> inBackoff u m"
  by (auto simp: inBackoff_def word_less_def)

lemma dead_run:
  assumes "fw_run e xs st = Inr (rets, st')" "xs \<noteq> []" "\<forall>x\<in>set xs. fw_dead x" "\<not> sa_halted (fw_sampler st)" "clock_up xs"
    "rt_timeLastSampler (fw_rt st) \<noteq> 0" "\<forall>x\<in>set xs. uint (rt_timeLastSampler (fw_rt st)) + 200000 < uint (in_now (fi_i x))"
    "rt_stalledSince (fw_rt st) \<noteq> 0" "800 < in_ms (fi_i (last xs)) - rt_stalledSince (fw_rt st)"
    "conv_off (rt_m (fw_rt st)) \<or> \<not> inBackoff (in_now (fi_i (hd xs))) (rt_m (fw_rt st))"
  shows "conv_off (rt_m (fw_rt st'))"
  using assms
proof (induction xs arbitrary: st rets)
  case (Cons x xs)
  obtain ret st1 rets1 where p: "fw_pass e x st = Inr (ret, st1)" and r: "fw_run e xs st1 = Inr (rets1, st')"
    using Cons.prems(1) by (auto simp: bindE_Inr_iff)
  note d = dead_pass [OF p _ Cons.prems(4,6)]
  show ?case
  proof (cases "xs = []")
    case True
    then show ?thesis using r d(5) Cons.prems by simp
  next
    case False
    have "uint (in_now (fi_i x)) \<le> uint (in_now (fi_i (hd xs)))" using Cons.prems(5) False by (cases xs) (simp_all add: clock_up_def)
    then have b: "conv_off (rt_m (fw_rt st1)) \<or> \<not> inBackoff (in_now (fi_i (hd xs))) (rt_m (fw_rt st1))"
      using d(4) Cons.prems(3,7,10) backoff_later by fastforce
    show ?thesis
      by (rule Cons.IH [OF r False _ _ _ _ _ _ _ b])
        (use Cons.prems d(1-3) False in \<open>simp_all add: clock_up_def\<close>)
  qed
qed simp

text \<open>C9: When the ADCs stop delivering, the converter stops, although the restarts of the ADC, which happen every 300 ms, make it
  report good again for a while each time. Over any sequence of passes of the loop in which no ADC notifies data and none
  of which is in calibration, starting more than 200 ms after the last sample, the converter is off after the first
  pass that begins more than 800 ms after the first.\<close>
theorem adc_dead_stops:
  assumes "fw_run e (x # xs) st = Inr (rets, st')" "xs \<noteq> []" "\<forall>y\<in>set (x # xs). fw_dead y" "clock_up (x # xs)"
    "\<not> sa_halted (fw_sampler st)" "rt_timeLastSampler (fw_rt st) \<noteq> 0" "rt_stalledSince (fw_rt st) = 0"
    "uint (rt_timeLastSampler (fw_rt st)) + 200000 < uint (in_now (fi_i x))"
    "800 < in_ms (fi_i (last xs)) - in_ms (fi_i x)" "conv_off (rt_m (fw_rt st)) \<or> \<not> inBackoff (in_now (fi_i x)) (rt_m (fw_rt st))"
  shows "conv_off (rt_m (fw_rt st'))"
proof -
  obtain ret st1 rets1 where p: "fw_pass e x st = Inr (ret, st1)" and r: "fw_run e xs st1 = Inr (rets1, st')"
    using assms(1) by (auto simp: bindE_Inr_iff)
  have dx: "fw_dead x" using assms(3) by simp
  note d = dead_pass [OF p dx assms(5,6,8)]
  have later: "\<forall>y\<in>set xs. uint (in_now (fi_i x)) \<le> uint (in_now (fi_i y))" using assms(4) by (simp add: clock_up_def)
  have "hd xs \<in> set xs" using assms(2) by simp
  then have b: "conv_off (rt_m (fw_rt st1)) \<or> \<not> inBackoff (in_now (fi_i (hd xs))) (rt_m (fw_rt st1))"
    using d(4) assms(10) backoff_later later by metis
  have s: "rt_stalledSince (fw_rt st1) = in_ms (fi_i x)" using d(3) assms(7) by simp
  have "0 \<le> uint (rt_timeLastSampler (fw_rt st))" by simp
  then have "200000 < uint (in_now (fi_i x))" using assms(8) by linarith
  then have "0 < in_ms (fi_i x)" by (simp add: word_less_def in_ms_def uint_div)
  then have nz: "rt_stalledSince (fw_rt st1) \<noteq> 0" using s by simp
  show ?thesis
    by (rule dead_run [OF r assms(2) _ d(1) _ _ _ nz _ b])
      (use assms(3,4,6,8,9) later d(2) s in \<open>auto simp: clock_up_def intro: less_le_trans\<close>)
qed

lemma cont_pattern_cong: "co_atten b = co_atten a \<Longrightarrow> co_ntcCh b = co_ntcCh a \<Longrightarrow> cont_pattern n b = cont_pattern n a"
  by (simp only: cont_pattern_def used_channels_def)

lemma reset_ok:
  assumes "cont_pattern n s = Inr p"
  shows "cont_resetPeripherals n (\<lambda>_. True) now s = (Inr True, s\<lparr>co_good := True, co_lastData := now, co_handle := True\<rparr>)"
proof -
  define c where "c = s\<lparr>co_good := True, co_lastData := now, co_handle := True\<rparr>"
  have "cont_pattern n c = Inr p" unfolding assms [symmetric] by (rule cont_pattern_cong) (simp_all add: c_def)
  moreover have "(cont_deinit s)\<lparr>co_good := True, co_lastData := now, co_handle := True\<rparr> = c"
    by (simp add: cont_deinit_def c_def)
  ultimately have "cont_start n (\<lambda>_. True) now (cont_deinit s) = (Inr (), c)" by (simp add: cont_start_def)
  then show ?thesis by (simp add: cont_resetPeripherals_def c_def)
qed

definition example_env :: fw_env where
  "example_env = \<lparr>fe_dsp = example_dsp, fe_cali = (\<lambda>a m. int m), fe_chNum = 10, fe_pattMax = 24, fe_k = 0\<rparr>"

definition silent_pass :: "u64 \<Rightarrow> fw_in" where
  "silent_pass t = \<lparr>fi_i = (example_inputs 30 7)\<lparr>in_now := t\<rparr>, fi_n = 1, fi_time = uint t, fi_noted = False, fi_read = ReadTimeout,
     fi_others = (\<lambda>_. \<lparr>ai_hasData = False, ai_isGood = True, ai_read = [], ai_get = (\<lambda>_. NaN)\<rparr>), fi_ok = (\<lambda>_. True)\<rparr>"

lemma silent_update:
  assumes "\<not> sa_halted s" "length (sa_adcs s) = 1" "as_mode (sa_adcs s ! 0) = StreamedCallback" "sa_virtual s = []"
    "\<not> ripple_configured (sa_ripple s)" "fle (sa_despikeK s) (Fin 0)" "\<not> ai_hasData (inp 0)"
  shows "sampler_update d now inp s = Inr (if ai_isGood (inp 0) then NoNewData else AdcError, s)"
  using assms by (simp add: sampler_update_def updateAdc_def autotune_def despikeWarnTick_def max_def less_eq_update_ret_def)

lemma silent_pass_run:
  assumes "\<not> sa_halted s" "length (sa_adcs s) = 1" "as_mode (sa_adcs s ! 0) = StreamedCallback" "sa_virtual s = []"
    "\<not> ripple_configured (sa_ripple s)" "fle (sa_despikeK s) (Fin 0)" "co_atten a = co_atten cont_example"
    "co_ntcCh a = co_ntcCh cont_example"
  shows "\<exists>ret a' r'. fw_pass example_env (silent_pass t) \<lparr>fw_adc = a, fw_sampler = s, fw_rt = r\<rparr> =
      Inr (ret, \<lparr>fw_adc = a', fw_sampler = s, fw_rt = r'\<rparr>) \<and> co_atten a' = co_atten cont_example \<and> co_ntcCh a' = co_ntcCh cont_example"
proof -
  obtain g a1 where g: "cont_isGood (uint t) a = (g, a1)" by force
  note f = cont_isGood_fields [OF g]
  have n: "co_ntcCh a1 = co_ntcCh cont_example" using g assms(8) by (auto simp: cont_isGood_def split: if_splits)
  let ?inp = "\<lparr>ai_hasData = False, ai_isGood = g, ai_read = [], ai_get = (\<lambda>_. NaN)\<rparr>"
  have poll: "cont_poll (\<lambda>a m. int m) 10 (uint t) False ReadTimeout a = Inr (?inp, a1)" by (simp add: cont_poll_def g)
  let ?ret = "if g then NoNewData else AdcError"
  have up: "sampler_update example_dsp t ((fi_others (silent_pass t))(0 := ?inp)) s = Inr (?ret, s)"
    using silent_update [OF assms(1-6)] by simp
  obtain r' where rt: "rt_loop (fi_i (silent_pass t)) ?ret False 1 r = Inr r'" by (cases g) (simp_all add: rt_loop_def Let_def)
  have "cont_pattern 24 a1 = cont_pattern 24 cont_example" by (rule cont_pattern_cong) (use f n assms(7) in simp_all)
  also have "\<dots> = Inr [(3, 0), (1, 1)]" by code_simp
  finally have res: "cont_resetPeripherals 24 (\<lambda>_. True) (uint t) a1 =
      (Inr True, a1\<lparr>co_good := True, co_lastData := uint t, co_handle := True\<rparr>)" by (rule reset_ok)
  show ?thesis using poll up rt res f n assms(1,7)
    by (auto simp: fw_pass_def example_env_def) (auto simp: silent_pass_def)
qed

lemma adc_dead_stops_witness:
  "\<exists>s rets st'. example_sampler StreamedCallback = Inr s \<and>
     fw_run example_env [silent_pass 400001, silent_pass 600000, silent_pass 1300000]
       \<lparr>fw_adc = cont_example, fw_sampler = s, fw_rt = (rt_new (example_mppt example_on) False)\<lparr>rt_timeLastSampler := 1\<rparr>\<rparr> = Inr (rets, st') \<and>
     \<not> conv_off (example_mppt example_on) \<and> conv_off (rt_m (fw_rt st'))"
proof -
  have "resD (example_sampler StreamedCallback) (\<lambda>s. \<not> sa_halted s \<and> length (sa_adcs s) = 1 \<and>
      as_mode (sa_adcs s ! 0) = StreamedCallback \<and> sa_virtual s = [] \<and> \<not> ripple_configured (sa_ripple s) \<and> fle (sa_despikeK s) (Fin 0))"
    by code_simp
  then obtain s where s: "example_sampler StreamedCallback = Inr s" "\<not> sa_halted s" "length (sa_adcs s) = 1"
      "as_mode (sa_adcs s ! 0) = StreamedCallback" "sa_virtual s = []" "\<not> ripple_configured (sa_ripple s)" "fle (sa_despikeK s) (Fin 0)"
    by (elim resD_E) blast
  let ?r = "(rt_new (example_mppt example_on) False)\<lparr>rt_timeLastSampler := 1\<rparr>"
  let ?st = "\<lparr>fw_adc = cont_example, fw_sampler = s, fw_rt = ?r\<rparr>"
  note p = silent_pass_run [OF s(2-7)]
  obtain q1 a1 r1 where 1: "fw_pass example_env (silent_pass 400001) ?st = Inr (q1, \<lparr>fw_adc = a1, fw_sampler = s, fw_rt = r1\<rparr>)"
    "co_atten a1 = co_atten cont_example" "co_ntcCh a1 = co_ntcCh cont_example" using p [OF HOL.refl HOL.refl] by blast
  obtain q2 a2 r2 where 2: "fw_pass example_env (silent_pass 600000) \<lparr>fw_adc = a1, fw_sampler = s, fw_rt = r1\<rparr> =
      Inr (q2, \<lparr>fw_adc = a2, fw_sampler = s, fw_rt = r2\<rparr>)"
    "co_atten a2 = co_atten cont_example" "co_ntcCh a2 = co_ntcCh cont_example" using p [OF 1(2,3)] by blast
  obtain q3 a3 r3 where 3: "fw_pass example_env (silent_pass 1300000) \<lparr>fw_adc = a2, fw_sampler = s, fw_rt = r2\<rparr> =
      Inr (q3, \<lparr>fw_adc = a3, fw_sampler = s, fw_rt = r3\<rparr>)" using p [OF 2(2,3)] by blast
  have run: "fw_run example_env [silent_pass 400001, silent_pass 600000, silent_pass 1300000] ?st =
      Inr ([q1, q2, q3], \<lparr>fw_adc = a3, fw_sampler = s, fw_rt = r3\<rparr>)" by (simp add: 1 2 3)
  have off: "\<not> conv_off (example_mppt example_on)" using example_facts(2) by simp
  have "conv_off (rt_m r3)"
    using adc_dead_stops [OF run] s(2)
    by (auto simp: silent_pass_def fw_dead_def clock_up_def example_inputs_def rt_new_def in_ms_def inBackoff_def example_mppt_def mppt_new_def)
  then show ?thesis using s(1) run off by auto
qed

section \<open>A stall the restarts hide\<close>

definition stall_frame :: "rt \<Rightarrow> rt \<Rightarrow> bool" where
  \<comment> \<open>the stall watchdog's variables stay and no restart is asked for\<close>
  "stall_frame r r' = (rt_stalledSince r' = rt_stalledSince r \<and> rt_lastReset r' = rt_lastReset r \<and>
     (\<exists>es. rt_events r' = rt_events r @ es \<and> ResetPeripherals \<notin> set es))"

lemma stall_frame_same: "rt_stalledSince r' = rt_stalledSince r \<Longrightarrow> rt_lastReset r' = rt_lastReset r \<Longrightarrow> rt_events r' = rt_events r \<Longrightarrow>
    stall_frame r r'"
  by (simp add: stall_frame_def)

lemma rt_control_stall: "rt_control i n fresh r = Inr r' \<Longrightarrow> stall_frame r r'"
  by (rule stall_frame_same)
    (auto simp: rt_control_def bms_wait_def stopAndBackoff_def bindE_Inr_iff Let_def split: if_split_asm prod.split_asm)

lemma new_data_stall:
  assumes "rt_new_data i n r = Inr r'"
  shows "stall_frame r r'"
proof -
  define r1 where "r1 = (if n - rt_lastN r > 0 then r\<lparr>rt_timeLastSampler := in_now i\<rparr> else r)"
  from assms obtain r2 where c: "(if in_calib i then Inr (on_m (shutdownDcdc (in_now i) 0) r1) else rt_control i n (n - rt_lastN r > 0) r1) = Inr r2"
    and e: "(if rt_manual r2 \<and> \<not> conv_off (rt_m r2) then bindE (sc_perturb 0 (mt_conv (rt_m r2))) (\<lambda>c. Inr (on_m (on_conv (\<lambda>_. c)) r2))
        else Inr r2) = Inr r'"
    unfolding rt_new_data_def Let_def r1_def [symmetric] bindE_Inr_iff by blast
  have "stall_frame r1 r2" using c rt_control_stall by (auto simp: stall_frame_def split: if_split_asm)
  moreover have "rt_stalledSince r1 = rt_stalledSince r" "rt_lastReset r1 = rt_lastReset r" "rt_events r1 = rt_events r"
    by (simp_all add: r1_def)
  moreover have "rt_stalledSince r' = rt_stalledSince r2" "rt_lastReset r' = rt_lastReset r2" "rt_events r' = rt_events r2"
    using e by (auto simp: bindE_Inr_iff split: if_split_asm)
  ultimately show ?thesis by (auto simp: stall_frame_def)
qed

lemma no_data_stall: "stall_frame r (rt_no_data i r)"
  by (simp add: rt_no_data_def stall_frame_def Let_def)

lemma loop_new_data:
  assumes "rt_loop i NewData False n r = Inr r'"
  shows "rt_stalledSince r' = 0" "rt_lastReset r' = rt_lastReset r" "\<not> fw_resets r r'"
proof -
  have "rt_new_data i n (r\<lparr>rt_stalledSince := 0\<rparr>) = Inr r'"
    using assms by (simp add: rt_loop_def stall_watchdog_def adc_stalled_def)
  from new_data_stall [OF this]
  show "rt_stalledSince r' = 0" "rt_lastReset r' = rt_lastReset r" "\<not> fw_resets r r'" by (auto simp: stall_frame_def fw_resets_def)
qed

lemma watchdog_error:
  "rt_stalledSince (stall_watchdog i AdcError r) = (if rt_stalledSince r = 0 then in_ms i else rt_stalledSince r)"
  "rt_lastReset (stall_watchdog i AdcError r) = (if 300 < in_ms i - rt_lastReset r then in_ms i else rt_lastReset r)"
  "\<exists>es. rt_events (stall_watchdog i AdcError r) = rt_events r @ es \<and> (ResetPeripherals \<in> set es \<longleftrightarrow> 300 < in_ms i - rt_lastReset r)"
  by (simp_all add: stall_watchdog_def stopAndBackoff_def adc_stalled_def Let_def)

lemma loop_adc_error:
  assumes "rt_loop i AdcError False n r = Inr r'"
  shows "rt_stalledSince r' = (if rt_stalledSince r = 0 then in_ms i else rt_stalledSince r)"
    "rt_lastReset r' = (if 300 < in_ms i - rt_lastReset r then in_ms i else rt_lastReset r)"
    "fw_resets r r' \<longleftrightarrow> 300 < in_ms i - rt_lastReset r"
proof -
  have r': "r' = rt_no_data i (stall_watchdog i AdcError r)" using assms by (simp add: rt_loop_def)
  note f = no_data_stall [of "stall_watchdog i AdcError r" i, folded r', unfolded stall_frame_def]
  show "rt_stalledSince r' = (if rt_stalledSince r = 0 then in_ms i else rt_stalledSince r)"
    "rt_lastReset r' = (if 300 < in_ms i - rt_lastReset r then in_ms i else rt_lastReset r)"
    using f watchdog_error(1,2) [of i r] by metis+
  show "fw_resets r r' \<longleftrightarrow> 300 < in_ms i - rt_lastReset r"
    using f watchdog_error(3) [of i r] by (auto simp: fw_resets_def)
qed

fun clock_gaps :: "int \<Rightarrow> fw_in list \<Rightarrow> bool" where
  \<comment> \<open>passes at most 100 ms apart, the driver reading the clock within 10 ms\<close>
  "clock_gaps t [] = True"
| "clock_gaps t (x # xs) =
    (let n = uint (in_now (fi_i x)) in t \<le> n \<and> n \<le> t + 100000 \<and> n \<le> fi_time x \<and> fi_time x \<le> n + 10000 \<and> clock_gaps n xs)"

definition fw_half_dead :: "fw_env \<Rightarrow> fw_in \<Rightarrow> bool" where
  \<comment> \<open>the continuous ADC delivers nothing, the others are fine and the restarts succeed\<close>
  "fw_half_dead e x = (\<not> fi_noted x \<and> (\<forall>j. j \<noteq> fe_k e \<longrightarrow> ai_isGood (fi_others x j)) \<and> fi_ok x = (\<lambda>_. True))"

definition hidden_inv :: "fw_env \<Rightarrow> int \<Rightarrow> fw \<Rightarrow> bool" where
  "hidden_inv e t st =
    (let a = fw_adc st; l = uint (rt_lastReset (fw_rt st)); d = uint (rt_stalledSince (fw_rt st)); ms = t div 1000
     in co_good a \<and> (\<exists>p. cont_pattern (fe_pattMax e) a = Inr p) \<and> \<not> sa_halted (fw_sampler st) \<and>
        fe_k e < length (sa_adcs (fw_sampler st)) \<and> 1000 * l \<le> co_lastData a \<and> co_lastData a \<le> 1000 * l + 10999 \<and> l \<le> ms \<and>
        (d = 0 \<or> d \<le> ms \<and> (l + 239 \<le> d \<and> ms \<le> l + 300 \<or> l = ms \<and> ms \<le> d + 161)))"

interpretation wired: sampler_inv "\<lambda>s. length (sa_adcs s) = n" for n
  by unfold_locales (auto simp: cycle_advance_def Let_def startCalibration_def cancelCalibration_def sa_frame_def
      dest!: handleSensorCalib_frame arg_cong [where f = length])

lemma cont_quiet:
  assumes "cont_poll cali chNum now False r s = Inr (inp, s')" "co_good s"
  shows "ai_isGood inp \<longleftrightarrow> now - co_lastData s \<le> kNoDataTimeoutUs" "co_good s'" "co_lastData s' = co_lastData s"
    "cont_pattern n s' = cont_pattern n s"
proof -
  from assms(1) have g: "cont_isGood now s = (ai_isGood inp, s')" by (rule cont_pollE) auto
  show "ai_isGood inp \<longleftrightarrow> now - co_lastData s \<le> kNoDataTimeoutUs" "co_good s'" "co_lastData s' = co_lastData s"
    using g assms(2) by (auto simp: cont_isGood_def split: if_splits)
  show "cont_pattern n s' = cont_pattern n s" using g by (auto simp: cont_isGood_def intro!: cont_pattern_cong split: if_splits)
qed

lemma uint_ms: "uint (in_ms i) = uint (in_now i) div 1000"
  by (simp add: in_ms_def uint_div)

lemma hidden_pass:
  assumes "fw_pass e x st = Inr (ret, st')" "hidden_inv e t st" "fw_half_dead e x" "ret = NewData \<or> ret = AdcError"
    "clock_gaps t [x]"
  shows "hidden_inv e (uint (in_now (fi_i x))) st'"
proof -
  let ?i = "fi_i x" and ?r = "fw_rt st" and ?t = "uint (in_now (fi_i x))"
  let ?l = "uint (rt_lastReset (fw_rt st))" and ?d = "uint (rt_stalledSince (fw_rt st))"
  have inv: "co_good (fw_adc st)" "\<exists>p. cont_pattern (fe_pattMax e) (fw_adc st) = Inr p" "\<not> sa_halted (fw_sampler st)"
    "fe_k e < length (sa_adcs (fw_sampler st))" "1000 * ?l \<le> co_lastData (fw_adc st)" "co_lastData (fw_adc st) \<le> 1000 * ?l + 10999"
    "?l \<le> t div 1000"
    "?d = 0 \<or> ?d \<le> t div 1000 \<and> (?l + 239 \<le> ?d \<and> t div 1000 \<le> ?l + 300 \<or> ?l = t div 1000 \<and> t div 1000 \<le> ?d + 161)"
    using assms(2) by (simp_all add: hidden_inv_def Let_def)
  have clk: "t \<le> ?t" "?t \<le> t + 100000" "?t \<le> fi_time x" "fi_time x \<le> ?t + 10000" using assms(5) by (simp_all add: Let_def)
  from assms(1) obtain inp a where
    poll0: "cont_poll (fe_cali e) (fe_chNum e) (fi_time x) (fi_noted x) (fi_read x) (fw_adc st) = Inr (inp, a)"
    and up: "sampler_update (fe_dsp e) (in_now ?i) ((fi_others x)(fe_k e := inp)) (fw_sampler st) = Inr (ret, fw_sampler st')"
    and rt0: "rt_loop ?i ret (sa_halted (fw_sampler st')) (fi_n x) ?r = Inr (fw_rt st')"
    and keep: "\<not> fw_resets ?r (fw_rt st') \<Longrightarrow> fw_adc st' = a"
    and reset: "fw_resets ?r (fw_rt st') \<Longrightarrow> \<exists>b. cont_resetPeripherals (fe_pattMax e) (fi_ok x) (fi_time x) a = (Inr b, fw_adc st')"
    by (rule fw_passE) auto
  have poll: "cont_poll (fe_cali e) (fe_chNum e) (fi_time x) False (fi_read x) (fw_adc st) = Inr (inp, a)"
    using poll0 assms(3) by (simp add: fw_half_dead_def)
  note q = cont_quiet [OF poll inv(1)]
  have h: "\<not> sa_halted (fw_sampler st')" by (rule awake.update_inv [OF up inv(3)])
  have k: "fe_k e < length (sa_adcs (fw_sampler st'))" using wired.update_inv [OF up HOL.refl] inv(4) by simp
  have rt: "rt_loop ?i ret False (fi_n x) ?r = Inr (fw_rt st')" using rt0 h by simp
  have err: "ret = AdcError \<longleftrightarrow> \<not> ai_isGood inp"
    unfolding sampler_update_ret(1) [OF up inv(3)] using inv(4) assms(3) by (auto simp: fw_half_dead_def)
  obtain p where pat: "cont_pattern (fe_pattMax e) a = Inr p" using q(4) inv(2) by auto
  have ms: "t div 1000 \<le> ?t div 1000" "?t div 1000 \<le> t div 1000 + 100" using clk(1,2) by linarith+
  show ?thesis
  proof (cases "ai_isGood inp")
    case True
    then have "ret = NewData" using err assms(4) by blast
    then have rt: "rt_loop ?i NewData False (fi_n x) ?r = Inr (fw_rt st')" using rt by simp
    note n = loop_new_data [OF rt]
    show ?thesis using keep [OF n(3)] n(1,2) q(2,3) pat h k inv(5-7) ms by (simp add: hidden_inv_def)
  next
    case False
    then have rt: "rt_loop ?i AdcError False (fi_n x) ?r = Inr (fw_rt st')" using rt err by simp
    have late: "?l + 240 \<le> ?t div 1000" using False q(1) inv(5) clk(4) by (simp add: kNoDataTimeoutUs_def)
    have diff: "300 < in_ms ?i - rt_lastReset ?r \<longleftrightarrow> 300 < ?t div 1000 - ?l"
    proof -
      have "uint (in_ms ?i - rt_lastReset ?r) = uint (in_ms ?i) - ?l" using late uint_sub_lem [of "rt_lastReset ?r" "in_ms ?i"]
        by (simp add: uint_ms)
      then show ?thesis by (simp add: word_less_def uint_ms)
    qed
    note n = loop_adc_error [OF rt, unfolded diff]
    have since: "uint (rt_stalledSince (fw_rt st')) = (if ?d = 0 then ?t div 1000 else ?d)" using n(1) by (simp add: uint_ms uint_0_iff)
    show ?thesis
    proof (cases "300 < ?t div 1000 - ?l")
      case True
      then have adc: "fw_adc st' = a\<lparr>co_good := True, co_lastData := fi_time x, co_handle := True\<rparr>"
        using reset n(3) reset_ok [OF pat, of "fi_time x"] assms(3) by (simp add: fw_half_dead_def)
      have "cont_pattern (fe_pattMax e) (fw_adc st') = Inr p" unfolding adc pat [symmetric] by (rule cont_pattern_cong) simp_all
      moreover have "uint (rt_lastReset (fw_rt st')) = ?t div 1000" using n(2) True by (simp add: uint_ms)
      moreover have "1000 * (?t div 1000) \<le> fi_time x" "fi_time x \<le> 1000 * (?t div 1000) + 10999" using clk(3,4) by linarith+
      moreover have "?d = 0 \<or> ?d \<le> ?t div 1000 \<and> ?t div 1000 \<le> ?d + 161" using inv(8) ms late by linarith
      ultimately show ?thesis using h k since adc by (auto simp: hidden_inv_def)
    next
      case False
      then have adc: "fw_adc st' = a" using keep n(3) by blast
      have "?d = 0 \<or> ?d \<le> ?t div 1000 \<and> ?l + 239 \<le> ?d" using inv(8) ms late by linarith
      then show ?thesis using h k since adc n(2) False q(2,3) pat inv(5,6) late by (auto simp: hidden_inv_def Let_def)
    qed
  qed
qed


lemma stale_tick:
  assumes "conv_inv (mt_conv (rt_m r))" "inputs_sane i" "\<not> in_calib i" "\<not> conv_off (rt_m r)" "\<not> rt_manual r" "n = rt_lastN r"
  shows "\<exists>r'. rt_new_data i n r = Inr r'"
proof -
  obtain ok m1 where "protect i (rt_m r) = Inr (ok, m1)" using protect_total assms(1,2) by blast
  moreover obtain ok' m2 where "protectLf False i m1 = (ok', m2)" by force
  ultimately have "guard_checks i False (rt_m r) = Inr (ok \<and> ok', m2)" using assms(4) by (simp add: guard_checks_def)
  then have "\<exists>r'. rt_control i n False r = Inr r' \<and> \<not> rt_manual r'"
    using assms(4,5) by (auto simp: rt_control_def active_def stopAndBackoff_def Let_def)
  then show ?thesis using assms(3,6) by (auto simp: rt_new_data_def)
qed

definition half_pass :: "u64 \<Rightarrow> fw_in" where
  "half_pass t = (silent_pass t)\<lparr>fi_n := 0,
     fi_others := (\<lambda>_. \<lparr>ai_hasData = True, ai_isGood = True, ai_read = [], ai_get = (\<lambda>_. NaN)\<rparr>)\<rparr>"

lemma half_update:
  assumes "\<not> sa_halted s" "length (sa_adcs s) = 2" "as_mode (sa_adcs s ! 0) = StreamedCallback"
    "as_mode (sa_adcs s ! 1) = StreamedCallback" "sa_calibrating s = 0" "sa_virtual s = []"
    "\<not> ripple_configured (sa_ripple s)" "fle (sa_despikeK s) (Fin 0)" "\<not> ai_hasData inp"
  shows "sampler_update d now ((fi_others (half_pass t))(0 := inp)) s = Inr (if ai_isGood inp then NewData else AdcError, s)"
  using assms
  by (simp add: sampler_update_def updateAdc_def autotune_def despikeWarnTick_def max_def less_eq_update_ret_def half_pass_def
      upt_rec)

definition half_rt :: rt where
  "half_rt = (rt_new (example_mppt example_on) False)\<lparr>rt_lastReset := 5800, rt_timeLastSampler := 5990000\<rparr>"


end
