(* ===== verification/Service.thy ===== *)
theory Service
  imports Conf
begin

text \<open>
  \<open>src/src/service.h\<close>: the service architecture (\<open>Service\<close>, \<open>ServiceManager\<close>) and the console's \<open>svc\<close> command
  (\<open>cli.cpp\<close>). A service's hooks are the environment: what a call of one returns or throws is an argument, and the
  calls made are kept in a trace. A conf file is its content.
\<close>

section \<open>Levels and states\<close>

datatype log_level = LNone | LError | LWarn | LInfo | LDebug | LVerbose

datatype svc_state = SvcStopped | SvcRunning | SvcFailed

fun levelToStr :: "log_level \<Rightarrow> string" where
  "levelToStr LError = ''error''" | "levelToStr LWarn = ''warn''" | "levelToStr _ = ''info''"

definition strToLevel :: "string \<Rightarrow> log_level" where
  "strToLevel s =
    (if s = ''error'' \<or> s = ''err'' \<or> s = ''e'' then LError
     else if s = ''warn'' \<or> s = ''warning'' \<or> s = ''w'' then LWarn
     else LInfo)"

section \<open>A service\<close>

datatype hook_ret = HookTrue | HookFalse | HookThrow

datatype hook = OnStart hook_ret | OnStop bool | OnTick bool   \<comment> \<open>the flag: the hook throws\<close>

record svc =
  sv_name :: string
  sv_net :: bool          \<comment> \<open>\<open>_requiresNetwork\<close>\<close>
  sv_state :: svc_state
  sv_level :: log_level
  sv_enabled :: bool
  sv_calls :: "hook list"

definition svc_new :: "string \<Rightarrow> bool \<Rightarrow> bool \<Rightarrow> svc" where
  "svc_new name net en = \<lparr>sv_name = name, sv_net = net, sv_state = SvcStopped, sv_level = LInfo, sv_enabled = en, sv_calls = []\<rparr>"

abbreviation svc_call :: "hook \<Rightarrow> svc \<Rightarrow> svc" where
  "svc_call h s \<equiv> s\<lparr>sv_calls := sv_calls s @ [h]\<rparr>"

definition svc_fail :: "svc \<Rightarrow> svc" where "svc_fail s = s\<lparr>sv_state := SvcFailed\<rparr>"

definition svc_start :: "hook_ret \<Rightarrow> svc \<Rightarrow> bool \<times> svc" where
  "svc_start h s =
    (if sv_state s = SvcRunning then (True, s)
     else let s1 = svc_call (OnStart h) s
          in if h = HookTrue then (True, s1\<lparr>sv_state := SvcRunning\<rparr>) else (False, svc_fail s1))"

definition svc_stop :: "bool \<Rightarrow> svc \<Rightarrow> svc" where
  "svc_stop thr s =
    (if sv_state s = SvcStopped then s else (svc_call (OnStop thr) s)\<lparr>sv_state := SvcStopped\<rparr>)"

definition svc_restart :: "bool \<Rightarrow> hook_ret \<Rightarrow> svc \<Rightarrow> bool \<times> svc" where
  "svc_restart thr h s = svc_start h (svc_stop thr s)"

definition svc_tick :: "bool \<Rightarrow> svc \<Rightarrow> svc" where
  "svc_tick thr s =
    (if sv_state s \<noteq> SvcRunning then s
     else let s1 = svc_call (OnTick thr) s in if thr then svc_fail s1 else s1)"

definition setLogLevel :: "io \<Rightarrow> log_level \<Rightarrow> bool \<Rightarrow> string option \<Rightarrow> svc \<Rightarrow> bool res \<times> string option \<times> svc" where
  \<comment> \<open>the answer of the file's update, which the code drops, the content and the service\<close>
  "setLogLevel io lvl persist fs s =
    (let s1 = s\<lparr>sv_level := lvl\<rparr>
     in if persist then (let (r, fs', _) = conf_add io [(''log_level'', levelToStr lvl)] True fs (conf_open fs) in (r, fs', s1))
        else (Inr True, fs, s1))"

definition setEnabledPersist :: "io \<Rightarrow> bool \<Rightarrow> string option \<Rightarrow> svc \<Rightarrow> bool res \<times> string option \<times> svc" where
  "setEnabledPersist io en fs s =
    (let (r, fs', _) = conf_add io [(''enabled'', if en then ''1'' else ''0'')] True fs (conf_open fs)
     in (r, fs', s\<lparr>sv_enabled := en\<rparr>))"

definition svc_loadConf :: "string option \<Rightarrow> svc \<Rightarrow> svc" where
  \<comment> \<open>the exception of a malformed value is caught: what was assigned before it stays\<close>
  "svc_loadConf fs s =
    (let c = conf_open fs
     in case conf_getByte ''enabled'' (if sv_enabled s then 1 else 0) c of
          Inl _ \<Rightarrow> s
        | Inr b \<Rightarrow> s\<lparr>sv_enabled := (b \<noteq> 0), sv_level := strToLevel (conf_getStringDef ''log_level'' ''info'' c)\<rparr>)"

section \<open>The manager\<close>

type_synonym svcs = "svc list"

definition registerService :: "string option \<Rightarrow> svc \<Rightarrow> svcs \<Rightarrow> svcs" where
  "registerService fs s ss = ss @ [svc_loadConf fs s]"

definition strcaseeq :: "string \<Rightarrow> string \<Rightarrow> bool" where
  "strcaseeq a b = (map lower a = map lower b)"

fun findByName :: "string \<Rightarrow> svcs \<Rightarrow> nat option" where
  "findByName n [] = None"
| "findByName n (s # ss) = (if strcaseeq (sv_name s) n then Some 0 else map_option Suc (findByName n ss))"

fun svc_each :: "(nat \<Rightarrow> svc \<Rightarrow> svc) \<Rightarrow> nat \<Rightarrow> svcs \<Rightarrow> svcs" where
  \<comment> \<open>\<open>for (auto *s: _services)\<close>\<close>
  "svc_each f i [] = []"
| "svc_each f i (s # ss) = f i s # svc_each f (Suc i) ss"

definition startEnabledAtBoot :: "(nat \<Rightarrow> hook_ret) \<Rightarrow> bool \<Rightarrow> svcs \<Rightarrow> svcs" where
  "startEnabledAtBoot h up = svc_each (\<lambda>i s. if sv_enabled s \<and> (up \<or> \<not> sv_net s) then snd (svc_start (h i) s) else s) 0"

definition startEnabledNetworkServices :: "(nat \<Rightarrow> hook_ret) \<Rightarrow> svcs \<Rightarrow> svcs" where
  "startEnabledNetworkServices h =
    svc_each (\<lambda>i s. if sv_net s \<and> sv_enabled s \<and> sv_state s \<noteq> SvcRunning then snd (svc_start (h i) s) else s) 0"

definition stopNetworkServices :: "(nat \<Rightarrow> bool) \<Rightarrow> svcs \<Rightarrow> svcs" where
  "stopNetworkServices thr = svc_each (\<lambda>i s. if sv_net s \<and> sv_state s \<noteq> SvcStopped then svc_stop (thr i) s else s) 0"

definition tickAll :: "(nat \<Rightarrow> bool) \<Rightarrow> svcs \<Rightarrow> svcs" where
  "tickAll thr = svc_each (\<lambda>i s. svc_tick (thr i) s) 0"

definition stopAll :: "(nat \<Rightarrow> bool) \<Rightarrow> svcs \<Rightarrow> svcs" where
  "stopAll thr = svc_each (\<lambda>i s. if sv_state s \<noteq> SvcStopped then svc_stop (thr i) s else s) 0"

section \<open>The console command\<close>

datatype svc_cmd = SvcOn | SvcOff | SvcRestart | SvcLog string

definition cmdService :: "io \<Rightarrow> hook_ret \<Rightarrow> bool \<Rightarrow> svc_cmd \<Rightarrow> string \<Rightarrow> (string \<Rightarrow> string option) \<Rightarrow> svcs \<Rightarrow>
    (unit res \<times> (string \<Rightarrow> string option) \<times> svcs) option" where
  \<comment> \<open>\<open>None\<close>: unknown service. Files by service name; an exception of the file's update ends the command\<close>
  "cmdService io h thr c name files ss =
    map_option (\<lambda>i. let s = ss ! i; n = sv_name s;
        upd = (\<lambda>(r :: bool res, fs', s1). (r, files(n := fs'), ss[i := s1])) in
      case c of
        SvcOn \<Rightarrow> (let (r, fl, ss1) = upd (setEnabledPersist io True (files n) s)
                  in case r of Inl e \<Rightarrow> (Inl e, fl, ss1) | Inr _ \<Rightarrow> (Inr (), fl, ss1[i := snd (svc_start h (ss1 ! i))]))
      | SvcOff \<Rightarrow> (let (r, fl, ss1) = upd (setEnabledPersist io False (files n) s)
                   in case r of Inl e \<Rightarrow> (Inl e, fl, ss1) | Inr _ \<Rightarrow> (Inr (), fl, ss1[i := svc_stop thr (ss1 ! i)]))
      | SvcRestart \<Rightarrow> (Inr (), files, ss[i := snd (svc_restart thr h s)])
      | SvcLog l \<Rightarrow> (let (r, fl, ss1) = upd (setLogLevel io (strToLevel l) True (files n) s)
                     in (case r of Inl e \<Rightarrow> Inl e | Inr _ \<Rightarrow> Inr (), fl, ss1)))
      (findByName name ss)"

end
