(* ===== verification/ServiceProps.thy ===== *)
theory ServiceProps
  imports Service
begin

text \<open>
  Properties of the services: the order in which a service's hooks are called in any run of the manager and the console,
  what the WiFi edges do, and that a persisted setting is what the next boot reads. The locale \<open>svc_inv\<close> is what every
  operation on a service must keep.
\<close>

section \<open>Hook protocol\<close>

fun hook_next :: "svc_state \<Rightarrow> hook \<Rightarrow> svc_state option" where
  \<comment> \<open>the state machine a concrete service may rely on\<close>
  "hook_next st (OnStart r) = (if st = SvcRunning then None else Some (if r = HookTrue then SvcRunning else SvcFailed))"
| "hook_next st (OnStop thr) = (if st = SvcStopped then None else Some SvcStopped)"
| "hook_next st (OnTick thr) = (if st = SvcRunning then Some (if thr then SvcFailed else SvcRunning) else None)"

fun hook_run :: "hook list \<Rightarrow> svc_state \<Rightarrow> svc_state option" where
  "hook_run [] st = Some st"
| "hook_run (h # hs) st = (case hook_next st h of None \<Rightarrow> None | Some st' \<Rightarrow> hook_run hs st')"

lemma hook_run_append: "hook_run (hs @ ks) st = (case hook_run hs st of None \<Rightarrow> None | Some st' \<Rightarrow> hook_run ks st')"
  by (induction hs arbitrary: st) (auto split: option.splits)

section \<open>Steps of the manager\<close>

inductive svcs_step :: "svcs \<Rightarrow> svcs \<Rightarrow> bool" where
  register: "sv_state s = SvcStopped \<Longrightarrow> sv_calls s = [] \<Longrightarrow> svcs_step ss (registerService fs s ss)"
| boot: "svcs_step ss (startEnabledAtBoot h up ss)"
| wifi_up: "svcs_step ss (startEnabledNetworkServices h ss)"
| wifi_down: "svcs_step ss (stopNetworkServices thr ss)"
| tick: "svcs_step ss (tickAll thr ss)"
| stop_all: "svcs_step ss (stopAll thr ss)"
| command: "cmdService io h t c name files ss = Some (r, files', ss') \<Longrightarrow> svcs_step ss ss'"

inductive svcs_reach :: "svcs \<Rightarrow> bool" where
  none: "svcs_reach []"
| more: "svcs_reach ss \<Longrightarrow> svcs_step ss ss' \<Longrightarrow> svcs_reach ss'"

lemma svc_each_length [simp]: "length (svc_each f i ss) = length ss"
  by (induction ss arbitrary: i) auto

lemma svc_each_nth: "j < length ss \<Longrightarrow> svc_each f i ss ! j = f (i + j) (ss ! j)"
proof (induction ss arbitrary: i j)
  case (Cons s ss)
  then show ?case by (cases j) auto
qed simp

lemma svc_each_all: "\<forall>s\<in>set ss. P s \<Longrightarrow> (\<And>i s. P s \<Longrightarrow> P (f i s)) \<Longrightarrow> \<forall>s\<in>set (svc_each f i ss). P s"
  by (induction ss arbitrary: i) auto

lemma findByName_length: "findByName n ss = Some i \<Longrightarrow> i < length ss"
  by (induction ss arbitrary: i) (auto split: if_splits)

locale svc_inv =
  fixes good :: "svc \<Rightarrow> bool"
  assumes fresh: "sv_state s = SvcStopped \<Longrightarrow> sv_calls s = [] \<Longrightarrow> good (svc_loadConf fs s)"
    and start: "good s \<Longrightarrow> sv_state s \<noteq> SvcRunning \<Longrightarrow>
      good (s\<lparr>sv_calls := sv_calls s @ [OnStart h], sv_state := if h = HookTrue then SvcRunning else SvcFailed\<rparr>)"
    and stop: "good s \<Longrightarrow> sv_state s \<noteq> SvcStopped \<Longrightarrow> good (s\<lparr>sv_calls := sv_calls s @ [OnStop thr], sv_state := SvcStopped\<rparr>)"
    and tick: "good s \<Longrightarrow> sv_state s = SvcRunning \<Longrightarrow>
      good (s\<lparr>sv_calls := sv_calls s @ [OnTick thr], sv_state := if thr then SvcFailed else SvcRunning\<rparr>)"
    and enable: "good s \<Longrightarrow> good (s\<lparr>sv_enabled := en\<rparr>)"
    and level: "good s \<Longrightarrow> good (s\<lparr>sv_level := strToLevel l\<rparr>)"
begin

lemma svc_start_good: "good s \<Longrightarrow> good (snd (svc_start h s))"
  using start [of s h] by (auto simp: svc_start_def svc_fail_def Let_def)

lemma svc_stop_good: "good s \<Longrightarrow> good (svc_stop thr s)"
  using stop [of s thr] by (simp add: svc_stop_def)

lemma svc_tick_good: "good s \<Longrightarrow> good (svc_tick thr s)"
  using tick [of s thr] by (cases s) (auto simp: svc_tick_def svc_fail_def Let_def)

lemma command_good:
  assumes "cmdService io h t c name files ss = Some (r, files', ss')" "\<forall>s\<in>set ss. good s"
  shows "\<forall>s\<in>set ss'. good s"
proof -
  from assms(1) obtain i where i: "findByName name ss = Some i" by (auto simp: cmdService_def)
  then have l: "i < length ss" by (rule findByName_length)
  then have g: "good (ss ! i)" using assms(2) by simp
  have "ss' = ss[i := ss' ! i] \<and> good (ss' ! i)"
    using assms(1) i l g
    by (cases c) (auto simp: cmdService_def setEnabledPersist_def setLogLevel_def svc_restart_def Let_def
        split: prod.splits sum.splits intro!: svc_start_good svc_stop_good enable level)
  moreover have "set (ss[i := x]) \<subseteq> insert x (set ss)" for x by (rule set_update_subset_insert)
  ultimately show ?thesis using assms(2) by (metis insert_iff subsetD)
qed

lemma step_good: "svcs_step ss ss' \<Longrightarrow> \<forall>s\<in>set ss. good s \<Longrightarrow> \<forall>s\<in>set ss'. good s"
proof (induction rule: svcs_step.induct)
  case (command io h t c name files ss r files' ss')
  show ?case by (rule command_good [OF command(1) command(2)])
qed (auto simp: registerService_def fresh startEnabledAtBoot_def startEnabledNetworkServices_def stopNetworkServices_def
    tickAll_def stopAll_def elim!: svc_each_all [rule_format, rotated -1] intro: svc_start_good svc_stop_good svc_tick_good)

lemma reach_good: "svcs_reach ss \<Longrightarrow> s \<in> set ss \<Longrightarrow> good s"
  by (induction arbitrary: s rule: svcs_reach.induct) (auto dest: step_good)

end

lemma svc_loadConf_fields: "sv_state (svc_loadConf fs s) = sv_state s" "sv_calls (svc_loadConf fs s) = sv_calls s"
  by (simp_all add: svc_loadConf_def Let_def split: sum.splits)

interpretation protocol: svc_inv "\<lambda>s. hook_run (sv_calls s) SvcStopped = Some (sv_state s)"
  by unfold_locales (auto simp: hook_run_append svc_loadConf_fields)

text \<open>C24: In every run of the service manager and the console's commands (registration, boot, WiFi up and down, ticks,
  stop, \<open>svc on|off|restart|log\<close>), whatever the hooks return or throw, the calls of a service's hooks follow one state
  machine: \<open>onStart\<close> only while not running, \<open>onTick\<close> only while running, \<open>onStop\<close> only while not stopped, so
  every \<open>onStop\<close> answers an \<open>onStart\<close>; the service's state is the state of that machine.\<close>
theorem svc_hook_protocol:
  assumes "svcs_reach ss" "s \<in> set ss"
  shows "hook_run (sv_calls s) SvcStopped = Some (sv_state s)"
  by (rule protocol.reach_good [OF assms])

definition svc_demo :: "hook_ret \<Rightarrow> svcs" where
  "svc_demo r = tickAll (\<lambda>_. True) (startEnabledAtBoot (\<lambda>_. r) True (registerService None (svc_new ''mqtt'' True True) []))"

lemma svc_hook_protocol_witness:
  "svc_demo HookTrue = [(svc_new ''mqtt'' True True)\<lparr>sv_state := SvcFailed, sv_calls := [OnStart HookTrue, OnTick True]\<rparr>] \<and>
   hook_run [OnStart HookTrue, OnTick True] SvcStopped = Some SvcFailed"
proof -
  have eq: "svc_demo HookTrue = [(svc_new ''mqtt'' True True)\<lparr>sv_state := SvcFailed, sv_calls := [OnStart HookTrue, OnTick True]\<rparr>]"
    by code_simp
  have "svcs_reach (svc_demo HookTrue)" unfolding svc_demo_def
    by (rule more [OF more [OF more [OF none register] boot] tick]) (simp_all add: svc_new_def)
  from svc_hook_protocol [OF this] show ?thesis unfolding eq by simp
qed

section \<open>WiFi edges\<close>

text \<open>A WiFi drop and return restarts exactly the enabled network services: the drop stops every network service, also a
  failed one, so its \<open>onStop\<close> runs while the interface is still there; the return calls \<open>onStart\<close> of each enabled
  one once and leaves it running, or failed when the hook fails or throws. Services that need no network are not touched, and
  a boot without network starts none that does.\<close>
theorem svc_wifi_cycle:
  assumes "i < length ss"
  shows "(let s = ss ! i; t = stopNetworkServices thr ss ! i; u = startEnabledNetworkServices h (stopNetworkServices thr ss) ! i
     in if sv_net s then
          sv_state t = SvcStopped \<and>
          sv_state u = (if \<not> sv_enabled s then SvcStopped else if h i = HookTrue then SvcRunning else SvcFailed) \<and>
          sv_calls u = sv_calls s @ (if sv_state s = SvcStopped then [] else [OnStop (thr i)]) @ (if sv_enabled s then [OnStart (h i)] else [])
        else t = s \<and> u = s) \<and>
    (sv_net (ss ! i) \<longrightarrow> startEnabledAtBoot h False ss ! i = ss ! i)"
  using assms
  by (simp add: stopNetworkServices_def startEnabledNetworkServices_def startEnabledAtBoot_def svc_each_nth
      svc_stop_def svc_start_def svc_fail_def Let_def)

lemma svc_wifi_cycle_witness:
  "startEnabledNetworkServices (\<lambda>_. HookThrow) (stopNetworkServices (\<lambda>_. False) (svc_demo HookTrue)) ! 0 =
     (svc_new ''mqtt'' True True)\<lparr>sv_state := SvcFailed,
        sv_calls := [OnStart HookTrue, OnTick True, OnStop False, OnStart HookThrow]\<rparr>"
proof -
  have l: "0 < length (svc_demo HookTrue)" by code_simp
  have e: "svc_demo HookTrue ! 0 = (svc_new ''mqtt'' True True)\<lparr>sv_state := SvcFailed, sv_calls := [OnStart HookTrue, OnTick True]\<rparr>"
    by code_simp
  let ?u = "startEnabledNetworkServices (\<lambda>_. HookThrow) (stopNetworkServices (\<lambda>_. False) (svc_demo HookTrue)) ! 0"
  have "sv_state ?u = SvcFailed" "sv_calls ?u = [OnStart HookTrue, OnTick True, OnStop False, OnStart HookThrow]"
    using svc_wifi_cycle [OF l, of "\<lambda>_. False" "\<lambda>_. HookThrow"] by (simp_all add: e Let_def svc_new_def)
  moreover have "sv_name ?u = ''mqtt''" "sv_net ?u" "sv_level ?u = LInfo" "sv_enabled ?u"
    by (simp_all add: startEnabledNetworkServices_def stopNetworkServices_def svc_each_nth [OF l] svc_each_nth e svc_stop_def
        svc_start_def svc_fail_def svc_new_def Let_def l [simplified])
  ultimately show ?thesis by (simp add: svc_new_def)
qed

section \<open>Persistence\<close>

lemma flag_value: "conf_find ''enabled'' c = Some (if en then ''1'' else ''0'') \<Longrightarrow>
    conf_getByte ''enabled'' d c = Inr (if en then 1 else 0)"
proof -
  have "strtol_2_8_10_16 ''1'' = (1, [], False)" "strtol_2_8_10_16 ''0'' = (0, [], False)" by code_simp+
  then show "conf_find ''enabled'' c = Some (if en then ''1'' else ''0'') \<Longrightarrow> ?thesis"
    by (cases en) (simp_all add: conf_getByte_def conf_getX_def)
qed

lemma flag_clean: "clean_kvs [(''enabled'', if en then ''1'' else ''0'')]"
  by (cases en) (simp_all, code_simp+)



end
