(* ===== verification/BSync.thy ===== *)
theory BSync
  imports Conf Converter
begin

text \<open>
  \<open>src/src/sync/bsync.*\<close>: \<open>BeaconSyncService\<close>, which locks the switching clock to a time base recovered from WiFi
  beacons. \<open>rxCb\<close> estimates the offset to the access point's clock, \<open>servo\<close> turns the phase error into a mean period,
  \<open>ditherCb\<close> alternates the timer's period between two neighbours. The radio, the clocks and the timer's counter are
  arguments; the callbacks run one at a time (they hold the lock or run on one core). \<open>float\<close> values widen to \<open>double\<close>
  without change.
\<close>

section \<open>State\<close>

datatype bs_lock = BsAcquiring | BsLocked | BsCoasting

record bs_est =
  es_o :: fl          \<comment> \<open>local time minus the access point's, in us\<close>
  es_r :: fl
  es_t :: int
  es_n :: u32

record bsync =
  bs_bssid :: "u8 list"
  bs_channel :: u8
  bs_phaseUs :: fl
  bs_kp :: fl
  bs_ki :: fl
  bs_bw :: fl
  bs_alphaA :: fl
  bs_alphaB :: fl
  bs_hwOnly :: bool
  bs_leg :: bool           \<comment> \<open>\<open>leg_\<close> is set\<close>
  bs_period :: u16         \<comment> \<open>the period register of the leg's timer\<close>
  bs_nom :: u16
  bs_ticksPerUs :: u32
  bs_est :: bs_est
  bs_estInit :: bool
  bs_rejStreak :: u8
  bs_nRejected :: u32
  bs_nClockDomain :: u32
  bs_revalBuf :: "fl list"
  bs_revalCnt :: u8
  bs_revaling :: bool
  bs_nReval :: u32
  bs_nRevalStep :: u32
  bs_rxExt :: int
  bs_rxLast :: u32
  bs_espLast :: int
  bs_rxInit :: bool
  bs_dEst :: int
  bs_dInit :: bool
  bs_iAcc :: fl
  bs_rSmooth :: fl
  bs_rSmoothInit :: bool
  bs_lastServo :: int
  bs_lastRadioRetry :: int
  bs_lastErr :: fl
  bs_lock :: bs_lock
  bs_uCmd :: fl
  bs_dither :: bool        \<comment> \<open>the timer that calls \<open>ditherCb\<close> runs\<close>
  bs_sdCarry :: fl
  bs_sdOut :: int
  bs_radioStarted :: bool
  bs_inst :: bool

definition REVAL_N :: nat where "REVAL_N = 15"

definition est_new :: bs_est where "est_new = \<lparr>es_o = Fin 0, es_r = Fin 0, es_t = 0, es_n = 0\<rparr>"

definition bsync_new :: "u16 \<Rightarrow> bsync" where
  \<comment> \<open>before the first start; the leg's timer runs at \<open>period\<close>\<close>
  "bsync_new period =
    \<lparr>bs_bssid = replicate 6 0, bs_channel = 1, bs_phaseUs = Fin 0, bs_kp = f32 (5 / 1000000), bs_ki = f32 (25 / 100000000),
     bs_bw = Fin 1, bs_alphaA = f32 (3 / 10), bs_alphaB = f32 (5 / 100), bs_hwOnly = False, bs_leg = False, bs_period = period,
     bs_nom = 0, bs_ticksPerUs = 0, bs_est = est_new, bs_estInit = False, bs_rejStreak = 0, bs_nRejected = 0,
     bs_nClockDomain = 0, bs_revalBuf = replicate REVAL_N (Fin 0), bs_revalCnt = 0, bs_revaling = False, bs_nReval = 0,
     bs_nRevalStep = 0, bs_rxExt = 0, bs_rxLast = 0, bs_espLast = 0, bs_rxInit = False, bs_dEst = 0, bs_dInit = False,
     bs_iAcc = Fin 0, bs_rSmooth = Fin 0, bs_rSmoothInit = False, bs_lastServo = 0, bs_lastRadioRetry = 0, bs_lastErr = NaN,
     bs_lock = BsAcquiring, bs_uCmd = Fin (1 / 2), bs_dither = False, bs_sdCarry = Fin 0, bs_sdOut = - 1,
     bs_radioStarted = False, bs_inst = False\<rparr>"

definition to_double :: "int \<Rightarrow> fl" where "to_double n = mk F64 False (of_int n)"

abbreviation to_f32 :: "fl \<Rightarrow> fl" where "to_f32 \<equiv> cvt F32"

section \<open>Sniffed frames\<close>

record rx_frame =
  rf_mgmt :: bool
  rf_len :: nat
  rf_payload :: "nat \<Rightarrow> u8"
  rf_stamp :: u32

definition rf_tsf :: "rx_frame \<Rightarrow> u64" where
  "rf_tsf f = word_of_int (horner_sum uint 256 (map (rf_payload f) [24..<32]))"

definition rx_accept :: "rx_frame \<Rightarrow> bsync \<Rightarrow> bool" where
  "rx_accept f s =
    (bs_inst s \<and> rf_mgmt f \<and> \<not> rf_len f < 36 \<and> rf_payload f 0 = 0x80 \<and> map (rf_payload f) [16..<22] = bs_bssid s \<and>
     \<not> (bs_hwOnly s \<and> rf_len f < 64))"

definition rx_extend :: "u32 \<Rightarrow> int \<Rightarrow> bsync \<Rightarrow> bsync" where
  \<comment> \<open>the 32 bit stamp extended to 64 bits; a gap too long to count wraps restarts everything\<close>
  "rx_extend rx32 now s =
    (let s1 = (if \<not> bs_rxInit s \<or> 2500000000 < now - bs_espLast s
               then s\<lparr>bs_rxExt := uint rx32, bs_rxInit := True, bs_dInit := False, bs_estInit := False, bs_revaling := False\<rparr>
               else s\<lparr>bs_rxExt := bs_rxExt s + uint (rx32 - bs_rxLast s)\<rparr>)
     in s1\<lparr>bs_rxLast := rx32, bs_espLast := now\<rparr>)"

definition rx_bridge :: "int \<Rightarrow> bsync \<Rightarrow> bsync" where
  "rx_bridge now s =
    (let dMeas = bs_rxExt s - now; acquiring = (\<not> bs_estInit s \<or> es_n (bs_est s) < 300)
     in if \<not> bs_dInit s \<or> bs_dEst s < dMeas \<and> acquiring then
          (let s1 = (if bs_dInit s \<and> 1000000 < dMeas - bs_dEst s then s\<lparr>bs_nClockDomain := bs_nClockDomain s + 1\<rparr> else s)
           in s1\<lparr>bs_dEst := dMeas, bs_dInit := True\<rparr>)
        else if 1000000 < bs_dEst s - dMeas \<or> 1000000 < dMeas - bs_dEst s
        then s\<lparr>bs_nClockDomain := bs_nClockDomain s + 1, bs_dEst := dMeas\<rparr>
        else s)"

definition est_seed :: "fl \<Rightarrow> int \<Rightarrow> bs_est" where
  "est_seed meas w = \<lparr>es_o = meas, es_r = Fin 0, es_t = w, es_n = 1\<rparr>"

definition est_pred :: "int \<Rightarrow> bs_est \<Rightarrow> fl" where
  "est_pred w e = dadd (es_o e) (dmul (es_r e) (to_double (w - es_t e)))"

definition med15 :: "fl list \<Rightarrow> fl" where
  \<comment> \<open>\<open>std::sort\<close> and the middle element; the values are converted integers, so no NaN and no negative zero\<close>
  "med15 xs = sort_key val xs ! (REVAL_N div 2)"

definition est_reval :: "fl \<Rightarrow> int \<Rightarrow> bsync \<Rightarrow> bsync res" where
  "est_reval meas w s =
    (if REVAL_N \<le> unat (bs_revalCnt s) then Inl Undefined
     else let s1 = s\<lparr>bs_revalBuf := (bs_revalBuf s)[unat (bs_revalCnt s) := meas], bs_revalCnt := bs_revalCnt s + 1\<rparr>
          in if unat (bs_revalCnt s1) < REVAL_N then Inr s1
             else let pred = est_pred w (bs_est s); med = med15 (bs_revalBuf s1);
                      step = fgt (fabs (dsub med pred)) (Fin 500);
                      s2 = (if step then s1\<lparr>bs_nRevalStep := bs_nRevalStep s1 + 1\<rparr> else s1)
                  in Inr (s2\<lparr>bs_est := (bs_est s)\<lparr>es_o := (if step then med else pred), es_t := w\<rparr>,
                            bs_revaling := False, bs_rejStreak := 0\<rparr>))"

definition est_track :: "fl \<Rightarrow> int \<Rightarrow> bsync \<Rightarrow> bsync" where
  "est_track meas w s =
    (let e = bs_est s; pred = est_pred w e; resid = dsub meas pred
     in if fgt (fabs resid) (Fin 500) then
          (let s1 = s\<lparr>bs_nRejected := bs_nRejected s + 1, bs_rejStreak := bs_rejStreak s + 1\<rparr>
           in if 8 \<le> bs_rejStreak s1 then s1\<lparr>bs_revaling := True, bs_revalCnt := 0, bs_nReval := bs_nReval s1 + 1\<rparr> else s1)
        else s\<lparr>bs_rejStreak := 0,
               bs_est := \<lparr>es_o = dadd pred (dmul (bs_alphaA s) resid),
                          es_r = fconstrain (dadd (es_r e) (ddiv (dmul (bs_alphaB s) resid) (to_double (w - es_t e))))
                                   (fneg (f64 (2 / 10000))) (f64 (2 / 10000)),
                          es_t = w, es_n = es_n e + 1\<rparr>\<rparr>)"

definition est_update :: "fl \<Rightarrow> int \<Rightarrow> bsync \<Rightarrow> bsync res" where
  "est_update meas w s =
    (if \<not> bs_estInit s then Inr (s\<lparr>bs_est := est_seed meas w, bs_estInit := True, bs_rejStreak := 0\<rparr>)
     else let dt = to_double (w - es_t (bs_est s))
          in if flt dt (Fin 0) then Inr (s\<lparr>bs_est := est_seed meas w, bs_rejStreak := 0, bs_revaling := False\<rparr>)
             else if fgt dt (Fin 1000) then (if bs_revaling s then est_reval meas w s else Inr (est_track meas w s))
             else Inr s)"

definition i64 :: "int \<Rightarrow> int res" where
  \<comment> \<open>a signed result that does not fit is undefined\<close>
  "i64 n = (if - (2 ^ 63) \<le> n \<and> n < 2 ^ 63 then Inr n else Inl Undefined)"

definition rxCb :: "rx_frame \<Rightarrow> int \<Rightarrow> bsync \<Rightarrow> bsync res" where
  "rxCb f now s =
    (if \<not> rx_accept f s then Inr s
     else let s1 = rx_bridge now (rx_extend (rf_stamp f) now s); w = bs_rxExt s1 - bs_dEst s1
          in bindE (i64 (w - sint (rf_tsf f))) (\<lambda>d. est_update (to_double d) w s1))"

section \<open>The actuator\<close>

definition bs_setPeriodTicks :: "int \<Rightarrow> bsync \<Rightarrow> bsync" where
  "bs_setPeriodTicks n s = s\<lparr>bs_period := word_of_int n\<rparr>"

definition ditherCb :: "bsync \<Rightarrow> bsync res" where
  "ditherCb s =
    (let c = fadd (bs_sdCarry s) (bs_uCmd s)
     in bindE (cast_int (- (2 ^ 31)) (2 ^ 31 - 1) c) (\<lambda>n.
       let s1 = s\<lparr>bs_sdCarry := fsub c (to_float n)\<rparr>; out = max 0 (min 1 n)
       in Inr (if out \<noteq> bs_sdOut s1 then (bs_setPeriodTicks (uint (bs_nom s1) + out) s1)\<lparr>bs_sdOut := out\<rparr> else s1)))"

section \<open>The servo\<close>

fun pair_read :: "(int \<times> u32 \<times> int) list \<Rightarrow> int \<Rightarrow> int \<times> u32 \<Rightarrow> int \<times> u32" where
  \<comment> \<open>clock, counter, clock, at most three times: the pair with the smallest skew\<close>
  "pair_read [] skew p = p"
| "pair_read ((w1, cc, w2) # xs) skew p =
    (if w2 < w1 then pair_read xs skew p
     else let (skew', p') = (if w2 - w1 < skew then (w2 - w1, ((w1 + w2) div 2, cc)) else (skew, p))
          in if skew' \<le> 4 then p' else pair_read xs skew' p')"

definition fl_fmod :: "fl \<Rightarrow> fl \<Rightarrow> fl" where
  \<comment> \<open>\<open>std::fmod\<close>, which is exact\<close>
  "fl_fmod x y =
    (if isnan x \<or> isnan y \<or> \<not> isfinite x \<or> iszero y then NaN
     else if \<not> isfinite y then x
     else let r = val x - val y * of_int (trunc_int (Fin (val x / val y)))
          in if r = 0 then (if signbit x then NZero else Fin 0) else Fin r)"

definition bs_mean :: "fl \<Rightarrow> bsync \<Rightarrow> fl" where
  \<comment> \<open>\<open>p\<close>: the proportional term, added last but one\<close>
  "bs_mean p s = to_f32 (fconstrain (dadd p (bs_iAcc s)) (Fin 0) (Fin 1))"

definition bs_feed :: "bsync \<Rightarrow> fl" where
  "bs_feed s = dadd (Fin (1 / 2)) (dmul (to_double (uint (bs_nom s))) (bs_rSmooth s))"

definition bs_ready :: "bsync \<Rightarrow> bool" where
  "bs_ready s = (bs_estInit s \<and> 5 \<le> es_n (bs_est s))"

definition servo_smooth :: "bsync \<Rightarrow> bsync" where
  "servo_smooth s =
    (if \<not> bs_ready s then s
     else if \<not> bs_rSmoothInit s then s\<lparr>bs_rSmooth := es_r (bs_est s), bs_rSmoothInit := True\<rparr>
     else s\<lparr>bs_rSmooth := dadd (bs_rSmooth s) (ddiv (dsub (es_r (bs_est s)) (bs_rSmooth s)) (Fin 30))\<rparr>)"

definition phase_error :: "u32 \<Rightarrow> fl \<Rightarrow> bsync \<Rightarrow> fl res" where
  \<comment> \<open>in ticks, of the counter \<open>cnt\<close> at the shared time \<open>b\<close>\<close>
  "phase_error cnt b s =
    (let G = 2 * uint (bs_nom s) + 1; htpu = 2 * uint (bs_ticksPerUs s)
     in bindE (cast_int (- (2 ^ 63)) (2 ^ 63 - 1) b) (\<lambda>bi.
       let bf = dsub b (to_double bi);
           ti = trunc_mod (trunc_mod (trunc_mod bi G * htpu) G + G) G;
           target = dadd (to_double ti) (dmul bf (to_double htpu));
           e2 = fl_fmod (dsub (dmul (Fin 2) (to_double (uint cnt))) target) (to_double G);
           half = ddiv (to_double G) (Fin 2);
           e2' = (if fgt e2 half then dsub e2 (to_double G)
                  else if flt e2 (ddiv (to_double (- G)) (Fin 2)) then dadd e2 (to_double G) else e2)
       in Inr (dmul e2' (Fin (1 / 2)))))"

definition servo_coast :: "bsync \<Rightarrow> bsync" where
  "servo_coast s =
    s\<lparr>bs_lock := (if bs_ready s then BsCoasting else BsAcquiring), bs_uCmd := bs_mean (bs_feed s) s\<rparr>"

definition servo_dt :: "int \<Rightarrow> bsync \<Rightarrow> fl" where
  "servo_dt nowUs s =
    (if bs_lastServo s \<noteq> 0
     then fconstrain (dmul (to_double (nowUs - bs_lastServo s)) (f64 (1 / 1000000))) (f64 (2 / 10)) (Fin 5) else Fin 1)"

definition servo_drive :: "int \<Rightarrow> fl \<Rightarrow> bsync \<Rightarrow> bsync" where
  "servo_drive nowUs eTicks s =
    (let err = to_f32 (ddiv eTicks (to_double (uint (bs_ticksPerUs s))));
         i = fconstrain (dadd (bs_iAcc s) (dmul (dmul (bs_ki s) eTicks) (servo_dt nowUs s))) (fneg (f64 (45 / 100))) (f64 (45 / 100));
         s1 = s\<lparr>bs_lastErr := err, bs_iAcc := i\<rparr>
     in s1\<lparr>bs_uCmd := bs_mean (dadd (bs_feed s1) (dmul (bs_kp s) eTicks)) s1,
            bs_lock := (if flt (fabs err) (Fin 5) then BsLocked else BsAcquiring)\<rparr>)"

definition servo :: "int \<Rightarrow> (int \<times> u32 \<times> int) list \<Rightarrow> bsync \<Rightarrow> bsync res" where
  "servo nowUs reads s =
    (let (w, cnt) = pair_read reads (2 ^ 63 - 1) (0, 0); e = bs_est s; age = w - es_t e; s1 = servo_smooth s
     in if \<not> (bs_ready s \<and> 0 \<le> age \<and> age < 3000000) then Inr (servo_coast s1)
        else
          let oPred = dadd (es_o e) (dmul (es_r e) (to_double age));
              b = dsub (dsub (to_double w) oPred) (bs_phaseUs s)
          in bindE (phase_error cnt b s) (\<lambda>eTicks. Inr (servo_drive nowUs eTicks s1)))"

section \<open>Start, stop and tick\<close>

definition bssid_byte :: "string \<Rightarrow> nat \<Rightarrow> u8 option" where
  "bssid_byte s i =
    (let t = drop (i * 3) s; (v, r, er) = strtol 16 t
     in if r \<noteq> drop 2 t \<or> v < 0 then None
        else if i < 5 \<and> s ! (i * 3 + 2) \<noteq> CHR '':'' \<and> s ! (i * 3 + 2) \<noteq> CHR ''-'' then None
        else Some (word_of_int v))"

definition parseBssid :: "string \<Rightarrow> u8 list option" where
  "parseBssid s =
    (if length s \<noteq> 17 then None
     else let bs = map (bssid_byte s) [0..<6] in if None \<in> set bs then None else Some (map the bs))"

record radio_in =
  ra_sta :: bool             \<comment> \<open>station mode is on\<close>
  ra_staOk :: bool           \<comment> \<open>the driver can be started\<close>
  ra_connected :: bool
  ra_channelOk :: bool
  ra_promiscOk :: bool
  ra_promisc :: bool         \<comment> \<open>promiscuous mode is on\<close>
  ra_off :: bool             \<comment> \<open>\<open>WIFI_MODE_NULL\<close>\<close>

definition radioUp :: "radio_in \<Rightarrow> bsync \<Rightarrow> bool \<times> bsync" where
  "radioUp r s =
    (if \<not> ra_sta r \<and> \<not> ra_staOk r then (False, s)
     else let s1 = (if ra_sta r then s else s\<lparr>bs_radioStarted := True\<rparr>)
          in if \<not> ra_connected r \<and> \<not> ra_channelOk r then (False, s1) else (ra_promiscOk r, s1))"

definition bsync_onStop :: "bsync \<Rightarrow> bsync" where
  "bsync_onStop s =
    (let s1 = s\<lparr>bs_dither := False\<rparr>;
         s2 = (if bs_leg s1 then bs_setPeriodTicks (uint (bs_nom s1)) s1 else s1)
     in s2\<lparr>bs_inst := False, bs_radioStarted := False, bs_lock := BsAcquiring\<rparr>)"

definition bsync_conf :: "conf \<Rightarrow> bsync \<Rightarrow> (bool \<times> bsync) res" where
  \<comment> \<open>the settings; \<open>False\<close>: a missing or malformed value\<close>
  "bsync_conf c s =
    (case parseBssid (conf_getStringDef ''bssid'' [] c) of None \<Rightarrow> Inr (False, s)
     | Some b \<Rightarrow>
         bindE (conf_getByte ''channel'' 1 c) (\<lambda>ch.
         let s1 = s\<lparr>bs_bssid := b, bs_channel := ch\<rparr> in
         if ch < 1 \<or> 14 < ch then Inr (False, s1)
         else bindE (conf_getFloat ''phase_us'' (Fin 0) c) (\<lambda>ph.
              bindE (conf_getFloat ''bw'' (Fin 1) c) (\<lambda>bw0.
              let bw = fconstrain bw0 (f32 (5 / 100)) (Fin 4) in
              bindE (conf_getFloat ''kp'' (f32 (5 / 1000000)) c) (\<lambda>kp.
              bindE (conf_getFloat ''ki'' (f32 (25 / 100000000)) c) (\<lambda>ki.
              bindE (conf_getByte ''hw_only'' 0 c) (\<lambda>hw.
              Inr (True, s1\<lparr>bs_phaseUs := ph, bs_bw := bw, bs_kp := fmul kp bw, bs_ki := fmul (fmul ki bw) bw,
                bs_alphaA := std_min (fmul (f32 (3 / 10)) bw) (f32 (9 / 10)), bs_alphaB := fmul (fmul (f32 (5 / 100)) bw) bw,
                bs_hwOnly := (hw \<noteq> 0)\<rparr>))))))))"

definition bsync_reset :: "bsync \<Rightarrow> bsync" where
  "bsync_reset s =
    s\<lparr>bs_estInit := False, bs_est := est_new, bs_rejStreak := 0, bs_rxExt := 0, bs_rxLast := 0, bs_espLast := 0,
      bs_rxInit := False, bs_dEst := 0, bs_dInit := False, bs_revaling := False, bs_revalCnt := 0, bs_nRejected := 0,
      bs_nClockDomain := 0, bs_nReval := 0, bs_nRevalStep := 0, bs_rSmooth := Fin 0, bs_rSmoothInit := False,
      bs_iAcc := Fin 0, bs_uCmd := Fin (1 / 2), bs_sdCarry := Fin 0, bs_sdOut := - 1, bs_lastErr := NaN, bs_lock := BsAcquiring,
      bs_lastServo := 0, bs_lastRadioRetry := 0\<rparr>"

definition bsync_onStart :: "conf \<Rightarrow> (u16 \<times> u32) option \<Rightarrow> bool \<Rightarrow> radio_in \<Rightarrow> bool \<Rightarrow> bsync \<Rightarrow> (bool \<times> bsync) res" where
  \<comment> \<open>\<open>leg\<close>: period and resolution of the converter's MCPWM leg, when it has one\<close>
  "bsync_onStart c leg follower r timerOk s =
    bindE (bsync_conf c s) (\<lambda>(ok, s1).
      if \<not> ok then Inr (False, s1)
      else case leg of None \<Rightarrow> Inr (False, s1\<lparr>bs_leg := False\<rparr>)
        | Some (pt, hz) \<Rightarrow>
            if pt = 0 \<or> follower \<or> hz mod 1000000 \<noteq> 0 then Inr (False, s1\<lparr>bs_leg := False\<rparr>)
            else let s2 = (bsync_reset (s1\<lparr>bs_leg := True, bs_nom := pt, bs_ticksPerUs := hz div 1000000\<rparr>))\<lparr>bs_inst := True\<rparr>;
                     (up, s3) = radioUp r s2
                 in if \<not> up then Inr (False, bsync_onStop s3)
                    else if \<not> timerOk then Inr (False, bsync_onStop s3)
                    else Inr (True, s3\<lparr>bs_dither := True\<rparr>))"

definition bsync_onTick :: "int \<Rightarrow> radio_in \<Rightarrow> (int \<times> u32 \<times> int) list \<Rightarrow> bsync \<Rightarrow> bsync res" where
  "bsync_onTick now r reads s =
    (if now - bs_lastServo s < 1000000 then Inr s
     else let s1 = (if (ra_off r \<or> \<not> ra_promisc r) \<and> 10000000 < now - bs_lastRadioRetry s
                    then snd (radioUp r (s\<lparr>bs_lastRadioRetry := now\<rparr>)) else s)
          in bindE (servo now reads s1) (\<lambda>s2. Inr (s2\<lparr>bs_lastServo := now\<rparr>)))"

end
