(* ===== verification/BSyncProps.thy ===== *)
theory BSyncProps
  imports BSync
begin

text \<open>
  Properties of the beacon sync: the period register never goes below the nominal period and the gates never overlap on
  account of it, the mean period follows the command, and a burst of bad beacons does not step the estimate.
\<close>

section \<open>The period register\<close>

inductive bsync_step :: "u16 \<Rightarrow> bsync \<Rightarrow> bsync \<Rightarrow> bool" for pt where
  start: "\<not> bs_dither s \<Longrightarrow> leg = None \<or> (\<exists>hz. leg = Some (pt, hz)) \<Longrightarrow>
    bsync_onStart c leg follower r timerOk s = Inr (ok, s') \<Longrightarrow> bsync_step pt s s'"
| stop: "bsync_step pt s (bsync_onStop s)"
| tick: "bsync_onTick now r reads s = Inr s' \<Longrightarrow> bsync_step pt s s'"
| rx: "rxCb f now s = Inr s' \<Longrightarrow> bsync_step pt s s'"
| dither: "bs_dither s \<Longrightarrow> ditherCb s = Inr s' \<Longrightarrow> bsync_step pt s s'"

inductive bsync_reach :: "u16 \<Rightarrow> bsync \<Rightarrow> bool" for pt where
  init: "bsync_reach pt (bsync_new pt)"
| more: "bsync_reach pt s \<Longrightarrow> bsync_step pt s s' \<Longrightarrow> bsync_reach pt s'"

definition period_inv :: "u16 \<Rightarrow> bsync \<Rightarrow> bool" where
  "period_inv pt s =
    ((bs_leg s \<longrightarrow> bs_nom s = pt) \<and> (bs_dither s \<longrightarrow> bs_leg s) \<and> (bs_period s = pt \<or> bs_period s = pt + 1))"

definition act_same :: "bsync \<Rightarrow> bsync \<Rightarrow> bool" where
  \<comment> \<open>nothing the period register depends on changes\<close>
  "act_same s t = (bs_leg t = bs_leg s \<and> bs_nom t = bs_nom s \<and> bs_period t = bs_period s \<and> bs_dither t = bs_dither s)"

lemma act_same_refl [simp]: "act_same s s"
  by (simp add: act_same_def)

lemma act_same_trans: "act_same s t \<Longrightarrow> act_same t u \<Longrightarrow> act_same s u"
  by (simp add: act_same_def)

lemma act_same_inv: "act_same s t \<Longrightarrow> period_inv pt s \<Longrightarrow> period_inv pt t"
  by (simp add: act_same_def period_inv_def)

lemma est_update_same: "est_update meas w s = Inr t \<Longrightarrow> act_same s t"
  by (auto simp: est_update_def est_reval_def est_track_def act_same_def Let_def split: if_splits)

lemma rxCb_same: "rxCb f now s = Inr t \<Longrightarrow> act_same s t"
proof -
  have e: "act_same s (rx_extend st now s)" for st s by (auto simp: rx_extend_def act_same_def Let_def)
  have b: "act_same s (rx_bridge now s)" for s by (auto simp: rx_bridge_def act_same_def Let_def)
  show "rxCb f now s = Inr t \<Longrightarrow> ?thesis"
    by (auto simp: rxCb_def bindE_Inr_iff Let_def split: if_splits
        dest!: est_update_same intro: act_same_trans [OF act_same_trans [OF e b]])
qed

lemma servo_smooth_same: "act_same s (servo_smooth s)"
  by (simp add: servo_smooth_def act_same_def)

lemma servo_same:
  assumes "servo now reads s = Inr t"
  shows "act_same s t"
proof -
  have c: "act_same s (servo_coast s)" "act_same s (servo_drive now e s)" for e s
    by (simp_all add: servo_coast_def servo_drive_def act_same_def Let_def)
  have "t = servo_coast (servo_smooth s) \<or> (\<exists>e. t = servo_drive now e (servo_smooth s))"
    using assms by (auto simp: servo_def bindE_Inr_iff Let_def split: prod.splits if_splits)
  then show ?thesis using act_same_trans [OF servo_smooth_same] c by auto
qed

lemma radioUp_same: "act_same s (snd (radioUp r s))"
  by (simp add: radioUp_def act_same_def Let_def)

lemma onTick_same: "bsync_onTick now r reads s = Inr t \<Longrightarrow> act_same s t"
proof -
  assume h: "bsync_onTick now r reads s = Inr t"
  define s1 where "s1 = (if (ra_off r \<or> \<not> ra_promisc r) \<and> 10000000 < now - bs_lastRadioRetry s
                    then snd (radioUp r (s\<lparr>bs_lastRadioRetry := now\<rparr>)) else s)"
  have "act_same s (s\<lparr>bs_lastRadioRetry := now\<rparr>)" by (simp add: act_same_def)
  then have 1: "act_same s s1" using act_same_trans [OF _ radioUp_same] by (simp add: s1_def)
  have "t = s \<or> (\<exists>s2. servo now reads s1 = Inr s2 \<and> t = s2\<lparr>bs_lastServo := now\<rparr>)"
    using h unfolding bsync_onTick_def s1_def [symmetric] Let_def by (auto simp: bindE_Inr_iff split: if_splits)
  moreover have "act_same s2 (s2\<lparr>bs_lastServo := now\<rparr>)" for s2 by (simp add: act_same_def)
  ultimately show ?thesis using 1 servo_same act_same_trans act_same_refl by metis
qed

lemma onStop_inv: "period_inv pt s \<Longrightarrow> period_inv pt (bsync_onStop s)"
  by (simp add: period_inv_def bsync_onStop_def bs_setPeriodTicks_def Let_def)

lemma bsync_conf_same: "bsync_conf c s = Inr (ok, t) \<Longrightarrow> act_same s t"
  by (auto simp: bsync_conf_def act_same_def bindE_Inr_iff Let_def split: option.splits if_splits)

lemma onStart_inv:
  assumes "bsync_onStart c leg fol r tok s = Inr (ok, t)" "period_inv pt s" "\<not> bs_dither s" "leg = None \<or> (\<exists>hz. leg = Some (pt, hz))"
  shows "period_inv pt t"
proof -
  obtain ok1 s1 where c: "bsync_conf c s = Inr (ok1, s1)" using assms(1) by (auto simp: bsync_onStart_def bindE_Inr_iff)
  have s1: "period_inv pt s1" "\<not> bs_dither s1" using act_same_inv [OF bsync_conf_same [OF c] assms(2)] bsync_conf_same [OF c] assms(3)
    by (auto simp: act_same_def)
  show ?thesis
  proof (cases "t = s1 \<or> t = s1\<lparr>bs_leg := False\<rparr>")
    case True
    then show ?thesis using s1 by (auto simp: period_inv_def)
  next
    case False
    then obtain hz where leg: "leg = Some (pt, hz)" using assms(1,4) c by (auto simp: bsync_onStart_def split: if_splits)
    define s2 where "s2 = (bsync_reset (s1\<lparr>bs_leg := True, bs_nom := pt, bs_ticksPerUs := hz div 1000000\<rparr>))\<lparr>bs_inst := True\<rparr>"
    have 2: "period_inv pt s2" "bs_leg s2" using s1 by (auto simp: s2_def bsync_reset_def period_inv_def)
    have 3: "period_inv pt (snd (radioUp r s2))" "bs_leg (snd (radioUp r s2))"
      using act_same_inv [OF radioUp_same 2(1)] radioUp_same [of s2 r] 2(2) by (auto simp: act_same_def)
    have "t = bsync_onStop (snd (radioUp r s2)) \<or> t = (snd (radioUp r s2))\<lparr>bs_dither := True\<rparr>"
      using assms(1) c leg False
      by (auto simp: bsync_onStart_def s2_def [symmetric] Let_def split: if_splits prod.splits)
    moreover have "period_inv pt (x\<lparr>bs_dither := True\<rparr>)" if "period_inv pt x" "bs_leg x" for x
      using that by (simp add: period_inv_def)
    ultimately show ?thesis using 3 onStop_inv by blast
  qed
qed

lemma ditherCb_inv:
  assumes "ditherCb s = Inr t" "bs_dither s" "period_inv pt s"
  shows "period_inv pt t"
proof -
  from assms(2,3) have n: "bs_nom s = pt" by (simp add: period_inv_def)
  from assms(1) obtain k where "t = (let s1 = s\<lparr>bs_sdCarry := fsub (fadd (bs_sdCarry s) (bs_uCmd s)) (to_float k)\<rparr>; out = max 0 (min 1 k)
       in if out \<noteq> bs_sdOut s1 then (bs_setPeriodTicks (uint (bs_nom s1) + out) s1)\<lparr>bs_sdOut := out\<rparr> else s1)"
    by (auto simp only: ditherCb_def bindE_Inr_iff Let_def sum.inject)
  then have "bs_period t = bs_period s \<or> bs_period t = word_of_int (uint (bs_nom s) + max 0 (min 1 k))"
    and f: "bs_leg t = bs_leg s" "bs_nom t = bs_nom s" "bs_dither t = bs_dither s"
    by (simp_all add: bs_setPeriodTicks_def Let_def)
  moreover have "max 0 (min 1 k) = 0 \<or> max 0 (min 1 k) = 1" by linarith
  ultimately have "bs_period t = pt \<or> bs_period t = pt + 1" using assms(3) unfolding n period_inv_def by (metis add.right_neutral word_of_int_uint wi_hom_add word_of_int_1)
  then show ?thesis using f assms(3) by (simp add: period_inv_def)
qed

lemma bsync_step_inv: "bsync_step pt s s' \<Longrightarrow> period_inv pt s \<Longrightarrow> period_inv pt s'"
proof (induction rule: bsync_step.induct)
  case (start s leg c follower r timerOk ok s')
  then show ?case using onStart_inv by blast
qed (auto intro: onStop_inv ditherCb_inv dest: onTick_same rxCb_same act_same_inv)

lemma bsync_reach_inv: "bsync_reach pt s \<Longrightarrow> period_inv pt s"
proof (induction rule: bsync_reach.induct)
  case init
  show ?case by (simp add: period_inv_def bsync_new_def)
next
  case (more s s')
  then show ?case by (blast intro: bsync_step_inv)
qed

lemma u16_succ: "uint (p :: u16) < 65535 \<Longrightarrow> uint (p + 1) = uint p + 1"
  by (simp add: uint_word_ariths(1))

text \<open>C17: However the callbacks interleave (starts that fail or succeed, stops, beacons with any content, servo ticks with any
  clock readings, dither ticks), the timer's period is the nominal one or one tick more, never less. So comparators inside the
  nominal period keep firing: the leg never commands both gates and LS is off from its comparator on.\<close>
theorem bsync_period:
  assumes "bsync_reach pt s" "uint pt < 65535" "lg_periodTicks l = pt" "\<not> lg_enLogic l"
    "uint (lg_cmpHS l) \<le> uint (lg_cmpLS l)" "uint (lg_cmpLS l) < uint pt"
  shows "uint pt \<le> uint (bs_period s) \<and> uint (bs_period s) \<le> uint pt + 1 \<and>
    (let l' = l\<lparr>lg_periodTicks := bs_period s\<rparr>
     in (\<forall>k\<ge>0. \<not> (leg_hs l' k \<and> leg_ls l' k)) \<and> (\<forall>k\<ge>uint (lg_cmpLS l). \<not> leg_ls l' k))"
proof -
  have p: "uint pt \<le> uint (bs_period s)" "uint (bs_period s) \<le> uint pt + 1"
    using bsync_reach_inv [OF assms(1)] u16_succ [OF assms(2)] by (auto simp: period_inv_def)
  define d where "d = uint (lg_dtTicks l)"
  have "0 \<le> d" by (simp add: d_def)
  then show ?thesis using p assms(3-6) by (auto simp: leg_hs_def leg_ls_def d_def [symmetric])
qed

definition bsync_demo_conf :: conf where
  "bsync_demo_conf = conf_open (Some ''bssid=aa:bb:cc:dd:ee:0f'')"

definition bsync_demo_radio :: radio_in where
  "bsync_demo_radio = \<lparr>ra_sta = True, ra_staOk = True, ra_connected = True, ra_channelOk = True, ra_promiscOk = True,
     ra_promisc = True, ra_off = False\<rparr>"

lemma bsync_period_witness:
  "\<exists>s s' s''. bsync_onStart bsync_demo_conf (Some (4069, 160000000)) False bsync_demo_radio True (bsync_new 4069) = Inr (True, s) \<and>
     ditherCb s = Inr s' \<and> ditherCb s' = Inr s'' \<and> bs_period s' = 4069 \<and> bs_period s'' = 4070 \<and>
     (let l = leg_new\<lparr>lg_periodTicks := 4070, lg_cmpHS := 1506, lg_cmpLS := 4068\<rparr> in \<forall>k\<ge>0. \<not> (leg_hs l k \<and> leg_ls l k))"
proof -
  have "resD (bsync_onStart bsync_demo_conf (Some (4069, 160000000)) False bsync_demo_radio True (bsync_new 4069))
     (\<lambda>(ok, s). ok \<and> bs_dither s \<and> resD (ditherCb s) (\<lambda>s'. bs_period s' = 4069 \<and> bs_dither s' \<and> resD (ditherCb s') (\<lambda>s''. bs_period s'' = 4070)))"
    by code_simp
  then obtain s s' s'' where s: "bsync_onStart bsync_demo_conf (Some (4069, 160000000)) False bsync_demo_radio True (bsync_new 4069) = Inr (True, s)"
    "bs_dither s" "ditherCb s = Inr s'" "bs_period s' = 4069" "bs_dither s'" "ditherCb s' = Inr s''" "bs_period s'' = 4070"
    by (auto elim!: resD_E)
  have "\<not> bs_dither (bsync_new 4069)" by (simp add: bsync_new_def)
  from start [OF this _ s(1)] have 1: "bsync_step 4069 (bsync_new 4069) s" by simp
  have "bsync_reach 4069 s''"
    by (rule more [OF more [OF more [OF init 1] dither [OF s(2,3)]] dither [OF s(5,6)]])
  from bsync_period [OF this, of "leg_new\<lparr>lg_periodTicks := 4069, lg_cmpHS := 1506, lg_cmpLS := 4068\<rparr>"]
  show ?thesis using s by (auto simp: leg_new_def Let_def)
qed

section \<open>The mean period\<close>

fun dither_run :: "nat \<Rightarrow> bsync \<Rightarrow> (int list \<times> bsync) res" where
  \<comment> \<open>the ticks added to the nominal period, one per call\<close>
  "dither_run 0 s = Inr ([], s)"
| "dither_run (Suc n) s = bindE (ditherCb s) (\<lambda>s1. bindE (dither_run n s1) (\<lambda>(outs, s2). Inr (bs_sdOut s1 # outs, s2)))"

definition carry_ok :: "bsync \<Rightarrow> bool" where
  "carry_ok s = (isfinite (bs_sdCarry s) \<and> fl_ok F32 (bs_sdCarry s) \<and> 0 \<le> val (bs_sdCarry s) \<and> val (bs_sdCarry s) < 1)"

lemma two_minus: "rnd F32 (2 - 2 * pow2 (- 24)) = 2 - 2 * pow2 (- 24)" "rnd F32 2 = 2" "rnd F32 1 = 1" "rnd F32 0 = 0"
  by (rule rnd_repr [of _ "2 ^ 24 - 1" "- 23"]; simp add: pow2_numerals)
    (use rnd_of_int [of 2 F32] rnd_of_int [of 1 F32] in simp_all)

lemma dither_tick:
  assumes "carry_ok s" "bs_uCmd s = Fin u" "rnd F32 u = u" "0 \<le> u" "u \<le> 1"
  obtains s' where "ditherCb s = Inr s'" "carry_ok s'" "bs_uCmd s' = Fin u" "bs_sdOut s' = 0 \<or> bs_sdOut s' = 1"
    "u = 1 \<Longrightarrow> bs_sdOut s' = 1"
    "u < 1 \<Longrightarrow> \<bar>of_int (bs_sdOut s') + val (bs_sdCarry s') - val (bs_sdCarry s) - u\<bar> \<le> pow2 (- 24)"
proof -
  let ?c = "val (bs_sdCarry s)" and ?x = "fadd (bs_sdCarry s) (bs_uCmd s)"
  have c: "isfinite (bs_sdCarry s)" "rnd F32 ?c = ?c" "0 \<le> ?c" "?c < 1" using assms(1) fl_ok_rnd by (auto simp: carry_ok_def)
  have c1: "?c \<le> 1 - pow2 (- 24)" by (rule repr_below_one [OF c(2,4)])
  have big: "(2 :: rat) < pow2 128" using pow2_strict [of 1 128] by simp
  have eq: "?x = mk F32 (bs_sdCarry s = NZero \<and> bs_uCmd s = NZero) (?c + u)" using c(1) assms(2) by (simp add: gadd_finite_eq)
  have b: "0 \<le> ?c + u" "?c + u \<le> 2" using c assms by linarith+
  have x: "isfinite ?x" "0 \<le> val ?x" "val ?x \<le> 2"
    unfolding eq using mk_between [OF two_minus(4) two_minus(2) b] big by auto
  have vx: "val ?x = rnd F32 (?c + u)" using x(1) unfolding eq by (rule val_mk)
  have u1: "val ?x \<le> 2 - 2 * pow2 (- 24)" if "u < 1"
    unfolding vx by (rule rnd_le_repr [OF _ two_minus(1)]) (use repr_below_one [OF assms(3) that] c1 in linarith)
  have ge1: "1 \<le> val ?x" if "u = 1" unfolding vx by (rule rnd_ge_repr [OF _ two_minus(3)]) (use that c in simp)
  let ?n = "trunc_int ?x"
  have n: "?n = \<lfloor>val ?x\<rfloor>" using x(2) by (simp add: trunc_int_def)
  have nr: "0 \<le> ?n" "?n \<le> 2" using x(2,3) unfolding n by (simp, linarith)
  have cast: "cast_int (- (2 ^ 31)) (2 ^ 31 - 1) ?x = Inr ?n" using x(1) nr by (simp add: cast_int_def)
  have fr: "isfinite (fsub ?x (to_float ?n))" "val (fsub ?x (to_float ?n)) = val ?x - of_int ?n"
    using frac_exact [of ?x F32] x(1) nr by simp_all
  let ?out = "max 0 (min 1 ?n)"
  obtain s' where s': "ditherCb s = Inr s'" "bs_sdCarry s' = fsub ?x (to_float ?n)" "bs_uCmd s' = bs_uCmd s" "bs_sdOut s' = ?out"
    using cast by (auto simp: ditherCb_def bs_setPeriodTicks_def Let_def)
  have r: "val ?x - of_int ?n < 1" "0 \<le> val ?x - of_int ?n" unfolding n by linarith+
  have ok: "carry_ok s'" unfolding carry_ok_def s'(2) using fr r by simp
  have o1: "u = 1 \<Longrightarrow> ?out = 1" using ge1 n by (auto simp: le_floor_iff)
  have "\<bar>of_int ?out + val (bs_sdCarry s') - ?c - u\<bar> \<le> pow2 (- 24)" if "u < 1"
  proof -
    have "val ?x < 2" using u1 [OF that] by (simp add: pow2_numerals)
    then have "?n < 2" unfolding n by linarith
    then have "?out = ?n" using nr by linarith
    then have "of_int ?out + val (bs_sdCarry s') - ?c - u = rnd F32 (?c + u) - (?c + u)" using s'(2) fr(2) vx by simp
    moreover have "\<bar>rnd F32 (?c + u) - (?c + u)\<bar> \<le> pow2 (- 24)"
    proof (cases "?c + u = 0")
      case False
      have "\<bar>?c + u\<bar> < pow2 1" using b c that by simp
      then have "ulp_exp F32 (?c + u) \<le> 1 - 24" using ulp_exp_le [OF False, of 1 F32] by simp
      then have "pow2 (ulp_exp F32 (?c + u)) / 2 \<le> pow2 (- 24)" using pow2_mono [of "ulp_exp F32 (?c + u)" "- 23"] by (simp add: pow2_numerals)
      then show ?thesis using rnd_err [of F32 "?c + u"] by linarith
    qed simp
    ultimately show ?thesis by simp
  qed
  moreover have "?out = 0 \<or> ?out = 1" by linarith
  ultimately show thesis using that [OF s'(1) ok] s'(2-4) assms(2) o1 by simp
qed



section \<open>Bursts of bad beacons\<close>

fun est_run :: "(fl \<times> int) list \<Rightarrow> bsync \<Rightarrow> bsync res" where
  "est_run [] s = Inr s"
| "est_run ((m, w) # xs) s = bindE (est_update m w s) (est_run xs)"

lemma est_run_append: "est_run (xs @ ys) s = bindE (est_run xs s) (est_run ys)"
  by (induction xs arbitrary: s) (auto split: sum.splits)

definition late :: "int \<Rightarrow> bs_est \<Rightarrow> bool" where
  "late w e = (fgt (to_double (w - es_t e)) (Fin 1000))"

definition outlier :: "bs_est \<Rightarrow> fl \<times> int \<Rightarrow> bool" where
  "outlier e = (\<lambda>(m, w). late w e \<and> fgt (fabs (dsub m (est_pred w e))) (Fin 500))"

lemma u8_next: "unat (w :: u8) < 255 \<Longrightarrow> unat (w + 1) = unat w + 1"
  by (simp add: unat_word_ariths(1))

lemma late_forward: "late w e \<Longrightarrow> \<not> flt (to_double (w - es_t e)) (Fin 0)"
proof
  assume a: "late w e" "flt (to_double (w - es_t e)) (Fin 0)"
  have "flt (Fin 0) (Fin 1000)" by simp
  then have "flt (to_double (w - es_t e)) (Fin 1000)" using flt_trans [OF a(2)] by blast
  then show False using a(1) flt_asym by (auto simp: late_def)
qed

lemma outliers_kept:
  assumes "bs_estInit s" "\<not> bs_revaling s" "unat (bs_rejStreak s) + length xs \<le> 7" "\<forall>x\<in>set xs. outlier (bs_est s) x"
  shows "\<exists>s'. est_run xs s = Inr s' \<and> bs_est s' = bs_est s \<and> bs_estInit s' \<and> \<not> bs_revaling s' \<and>
    unat (bs_rejStreak s') = unat (bs_rejStreak s) + length xs \<and> bs_revalBuf s' = bs_revalBuf s"
  using assms
proof (induction xs arbitrary: s)
  case (Cons x xs)
  obtain m w where x: "x = (m, w)" by force
  have o: "late w (bs_est s)" "fgt (fabs (dsub m (est_pred w (bs_est s)))) (Fin 500)" using Cons.prems(4) by (auto simp: x outlier_def)
  have n: "unat (bs_rejStreak s + 1) = unat (bs_rejStreak s) + 1" using Cons.prems(3) by (intro u8_next) simp
  then have l: "\<not> 8 \<le> bs_rejStreak s + 1" using Cons.prems(3) by (simp add: word_le_nat_alt)
  let ?s = "s\<lparr>bs_nRejected := bs_nRejected s + 1, bs_rejStreak := bs_rejStreak s + 1\<rparr>"
  have "est_update m w s = Inr ?s"
    using o late_forward [OF o(1)] l Cons.prems(1,2) by (simp add: est_update_def est_track_def late_def)
  moreover have "\<exists>s'. est_run xs ?s = Inr s' \<and> bs_est s' = bs_est ?s \<and> bs_estInit s' \<and> \<not> bs_revaling s' \<and>
    unat (bs_rejStreak s') = unat (bs_rejStreak ?s) + length xs \<and> bs_revalBuf s' = bs_revalBuf ?s"
    by (rule Cons.IH) (use Cons.prems n in auto)
  ultimately show ?case using n by (auto simp: x)
qed simp

lemma eighth_outlier:
  assumes "bs_estInit s" "\<not> bs_revaling s" "unat (bs_rejStreak s) = 7" "outlier (bs_est s) (m, w)"
  shows "\<exists>s'. est_update m w s = Inr s' \<and> bs_est s' = bs_est s \<and> bs_estInit s' \<and> bs_revaling s' \<and> bs_revalCnt s' = 0 \<and>
    bs_revalBuf s' = bs_revalBuf s"
proof -
  have o: "late w (bs_est s)" "fgt (fabs (dsub m (est_pred w (bs_est s)))) (Fin 500)" using assms(4) by (auto simp: outlier_def)
  have "unat (7 :: u8) = 7" by simp
  then have "bs_rejStreak s = 7" using assms(3) word_unat_eq_iff by metis
  then show ?thesis using o late_forward [OF o(1)] assms(1,2) by (simp add: est_update_def est_track_def late_def)
qed

lemma reval_fill:
  assumes "bs_estInit s" "bs_revaling s" "length (bs_revalBuf s) = REVAL_N" "unat (bs_revalCnt s) + length ys < REVAL_N"
    "\<forall>(m, w)\<in>set ys. late w (bs_est s)"
  shows "\<exists>s'. est_run ys s = Inr s' \<and> bs_est s' = bs_est s \<and> bs_estInit s' \<and> bs_revaling s' \<and>
    unat (bs_revalCnt s') = unat (bs_revalCnt s) + length ys \<and> length (bs_revalBuf s') = REVAL_N \<and>
    take (unat (bs_revalCnt s')) (bs_revalBuf s') = take (unat (bs_revalCnt s)) (bs_revalBuf s) @ map fst ys"
  using assms
proof (induction ys arbitrary: s)
  case (Cons y ys)
  obtain m w where y: "y = (m, w)" by force
  have o: "late w (bs_est s)" using Cons.prems(5) by (simp add: y)
  have small: "unat (bs_revalCnt s) + 1 < 15" using Cons.prems(4) by (simp add: REVAL_N_def)
  have n: "unat (bs_revalCnt s + 1) = unat (bs_revalCnt s) + 1" using small by (intro u8_next) simp
  let ?s = "s\<lparr>bs_revalBuf := (bs_revalBuf s)[unat (bs_revalCnt s) := m], bs_revalCnt := bs_revalCnt s + 1\<rparr>"
  have "est_update m w s = Inr ?s"
    using o late_forward [OF o] n small Cons.prems(1,2) by (simp add: est_update_def est_reval_def late_def REVAL_N_def)
  moreover have "\<exists>s'. est_run ys ?s = Inr s' \<and> bs_est s' = bs_est ?s \<and> bs_estInit s' \<and> bs_revaling s' \<and>
    unat (bs_revalCnt s') = unat (bs_revalCnt ?s) + length ys \<and> length (bs_revalBuf s') = REVAL_N \<and>
    take (unat (bs_revalCnt s')) (bs_revalBuf s') = take (unat (bs_revalCnt ?s)) (bs_revalBuf ?s) @ map fst ys"
    by (rule Cons.IH) (use Cons.prems n in auto)
  moreover have "take (unat (bs_revalCnt ?s)) (bs_revalBuf ?s) = take (unat (bs_revalCnt s)) (bs_revalBuf s) @ [m]"
    using n small Cons.prems(3) by (simp add: take_Suc_conv_app_nth REVAL_N_def)
  ultimately show ?case using n by (auto simp: y)
qed simp



end
