(* ===== verification/Float16.thy ===== *)
theory Float16
  imports Floats
begin

text \<open>
  \<open>src/src/math/float16.*\<close>: the half precision numbers in which days of the energy meter and broadcast values are kept.
  A value is its 16 bits; \<open>f32tof16\<close> reads the bits of a \<open>float\<close>, \<open>f16tof32\<close> computes in \<open>double\<close>.
\<close>

unbundle bit_operations_syntax

section \<open>Bits of a \<open>float\<close>\<close>

definition f32_bits :: "fl \<Rightarrow> u32" where
  \<comment> \<open>\<open>memcpy\<close> of a \<open>float\<close>\<close>
  "f32_bits x = (case x of
     NaN \<Rightarrow> 0x7FC00000
   | Inf s \<Rightarrow> if s then 0xFF800000 else 0x7F800000
   | NZero \<Rightarrow> 0x80000000
   | Fin q \<Rightarrow> if q = 0 then 0
       else let u = ulp_exp F32 q; m = \<lfloor>\<bar>q\<bar> / pow2 u\<rfloor>; e = (if m < 2 ^ 23 then 0 else u + 149)
            in word_of_int ((if q < 0 then 2 ^ 31 else 0) + e * 2 ^ 23 + m))"

section \<open>Conversions\<close>

definition f32tof16 :: "u32 \<Rightarrow> u16 res" where
  "f32tof16 t =
    (let man = ucast (drop_bit 12 (t AND 0x007FFFFF)) :: u16;
         e = uint (drop_bit 23 (t AND 0x7F800000));
         sg = (if t AND 0x80000000 \<noteq> 0 then 0x8000 else 0) :: u16
     in if t AND 0x7FFFFFFF = 0 then Inr sg
        else if e = 0 then Inr sg
        else if e = 0xFF then Inr (if man \<noteq> 0 then 0xFE00 else sg OR 0x7C00)
        else let e1 = e - 127 + 15
             in if e1 > 30 then Inr (sg OR 0x7C00)
                else if e1 < - 38 then Inr sg
                else if e1 \<le> 0 then
                  (if e1 + 14 < 0 then Inl Undefined   \<comment> \<open>a shift by a negative count\<close>
                   else Inr (sg OR drop_bit 1 (drop_bit (nat (e1 + 14)) man + 1)))
                else Inr (sg OR push_bit 10 (word_of_int e1) OR drop_bit 1 (man + 1)))"

fun f16_man :: "nat \<Rightarrow> u16 \<Rightarrow> fl \<Rightarrow> fl" where
  \<comment> \<open>the loop from bit \<open>i - 1\<close> down to bit 0\<close>
  "f16_man 0 man f = f"
| "f16_man (Suc i) man f =
    (let f1 = dmul f (Fin 2) in f16_man i man (if man AND push_bit i 1 \<noteq> 0 then dadd f1 (Fin 1) else f1))"

definition f16tof32 :: "u16 \<Rightarrow> fl" where
  "f16tof32 w =
    (let sgn = (w AND 0x8000 \<noteq> 0); e = uint (drop_bit 10 (w AND 0x7C00)); man = w AND 0x03FF
     in if w AND 0x7FFF = 0 then Fin 0
        else if e = 0x1F then (if man = 0 then Inf sgn else NaN)
        else let f = f16_man 10 man (Fin (if e = 0 then 0 else 1));
                 f1 = dmul f (Fin (pow2 (e - 25)));
                 f2 = (if e = 0 then dmul f1 (Fin (pow2 (- 13))) else f1)
             in cvt F32 (if sgn then fneg f2 else f2))"

definition float16_of :: "fl \<Rightarrow> u16 res" where
  \<comment> \<open>the constructor: the \<open>double\<close> argument is passed as a \<open>float\<close>\<close>
  "float16_of x = f32tof16 (f32_bits (cvt F32 x))"

section \<open>Operators\<close>

definition f16_gt :: "u16 \<Rightarrow> u16 \<Rightarrow> bool" where
  "f16_gt a b =
    (if a AND 0x8000 \<noteq> 0 \<and> b AND 0x8000 \<noteq> 0 then a < b
     else if a AND 0x8000 \<noteq> 0 then False else if b AND 0x8000 \<noteq> 0 then True else a > b)"

definition f16_ge :: "u16 \<Rightarrow> u16 \<Rightarrow> bool" where
  "f16_ge a b =
    (if a AND 0x8000 \<noteq> 0 \<and> b AND 0x8000 \<noteq> 0 then a \<le> b
     else if a AND 0x8000 \<noteq> 0 then False else if b AND 0x8000 \<noteq> 0 then True else a \<ge> b)"

definition f16_lt :: "u16 \<Rightarrow> u16 \<Rightarrow> bool" where
  "f16_lt a b =
    (if a AND 0x8000 \<noteq> 0 \<and> b AND 0x8000 \<noteq> 0 then a > b
     else if a AND 0x8000 \<noteq> 0 then True else if b AND 0x8000 \<noteq> 0 then False else a < b)"

definition f16_le :: "u16 \<Rightarrow> u16 \<Rightarrow> bool" where
  "f16_le a b =
    (if a AND 0x8000 \<noteq> 0 \<and> b AND 0x8000 \<noteq> 0 then a \<ge> b
     else if a AND 0x8000 \<noteq> 0 then True else if b AND 0x8000 \<noteq> 0 then False else a \<le> b)"

definition f16_neg :: "u16 \<Rightarrow> u16" where "f16_neg a = a XOR 0x8000"

definition f16_add :: "u16 \<Rightarrow> u16 \<Rightarrow> u16 res" where "f16_add a b = float16_of (fadd (f16tof32 a) (f16tof32 b))"
definition f16_sub :: "u16 \<Rightarrow> u16 \<Rightarrow> u16 res" where "f16_sub a b = float16_of (fsub (f16tof32 a) (f16tof32 b))"
definition f16_mul :: "u16 \<Rightarrow> u16 \<Rightarrow> u16 res" where "f16_mul a b = float16_of (fmul (f16tof32 a) (f16tof32 b))"
definition f16_div :: "u16 \<Rightarrow> u16 \<Rightarrow> u16 res" where "f16_div a b = float16_of (fdiv (f16tof32 a) (f16tof32 b))"

definition f16_sign :: "u16 \<Rightarrow> int" where
  "f16_sign a = (if a AND 0x8000 \<noteq> 0 then - 1 else if a AND 0xFFFF \<noteq> 0 then 1 else 0)"

definition f16_isZero :: "u16 \<Rightarrow> bool" where "f16_isZero a = (a AND 0x7FFF = 0)"

definition f16_isInf :: "u16 \<Rightarrow> bool" where "f16_isInf a = (a = 0x7C00 \<or> a = 0xFC00)"

end
