(* ===== verification/Float16Props.thy ===== *)
theory Float16Props
  imports Float16
begin

text \<open>Decoding of half precision numbers and the round trip of \<open>float\<close> values through them.\<close>

section \<open>Bits of sums\<close>

lemma or_add_int: "0 \<le> (r :: int) \<Longrightarrow> r < 2 ^ n \<Longrightarrow> push_bit n a OR r = a * 2 ^ n + r"
proof -
  assume r: "0 \<le> r" "r < 2 ^ n"
  then have t: "take_bit n r = r" by (simp add: take_bit_int_eq_self)
  have "push_bit n a + take_bit n r = push_bit n a OR take_bit n r"
    by (rule disjunctive_add) (auto simp: bit_push_bit_iff bit_take_bit_iff)
  then show ?thesis by (simp add: t push_bit_eq_mult)
qed

lemma or_exp_int: "push_bit n (a :: int) OR 2 ^ n = (a + of_bool (even a)) * 2 ^ n"
proof -
  have "push_bit n a OR push_bit n 1 = push_bit n (a OR 1)" by (rule push_bit_or [symmetric])
  then show ?thesis by (simp add: push_bit_eq_mult or_one_eq)
qed

lemma split_mod: "0 \<le> (r :: int) \<Longrightarrow> r < k \<Longrightarrow> (r + a * k) mod k = r" "0 \<le> r \<Longrightarrow> r < k \<Longrightarrow> (r + a * k) div k = a"
  by (simp_all add: mod_pos_pos_trivial div_pos_pos_trivial)

section \<open>Decoding\<close>

lemma mk64_int: "\<bar>n\<bar> < 2 ^ 53 \<Longrightarrow> mk F64 False (of_int n) = Fin (of_int n)"
proof (cases "n = 0")
  case False
  assume n: "\<bar>n\<bar> < 2 ^ 53"
  then have "\<bar>rat_of_int n\<bar> < of_int (2 ^ 53)" by (simp only: of_int_abs [symmetric] of_int_less_iff)
  also have "\<dots> \<le> pow2 1024" by (simp add: pow2_def)
  finally show ?thesis using n False rnd_of_int [of n F64] by (simp add: mk_exact)
qed simp

lemma f16_man_int:
  "0 \<le> n \<Longrightarrow> (n + 1) * 2 ^ i \<le> 2 ^ 53 - 1 \<Longrightarrow>
    f16_man i man (Fin (of_int n)) = Fin (of_int (n * 2 ^ i + uint (take_bit i man)))"
proof (induction i arbitrary: n)
  case (Suc i)
  let ?n = "2 * n + of_bool (bit man i)"
  have "(2 * n + 2) * 1 \<le> (2 * n + 2) * 2 ^ i" using Suc.prems(1) by (intro mult_left_mono) auto
  then have l: "2 * n + 2 \<le> 2 ^ 53 - 1" using Suc.prems(2) by (simp add: algebra_simps)
  have d: "dmul (Fin (of_int n)) (Fin 2) = Fin (of_int (2 * n))"
    using mk64_int [of "2 * n"] Suc.prems(1) l by (simp add: gmul_def mult.commute)
  have a: "dadd (Fin (of_int (2 * n))) (Fin 1) = Fin (of_int (2 * n + 1))"
    using mk64_int [of "2 * n + 1"] Suc.prems(1) l by (simp add: gadd_def)
  have b: "man AND push_bit i 1 \<noteq> 0 \<longleftrightarrow> bit man i" by (simp add: bit_iff_and_push_bit_not_eq_0)
  have "f16_man (Suc i) man (Fin (of_int n)) = f16_man i man (Fin (of_int ?n))"
    unfolding f16_man.simps Let_def d b by (simp add: a del: of_int_add of_int_mult)
  also have "\<dots> = Fin (of_int (?n * 2 ^ i + uint (take_bit i man)))"
  proof (rule Suc.IH)
    have "(?n + 1) * 2 ^ i \<le> (2 * n + 2) * 2 ^ i" by (intro mult_right_mono) auto
    moreover have "(2 * n + 2) * 2 ^ i = (n + 1) * 2 ^ Suc i" by simp
      ultimately show "(?n + 1) * 2 ^ i \<le> 2 ^ 53 - 1" using Suc.prems(2) by linarith
  qed (use Suc.prems in simp)
  also have "?n * 2 ^ i + uint (take_bit i man) = n * 2 ^ Suc i + uint (take_bit (Suc i) man)"
    using bit_imp_le_length [of man i]
    by (simp add: unsigned_take_bit_eq take_bit_Suc_from_most bit_uint_iff algebra_simps of_bool_def)
  finally show ?case .
qed simp

lemma scaled_exact:
  assumes "\<bar>n\<bar> < 2 ^ nat (prec f)" "n \<noteq> 0" "emin f \<le> k" "k + prec f \<le> emax f"
  shows "mk f z (of_int n * pow2 k) = Fin (of_int n * pow2 k)"
proof (rule mk_exact)
  show "rnd f (of_int n * pow2 k) = of_int n * pow2 k" by (rule rnd_repr [OF HOL.refl assms(1,3)])
  have "rat_of_int \<bar>n\<bar> < of_int (2 ^ nat (prec f))" using assms(1) by (simp only: of_int_less_iff)
  then have "\<bar>rat_of_int n\<bar> < pow2 (prec f)" unfolding pow2_prec by simp
  then have "\<bar>rat_of_int n\<bar> * pow2 k < pow2 (prec f) * pow2 k" by (rule mult_strict_right_mono) simp
  also have "\<dots> \<le> pow2 (emax f)" using assms(4) by (simp add: pow2_add [symmetric] add.commute)
  finally show "\<bar>of_int n * pow2 k\<bar> < pow2 (emax f)" by (simp add: abs_mult)
qed (use assms in simp)

lemma f16tof32_normal:
  assumes "uint w = s * 2 ^ 15 + e * 2 ^ 10 + m" "s = 0 \<or> s = 1" "1 \<le> e" "e \<le> 30" "0 \<le> m" "m < 2 ^ 10"
  shows "f16tof32 w = Fin ((if s = 1 then - 1 else 1) * (of_int (2 ^ 10 + m) * pow2 (e - 25)))"
proof -
  have "uint w = m + (32 * s + e) * 2 ^ 10" using assms(1) by simp
  then have m: "uint w mod 2 ^ 10 = m" and e0: "uint w div 2 ^ 10 = 32 * s + e" using split_mod [OF assms(5,6)] by metis+
  have "uint w = (e * 2 ^ 10 + m) + s * 2 ^ 15" "e * 2 ^ 10 + m < 2 ^ 15" "0 \<le> e * 2 ^ 10 + m" using assms by simp_all
  then have r: "uint w mod 2 ^ 15 = e * 2 ^ 10 + m" and s0: "uint w div 2 ^ 15 = s" using split_mod by metis+
  have man: "uint (w AND 0x3FF) = m"
  proof -
    have "w AND 0x3FF = take_bit 10 w" by (simp add: take_bit_eq_mask mask_eq_exp_minus_1)
    then have "uint (w AND 0x3FF) = uint w mod 2 ^ 10" by (metis take_bit_eq_mod unsigned_take_bit_eq)
    then show ?thesis using m by simp
  qed
  have e: "uint (drop_bit 10 (w AND 0x7C00)) = e"
  proof -
    have "drop_bit 10 (w AND 0x7C00) = take_bit 5 (drop_bit 10 w)"
      by (simp add: take_bit_eq_mask mask_eq_exp_minus_1 drop_bit_and)
    then have "uint (drop_bit 10 (w AND 0x7C00)) = uint (drop_bit 10 w) mod 2 ^ 5"
      by (metis take_bit_eq_mod unsigned_take_bit_eq)
    moreover have "uint (drop_bit 10 w) = uint w div 2 ^ 10" by (simp add: drop_bit_eq_div uint_div)
    ultimately have "uint (drop_bit 10 (w AND 0x7C00)) = (uint w div 2 ^ 10) mod 2 ^ 5" by simp
    then show ?thesis using assms(2-4) unfolding e0 by auto
  qed
  have s: "w AND 0x8000 \<noteq> 0 \<longleftrightarrow> s = 1"
  proof -
    have "w AND 0x8000 \<noteq> 0 \<longleftrightarrow> bit w 15" using bit_iff_and_push_bit_not_eq_0 [of w 15] by (simp add: push_bit_eq_mult)
    also have "\<dots> \<longleftrightarrow> bit (uint w) 15" by (simp add: bit_uint_iff)
    also have "\<dots> \<longleftrightarrow> odd (uint w div 2 ^ 15)" by (simp only: bit_iff_odd)
    also have "\<dots> \<longleftrightarrow> s = 1" using assms(2) unfolding s0 by auto
    finally show ?thesis .
  qed
  have nz: "w AND 0x7FFF \<noteq> 0"
  proof
    assume "w AND 0x7FFF = 0"
    then have "take_bit 15 w = 0" by (simp add: take_bit_eq_mask mask_eq_exp_minus_1)
    then have "uint w mod 2 ^ 15 = 0" by (metis take_bit_eq_mod unsigned_take_bit_eq unsigned_0)
    then show False using assms(3,5) unfolding r by simp
  qed
  have f: "f16_man 10 (w AND 0x3FF) (Fin 1) = Fin (of_int (2 ^ 10 + m))"
  proof -
    have "uint (take_bit 10 (w AND 0x3FF)) = m"
    proof -
      have "take_bit 10 m = m" using assms(5,6) by (simp add: take_bit_int_eq_self)
      then show ?thesis using man by (metis unsigned_take_bit_eq)
    qed
    then show ?thesis using f16_man_int [of 1 10 "w AND 0x3FF"] by simp
  qed
  have i: "Fin (if e = 0 then 0 else 1) = Fin 1" using assms(3) by simp
  have n: "\<bar>2 ^ 10 + m\<bar> < 2 ^ 53" "\<bar>2 ^ 10 + m\<bar> < 2 ^ 24" "2 ^ 10 + m \<noteq> 0" "\<bar>- (2 ^ 10 + m)\<bar> < 2 ^ 24" using assms by simp_all
  let ?v = "of_int (2 ^ 10 + m) * pow2 (e - 25)"
  have "dmul (Fin (of_int (2 ^ 10 + m))) (Fin (pow2 (e - 25))) = mk F64 False ?v"
    using assms(5) by (simp add: gmul_def less_imp_not_less [OF pow2_pos])
  also have "\<dots> = Fin ?v" by (rule scaled_exact) (use n assms in simp_all)
  finally have v: "dmul (Fin (of_int (2 ^ 10 + m))) (Fin (pow2 (e - 25))) = Fin ?v" .
  have c: "mk F32 False ?v = Fin ?v" by (rule scaled_exact) (use n assms in simp_all)
  have c': "mk F32 False (of_int (- (2 ^ 10 + m)) * pow2 (e - 25)) = Fin (of_int (- (2 ^ 10 + m)) * pow2 (e - 25))"
    by (rule scaled_exact) (use n assms in simp_all)
  have vnz: "?v \<noteq> 0" using n(3) by (simp del: of_int_add)
  have "mk F32 False (- ?v) = Fin (- ?v)" using c' by (simp only: of_int_minus mult_minus_left)
  then have "cvt F32 (fneg (Fin ?v)) = Fin (- ?v)" using vnz by (simp add: cvt_def del: of_int_add)
  moreover have "cvt F32 (Fin ?v) = Fin ?v" using c by (simp add: cvt_def)
  ultimately show ?thesis
    using nz assms(3,4) unfolding f16tof32_def Let_def e s i f v
    by (simp del: of_int_add fneg.simps)
qed

section \<open>Encoding\<close>

lemma uint_drop: "uint (drop_bit a w) = uint (w :: 'a::len word) div 2 ^ a"
proof -
  have "uint (drop_bit a w) = drop_bit a (uint w)"
    by (simp add: unsigned_drop_bit_eq take_bit_int_eq_self [OF uint_ge_0 uint_lt2p])
  then show ?thesis by (simp only: drop_bit_eq_div)
qed

lemma word_field: "uint (take_bit b (drop_bit a w)) = (uint (w :: 'a::len word) div 2 ^ a) mod 2 ^ b"
  by (metis take_bit_eq_mod unsigned_take_bit_eq uint_drop)

lemma f32tof16_normal:
  assumes "uint t = s * 2 ^ 31 + e * 2 ^ 23 + m" "s = 0 \<or> s = 1" "113 \<le> e" "e \<le> 142" "0 \<le> m" "m < 2 ^ 23"
    and r: "r = (m div 2 ^ 12 + 1) div 2"
  shows "\<exists>w. f32tof16 t = Inr w \<and> uint w = s * 2 ^ 15 +
    (if r < 2 ^ 10 then (e - 112) * 2 ^ 10 + r else (e - 112 + of_bool (even e)) * 2 ^ 10)"
proof -
  have u: "uint t = m + (256 * s + e) * 2 ^ 23" "uint t = (e * 2 ^ 23 + m) + s * 2 ^ 31" using assms(1) by simp_all
  have f: "uint t mod 2 ^ 23 = m" "uint t div 2 ^ 23 = 256 * s + e" using split_mod [OF assms(5,6)] u(1) by metis+
  have "0 \<le> e * 2 ^ 23 + m" "e * 2 ^ 23 + m < 2 ^ 31" using assms by simp_all
  then have g: "uint t mod 2 ^ 31 = e * 2 ^ 23 + m" "uint t div 2 ^ 31 = s" using split_mod u(2) by metis+
  let ?man = "ucast (drop_bit 12 (t AND 0x007FFFFF)) :: u16"
  have man: "uint ?man = m div 2 ^ 12"
  proof -
    have "t AND 0x007FFFFF = take_bit 23 t" by (simp add: take_bit_eq_mask mask_eq_exp_minus_1)
    then have "drop_bit 12 (t AND 0x007FFFFF) = take_bit 11 (drop_bit 12 t)" by (simp add: drop_bit_take_bit)
    then have "uint (drop_bit 12 (t AND 0x007FFFFF)) = (uint t div 2 ^ 12) mod 2 ^ 11" by (simp only: word_field)
    moreover have "take_bit 11 (drop_bit 12 (uint t)) = drop_bit 12 (take_bit 23 (uint t))" by (simp add: drop_bit_take_bit)
    then have "(uint t div 2 ^ 12) mod 2 ^ 11 = (uint t mod 2 ^ 23) div 2 ^ 12" by (simp only: take_bit_eq_mod drop_bit_eq_div)
    ultimately have "uint (drop_bit 12 (t AND 0x007FFFFF)) = m div 2 ^ 12" using f(1) by simp
    moreover have "take_bit 16 (m div 2 ^ 12) = m div 2 ^ 12" using assms(5,6) by (simp add: take_bit_int_eq_self)
    ultimately show ?thesis by (simp add: unsigned_ucast_eq)
  qed
  have e: "uint (drop_bit 23 (t AND 0x7F800000)) = e"
  proof -
    have "drop_bit 23 (t AND 0x7F800000) = take_bit 8 (drop_bit 23 t)"
      by (simp add: take_bit_eq_mask mask_eq_exp_minus_1 drop_bit_and)
    then have "uint (drop_bit 23 (t AND 0x7F800000)) = (uint t div 2 ^ 23) mod 2 ^ 8" by (simp only: word_field)
    then show ?thesis using split_mod(1) [of e "2 ^ 8" s] assms(3,4) unfolding f(2) by (simp add: algebra_simps)
  qed
  have sg: "t AND 0x80000000 \<noteq> 0 \<longleftrightarrow> s = 1"
  proof -
    have "t AND 0x80000000 \<noteq> 0 \<longleftrightarrow> bit t 31" using bit_iff_and_push_bit_not_eq_0 [of t 31] by (simp add: push_bit_eq_mult)
    also have "\<dots> \<longleftrightarrow> bit (uint t) 31" by (simp add: bit_uint_iff)
    also have "\<dots> \<longleftrightarrow> odd (uint t div 2 ^ 31)" by (simp only: bit_iff_odd)
    also have "\<dots> \<longleftrightarrow> s = 1" using assms(2) unfolding g(2) by auto
    finally show ?thesis .
  qed
  have nz: "t AND 0x7FFFFFFF \<noteq> 0"
  proof
    assume "t AND 0x7FFFFFFF = 0"
    then have "take_bit 31 t = 0" by (simp add: take_bit_eq_mask mask_eq_exp_minus_1)
    then have "uint t mod 2 ^ 31 = 0" by (metis take_bit_eq_mod unsigned_take_bit_eq unsigned_0)
    then show False using assms(3,5) unfolding g(1) by simp
  qed
  let ?sg = "(if t AND 0x80000000 \<noteq> 0 then 0x8000 else 0) :: u16"
  let ?w = "?sg OR push_bit 10 (word_of_int (e - 112)) OR drop_bit 1 (?man + 1)"
  have w: "f32tof16 t = Inr ?w"
  proof -
    have c: "e - 127 + 15 = e - 112" "e \<noteq> 0" "e \<noteq> 0xFF" "\<not> 30 < e - 112" "\<not> e - 112 < - 38" "\<not> e - 112 \<le> 0"
      using assms(3,4) by simp_all
    show ?thesis unfolding f32tof16_def Let_def e by (simp only: c nz if_False)
  qed
  have m: "0 \<le> m div 2 ^ 12" "m div 2 ^ 12 < 2 ^ 11" using assms(5,6) by simp_all
  have rb: "0 \<le> r" "r \<le> 2 ^ 10" using m unfolding r by simp_all
  have "uint (?man + 1) = m div 2 ^ 12 + 1" using man m by (simp add: uint_word_ariths)
  then have rd: "uint (drop_bit 1 (?man + 1)) = r" unfolding r by (simp only: uint_drop power_one_right)
  have k: "0 \<le> e - 112" "e - 112 \<le> 30" using assms(3,4) by simp_all
  have ee: "uint (push_bit 10 (word_of_int (e - 112) :: u16)) = push_bit 10 (e - 112)"
  proof -
    have "uint (word_of_int (e - 112) :: u16) = e - 112" unfolding uint_word_of_int_eq using k by (simp add: take_bit_int_eq_self)
    moreover have "take_bit 16 (push_bit 10 (e - 112)) = push_bit 10 (e - 112)"
      using k by (simp add: take_bit_int_eq_self push_bit_eq_mult)
    ultimately show ?thesis by (simp only: unsigned_push_bit_eq) simp
  qed
  have "uint ?sg = push_bit 15 s" using assms(2) sg by (auto simp: push_bit_eq_mult)
  then have uw: "uint ?w = push_bit 15 s OR (push_bit 10 (e - 112) OR r)"
    unfolding unsigned_or_eq rd ee by (simp only: or.assoc)
  let ?x = "if r < 2 ^ 10 then (e - 112) * 2 ^ 10 + r else (e - 112 + of_bool (even e)) * 2 ^ 10"
  have eq: "push_bit 10 (e - 112) OR r = ?x"
  proof (cases "r < 2 ^ 10")
    case False
    then have "r = 2 ^ 10" using rb by simp
    then show ?thesis using or_exp_int [of 10 "e - 112"] by simp
  qed (use or_add_int rb in simp)
  have b: "0 \<le> ?x" "?x < 2 ^ 15" using k rb by (auto simp: of_bool_def)
  have "uint ?w = s * 2 ^ 15 + ?x" unfolding uw eq by (rule or_add_int [OF b])
  then show ?thesis using w by blast
qed

section \<open>The round trip\<close>

lemma f32_bits_normal:
  assumes "rnd F32 q = q" "pow2 k \<le> \<bar>q\<bar>" "\<bar>q\<bar> < pow2 (k + 1)" "- 126 \<le> k" "k \<le> 127"
  obtains n where "2 ^ 23 \<le> n" "n < 2 ^ 24" "\<bar>q\<bar> = of_int n * pow2 (k - 23)"
    "uint (f32_bits (Fin q)) = of_bool (q < 0) * 2 ^ 31 + (k + 127) * 2 ^ 23 + (n - 2 ^ 23)"
proof -
  have "0 < \<bar>q\<bar>" using assms(2) pow2_pos [of k] by linarith
  then have q0: "q \<noteq> 0" by simp
  have il: "ilog2 \<bar>q\<bar> = k" using ilog2_unique assms(2,3) by simp
  have u: "ulp_exp F32 q = k - 23" using assms(4) by (simp add: ulp_exp_def il)
  have "rnd F32 \<bar>q\<bar> = \<bar>q\<bar>" using assms(1) by (cases "0 \<le> q") (simp_all add: rnd_minus)
  then have "of_int (rne (\<bar>q\<bar> / pow2 (k - 23))) * pow2 (k - 23) = \<bar>q\<bar>"
    using q0 assms(4) by (simp add: rnd_def ulp_exp_def il)
  then obtain n where n: "\<bar>q\<bar> = of_int n * pow2 (k - 23)" by metis
  have "pow2 k = of_int (2 ^ 23) * pow2 (k - 23)" "pow2 (k + 1) = of_int (2 ^ 24) * pow2 (k - 23)"
    using pow2_add [of 23 "k - 23"] pow2_add [of 24 "k - 23"] by (simp_all add: pow2_nat add.commute)
  then have "rat_of_int (2 ^ 23) * pow2 (k - 23) \<le> of_int n * pow2 (k - 23)" "of_int n * pow2 (k - 23) < of_int (2 ^ 24) * pow2 (k - 23)"
    using assms(2,3) n by simp_all
  then have b: "2 ^ 23 \<le> n" "n < 2 ^ 24"
    by (simp_all only: mult_le_cancel_right_pos [OF pow2_pos] mult_less_cancel_right_pos [OF pow2_pos] of_int_le_iff of_int_less_iff)
  have fl: "\<lfloor>\<bar>q\<bar> / pow2 (k - 23)\<rfloor> = n" by (simp add: n)
  have c: "\<not> n < 2 ^ 23" using b by simp
  have "f32_bits (Fin q) = word_of_int ((if q < 0 then 2 ^ 31 else 0) + (k - 23 + 149) * 2 ^ 23 + n)"
    by (simp only: f32_bits_def fl.case Let_def u fl q0 c if_False)
  then have "uint (f32_bits (Fin q)) = take_bit LENGTH(32) ((if q < 0 then 2 ^ 31 else 0) + (k - 23 + 149) * 2 ^ 23 + n)"
    by (simp only: uint_word_of_int_eq)
  also have "\<dots> = (if q < 0 then 2 ^ 31 else 0) + (k - 23 + 149) * 2 ^ 23 + n"
    using b assms(4,5) by (intro take_bit_int_eq_self) auto
  finally show thesis by (intro that [OF b n]) simp
qed

lemma half_up_bounds:
  fixes m :: int
  defines "a \<equiv> m div 4096" and "c \<equiv> (m div 4096 + 1) div 2"
  shows "4096 * a \<le> m" "m < 4096 * a + 4096" "2 * c \<le> a + 1" "a \<le> 2 * c"
  unfolding a_def c_def by linarith+

lemma half_up: "\<bar>((m div 4096 + 1) div 2) * 8192 - m\<bar> \<le> (4096 :: int)"
proof -
  have "4096 * a \<le> m \<Longrightarrow> m < 4096 * a + 4096 \<Longrightarrow> 2 * c \<le> a + 1 \<Longrightarrow> a \<le> 2 * c \<Longrightarrow> \<bar>c * 8192 - m\<bar> \<le> 4096" for a c :: int
    by linarith
  then show ?thesis using half_up_bounds by blast
qed

lemma half_up_full: "(m div 4096 + 1) div 2 < (1024 :: int) \<longleftrightarrow> m < 8384512"
proof -
  have "4096 * a \<le> m \<Longrightarrow> m < 4096 * a + 4096 \<Longrightarrow> 2 * c \<le> a + 1 \<Longrightarrow> a \<le> 2 * c \<Longrightarrow> c < 1024 \<longleftrightarrow> m < 8384512" for a c :: int
    by (cases "c < 1024") linarith+
  then show ?thesis using half_up_bounds by blast
qed

lemma f16_normal_roundtrip:
  assumes "rnd F32 q = q" "pow2 (- 14) \<le> \<bar>q\<bar>" "\<bar>q\<bar> < 65520"
  shows "\<exists>w. float16_of (Fin q) = Inr w \<and> \<not> f16_isZero w \<and>
    (let k = ilog2 \<bar>q\<bar>; d = f16tof32 w
     in isfinite d \<and> signbit d = (q < 0) \<and>
       (if \<bar>q\<bar> < pow2 (k + 1) - pow2 (k - 11) then \<bar>val d - q\<bar> \<le> pow2 (k - 11)
        else \<bar>val d\<bar> = (if even k then pow2 k else pow2 (k + 1))))"
proof -
  define k where "k = ilog2 \<bar>q\<bar>"
  have "0 < \<bar>q\<bar>" using assms(2) pow2_pos [of "- 14"] by linarith
  then have q0: "q \<noteq> 0" and kb: "pow2 k \<le> \<bar>q\<bar>" "\<bar>q\<bar> < pow2 (k + 1)" using ilog2_bounds unfolding k_def by auto
  have p16: "pow2 16 = 65536" "pow2 4 = 16" by (simp_all add: pow2_def)
  have "pow2 (- 14) < pow2 (k + 1)" "pow2 k < pow2 16" using assms(2,3) kb p16 by linarith+
  then have k: "- 14 \<le> k" "k \<le> 15" by simp_all
  obtain n where n: "2 ^ 23 \<le> n" "n < 2 ^ 24" "\<bar>q\<bar> = of_int n * pow2 (k - 23)"
    "uint (f32_bits (Fin q)) = of_bool (q < 0) * 2 ^ 31 + (k + 127) * 2 ^ 23 + (n - 2 ^ 23)"
    using f32_bits_normal [OF assms(1) kb] k by auto
  have "pow2 16 < pow2 (emax F32)" by (rule pow2_strict) simp
  then have c: "cvt F32 (Fin q) = Fin q" using assms(1,3) q0 p16 by (simp add: cvt_def mk_exact)
  define r where "r = ((n - 2 ^ 23) div 2 ^ 12 + 1) div 2"
  have rb: "0 \<le> r" "r \<le> 2 ^ 10" using n(1,2) unfolding r_def by simp_all
  obtain w where w: "f32tof16 (f32_bits (Fin q)) = Inr w" "uint w = of_bool (q < 0) * 2 ^ 15 +
      (if r < 2 ^ 10 then (k + 15) * 2 ^ 10 + r else (k + 15 + of_bool (odd k)) * 2 ^ 10)"
    using f32tof16_normal [OF n(4), of r] n(1,2) k r_def by auto
  have p: "pow2 (k + 1) = of_int (2 ^ 24) * pow2 (k - 23)" "pow2 (k - 11) = of_int (2 ^ 12) * pow2 (k - 23)"
    "pow2 (k - 10) = of_int (2 ^ 13) * pow2 (k - 23)"
    using pow2_add [of 24 "k - 23"] pow2_add [of 12 "k - 23"] pow2_add [of 13 "k - 23"] by (simp_all add: pow2_nat add.commute)
  have "\<bar>q\<bar> < pow2 (k + 1) - pow2 (k - 11) \<longleftrightarrow> rat_of_int n * pow2 (k - 23) < of_int (2 ^ 24 - 2 ^ 12) * pow2 (k - 23)"
    unfolding n(3) p by (simp add: left_diff_distrib)
  also have "\<dots> \<longleftrightarrow> n < 2 ^ 24 - 2 ^ 12" by (simp only: mult_less_cancel_right_pos [OF pow2_pos] of_int_less_iff)
  also have "\<dots> \<longleftrightarrow> r < 2 ^ 10" using half_up_full [of "n - 2 ^ 23"] n(1,2) unfolding r_def by simp
  finally have cond: "\<bar>q\<bar> < pow2 (k + 1) - pow2 (k - 11) \<longleftrightarrow> r < 2 ^ 10" .
  define sg where "sg = (if q < 0 then - 1 else 1 :: rat)"
  have q: "q = sg * \<bar>q\<bar>" by (simp add: sg_def)
  have s01: "of_bool (q < 0) = (0 :: int) \<or> of_bool (q < 0) = (1 :: int)" by simp
  obtain v where v: "f16tof32 w = Fin (sg * v)" "0 < v"
    "if r < 2 ^ 10 then \<bar>v - \<bar>q\<bar>\<bar> \<le> pow2 (k - 11) else v = (if even k then pow2 k else pow2 (k + 1))"
  proof (cases "r < 2 ^ 10")
    case True
    then have uw: "uint w = of_bool (q < 0) * 2 ^ 15 + (k + 15) * 2 ^ 10 + r" using w(2) by simp
    let ?v = "of_int (2 ^ 10 + r) * pow2 (k - 10)"
    have d: "f16tof32 w = Fin (sg * ?v)"
      using f16tof32_normal [OF uw s01 _ _ rb(1) True] k by (simp add: sg_def)
    have "?v - \<bar>q\<bar> = of_int (r * 8192 - (n - 2 ^ 23)) * pow2 (k - 23)" unfolding n(3) p by (simp add: algebra_simps)
    then have "\<bar>?v - \<bar>q\<bar>\<bar> = of_int \<bar>r * 8192 - (n - 2 ^ 23)\<bar> * pow2 (k - 23)" by (simp only: abs_mult of_int_abs abs_of_pos [OF pow2_pos])
    also have "\<dots> \<le> of_int (2 ^ 12) * pow2 (k - 23)"
      using half_up [of "n - 2 ^ 23"] n(1) unfolding r_def by (intro mult_right_mono) simp_all
    finally have "\<bar>?v - \<bar>q\<bar>\<bar> \<le> pow2 (k - 11)" unfolding p .
    moreover have "0 < ?v" using rb(1) by simp
    ultimately show thesis using that [OF d] True by simp
  next
    case False
    have "pow2 (k + 1) - pow2 (k - 11) \<le> \<bar>q\<bar>" using cond False by linarith
    then have "k \<noteq> 15" using assms(3) p16 by auto
    then have k': "1 \<le> k + 15 + of_bool (odd k)" "k + 15 + of_bool (odd k) \<le> 30" using k by auto
    have uw: "uint w = of_bool (q < 0) * 2 ^ 15 + (k + 15 + of_bool (odd k)) * 2 ^ 10 + 0" using w(2) False by simp
    have "f16tof32 w = Fin (sg * (of_int (2 ^ 10 + 0) * pow2 (k + 15 + of_bool (odd k) - 25)))"
      using f16tof32_normal [OF uw s01 k'] by (simp add: sg_def)
    also have "of_int (2 ^ 10 + 0) * pow2 (k + 15 + of_bool (odd k) - 25) = pow2 (k + of_bool (odd k))"
      using pow2_add [of 10 "k + 15 + of_bool (odd k) - 25"] by (simp add: pow2_nat)
    finally have d: "f16tof32 w = Fin (sg * pow2 (k + of_bool (odd k)))" .
    show thesis using that [OF d] False by simp
  qed
  have "\<not> f16_isZero w"
  proof
    assume "f16_isZero w"
    then have "f16tof32 w = Fin 0" by (simp add: f16tof32_def f16_isZero_def)
    then show False using v(1,2) by (simp add: sg_def split: if_splits)
  qed
  moreover have "\<bar>sg * v - q\<bar> = \<bar>v - \<bar>q\<bar>\<bar>" "\<bar>sg * v\<bar> = v" using v(2) by (auto simp: sg_def)
  moreover have "float16_of (Fin q) = Inr w" using w(1) c by (simp add: float16_of_def)
  ultimately show ?thesis
    using v unfolding k_def [symmetric] Let_def cond by (auto simp: sg_def less_imp_not_less [OF pow2_pos] split: if_splits)
qed

text \<open>C27: A \<open>float\<close> survives half precision to half a unit of its eleventh bit, with one exception. From \<open>2 ^ -14\<close> to 65520
  in magnitude, the sign is kept, the result is finite and not zero, and the error is at most \<open>2 ^ (k - 11)\<close> for a number with
  exponent \<open>k\<close>; but the last \<open>2 ^ (k - 11)\<close> before the next power of two, which round up to it, only reach it when
  \<open>k\<close> is odd. When \<open>k\<close> is even the carry is lost and they become \<open>2 ^ k\<close>, about half of what they were
  (511.9 becomes 256).\<close>
theorem f16_roundtrip:
  assumes "rnd F32 q = q" "pow2 (- 14) \<le> \<bar>q\<bar>" "\<bar>q\<bar> < 65520"
  shows "\<exists>w. float16_of (Fin q) = Inr w \<and> \<not> f16_isZero w \<and>
    (let k = ilog2 \<bar>q\<bar>; d = f16tof32 w
     in isfinite d \<and> signbit d = (q < 0) \<and>
       (if \<bar>q\<bar> < pow2 (k + 1) - pow2 (k - 11) then \<bar>val d - q\<bar> \<le> pow2 (k - 11)
        else \<bar>val d\<bar> = (if even k then pow2 k else pow2 (k + 1))))"
  by (rule f16_normal_roundtrip [OF assms])

lemma f16_roundtrip_witness:
  "map_sum id f16tof32 (float16_of (f32 (5119 / 10))) = Inr (Fin 256) \<and>
   (\<exists>w. float16_of (Fin 12) = Inr w \<and> \<not> f16_isZero w \<and> \<bar>val (f16tof32 w) - 12\<bar> \<le> 1 / 256)"
proof -
  have r: "rnd F32 12 = 12" using rnd_of_int [of 12 F32] by simp
  have il: "ilog2 12 = 3" by (rule ilog2_unique) (simp_all add: pow2_def)
  have p: "pow2 (- 14) = 1 / 16384" "pow2 (- 8) = 1 / 256" "pow2 4 = 16" by (simp_all add: pow2_def)
  have 1: "\<exists>w. float16_of (Fin 12) = Inr w \<and> \<not> f16_isZero w \<and> \<bar>val (f16tof32 w) - 12\<bar> \<le> 1 / 256"
    using f16_roundtrip [OF r] by (auto simp: il p Let_def)
  have 2: "map_sum id f16tof32 (float16_of (f32 (5119 / 10))) = Inr (Fin 256)" by code_simp
  show ?thesis using 1 2 by blast
qed

end
