(* ===== verification/Energy.thy ===== *)
theory Energy
  imports StatMath Conf Float16
begin

text \<open>
  \<open>src/src/store.h\<close> and \<open>src/src/metering.h\<close>: values kept in flash files, the ring of days, and the energy meters on
  them. Files, clocks and what the file system answers are arguments. \<open>unsigned long\<close> and \<open>long\<close> have 32 bits, \<open>time_t\<close>
  has 64.
\<close>

section \<open>A value in a file\<close>

datatype 'a vfile = NoFile | Short | Exact 'a | Longer 'a   \<comment> \<open>by size; the last two read as the value\<close>

record 'a fs_env =
  fe_open :: bool           \<comment> \<open>one of the two \<open>fopen\<close> succeeds\<close>
  fe_write :: bool          \<comment> \<open>\<open>fwrite\<close> takes the whole value\<close>
  fe_trunc :: bool
  fe_sync :: bool
  fe_flush :: bool          \<comment> \<open>\<open>fclose\<close> writes what is still buffered\<close>
  fe_torn :: "'a vfile"     \<comment> \<open>the file when not all was written\<close>

definition file_load :: "bool \<Rightarrow> 'a vfile \<Rightarrow> 'a option" where
  "file_load checkFileSize fs =
    (case fs of NoFile \<Rightarrow> None | Short \<Rightarrow> None | Exact v \<Rightarrow> Some v | Longer v \<Rightarrow> if checkFileSize then None else Some v)"

definition file_update :: "'a fs_env \<Rightarrow> 'a \<Rightarrow> 'a vfile \<Rightarrow> bool \<times> 'a vfile" where
  \<comment> \<open>neither \<open>ftruncate\<close> nor \<open>fsync\<close> sees buffered data, and \<open>fclose\<close>'s answer is dropped\<close>
  "file_update e v fs =
    (if \<not> fe_open e then (False, fs)
     else if \<not> fe_write e then (False, fe_torn e)
     else if \<not> fe_trunc e then (False, fe_torn e)
     else if \<not> fe_sync e then (False, fe_torn e)
     else (True, if fe_flush e then Exact v else fe_torn e))"

definition env_ok :: "'a fs_env \<Rightarrow> bool" where
  "env_ok e = (fe_open e \<and> fe_write e \<and> fe_trunc e \<and> fe_sync e \<and> fe_flush e)"

record 'a fstore =
  st_value :: 'a            \<comment> \<open>\<open>valueFlash\<close>\<close>
  st_lastWrite :: u32
  st_interval :: u32

definition store_load :: "'a vfile \<Rightarrow> 'a fstore \<Rightarrow> bool \<times> 'a fstore" where
  "store_load fs s = (case file_load False fs of None \<Rightarrow> (False, s) | Some v \<Rightarrow> (True, s\<lparr>st_value := v\<rparr>))"

definition store_update :: "('a \<Rightarrow> 'a \<Rightarrow> bool) \<Rightarrow> 'a fs_env \<Rightarrow> u32 \<Rightarrow> 'a \<Rightarrow> 'a vfile \<Rightarrow> 'a fstore \<Rightarrow> bool \<times> 'a vfile \<times> 'a fstore" where
  "store_update similar e now v fs s =
    (if st_lastWrite s \<noteq> 0 \<and> now - st_lastWrite s < st_interval s then (False, fs, s)
     else if similar v (st_value s) then (False, fs, s)
     else let (ok, fs') = file_update e v fs
          in if ok then (True, fs', s\<lparr>st_value := v, st_lastWrite := now\<rparr>) else (False, fs', s))"

section \<open>Days\<close>

record 'f day =
  dy_energy :: 'f
  dy_vinMax :: 'f
  dy_pinMax :: 'f
  dy_voutMax :: 'f
  dy_voutMin :: 'f
  dy_tempMax :: u8
  dy_usr :: u8
  dy_numErrors :: u8

definition day_reset :: "fl day \<Rightarrow> fl day" where
  \<comment> \<open>\<open>tempMax\<close> and \<open>usr\<close> are kept\<close>
  "day_reset d =
    d\<lparr>dy_energy := Fin 0, dy_vinMax := Fin 0, dy_pinMax := Fin 0, dy_voutMax := Fin 0, dy_voutMin := FLT_MAX, dy_numErrors := 0\<rparr>"

definition day_zero :: "u16 day" where
  "day_zero = \<lparr>dy_energy = 0, dy_vinMax = 0, dy_pinMax = 0, dy_voutMax = 0, dy_voutMin = 0, dy_tempMax = 0, dy_usr = 0, dy_numErrors = 0\<rparr>"

definition day_pack :: "u8 \<times> u8 \<Rightarrow> fl day \<Rightarrow> u16 day res" where
  \<comment> \<open>the converting constructor; it leaves \<open>tempMax\<close> and \<open>usr\<close> (\<open>junk\<close>) unset\<close>
  "day_pack junk d =
    bindE (float16_of (dy_energy d)) (\<lambda>e. bindE (float16_of (dy_vinMax d)) (\<lambda>vi. bindE (float16_of (dy_pinMax d)) (\<lambda>p.
    bindE (float16_of (dy_voutMax d)) (\<lambda>vo. bindE (float16_of (dy_voutMin d)) (\<lambda>vm.
      Inr \<lparr>dy_energy = e, dy_vinMax = vi, dy_pinMax = p, dy_voutMax = vo, dy_voutMin = vm, dy_tempMax = fst junk, dy_usr = snd junk,
           dy_numErrors = dy_numErrors d\<rparr>)))))"

definition day_unpack :: "u8 \<times> u8 \<Rightarrow> u16 day \<Rightarrow> fl day" where
  "day_unpack junk d =
    \<lparr>dy_energy = f16tof32 (dy_energy d), dy_vinMax = f16tof32 (dy_vinMax d), dy_pinMax = f16tof32 (dy_pinMax d),
     dy_voutMax = f16tof32 (dy_voutMax d), dy_voutMin = f16tof32 (dy_voutMin d), dy_tempMax = fst junk, dy_usr = snd junk,
     dy_numErrors = dy_numErrors d\<rparr>"

definition hasEnergy :: "u16 day \<Rightarrow> bool" where "hasEnergy d = (\<not> f16_isZero (dy_energy d))"

section \<open>The ring of days\<close>

definition NumDays :: nat where "NumDays = 60"

record ring =
  rg_total :: u16
  rg_ptr :: u16
  rg_buf :: "u16 day list"

definition ring_clear :: ring where
  "ring_clear = \<lparr>rg_total = 0, rg_ptr = 0, rg_buf = replicate NumDays day_zero\<rparr>"

definition ring_add :: "u16 day \<Rightarrow> ring \<Rightarrow> ring res" where
  "ring_add d r =
    (if \<not> hasEnergy d then Inl AssertFail
     else if NumDays \<le> unat (rg_ptr r) then Inl Undefined
     else Inr (r\<lparr>rg_buf := (rg_buf r)[unat (rg_ptr r) := d], rg_ptr := (rg_ptr r + 1) mod 60, rg_total := rg_total r + 1\<rparr>))"

definition getAllDays :: "ring \<Rightarrow> fl day list" where
  "getAllDays r =
    map (day_unpack (0, 0)) (filter hasEnergy (map (\<lambda>i. rg_buf r ! ((unat (rg_ptr r) + i) mod NumDays)) [0..<NumDays]))"

definition days_load :: "ring vfile \<Rightarrow> bool \<times> ring" where
  "days_load fs =
    (case file_load True fs of None \<Rightarrow> (False, ring_clear)
     | Some r \<Rightarrow> if 60 \<le> rg_ptr r \<or> rg_total r < rg_ptr r then (False, ring_clear) else (True, r))"

definition days_add :: "ring fs_env \<Rightarrow> u8 \<times> u8 \<Rightarrow> fl day \<Rightarrow> ring vfile \<Rightarrow> ring \<Rightarrow> (ring vfile \<times> ring) res" where
  "days_add e junk d fs r =
    bindE (day_pack junk d) (\<lambda>d16. bindE (ring_add d16 r) (\<lambda>r'. Inr (snd (file_update e r' fs), r')))"

section \<open>\<open>DailyEnergyMeter\<close>\<close>

record dmeter =
  dm_days :: ring
  dm_prev :: fl             \<comment> \<open>\<open>_prevTotalEnergy\<close>\<close>
  dm_today :: "fl day"
  dm_timeLast :: int        \<comment> \<open>\<open>timeLastPower\<close>\<close>

definition long32 :: "int \<Rightarrow> int" where "long32 n = sint (word_of_int n :: u32)"

definition dmeter_new :: dmeter where
  \<comment> \<open>a static object, so the fields without an initialiser are 0\<close>
  "dmeter_new =
    \<lparr>dm_days = ring_clear, dm_prev = Fin 0, dm_today = day_reset (day_unpack (0, 0) day_zero), dm_timeLast = 0\<rparr>"

definition wait_sync :: "int list \<Rightarrow> int" where
  \<comment> \<open>up to 20 clock readings until the clock is set\<close>
  "wait_sync ts = (case dropWhile (\<lambda>t. t \<le> 1000000000) (take 20 ts) of [] \<Rightarrow> last (take 20 ts) | t # _ \<Rightarrow> t)"

definition dm_restore :: "ring fs_env \<Rightarrow> u8 \<times> u8 \<Rightarrow> int list \<Rightarrow> fl \<Rightarrow> int \<Rightarrow> ring vfile \<Rightarrow> dmeter \<Rightarrow> (ring vfile \<times> dmeter) res" where
  "dm_restore e junk ts todayEnergy timeLastPower fs m =
    (let m1 = m\<lparr>dm_days := snd (days_load fs), dm_timeLast := timeLastPower, dm_prev := Fin 0\<rparr>
     in if fgt todayEnergy (Fin 2) then
          let m2 = m1\<lparr>dm_today := (dm_today m1)\<lparr>dy_energy := todayEnergy\<rparr>\<rparr>; now = wait_sync ts
          in if 1000000000 < now \<and> 1000000000 < timeLastPower \<and> now - timeLastPower < 3600 * 3 then Inr (fs, m2)
             else bindE (days_add e junk (dm_today m2) fs (dm_days m2)) (\<lambda>(fs', r).
                    Inr (fs', m2\<lparr>dm_days := r, dm_today := day_reset (dm_today m2)\<rparr>))
        else Inr (fs, m1\<lparr>dm_today := day_reset (dm_today m1)\<rparr>))"

definition day_peaks :: "fl \<Rightarrow> fl \<Rightarrow> fl \<Rightarrow> fl day \<Rightarrow> fl day" where
  "day_peaks sp vin vout d =
    d\<lparr>dy_pinMax := (if fgt sp (dy_pinMax d) then sp else dy_pinMax d),
      dy_vinMax := (if fgt vin (dy_vinMax d) then vin else dy_vinMax d),
      dy_voutMax := (if fgt vout (dy_voutMax d) then vout else dy_voutMax d),
      dy_voutMin := (if flt vout (dy_voutMin d) then vout else dy_voutMin d)\<rparr>"

definition dm_update :: "ring fs_env \<Rightarrow> u8 \<times> u8 \<Rightarrow> int \<Rightarrow> fl \<Rightarrow> fl \<Rightarrow> fl \<Rightarrow> fl \<Rightarrow> ring vfile \<Rightarrow> dmeter \<Rightarrow> (ring vfile \<times> dmeter) res" where
  "dm_update e junk now sp te vin vout fs m =
    (let m1 = (if fgt sp (Fin (3 / 2)) then m\<lparr>dm_timeLast := long32 now, dm_today := day_peaks sp vin vout (dm_today m)\<rparr> else m);
         d = dm_today m1
     in if (fgt (dy_energy d) (Fin 0) \<or> fge sp (Fin (5 / 2))) \<and> fgt te (fadd (dm_prev m1) (f32 (1 / 1000))) then
          Inr (fs, m1\<lparr>dm_today := (if fgt (dm_prev m1) (Fin 0) then d\<lparr>dy_energy := fadd (dy_energy d) (fsub te (dm_prev m1))\<rparr> else d),
                       dm_prev := te\<rparr>)
        else if fgt (dy_energy d) (Fin 0) \<and> 60 * 30 < now - dm_timeLast m1 then
          bindE (days_add e junk d fs (dm_days m1)) (\<lambda>(fs', r). Inr (fs', m1\<lparr>dm_days := r, dm_today := day_reset d\<rparr>))
        else Inr (fs, m1))"

section \<open>\<open>SolarEnergyMeter\<close>\<close>

record pstate =
  ps_boot :: u32
  ps_total :: fl            \<comment> \<open>a \<open>double\<close>\<close>
  ps_timeLast :: int
  ps_today :: fl

definition pstate_new :: pstate where
  "pstate_new = \<lparr>ps_boot = 0, ps_total = Fin 0, ps_timeLast = 0, ps_today = Fin 0\<rparr>"

definition ps_similar :: "pstate \<Rightarrow> pstate \<Rightarrow> bool" where
  "ps_similar a b =
    (flt (fabs (dsub (ps_total a) (ps_total b))) (Fin 5) \<and> ps_boot a = ps_boot b \<and>
     flt (fabs (dsub (ps_today a) (ps_total b))) (Fin 5))"

record solar =
  me_total :: trap
  me_flash :: "pstate fstore"
  me_daily :: dmeter

definition solar_new :: solar where
  "solar_new =
    \<lparr>me_total = trap_new (fdiv (f32 (1 / 1000000)) (Fin 3600)) 4000000,
     me_flash = \<lparr>st_value = pstate_new, st_lastWrite = 0, st_interval = 120000\<rparr>, me_daily = dmeter_new\<rparr>"

definition commit_value :: "bool \<Rightarrow> solar \<Rightarrow> pstate" where
  "commit_value incr m =
    (let s = (st_value (me_flash m))
           \<lparr>ps_total := tr_value (me_total m), ps_timeLast := dm_timeLast (me_daily m), ps_today := dy_energy (dm_today (me_daily m))\<rparr>
     in if incr then s\<lparr>ps_boot := ps_boot s + 1\<rparr> else s)"

definition solar_commit :: "pstate fs_env \<Rightarrow> u32 \<Rightarrow> bool \<Rightarrow> pstate vfile \<Rightarrow> solar \<Rightarrow> bool \<times> pstate vfile \<times> solar" where
  \<comment> \<open>the first component: whether the file was written\<close>
  "solar_commit e now incr fs m =
    (let (ok, fs', st) = store_update ps_similar e now (commit_value incr m) fs (me_flash m) in (ok, fs', m\<lparr>me_flash := st\<rparr>))"

definition solar_load :: "pstate fs_env \<Rightarrow> ring fs_env \<Rightarrow> u8 \<times> u8 \<Rightarrow> int list \<Rightarrow> u32 \<Rightarrow> pstate vfile \<Rightarrow> ring vfile \<Rightarrow> solar \<Rightarrow>
    (pstate vfile \<times> ring vfile \<times> solar) res" where
  "solar_load e ed junk ts now fs fsd m =
    (let (ok, st) = store_load fs (me_flash m); m1 = m\<lparr>me_flash := st\<rparr>; s = st_value st
     in bindE
          (if ok then
             bindE (trap_restore (cvt F32 (ps_total s)) (me_total m1)) (\<lambda>t.
             bindE (dm_restore ed junk ts (ps_today s) (long32 (ps_timeLast s)) fsd (me_daily m1)) (\<lambda>(fsd', d).
               Inr (fsd', m1\<lparr>me_total := t, me_daily := d\<rparr>)))
           else Inr (fsd, m1))
          (\<lambda>(fsd', m2). let (_, fs', m3) = solar_commit e now True fs m2 in Inr (fs', fsd', m3)))"

definition solar_add :: "fl \<Rightarrow> u64 \<Rightarrow> solar \<Rightarrow> solar" where
  "solar_add pw timeUs m =
    (if fgt pw (f32 (1 / 10)) then m\<lparr>me_total := trap_add F32 pw timeUs (me_total m)\<rparr> else m)"

end
