(* ===== verification/EnergyProps.thy ===== *)
theory EnergyProps
  imports Energy Float16Props
begin

text \<open>
  Properties of the energy meters: the ring of days is the list of the last sixty, across restarts; a restart keeps the total
  energy and counts; and when a commit writes.
\<close>

section \<open>The ring holds the last sixty days\<close>

definition ring_ok :: "u16 day list \<Rightarrow> ring \<Rightarrow> bool" where
  "ring_ok ds r =
    (length (rg_buf r) = NumDays \<and> unat (rg_ptr r) = length ds mod NumDays \<and> rg_total r = of_nat (length ds) \<and>
     (\<forall>d\<in>set ds. hasEnergy d) \<and>
     (\<forall>i<NumDays. rg_buf r ! ((length ds + i) mod NumDays) = (if NumDays \<le> length ds + i then ds ! (length ds + i - NumDays) else day_zero)))"

lemma ring_ok_clear: "ring_ok [] ring_clear"
  by (simp add: ring_ok_def ring_clear_def NumDays_def)

lemma ring_add_ok:
  assumes "ring_ok ds r" "hasEnergy d"
  shows "\<exists>r'. ring_add d r = Inr r' \<and> ring_ok (ds @ [d]) r'"
proof -
  let ?n = "length ds"
  note r = assms(1) [unfolded ring_ok_def NumDays_def]
  have p: "unat (rg_ptr r) = ?n mod 60" "unat (rg_ptr r) < 60" using r by simp_all
  have "unat (rg_ptr r + 1) = unat (rg_ptr r) + 1" using p(2) by (simp add: unat_word_ariths)
  then have "unat ((rg_ptr r + 1) mod 60) = (unat (rg_ptr r) + 1) mod 60" by (simp add: unat_mod)
  then have p': "unat ((rg_ptr r + 1) mod 60) = Suc ?n mod 60" unfolding p(1) by (simp add: mod_Suc_eq)
  have b: "(rg_buf r)[?n mod 60 := d] ! ((Suc ?n + i) mod 60) =
      (if 60 \<le> Suc ?n + i then (ds @ [d]) ! (Suc ?n + i - 60) else day_zero)" if "i < 60" for i
  proof (cases "i = 59")
    case True
    then have "(Suc ?n + i) mod 60 = ?n mod 60" by simp
    then show ?thesis using True r by simp
  next
    case False
    then have i: "Suc i < 60" using that by simp
    have "(?n + Suc i) mod 60 \<noteq> ?n mod 60"
    proof
      assume "(?n + Suc i) mod 60 = ?n mod 60"
      then have "60 dvd Suc i" by (metis add_diff_cancel_left' le_add1 mod_eq_dvd_iff_nat)
      then show False using i by (auto dest: dvd_imp_le)
    qed
    then have "(rg_buf r)[?n mod 60 := d] ! ((Suc ?n + i) mod 60) = rg_buf r ! ((?n + Suc i) mod 60)" by simp
    also have "\<dots> = (if 60 \<le> ?n + Suc i then ds ! (?n + Suc i - 60) else day_zero)" using r i by blast
    finally show ?thesis using i by (auto simp: nth_append)
  qed
  let ?r = "r\<lparr>rg_buf := (rg_buf r)[unat (rg_ptr r) := d], rg_ptr := (rg_ptr r + 1) mod 60, rg_total := rg_total r + 1\<rparr>"
  have "ring_add d r = Inr ?r" using assms(2) p(2) by (simp add: ring_add_def NumDays_def)
  moreover have "ring_ok (ds @ [d]) ?r"
    using r assms(2) b p' p(1) by (auto simp: ring_ok_def NumDays_def)
  ultimately show ?thesis by blast
qed

lemma getAllDays_ok:
  assumes "ring_ok ds r"
  shows "getAllDays r = map (day_unpack (0, 0)) (drop (length ds - NumDays) ds)"
proof -
  let ?n = "length ds"
  note r = assms [unfolded ring_ok_def]
  have "map (\<lambda>i. rg_buf r ! ((unat (rg_ptr r) + i) mod NumDays)) [0..<NumDays] =
      replicate (NumDays - ?n) day_zero @ drop (?n - NumDays) ds"
  proof (rule nth_equalityI)
    have e: "?n - NumDays + i - (NumDays - ?n) = ?n + i - NumDays" if "\<not> i < NumDays - ?n" for i using that by arith
    fix i assume "i < length (map (\<lambda>i. rg_buf r ! ((unat (rg_ptr r) + i) mod NumDays)) [0..<NumDays])"
    then have i: "i < NumDays" by simp
    then have "map (\<lambda>i. rg_buf r ! ((unat (rg_ptr r) + i) mod NumDays)) [0..<NumDays] ! i =
        (if NumDays \<le> ?n + i then ds ! (?n + i - NumDays) else day_zero)"
      using r by (simp add: mod_add_left_eq)
    then show "map (\<lambda>i. rg_buf r ! ((unat (rg_ptr r) + i) mod NumDays)) [0..<NumDays] ! i =
        (replicate (NumDays - ?n) day_zero @ drop (?n - NumDays) ds) ! i"
      using i e by (auto simp: nth_append not_le)
  qed simp
  moreover have "\<not> hasEnergy day_zero" by (simp add: hasEnergy_def day_zero_def f16_isZero_def)
  moreover have "filter hasEnergy (drop k ds) = drop k ds" for k
    using r by (intro filter_True) (meson in_set_dropD)
  ultimately show ?thesis by (simp add: getAllDays_def)
qed

fun days_run :: "(ring fs_env \<times> (u8 \<times> u8) \<times> fl day) list \<Rightarrow> ring vfile \<times> ring \<Rightarrow> (ring vfile \<times> ring) res" where
  "days_run [] s = Inr s"
| "days_run ((e, j, d) # xs) (fs, r) = bindE (days_add e j d fs r) (days_run xs)"

lemma days_run_ok:
  assumes "ring_ok ds r" "list_all2 (\<lambda>(e, j, d) p. day_pack j d = Inr p \<and> hasEnergy p) xs ps"
  shows "\<exists>fs' r'. days_run xs (fs, r) = Inr (fs', r') \<and> ring_ok (ds @ ps) r' \<and>
    (xs \<noteq> [] \<and> env_ok (fst (last xs)) \<longrightarrow> fs' = Exact r')"
  using assms
proof (induction xs arbitrary: ds r ps fs)
  case (Cons x xs)
  obtain e j d where x: "x = (e, j, d)" by (cases x) auto
  obtain p qs where ps: "ps = p # qs" "day_pack j d = Inr p" "hasEnergy p"
    "list_all2 (\<lambda>(e, j, d) p. day_pack j d = Inr p \<and> hasEnergy p) xs qs"
    using Cons.prems(2) by (auto simp: x list_all2_Cons1)
  obtain r1 where 1: "ring_add p r = Inr r1" "ring_ok (ds @ [p]) r1" using ring_add_ok [OF Cons.prems(1) ps(3)] by blast
  let ?fs = "snd (file_update e r1 fs)"
  obtain fs' r' where 2: "days_run xs (?fs, r1) = Inr (fs', r')" "ring_ok ((ds @ [p]) @ qs) r'"
    "xs \<noteq> [] \<and> env_ok (fst (last xs)) \<longrightarrow> fs' = Exact r'" using Cons.IH [OF 1(2) ps(4)] by blast
  have "days_run (x # xs) (fs, r) = Inr (fs', r')" using 1 2 ps(2) by (simp add: x days_add_def)
  moreover have "fs' = Exact r'" if "env_ok (fst (last (x # xs)))"
  proof (cases "xs = []")
    case True
    then show ?thesis using that 2(1) by (auto simp: x file_update_def env_ok_def)
  qed (use that 2(3) in simp)
  ultimately show ?case using 2(2) ps(1) by auto
qed simp

text \<open>C30: The ring is the list of the last sixty days. After any number of days (below 65536) that hold energy, whatever the file
  system did, \<open>getAllDays\<close> returns the last sixty of them in order; and when the last write succeeded, a restart loads
  the same ring.\<close>
theorem days_ring:
  assumes "list_all2 (\<lambda>(e, j, d) p. day_pack j d = Inr p \<and> hasEnergy p) xs ps" "length ps < 65536"
  shows "\<exists>fs r. days_run xs (fs0, ring_clear) = Inr (fs, r) \<and>
    getAllDays r = map (day_unpack (0, 0)) (drop (length ps - NumDays) ps) \<and>
    (xs \<noteq> [] \<and> env_ok (fst (last xs)) \<longrightarrow> days_load fs = (True, r))"
proof -
  obtain fs r where 1: "days_run xs (fs0, ring_clear) = Inr (fs, r)" "ring_ok ps r"
    "xs \<noteq> [] \<and> env_ok (fst (last xs)) \<longrightarrow> fs = Exact r"
    using days_run_ok [OF ring_ok_clear assms(1), of fs0] by auto
  have u: "unat (rg_ptr r) = length ps mod 60" "unat (rg_total r) = length ps"
    using 1(2) assms(2) by (simp_all add: ring_ok_def NumDays_def unat_of_nat take_bit_nat_eq_self)
  have "\<not> 60 \<le> rg_ptr r" "\<not> rg_total r < rg_ptr r" using u by (simp_all add: word_le_nat_alt word_less_nat_alt)
  then have "days_load (Exact r) = (True, r)" by (simp add: days_load_def file_load_def)
  then show ?thesis using 1 getAllDays_ok by blast
qed

definition env_good :: "'a fs_env" where
  "env_good = \<lparr>fe_open = True, fe_write = True, fe_trunc = True, fe_sync = True, fe_flush = True, fe_torn = NoFile\<rparr>"

lemma days_ring_witness:
  "\<exists>fs r. days_run (replicate 70 (env_good, (0, 0), (dm_today dmeter_new)\<lparr>dy_energy := Fin 12\<rparr>)) (NoFile, ring_clear) = Inr (fs, r) \<and>
    length (getAllDays r) = 60 \<and> days_load fs = (True, r)"
proof -
  let ?d = "(dm_today dmeter_new)\<lparr>dy_energy := Fin 12\<rparr>"
  have "case day_pack (0, 0) ?d of Inl _ \<Rightarrow> False | Inr p \<Rightarrow> hasEnergy p" by code_simp
  then obtain p where p: "day_pack (0, 0) ?d = Inr p" "hasEnergy p" by (auto split: sum.splits)
  have "list_all2 (\<lambda>(e, j, d) p. day_pack j d = Inr p \<and> hasEnergy p) (replicate 70 (env_good, (0, 0), ?d)) (replicate 70 p)"
    using p by (simp add: list_all2_conv_all_nth)
  from days_ring [OF this, of NoFile] show ?thesis by (auto simp: NumDays_def env_ok_def env_good_def)
qed

section \<open>Restarts\<close>

lemma dsub_close:
  assumes "isfinite a" "isfinite b" "flt (fabs (dsub a b)) (Fin 5)"
  shows "\<bar>val a - val b\<bar> < 5"
proof (rule ccontr)
  let ?d = "val a - val b"
  assume "\<not> \<bar>?d\<bar> < 5"
  then have "5 \<le> ?d \<or> ?d \<le> - 5" by linarith
  moreover have "rnd F64 5 = 5" using rnd_of_int [of 5 F64] by simp
  moreover from this have "rnd F64 (- 5) = - 5" by (simp only: rnd_minus)
  ultimately have r: "5 \<le> \<bar>rnd F64 ?d\<bar>"
    using rnd_ge_repr [of 5 ?d F64] rnd_le_repr [of ?d "- 5" F64] by (auto simp: abs_if)
  have f: "isfinite (dsub a b)" using assms(3) by (cases "dsub a b") (auto simp: flt_def)
  then have "val (dsub a b) = rnd F64 ?d" by (rule val_gsub [OF assms(1,2)])
  then show False using assms(3) f r by (simp add: val_fabs)
qed

definition stored_ok :: "pstate \<Rightarrow> bool" where
  \<comment> \<open>values that were \<open>float\<close>s, a finite total and a day below 65 kWh\<close>
  "stored_ok s =
    (isfinite (ps_total s) \<and> fl_ok F32 (ps_total s) \<and> fl_ok F32 (ps_today s) \<and> flt (ps_today s) (Fin 65520))"

definition meter_ok :: "solar \<Rightarrow> bool" where
  "meter_ok m =
    (isfinite (tr_value (me_total m)) \<and> fl_ok F32 (tr_value (me_total m)) \<and>
     fl_ok F32 (dy_energy (dm_today (me_daily m))) \<and> flt (dy_energy (dm_today (me_daily m))) (Fin 65520))"

lemma days_load_ptr: "unat (rg_ptr (snd (days_load fs))) < 60"
  by (auto simp: days_load_def ring_clear_def word_le_nat_alt split: option.splits)

lemma dm_restore_total:
  assumes "fl_ok F32 te" "flt te (Fin 65520)"
  shows "\<exists>fs' d. dm_restore e junk ts te pwr_t fs dmeter_new = Inr (fs', d)"
proof (cases "fgt te (Fin 2)")
  case True
  then obtain q where q: "te = Fin q" "2 < q" "q < 65520" using assms(2) by (cases te) (auto simp: flt_def split: if_splits)
  have "pow2 (- 14) \<le> \<bar>q\<bar>" "\<bar>q\<bar> < 65520" using q by (simp_all add: pow2_def)
  then obtain w where w: "float16_of (Fin q) = Inr w" "\<not> f16_isZero w"
    using f16_normal_roundtrip [of q] assms(1) q(1) by (auto simp: fl_ok_def)
  have z: "float16_of (Fin 0) = Inr 0" "float16_of FLT_MAX = Inr 0x7C00" by code_simp+
  let ?m = "dmeter_new\<lparr>dm_days := snd (days_load fs), dm_timeLast := pwr_t, dm_prev := Fin 0, dm_today := (dm_today dmeter_new)\<lparr>dy_energy := te\<rparr>\<rparr>"
  have "\<exists>fs' r. days_add e junk (dm_today ?m) fs (dm_days ?m) = Inr (fs', r)"
    using w z days_load_ptr [of fs]
    by (simp add: days_add_def day_pack_def dmeter_new_def day_reset_def q(1) ring_add_def hasEnergy_def NumDays_def)
  then show ?thesis using True by (auto simp: dm_restore_def Let_def)
qed (simp add: dm_restore_def Let_def)

definition limited :: "u32 \<Rightarrow> 'a fstore \<Rightarrow> bool" where
  "limited now s = (st_lastWrite s \<noteq> 0 \<and> now - st_lastWrite s < st_interval s)"

lemma store_update_ok:
  assumes "store_update sim e now v fs s = (w, fs', s')" "env_ok e" "fs = Exact (st_value s)"
  shows "fs' = Exact (st_value s')" "st_value s' = st_value s \<or> st_value s' = v"
    "\<not> limited now s \<Longrightarrow> st_value s' = v \<or> sim v (st_value s) \<and> st_value s' = st_value s"
  using assms by (auto simp: store_update_def limited_def file_update_def env_ok_def split: if_splits)

lemma commit_value_fields:
  "ps_boot (commit_value incr m) = ps_boot (st_value (me_flash m)) + of_bool incr"
  "ps_total (commit_value incr m) = tr_value (me_total m)"
  "ps_today (commit_value incr m) = dy_energy (dm_today (me_daily m))"
  by (simp_all add: commit_value_def Let_def)

lemma commit_keeps:
  assumes "stored_ok (st_value (me_flash m))" "meter_ok m" "fs = Exact (st_value (me_flash m))" "env_ok e"
    "solar_commit e now incr fs m = (w, fs', m')"
  shows "fs' = Exact (st_value (me_flash m'))" "stored_ok (st_value (me_flash m'))"
    "\<not> limited now (me_flash m) \<Longrightarrow>
      \<bar>val (ps_total (st_value (me_flash m'))) - val (tr_value (me_total m))\<bar> < 5 \<and>
      ps_boot (st_value (me_flash m')) = ps_boot (st_value (me_flash m)) + of_bool incr"
proof -
  let ?s = "st_value (me_flash m)" and ?v = "commit_value incr m"
  obtain st where u: "store_update ps_similar e now ?v fs (me_flash m) = (w, fs', st)" "m' = m\<lparr>me_flash := st\<rparr>"
    using assms(5) by (auto simp: solar_commit_def split: prod.splits)
  note c = store_update_ok [OF u(1) assms(4,3)]
  have v: "stored_ok ?v" "ps_total ?v = tr_value (me_total m)" "ps_boot ?v = ps_boot ?s + of_bool incr"
    using assms(2) by (simp_all add: stored_ok_def meter_ok_def commit_value_fields)
  have sim: "\<bar>val (ps_total ?s) - val (ps_total ?v)\<bar> < 5 \<and> ps_boot ?v = ps_boot ?s" if "ps_similar ?v ?s"
    using dsub_close [of "ps_total ?v" "ps_total ?s"] that assms(1) v(1)
    unfolding ps_similar_def stored_ok_def by (simp add: abs_minus_commute)
  show "fs' = Exact (st_value (me_flash m'))" using c(1) u(2) by simp
  show "stored_ok (st_value (me_flash m'))" using c(2) v(1) assms(1) u(2) by auto
  show "\<bar>val (ps_total (st_value (me_flash m'))) - val (tr_value (me_total m))\<bar> < 5 \<and>
      ps_boot (st_value (me_flash m')) = ps_boot ?s + of_bool incr" if "\<not> limited now (me_flash m)"
    using c(3) [OF that] sim v u(2) by auto
qed

lemma boot_load:
  assumes "stored_ok s" "env_ok e"
  shows "\<exists>fs' fsd' m. solar_load e ed junk ts now (Exact s) fsd solar_new = Inr (fs', fsd', m) \<and>
    fs' = Exact (st_value (me_flash m)) \<and> ps_boot (st_value (me_flash m)) = ps_boot s + 1 \<and>
    isfinite (tr_value (me_total m)) \<and> val (tr_value (me_total m)) = val (ps_total s)"
proof -
  have c: "cvt F32 (ps_total s) = ps_total s" using assms(1)
    by (cases "ps_total s") (auto simp: stored_ok_def cvt_def fl_ok_def mk_def Let_def)
  let ?t = "me_total solar_new"
  have t: "trap_restore (cvt F32 (ps_total s)) ?t = Inr (?t\<lparr>tr_value := ps_total s\<rparr>)"
    using assms(1) by (simp add: c trap_restore_def solar_new_def trap_new_def feq_def stored_ok_def)
  obtain fsd' d where d: "dm_restore ed junk ts (ps_today s) (long32 (ps_timeLast s)) fsd dmeter_new = Inr (fsd', d)"
    using dm_restore_total [of "ps_today s"] assms(1) unfolding stored_ok_def by blast
  define m where "m = solar_new\<lparr>me_flash := (me_flash solar_new)\<lparr>st_value := s\<rparr>, me_total := ?t\<lparr>tr_value := ps_total s\<rparr>, me_daily := d\<rparr>"
  obtain w fs' m' where k: "solar_commit e now True (Exact s) m = (w, fs', m')" by (metis prod_cases3)
  obtain st where u: "store_update ps_similar e now (commit_value True m) (Exact s) (me_flash m) = (w, fs', st)" "m' = m\<lparr>me_flash := st\<rparr>"
    using k by (auto simp: solar_commit_def split: prod.splits)
  have f: "Exact s = Exact (st_value (me_flash m))" by (simp add: m_def)
  have nl: "\<not> limited now (me_flash m)" by (simp add: m_def limited_def solar_new_def)
  have b: "ps_boot (commit_value True m) = ps_boot s + 1" by (simp add: m_def commit_value_fields)
  then have "\<not> ps_similar (commit_value True m) (st_value (me_flash m))" by (simp add: ps_similar_def m_def)
  then have "fs' = Exact (st_value st)" "ps_boot (st_value st) = ps_boot s + 1"
    using store_update_ok [OF u(1) assms(2) f] nl b by auto
  moreover have "solar_load e ed junk ts now (Exact s) fsd solar_new = Inr (fs', fsd', m')"
    using t d k by (simp add: solar_load_def store_load_def file_load_def m_def solar_new_def Let_def)
  ultimately show ?thesis using u(2) assms(1) by (simp add: m_def stored_ok_def)
qed

text \<open>C26: A restart keeps the energy count. When a commit is not held back by the write interval and the file system works,
  then after a power cycle \<open>load\<close> succeeds, restores a total less than 5 Wh from the one at the commit, counts one boot
  more and stores that; and the RAM copy of the file stays equal to the file, so the same holds for the next commit.\<close>
theorem meter_restart:
  assumes "stored_ok (st_value (me_flash m))" "meter_ok m" "env_ok e" "env_ok e2" "\<not> limited now (me_flash m)"
    "solar_commit e now incr (Exact (st_value (me_flash m))) m = (w, fs', m')"
  shows "fs' = Exact (st_value (me_flash m')) \<and> stored_ok (st_value (me_flash m')) \<and>
    (\<exists>fs2 fsd2 m2. solar_load e2 ed junk ts now2 fs' fsd solar_new = Inr (fs2, fsd2, m2) \<and>
      fs2 = Exact (st_value (me_flash m2)) \<and>
      isfinite (tr_value (me_total m2)) \<and> \<bar>val (tr_value (me_total m2)) - val (tr_value (me_total m))\<bar> < 5 \<and>
      ps_boot (st_value (me_flash m2)) = ps_boot (st_value (me_flash m)) + of_bool incr + 1)"
proof -
  note k = commit_keeps [OF assms(1,2) HOL.refl assms(3,6)]
  from boot_load [OF k(2) assms(4), of ed junk ts now2 fsd] k(3) [OF assms(5)] k(1,2) show ?thesis by auto
qed

lemma meter_restart_witness:
  "\<exists>w fs m' fs2 fsd2 m2.
     solar_commit env_good 5 False (Exact pstate_new) (solar_new\<lparr>me_total := (me_total solar_new)\<lparr>tr_value := Fin 12\<rparr>\<rparr>) = (w, fs, m') \<and>
     solar_load env_good env_good (0, 0) [] 7 fs NoFile solar_new = Inr (fs2, fsd2, m2) \<and>
     \<bar>val (tr_value (me_total m2)) - 12\<bar> < 5 \<and> ps_boot (st_value (me_flash m2)) = 1"
proof -
  let ?m = "solar_new\<lparr>me_total := (me_total solar_new)\<lparr>tr_value := Fin 12\<rparr>\<rparr>"
  have g: "env_ok env_good" by (simp add: env_ok_def env_good_def)
  have s: "stored_ok (st_value (me_flash ?m))" by (simp add: stored_ok_def solar_new_def pstate_new_def)
  have "rnd F32 12 = 12" using rnd_of_int [of 12 F32] by simp
  moreover have "(12 :: rat) < pow2 128" by (simp add: pow2_def)
  ultimately have m: "meter_ok ?m" by (simp add: meter_ok_def solar_new_def dmeter_new_def day_reset_def fl_ok_def)
  have l: "\<not> limited 5 (me_flash ?m)" by (simp add: limited_def solar_new_def)
  obtain w fs m' where c: "solar_commit env_good 5 False (Exact (st_value (me_flash ?m))) ?m = (w, fs, m')" by (metis prod_cases3)
  from meter_restart [OF s m g g l c, of env_good "(0, 0)" "[]" 7 NoFile]
  obtain fs2 fsd2 m2 where 2: "solar_load env_good env_good (0, 0) [] 7 fs NoFile solar_new = Inr (fs2, fsd2, m2)"
    "\<bar>val (tr_value (me_total m2)) - val (tr_value (me_total ?m))\<bar> < 5"
    "ps_boot (st_value (me_flash m2)) = ps_boot (st_value (me_flash ?m)) + of_bool False + 1" by blast
  have "st_value (me_flash ?m) = pstate_new" "val (tr_value (me_total ?m)) = 12" by (simp_all add: solar_new_def)
  then show ?thesis using c 2 by (simp add: pstate_new_def)
qed

section \<open>When a commit writes\<close>

text \<open>The last condition of the comparison takes today's energy against the stored total. Once they differ by 5 Wh, no two states
  are similar: every commit that the interval allows writes the file again, also when nothing has changed.\<close>
lemma commit_always_writes:
  assumes "isfinite (dy_energy (dm_today (me_daily m)))" "isfinite (ps_total (st_value (me_flash m)))"
    "5 \<le> \<bar>val (dy_energy (dm_today (me_daily m))) - val (ps_total (st_value (me_flash m)))\<bar>"
    "env_ok e" "\<not> limited now (me_flash m)"
  shows "fst (solar_commit e now False fs m)"
proof -
  have "\<not> flt (fabs (dsub (dy_energy (dm_today (me_daily m))) (ps_total (st_value (me_flash m))))) (Fin 5)"
    using dsub_close [OF assms(1,2)] assms(3) by linarith
  then have "\<not> ps_similar (commit_value False m) (st_value (me_flash m))" by (simp add: ps_similar_def commit_value_fields)
  then show ?thesis using assms(4,5)
    by (simp add: solar_commit_def store_update_def limited_def file_update_def env_ok_def Let_def split: prod.splits)
qed

end
