(* ===== verification/VConv.thy ===== *)
theory VConv
  imports Converter
begin

text \<open>
  \<open>src/src/sim/vconv.*\<close>: the virtual converter, a cycle by cycle model of PV source, buck stage and battery which replaces
  the hardware in simulation builds; \<open>src/src/pwm/vconv.h\<close>: the driver that sets its on-counts; and
  \<open>src/src/adc/vconv.h\<close>: the ADC that steps and reads it. The functions of \<open>libm\<close> are arguments.
\<close>

unbundle bit_operations_syntax

section \<open>State\<close>

record libm =
  lm_exp :: "fl \<Rightarrow> fl"
  lm_log :: "fl \<Rightarrow> fl"
  lm_sin :: "fl \<Rightarrow> fl"
  lm_cos :: "fl \<Rightarrow> fl"
  lm_sqrt :: "fl \<Rightarrow> fl"

record vpwm =
  vp_max :: u16
  vp_ctrl :: u16
  vp_rect :: u16
  vp_freq :: u32

record vrecip =   \<comment> \<open>the inputs the reciprocals were computed from, and these\<close>
  cy_T :: fl
  cy_L :: fl
  cy_Cin :: fl
  cy_Cout :: fl
  cy_Rbat :: fl
  cy_Pmax :: u16
  cy_invL :: fl
  cy_invCin :: fl
  cy_invCout :: fl
  cy_invT :: fl
  cy_aOut :: fl
  cy_inv1pAout :: fl
  cy_invPmax :: fl

record vconv =
  vc_isc :: fl
  vc_voc :: fl
  vc_pvK :: fl
  vc_pvAlpha :: fl
  vc_pvNorm :: fl
  vc_vbat :: fl
  vc_rbat :: fl
  vc_acAmp :: fl
  vc_acFreq :: fl
  vc_acShape :: int
  vc_shapeFn :: "libm \<Rightarrow> fl \<Rightarrow> fl"
  vc_acPhase :: fl
  vc_cIn :: fl
  vc_cOut :: fl
  vc_l :: fl
  vc_vIn :: fl
  vc_vOut :: fl
  vc_iLEnd :: fl
  vc_pwm :: vpwm
  vc_iInAvg :: fl
  vc_iOutAvg :: fl
  vc_dcm :: bool
  vc_errored :: bool
  vc_cyc :: vrecip
  vc_oscS :: fl
  vc_oscC :: fl
  vc_rotS :: fl
  vc_rotC :: fl
  vc_oscStep :: fl

section \<open>Ripple shapes\<close>

definition shapeSine :: "libm \<Rightarrow> fl \<Rightarrow> fl" where "shapeSine m ph = lm_sin m ph"

definition shapeAbsSin :: "libm \<Rightarrow> fl \<Rightarrow> fl" where
  "shapeAbsSin m ph = fmul (Fin 2) (fsub (fabs (lm_sin m (fmul ph (Fin (1 / 2))))) (f32 (63661977 / 100000000)))"

definition shapeSpiky :: "libm \<Rightarrow> fl \<Rightarrow> fl" where
  "shapeSpiky m ph =
    (let u = fmul (Fin (1 / 2)) (fadd (Fin 1) (lm_cos m ph)); u2 = fmul u u; u4 = fmul u2 u2; u8 = fmul u4 u4
     in fmul (fsub u8 (f32 (196381 / 1000000))) (f32 (1244370 / 1000000)))"

definition shapeFromId :: "int \<Rightarrow> libm \<Rightarrow> fl \<Rightarrow> fl" where
  "shapeFromId n = (if n = 1 then shapeAbsSin else if n = 2 then shapeSpiky else shapeSine)"

definition vconv_new :: vconv where
  "vconv_new =
    \<lparr>vc_isc = Fin 8, vc_voc = Fin 40, vc_pvK = f32 (8 / 10), vc_pvAlpha = f32 (115 / 10), vc_pvNorm = Fin 1, vc_vbat = Fin 28,
     vc_rbat = f32 (5 / 100), vc_acAmp = Fin 0, vc_acFreq = Fin 100, vc_acShape = 0, vc_shapeFn = shapeSine, vc_acPhase = Fin 0,
     vc_cIn = f32 (470 / 1000000), vc_cOut = f32 (470 / 1000000), vc_l = f32 (50 / 1000000), vc_vIn = Fin 0, vc_vOut = Fin 0,
     vc_iLEnd = Fin 0, vc_pwm = \<lparr>vp_max = 0, vp_ctrl = 0, vp_rect = 0, vp_freq = 0\<rparr>, vc_iInAvg = Fin 0, vc_iOutAvg = Fin 0,
     vc_dcm = False, vc_errored = False,
     vc_cyc = \<lparr>cy_T = Fin 0, cy_L = Fin 0, cy_Cin = Fin 0, cy_Cout = Fin 0, cy_Rbat = Fin 0, cy_Pmax = 0xFFFF, cy_invL = Fin 0,
       cy_invCin = Fin 0, cy_invCout = Fin 0, cy_invT = Fin 0, cy_aOut = Fin 0, cy_inv1pAout = Fin 1, cy_invPmax = Fin 0\<rparr>,
     vc_oscS = Fin 0, vc_oscC = Fin 1, vc_rotS = Fin 0, vc_rotC = Fin 1, vc_oscStep = Fin (- 1)\<rparr>"

section \<open>Settings\<close>

fun pv_newton :: "libm \<Rightarrow> nat \<Rightarrow> fl \<Rightarrow> fl \<Rightarrow> fl" where
  "pv_newton m 0 k a = a"
| "pv_newton m (Suc n) k a =
    (let fa = fsub (fmul a (fsub (Fin 1) k)) (lm_log m (fadd (Fin 1) (fmul k a)));
         fp = fsub (fsub (Fin 1) k) (fdiv k (fadd (Fin 1) (fmul k a)))
     in if flt (fabs fp) (f32 (1 / 1000000000)) then a
        else let st = fdiv fa fp; a1 = fsub a st; a2 = (if flt a1 (f32 (1 / 1000)) then f32 (1 / 1000) else a1)
             in if flt (fabs st) (f32 (1 / 10000000)) then a2 else pv_newton m n k a2)"

definition setPv :: "libm \<Rightarrow> fl \<Rightarrow> fl \<Rightarrow> fl \<Rightarrow> vconv \<Rightarrow> vconv" where
  "setPv m isc voc k s =
    (let a = pv_newton m 12 k (if fgt k (Fin 0) \<and> flt k (Fin 1) then fdiv (Fin 1) (fsub (Fin 1) k) else Fin 1)
     in s\<lparr>vc_isc := isc, vc_voc := voc, vc_pvK := k, vc_pvAlpha := a,
          vc_pvNorm := fdiv (Fin 1) (fsub (Fin 1) (lm_exp m (fneg a)))\<rparr>)"

definition pvCurrent :: "libm \<Rightarrow> fl \<Rightarrow> vconv \<Rightarrow> fl" where
  "pvCurrent m v s =
    (if fge v (vc_voc s) then Fin 0
     else if fle v (Fin 0) then vc_isc s
     else let i = fmul (fmul (vc_isc s) (fsub (Fin 1) (lm_exp m (fdiv (fmul (vc_pvAlpha s) (fsub v (vc_voc s))) (vc_voc s))))) (vc_pvNorm s)
          in if flt i (Fin 0) then Fin 0 else if fgt i (vc_isc s) then vc_isc s else i)"

definition setBat :: "fl \<Rightarrow> fl \<Rightarrow> vconv \<Rightarrow> vconv" where
  "setBat vbat rbat s = s\<lparr>vc_vbat := vbat, vc_rbat := (if flt rbat (f32 (1 / 1000000)) then f32 (1 / 1000000) else rbat)\<rparr>"

definition setBatRipple :: "fl \<Rightarrow> fl \<Rightarrow> int \<Rightarrow> vconv \<Rightarrow> vconv" where
  "setBatRipple amp freq shape s =
    s\<lparr>vc_acAmp := amp, vc_acFreq := freq, vc_acShape := shape, vc_shapeFn := shapeFromId shape, vc_oscStep := Fin (- 1)\<rparr>"

definition setBatRippleShape :: "(libm \<Rightarrow> fl \<Rightarrow> fl) option \<Rightarrow> vconv \<Rightarrow> vconv" where
  "setBatRippleShape fn s =
    (case fn of None \<Rightarrow> s | Some f \<Rightarrow> s\<lparr>vc_shapeFn := f, vc_acShape := - 1, vc_oscStep := Fin (- 1)\<rparr>)"

definition setPassives :: "fl \<Rightarrow> fl \<Rightarrow> fl \<Rightarrow> vconv \<Rightarrow> vconv" where
  "setPassives c_in c_out l s = s\<lparr>vc_cIn := c_in, vc_cOut := c_out, vc_l := l\<rparr>"

definition setPwmCount :: "int \<Rightarrow> u32 \<Rightarrow> vconv \<Rightarrow> vconv" where
  "setPwmCount ch on s =
    (if ch = 0 then s\<lparr>vc_pwm := (vc_pwm s)\<lparr>vp_ctrl := ucast on\<rparr>\<rparr>
     else if ch = 1 then s\<lparr>vc_pwm := (vc_pwm s)\<lparr>vp_rect := ucast on\<rparr>\<rparr> else s)"

definition stopChannel :: "int \<Rightarrow> vconv \<Rightarrow> vconv" where
  "stopChannel ch s =
    (if ch = 0 then s\<lparr>vc_pwm := (vc_pwm s)\<lparr>vp_ctrl := 0\<rparr>\<rparr>
     else if ch = 1 then s\<lparr>vc_pwm := (vc_pwm s)\<lparr>vp_rect := 0\<rparr>\<rparr> else s)"

section \<open>One switching cycle\<close>

definition trapArea :: "fl \<Rightarrow> fl \<Rightarrow> fl \<Rightarrow> fl" where
  "trapArea y0 y1 t = fmul (fmul (Fin (1 / 2)) (fadd y0 y1)) t"

definition kTwoPi :: fl where "kTwoPi = f32 (628318530717958647692 / 100000000000000000000)"

definition recip_of :: "fl \<Rightarrow> vconv \<Rightarrow> vrecip" where
  "recip_of T s =
    (let pmax = vp_max (vc_pwm s); aOut = fdiv T (fmul (vc_rbat s) (vc_cOut s))
     in \<lparr>cy_T = T, cy_L = vc_l s, cy_Cin = vc_cIn s, cy_Cout = vc_cOut s, cy_Rbat = vc_rbat s, cy_Pmax = pmax,
         cy_invL = (if fgt (vc_l s) (Fin 0) then fdiv (Fin 1) (vc_l s) else Fin 0),
         cy_invCin = (if fgt (vc_cIn s) (Fin 0) then fdiv (Fin 1) (vc_cIn s) else Fin 0),
         cy_invCout = (if fgt (vc_cOut s) (Fin 0) then fdiv (Fin 1) (vc_cOut s) else Fin 0),
         cy_invT = fdiv (Fin 1) T, cy_aOut = aOut, cy_inv1pAout = fdiv (Fin 1) (fadd (Fin 1) aOut),
         cy_invPmax = (if pmax \<noteq> 0 then fdiv (Fin 1) (to_float (uint pmax)) else Fin 0)\<rparr>)"

definition recip_stale :: "fl \<Rightarrow> vconv \<Rightarrow> bool" where
  "recip_stale T s =
    (let y = vc_cyc s
     in \<not> feq T (cy_T y) \<or> vp_max (vc_pwm s) \<noteq> cy_Pmax y \<or> \<not> feq (vc_l s) (cy_L y) \<or> \<not> feq (vc_cIn s) (cy_Cin y) \<or>
        \<not> feq (vc_cOut s) (cy_Cout y) \<or> \<not> feq (vc_rbat s) (cy_Rbat y))"

definition ripple_advance :: "libm \<Rightarrow> fl \<Rightarrow> vconv \<Rightarrow> fl \<times> vconv" where
  \<comment> \<open>the battery voltage with its ripple, and the oscillator one cycle on\<close>
  "ripple_advance m T s =
    (if feq (vc_acAmp s) (Fin 0) \<or> \<not> fgt (vc_vbat s) (Fin 0) then (vc_vbat s, s)
     else let st = fmul (fmul kTwoPi (vc_acFreq s)) T;
              (v, s1) =
                (if vc_acShape s = 0 then
                   let s0 = (if \<not> feq st (vc_oscStep s)
                             then s\<lparr>vc_oscStep := st, vc_rotC := lm_cos m st, vc_rotS := lm_sin m st,
                                    vc_oscS := lm_sin m (vc_acPhase s), vc_oscC := lm_cos m (vc_acPhase s)\<rparr> else s);
                       ns = fadd (fmul (vc_oscS s0) (vc_rotC s0)) (fmul (vc_oscC s0) (vc_rotS s0));
                       nc = fsub (fmul (vc_oscC s0) (vc_rotC s0)) (fmul (vc_oscS s0) (vc_rotS s0));
                       corr = fsub (Fin (3 / 2)) (fmul (Fin (1 / 2)) (fadd (fmul ns ns) (fmul nc nc)))
                   in (fadd (vc_vbat s) (fmul (vc_acAmp s) (vc_oscS s0)), s0\<lparr>vc_oscS := fmul ns corr, vc_oscC := fmul nc corr\<rparr>)
                 else (fadd (vc_vbat s) (fmul (vc_acAmp s) (vc_shapeFn s m (vc_acPhase s))), s));
              ph = fadd (vc_acPhase s) st
          in (v, s1\<lparr>vc_acPhase := (if fgt ph kTwoPi then fsub ph kTwoPi
                                  else if flt ph (fneg kTwoPi) then fadd ph kTwoPi else ph)\<rparr>))"

definition clamp0 :: "fl \<Rightarrow> fl" where "clamp0 x = (if flt x (Fin 0) then Fin 0 else x)"

definition cycle_idle :: "libm \<Rightarrow> fl \<Rightarrow> fl \<Rightarrow> vconv \<Rightarrow> vconv" where
  \<comment> \<open>no source, no timer or no coil: only the capacitors relax\<close>
  "cycle_idle m T vBatEff s =
    (let y = vc_cyc s
     in s\<lparr>vc_vIn := clamp0 (fadd (vc_vIn s) (fmul (fmul (pvCurrent m (vc_vIn s) s) T) (cy_invCin y))),
          vc_vOut := clamp0 (fmul (fadd (vc_vOut s) (fmul (cy_aOut y) vBatEff)) (cy_inv1pAout y)),
          vc_iInAvg := Fin 0, vc_iOutAvg := Fin 0, vc_iLEnd := Fin 0, vc_dcm := True\<rparr>)"

definition diode_phase :: "fl \<Rightarrow> fl \<Rightarrow> fl \<Rightarrow> fl \<times> fl" where
  \<comment> \<open>coil current \<open>c\<close> falling to zero by \<open>slope\<close> within \<open>tOff\<close>: the current at the end and the area\<close>
  "diode_phase c slope tOff =
    (let tZero = fdiv (fneg c) slope
     in if flt tZero tOff then (Fin 0, fmul (fmul (Fin (1 / 2)) c) tZero)
        else let cEnd = fadd c (fmul slope tOff) in (cEnd, trapArea c cEnd tOff))"

definition off_phase :: "fl \<Rightarrow> fl \<Rightarrow> vconv \<Rightarrow> fl \<times> fl" where
  "off_phase c tOff s =
    (let invL = cy_invL (vc_cyc s)
     in if \<not> fgt tOff (Fin 0) then (c, Fin 0)
        else if fgt c (Fin 0) then
          (let slope = fmul (fneg (vc_vOut s)) invL
           in if flt slope (Fin 0) then diode_phase c slope tOff else (c, fmul c tOff))
        else if flt c (Fin 0) then
          (let slope = fmul (fsub (vc_vIn s) (vc_vOut s)) invL
           in if fgt slope (Fin 0) then diode_phase c slope tOff else (c, fmul c tOff))
        else (c, Fin 0))"

definition cycle_coil :: "fl \<Rightarrow> vconv \<Rightarrow> vconv" where
  \<comment> \<open>the three phases of the coil current, from its value at the end of the last cycle\<close>
  "cycle_coil T s =
    (let y = vc_cyc s;
         tHS = fmul (fmul (to_float (uint (vp_ctrl (vc_pwm s)))) (cy_invPmax y)) T;
         tLS = fmul (fmul (to_float (uint (vp_rect (vc_pwm s)))) (cy_invPmax y)) T;
         tOff = fsub (fsub T tHS) tLS;
         a = vc_iLEnd s;
         b = (if fgt tHS (Fin 0) then fadd a (fmul (fmul (fsub (vc_vIn s) (vc_vOut s)) (cy_invL y)) tHS) else a);
         areaHS = trapArea a b tHS;
         c = (if fgt tLS (Fin 0) then fsub b (fmul (fmul (vc_vOut s) (cy_invL y)) tLS) else b);
         areaLS = trapArea b c tLS;
         (cEnd, areaOff) = off_phase c tOff s
     in s\<lparr>vc_iInAvg := fmul areaHS (cy_invT y), vc_iOutAvg := fmul (fadd (fadd areaHS areaLS) areaOff) (cy_invT y),
          vc_iLEnd := cEnd, vc_dcm := (feq cEnd (Fin 0) \<and> (\<not> feq c (Fin 0) \<or> feq a (Fin 0)))\<rparr>)"

definition cycle_caps :: "libm \<Rightarrow> fl \<Rightarrow> fl \<Rightarrow> vconv \<Rightarrow> vconv" where
  "cycle_caps m T vBatEff s =
    (let y = vc_cyc s; Ipv = pvCurrent m (vc_vIn s) s;
         vi = clamp0 (fadd (vc_vIn s) (fmul (fmul (fsub Ipv (vc_iInAvg s)) T) (cy_invCin y)));
         vInMax = fmul (vc_voc s) (f32 (105 / 100));
         vo = clamp0 (fmul (fadd (fadd (vc_vOut s) (fmul (fmul T (vc_iOutAvg s)) (cy_invCout y))) (fmul (cy_aOut y) vBatEff)) (cy_inv1pAout y));
         vOutMax = std_max (fmul (vc_vbat s) (Fin 2)) (fmul (vc_voc s) (Fin 2))
     in s\<lparr>vc_vIn := (if fgt vi vInMax then vInMax else vi), vc_vOut := (if fgt vo vOutMax then vOutMax else vo)\<rparr>)"

definition overlap :: "vconv \<Rightarrow> bool" where
  "overlap s =
    (vp_max (vc_pwm s) \<noteq> 0 \<and> uint (vp_max (vc_pwm s)) < uint (vp_ctrl (vc_pwm s)) + uint (vp_rect (vc_pwm s)))"

definition cycle_body :: "libm \<Rightarrow> fl \<Rightarrow> vconv \<Rightarrow> vconv" where
  \<comment> \<open>after the reciprocals are up to date\<close>
  "cycle_body m T s =
    (if overlap s then s\<lparr>vc_errored := True, vc_iInAvg := Fin 0, vc_iOutAvg := Fin 0\<rparr>
     else let (vBatEff, s1) = ripple_advance m T (s\<lparr>vc_errored := False\<rparr>)
          in if flt (vc_vIn s1) (f32 (1 / 10000)) \<or> vp_max (vc_pwm s1) = 0 \<or> fle (vc_l s1) (Fin 0)
             then cycle_idle m T vBatEff s1
             else cycle_caps m T vBatEff (cycle_coil T s1))"

definition stepOneCycle :: "libm \<Rightarrow> fl \<Rightarrow> vconv \<Rightarrow> vconv" where
  "stepOneCycle m T s = cycle_body m T (if recip_stale T s then s\<lparr>vc_cyc := recip_of T s\<rparr> else s)"

definition step_freq :: "u32 \<Rightarrow> vconv \<Rightarrow> u32" where
  "step_freq fallback s =
    (let freq = (if vp_freq (vc_pwm s) \<noteq> 0 then vp_freq (vc_pwm s) else fallback) in if freq < 1000 then 39000 else freq)"

definition step_period :: "u32 \<Rightarrow> vconv \<Rightarrow> fl" where
  "step_period fallback s = fdiv (Fin 1) (to_float (uint (step_freq fallback s)))"

definition stepSeconds :: "libm \<Rightarrow> fl \<Rightarrow> u32 \<Rightarrow> vconv \<Rightarrow> vconv res" where
  "stepSeconds m dt fallback s =
    (if fle dt (Fin 0) then Inr s
     else let T = step_period fallback s
          in bindE (lround_long (fdiv dt T)) (\<lambda>n. Inr ((stepOneCycle m T ^^ nat (max n 1)) s)))"

section \<open>The PWM driver\<close>

definition vdrv_init :: "(fl \<Rightarrow> fl) \<Rightarrow> u32 \<Rightarrow> u16 \<Rightarrow> vconv \<Rightarrow> (u16 \<times> vconv) res" where
  \<comment> \<open>\<open>log2\<close> of a \<open>double\<close> is an argument; the driver's \<open>pwmMax\<close> and the plant\<close>
  "vdrv_init log2 freq pwmMax s =
    (if freq = 0 then Inl Undefined
     else bindE (cast_int (- (2 ^ 31)) (2 ^ 31 - 1) (log2 (mk F64 False (of_int (80000000 div uint freq))))) (\<lambda>lg.
       let resolution = max 1 (min lg 14);
           pm = ucast (push_bit (nat (resolution - 1)) (2 :: u32) - 1) :: u16;
           pwmMax' = (if pwmMax = 0 then pm else pwmMax)
       in Inr (pwmMax', s\<lparr>vc_pwm := (vc_pwm s)\<lparr>vp_max := pwmMax', vp_freq := freq\<rparr>\<rparr>)))"

definition vdrv_duty :: "int \<Rightarrow> u32 \<Rightarrow> vconv \<Rightarrow> vconv" where
  "vdrv_duty ch duty s =
    (if ch = 1 then let hs = ucast (vp_ctrl (vc_pwm s)) :: u32 in setPwmCount 1 (if duty > hs then duty - hs else 0) s
     else setPwmCount ch duty s)"

definition vdrv_pulse :: "int \<Rightarrow> u32 \<Rightarrow> u32 \<Rightarrow> vconv \<Rightarrow> vconv" where
  \<comment> \<open>the start of the pulse is ignored\<close>
  "vdrv_pulse ch hpoint duty s = setPwmCount ch duty s"

fun vdrv_op :: "gate_op \<Rightarrow> vconv \<Rightarrow> vconv" where
  \<comment> \<open>what a driver call of the converter does to the plant\<close>
  "vdrv_op (Duty rect d) s = vdrv_duty (if rect then 1 else 0) d s"
| "vdrv_op (Pulse rect h d) s = vdrv_pulse (if rect then 1 else 0) h d s"
| "vdrv_op (Stop rect lvl) s = stopChannel (if rect then 1 else 0) s"
| "vdrv_op _ s = s"

section \<open>The ADC\<close>

record vadc =
  va_channel :: u8
  va_freq :: u32            \<comment> \<open>\<open>adcFreq_\<close>\<close>
  va_noiseVin :: fl
  va_noiseVout :: fl
  va_noiseIout :: fl
  va_noiseNtc :: fl
  va_ntc :: fl
  va_rng :: u32
  va_haveSpare :: bool
  va_spare :: fl

definition vadc_new :: vadc where
  "vadc_new =
    \<lparr>va_channel = 0, va_freq = 3000, va_noiseVin = Fin 0, va_noiseVout = Fin 0, va_noiseIout = Fin 0, va_noiseNtc = Fin 0,
     va_ntc = f32 (9 / 10), va_rng = 0x9E3779B9, va_haveSpare = False, va_spare = Fin 0\<rparr>"

definition vadc_init :: "conf \<Rightarrow> conf \<Rightarrow> vadc \<Rightarrow> vadc res" where
  "vadc_init vconvConf boardConf a =
    bindE (conf_getLong ''adc_fake_freq'' 3000 boardConf) (\<lambda>fake.
    bindE (conf_getLong ''adc_freq'' fake vconvConf) (\<lambda>fq.
    bindE (conf_getFloat ''noise_vin'' (Fin 0) vconvConf) (\<lambda>nvi.
    bindE (conf_getFloat ''noise_vout'' (Fin 0) vconvConf) (\<lambda>nvo.
    bindE (conf_getFloat ''noise_iout'' (Fin 0) vconvConf) (\<lambda>nio.
    bindE (conf_getFloat ''noise_ntc'' (Fin 0) vconvConf) (\<lambda>nn.
    bindE (conf_getFloat ''ntc_v'' (f32 (9 / 10)) vconvConf) (\<lambda>nv.
      Inr (a\<lparr>va_freq := word_of_int fq, va_noiseVin := nvi, va_noiseVout := nvo, va_noiseIout := nio, va_noiseNtc := nn,
             va_ntc := nv, va_rng := 0x9E3779B9\<rparr>))))))))"

definition periodic_hz :: "u32 \<Rightarrow> u32" where
  \<comment> \<open>the rate \<open>PeriodicTimer::begin\<close> achieves: whole microseconds\<close>
  "periodic_hz requestedHz =
    (let alarm = (if requestedHz \<noteq> 0 then 1000000 div requestedHz else 1000000)
     in 1000000 div (if alarm < 1 then 1 else alarm))"

definition vadc_getSamplingRate :: "vadc \<Rightarrow> fl" where
  "vadc_getSamplingRate a = to_float (uint (periodic_hz (va_freq a)))"

definition vadc_startReading :: "u8 \<Rightarrow> vadc \<Rightarrow> vadc" where "vadc_startReading channel a = a\<lparr>va_channel := channel\<rparr>"

definition kMaxCatchupTicks :: u32 where "kMaxCatchupTicks = 8"

definition vadc_hasData :: "libm \<Rightarrow> u32 \<Rightarrow> vadc \<Rightarrow> vconv \<Rightarrow> (bool \<times> vconv) res" where
  \<comment> \<open>\<open>ticks\<close>: the notifications of the periodic timer that came together\<close>
  "vadc_hasData m ticks a s =
    (if ticks = 0 then Inr (False, s)
     else let t = (if ticks > kMaxCatchupTicks then kMaxCatchupTicks else ticks); dt = fdiv (Fin 1) (to_float (uint (va_freq a)))
          in bindE (stepSeconds m (fmul dt (to_float (uint t))) 39000 s) (\<lambda>s'. Inr (True, s')))"

definition xorshift32 :: "u32 \<Rightarrow> u32" where
  "xorshift32 x = (let x1 = x XOR push_bit 13 x; x2 = x1 XOR drop_bit 17 x1 in x2 XOR push_bit 5 x2)"

definition uniform01 :: "u32 \<Rightarrow> fl" where
  "uniform01 x = fmul (to_float (uint (drop_bit 8 x))) (Fin (pow2 (- 24)))"

fun draw_u1 :: "nat \<Rightarrow> u32 \<Rightarrow> (fl \<times> u32) option" where
  \<comment> \<open>\<open>do u1 = ... while (u1 <= 0)\<close> with at most \<open>n\<close> rounds\<close>
  "draw_u1 0 x = None"
| "draw_u1 (Suc n) x = (let x' = xorshift32 x; u = uniform01 x' in if fle u (Fin 0) then draw_u1 n x' else Some (u, x'))"

definition gaussian01 :: "libm \<Rightarrow> nat \<Rightarrow> vadc \<Rightarrow> (fl \<times> vadc) option" where
  "gaussian01 m n a =
    (if va_haveSpare a then Some (va_spare a, a\<lparr>va_haveSpare := False\<rparr>)
     else case draw_u1 n (va_rng a) of None \<Rightarrow> None
       | Some (u1, x) \<Rightarrow>
           let x' = xorshift32 x; u2 = uniform01 x'; r = lm_sqrt m (fmul (Fin (- 2)) (lm_log m u1)); t = fmul kTwoPi u2
           in Some (fmul r (lm_cos m t), a\<lparr>va_rng := x', va_spare := fmul r (lm_sin m t), va_haveSpare := True\<rparr>))"

definition vadc_getSample :: "libm \<Rightarrow> nat \<Rightarrow> vconv \<Rightarrow> vadc \<Rightarrow> (fl \<times> vadc) option" where
  "vadc_getSample m n s a =
    (let (x, sigma) =
       (if va_channel a = 0 then (vc_vIn s, va_noiseVin a) else if va_channel a = 1 then (vc_vOut s, va_noiseVout a)
        else if va_channel a = 2 then (vc_iOutAvg s, va_noiseIout a) else if va_channel a = 4 then (va_ntc a, va_noiseNtc a)
        else (Fin 0, Fin 0))
     in if fgt sigma (Fin 0) then map_option (\<lambda>(g, a'). (fadd x (fmul sigma g), a')) (gaussian01 m n a) else Some (x, a))"

end
