(* ===== verification/VConvProps.thy ===== *)
theory VConvProps
  imports VConv
begin

text \<open>
  Properties of the virtual converter: its cached reciprocals are never stale, what its driver makes of the converter's duty
  updates, that coalesced timer ticks lose no time, and that its noise generator returns.
\<close>

section \<open>The cache of reciprocals\<close>

definition vconv_set :: "vrecip \<Rightarrow> vconv \<Rightarrow> vconv" where
  \<comment> \<open>the inputs a cache was computed from, in place of the present ones\<close>
  "vconv_set y s =
    s\<lparr>vc_l := cy_L y, vc_cIn := cy_Cin y, vc_cOut := cy_Cout y, vc_rbat := cy_Rbat y, vc_pwm := (vc_pwm s)\<lparr>vp_max := cy_Pmax y\<rparr>\<rparr>"

definition no_nzero :: "vconv \<Rightarrow> bool" where
  "no_nzero s = (vc_l s \<noteq> NZero \<and> vc_cIn s \<noteq> NZero \<and> vc_cOut s \<noteq> NZero \<and> vc_rbat s \<noteq> NZero)"

definition cache_ok :: "vconv \<Rightarrow> bool" where
  "cache_ok s =
    (let y = vc_cyc s
     in no_nzero s \<and> cy_T y \<noteq> NZero \<and> cy_L y \<noteq> NZero \<and> cy_Cin y \<noteq> NZero \<and> cy_Cout y \<noteq> NZero \<and> cy_Rbat y \<noteq> NZero \<and>
        (cy_T y = Fin 0 \<or> y = recip_of (cy_T y) (vconv_set y s)))"

inductive vconv_step :: "libm \<Rightarrow> vconv \<Rightarrow> vconv \<Rightarrow> bool" for m where
  pv: "vconv_step m s (setPv m isc voc k s)"
| bat: "vconv_step m s (setBat v r s)"
| ripple: "vconv_step m s (setBatRipple amp freq shape s)"
| shape: "vconv_step m s (setBatRippleShape fn s)"
| passives: "NZero \<notin> {ci, co, l} \<Longrightarrow> vconv_step m s (setPassives ci co l s)"
| volts: "vconv_step m s (s\<lparr>vc_vIn := v, vc_vOut := u\<rparr>)"
| pwm: "vconv_step m s (s\<lparr>vc_pwm := p\<rparr>)"
| cycle: "isfinite T \<Longrightarrow> 0 < val T \<Longrightarrow> vconv_step m s (stepOneCycle m T s)"

inductive vconv_reach :: "libm \<Rightarrow> vconv \<Rightarrow> bool" for m where
  new: "vconv_reach m vconv_new"
| more: "vconv_reach m s \<Longrightarrow> vconv_step m s s' \<Longrightarrow> vconv_reach m s'"

definition cache_same :: "vconv \<Rightarrow> vconv \<Rightarrow> bool" where
  "cache_same s t =
    (vc_cyc t = vc_cyc s \<and> vc_l t = vc_l s \<and> vc_cIn t = vc_cIn s \<and> vc_cOut t = vc_cOut s \<and> vc_rbat t = vc_rbat s \<and> vc_pwm t = vc_pwm s)"

lemma cache_same_refl [simp]: "cache_same s s"
  by (simp add: cache_same_def)

lemma cache_same_trans: "cache_same s t \<Longrightarrow> cache_same t u \<Longrightarrow> cache_same s u"
  by (simp add: cache_same_def)

lemma recip_of_set: "recip_of T (vconv_set y s) = recip_of T (vconv_set y t)"
  by (simp add: recip_of_def vconv_set_def Let_def cong: if_cong)

lemma cache_same_ok: "cache_same s t \<Longrightarrow> cache_ok s \<Longrightarrow> cache_ok t"
  using recip_of_set [of "cy_T (vc_cyc s)" "vc_cyc s" s t]
  by (auto simp: cache_same_def cache_ok_def no_nzero_def Let_def)

lemma ripple_same: "cache_same s (snd (ripple_advance m T s))"
  by (auto simp: ripple_advance_def cache_same_def Let_def)

lemma cycle_body_same: "cache_same s (cycle_body m T s)"
proof -
  obtain v s1 where r: "ripple_advance m T (s\<lparr>vc_errored := False\<rparr>) = (v, s1)" by force
  have "cache_same (s\<lparr>vc_errored := False\<rparr>) s1" using ripple_same [of "s\<lparr>vc_errored := False\<rparr>" m T] r by simp
  moreover have "cache_same s1 (cycle_idle m T v s1)" "cache_same s1 (cycle_caps m T v (cycle_coil T s1))"
    by (auto simp: cycle_idle_def cycle_caps_def cycle_coil_def cache_same_def Let_def split: prod.splits)
  ultimately show ?thesis using r by (auto simp: cycle_body_def cache_same_def)
qed

lemma feq_eq: "feq x y \<Longrightarrow> x \<noteq> NZero \<Longrightarrow> y \<noteq> NZero \<Longrightarrow> x = y"
  by (cases x; cases y) (auto simp: feq_def split: if_splits)

lemma fresh_cache:
  assumes "cache_ok s" "isfinite T" "0 < val T"
  shows "(if recip_stale T s then s\<lparr>vc_cyc := recip_of T s\<rparr> else s) = s\<lparr>vc_cyc := recip_of T s\<rparr>"
proof (cases "recip_stale T s")
  case False
  let ?y = "vc_cyc s"
  have T: "T \<noteq> NZero" "T \<noteq> Fin 0" using assms(3) by auto
  note c = assms(1) [unfolded cache_ok_def Let_def no_nzero_def]
  have k: "cy_T ?y = T" "cy_L ?y = vc_l s" "cy_Cin ?y = vc_cIn s" "cy_Cout ?y = vc_cOut s" "cy_Rbat ?y = vc_rbat s" "cy_Pmax ?y = vp_max (vc_pwm s)"
    using False c T(1) by (auto simp: recip_stale_def Let_def dest: feq_eq)
  have "vconv_set ?y s = s" using k by (simp add: vconv_set_def)
  then have "?y = recip_of T s" using c k(1) T(2) by metis
  then show ?thesis using False by simp
qed simp

lemma recip_ok:
  assumes "no_nzero s" "T \<noteq> NZero"
  shows "cache_ok (s\<lparr>vc_cyc := recip_of T s\<rparr>)"
  using assms by (simp add: cache_ok_def no_nzero_def vconv_set_def recip_of_def Let_def)

lemma cache_step: "vconv_step m s s' \<Longrightarrow> cache_ok s \<Longrightarrow> cache_ok s'"
proof (induction rule: vconv_step.induct)
  case (cycle T s)
  have "cache_ok (s\<lparr>vc_cyc := recip_of T s\<rparr>)"
    using cycle by (intro recip_ok) (auto simp: cache_ok_def Let_def)
  then have "cache_ok (cycle_body m T (s\<lparr>vc_cyc := recip_of T s\<rparr>))" using cache_same_ok [OF cycle_body_same] by blast
  then show ?case unfolding stepOneCycle_def fresh_cache [OF cycle(3,1,2)] .
next
  case (bat s v r)
  have "f32 (1 / 1000000) \<noteq> NZero" by code_simp
  moreover have "flt NZero (f32 (1 / 1000000))" by code_simp
  ultimately show ?case using bat recip_of_set [of "cy_T (vc_cyc s)" "vc_cyc s" s "setBat v r s"]
    by (auto simp: cache_ok_def no_nzero_def setBat_def Let_def)
qed (auto simp: cache_ok_def no_nzero_def vconv_set_def recip_of_def setPv_def setBatRipple_def setBatRippleShape_def setPassives_def Let_def
    split: option.splits)

text \<open>C35: The cached reciprocals are never stale. Whatever settings are changed between cycles (PV, battery, ripple, passives, PWM
  counts and period; no negative zero among the passives), a cycle computes exactly what it would compute if it took every
  reciprocal anew.\<close>
theorem vconv_cache:
  assumes "vconv_reach m s" "isfinite T" "0 < val T"
  shows "stepOneCycle m T s = cycle_body m T (s\<lparr>vc_cyc := recip_of T s\<rparr>)"
proof -
  have "cache_ok s" using assms(1)
  proof (induction rule: vconv_reach.induct)
    case new
    have "f32 (470 / 1000000) \<noteq> NZero" "f32 (50 / 1000000) \<noteq> NZero" "f32 (5 / 100) \<noteq> NZero" by code_simp+
    then show ?case by (simp add: cache_ok_def no_nzero_def vconv_new_def)
  qed (rule cache_step)
  then show ?thesis unfolding stepOneCycle_def by (simp only: fresh_cache [OF _ assms(2,3)])
qed

definition demo_libm :: libm where
  "demo_libm = \<lparr>lm_exp = (\<lambda>x. Fin (1 / 2)), lm_log = (\<lambda>x. Fin 0), lm_sin = (\<lambda>x. Fin 0), lm_cos = (\<lambda>x. Fin 1), lm_sqrt = (\<lambda>x. x)\<rparr>"

lemma vconv_cache_witness:
  "let s = stepOneCycle demo_libm (Fin (1 / 65536)) (setBat (Fin 24) (Fin (1 / 16)) (stepOneCycle demo_libm (Fin (1 / 65536)) vconv_new))
   in stepOneCycle demo_libm (Fin (1 / 32768)) s = cycle_body demo_libm (Fin (1 / 32768)) (s\<lparr>vc_cyc := recip_of (Fin (1 / 32768)) s\<rparr>)"
proof -
  have "vconv_reach demo_libm (stepOneCycle demo_libm (Fin (1 / 65536)) (setBat (Fin 24) (Fin (1 / 16)) (stepOneCycle demo_libm (Fin (1 / 65536)) vconv_new)))"
    by (rule more [OF more [OF more [OF new cycle] bat] cycle]) simp_all
  from vconv_cache [OF this, of "Fin (1 / 32768)"] show ?thesis by (simp add: Let_def)
qed

section \<open>Duty updates through the driver\<close>

definition vdrv_run :: "gate_op list \<Rightarrow> vconv \<Rightarrow> vconv" where "vdrv_run ops s = fold vdrv_op ops s"

lemma u16_sum: "(word_of_int (uint (c :: u16) + uint (r :: u16)) :: u32) = ucast c + ucast r"
  by (metis duty_sum_u32 word_of_int_uint)

lemma ucast_u16_u32: "(ucast (ucast (w :: u16) :: u32) :: u16) = w"
  by (rule bit_word_eqI) (auto simp: bit_simps)

lemma ls_count:
  fixes c r h :: u16
  shows "ucast (if (ucast h :: u32) < ucast c + ucast r then ucast c + ucast r - ucast h else (0 :: u32)) =
    (word_of_int (max 0 (uint c + uint r - uint h)) :: u16)"
proof -
  let ?d = "ucast c + ucast r - ucast h :: u32"
  have h: "uint (ucast h :: u32) = uint h" by (rule uint_up_ucast) (simp add: is_up)
  have l: "(ucast h :: u32) < ucast c + ucast r \<longleftrightarrow> uint h < uint c + uint r" by (simp only: word_less_def duty_sum_u32 h)
  show ?thesis
  proof (cases "uint h < uint c + uint r")
    case True
    then have "ucast h \<le> (ucast c + ucast r :: u32)" using l by (meson order.strict_implies_order)
    then have "uint ?d = uint c + uint r - uint h" using h by (simp only: uint_minus_simple_alt duty_sum_u32)
    then have "ucast ?d = (word_of_int (uint c + uint r - uint h) :: u16)" by (simp only: ucast_eq)
    then show ?thesis using True l by simp
  qed (use l in simp)
qed

text \<open>What the simulated driver makes of a duty update. For every way the converter writes its LEDC channels, the plant's HS
  on-count becomes the converter's, and its LS on-count too, with one exception: with enable inputs, a small decrease writes
  the LS channel first, the driver subtracts the HS count of before, and the plant's LS time is short by the size of the step
  (or zero).\<close>
theorem vconv_driver_counts:
  assumes "\<not> sc_useMcpwm c"
  shows "let s' = vdrv_run (drv_commit_ops c en ld dir) s; old = vp_ctrl (vc_pwm s)
    in vp_ctrl (vc_pwm s') = sc_pwmCtrl c \<and>
       vp_rect (vc_pwm s') =
         (if sc_enLogic c \<and> \<not> ld \<and> dir < 0 then word_of_int (max 0 (uint (sc_pwmCtrl c) + uint (sc_pwmRect c) - uint old))
          else sc_pwmRect c)"
proof -
  consider "ld" "sc_enLogic c" | "ld" "\<not> sc_enLogic c" "sc_pinSd c \<noteq> 255" | "ld" "\<not> sc_enLogic c" "sc_pinSd c = 255"
    | "\<not> ld" "sc_enLogic c" "dir < 0" | "\<not> ld" "\<not> sc_enLogic c" "dir < 0"
    | "\<not> ld" "sc_enLogic c" "\<not> dir < 0" | "\<not> ld" "\<not> sc_enLogic c" "\<not> dir < 0" by blast
  then show ?thesis using assms
    by cases (simp_all add: vdrv_run_def drv_commit_ops_def ledc_rect_op_def vdrv_duty_def vdrv_pulse_def setPwmCount_def u16_sum ls_count ucast_u16_u32 Let_def)
qed

lemma vconv_driver_counts_witness:
  "let c = conv_new\<lparr>sc_useMcpwm := False, sc_enLogic := True, sc_pwmCtrl := 300, sc_pwmRect := 200\<rparr>;
       s = vconv_new\<lparr>vc_pwm := \<lparr>vp_max = 1000, vp_ctrl = 310, vp_rect = 190, vp_freq = 39000\<rparr>\<rparr>
   in vp_rect (vc_pwm (vdrv_run (drv_commit_ops c False False (- 10)) s)) = 190 \<and>
      vp_rect (vc_pwm (vdrv_run (drv_commit_ops c False False 10) s)) = 200"
proof -
  let ?c = "conv_new\<lparr>sc_useMcpwm := False, sc_enLogic := True, sc_pwmCtrl := 300, sc_pwmRect := 200\<rparr>"
  have "\<not> sc_useMcpwm ?c" by simp
  note t = vconv_driver_counts [OF this]
  show ?thesis using t [of False False "- 10"] t [of False False 10] by (simp add: Let_def)
qed

section \<open>Coalesced ticks\<close>

lemma cycle_pwm: "vc_pwm (stepOneCycle m T s) = vc_pwm s"
  using cycle_body_same [of "if recip_stale T s then s\<lparr>vc_cyc := recip_of T s\<rparr> else s" m T]
  by (auto simp: stepOneCycle_def cache_same_def)

lemma cycles_pwm: "vc_pwm ((stepOneCycle m T ^^ n) s) = vc_pwm s"
  by (induction n) (simp_all add: cycle_pwm)

lemma cycles_period: "step_period fb ((stepOneCycle m T ^^ n) s) = step_period fb s"
  by (simp add: step_period_def step_freq_def cycles_pwm)

lemma rnd_rel:
  assumes "pow2 (- 126) \<le> x"
  shows "\<bar>rnd F32 x - x\<bar> \<le> x * pow2 (- 24)"
proof -
  have x: "0 < x" using assms pow2_pos [of "- 126"] by linarith
  note il = ilog2_bounds [OF x]
  have "pow2 (- 126) < pow2 (ilog2 x + 1)" using assms il(2) by linarith
  then have u: "ulp_exp F32 x = ilog2 x - 23" using x by (simp add: ulp_exp_def)
  have "\<bar>rnd F32 x - x\<bar> \<le> pow2 (ilog2 x - 23) / 2" using rnd_err [of F32 x] u by simp
  also have "\<dots> = pow2 (ilog2 x) * pow2 (- 24)" using pow2_add [of "ilog2 x" "- 24"] pow2_add [of "ilog2 x - 24" 1] by simp
  also have "\<dots> \<le> x * pow2 (- 24)" using il(1) by (intro mult_right_mono) simp_all
  finally show ?thesis .
qed

lemma fdiv_rel:
  assumes "isfinite x" "isfinite y" "0 < val y" "pow2 (- 126) \<le> val x / val y" "val x / val y \<le> pow2 127"
  shows "isfinite (fdiv x y) \<and> val x / val y * (1 - pow2 (- 24)) \<le> val (fdiv x y) \<and> val (fdiv x y) \<le> val x / val y * (1 + pow2 (- 24))"
proof -
  let ?q = "val x / val y"
  have d: "fdiv x y = mk F32 (signbit x \<noteq> signbit y) ?q"
    using assms(1-3) by (cases x; cases y) (auto simp: gdiv_def iszero_def)
  have "rnd F32 ?q \<le> pow2 127" by (rule rnd_le_repr [OF assms(5)]) (simp add: rnd_pow2)
  then have "rnd F32 ?q < pow2 128" using le_less_trans [OF _ pow2_strict [of 127 128]] by simp
  moreover have "0 \<le> rnd F32 ?q" using assms(4) pow2_pos [of "- 126"] by (intro rnd_nonneg) linarith
  ultimately have "isfinite (fdiv x y)" unfolding d isfinite_mk by simp
  moreover from this have "val (fdiv x y) = rnd F32 ?q" unfolding d by (rule val_mk)
  ultimately show ?thesis using rnd_rel [OF assms(4)] by (simp add: abs_le_iff algebra_simps)
qed

definition near :: "rat \<Rightarrow> fl \<Rightarrow> bool" where
  \<comment> \<open>a value after two roundings\<close>
  "near x v = (isfinite v \<and> x * (1 - pow2 (- 24)) ^ 2 \<le> val v \<and> val v \<le> x * (1 + pow2 (- 24)) ^ 2)"

lemma pow2_m24: "pow2 (- 24) = 1 / 16777216"
  by (simp add: pow2_def)

lemma ratio_bounds:
  fixes N f x T :: rat
  assumes "1 \<le> N" "N \<le> 1048576" "1 \<le> f"
    "N / f * (1 - 1 / 16777216) ^ 2 \<le> x" "x \<le> N / f * (1 + 1 / 16777216) ^ 2"
    "1 / f * (1 - 1 / 16777216) \<le> T" "T \<le> 1 / f * (1 + 1 / 16777216)"
  shows "0 < T" "N * (1 - 4 / 16777216) \<le> x / T" "x / T \<le> N * (1 + 4 / 16777216)"
proof -
  have f: "0 < f" using assms(3) by linarith
  have "0 < 1 / f * (1 - 1 / 16777216)" using f by simp
  then show T: "0 < T" using assms(6) by linarith
  have "N * (1 - 4 / 16777216) * T \<le> N * (1 - 4 / 16777216) * (1 / f * (1 + 1 / 16777216))"
    using assms(1,7) by (intro mult_left_mono) simp_all
  also have "\<dots> = N / f * ((1 - 4 / 16777216) * (1 + 1 / 16777216))" by simp
  also have "\<dots> \<le> N / f * (1 - 1 / 16777216) ^ 2" using assms(1) f by (intro mult_left_mono) (simp_all add: power2_eq_square)
  finally have "N * (1 - 4 / 16777216) * T \<le> x" using assms(4) by linarith
  then show "N * (1 - 4 / 16777216) \<le> x / T" using T by (simp add: pos_le_divide_eq)
  have "N / f * (1 + 1 / 16777216) ^ 2 \<le> N / f * ((1 + 4 / 16777216) * (1 - 1 / 16777216))"
    using assms(1) f by (intro mult_left_mono) (simp_all add: power2_eq_square)
  also have "\<dots> = N * (1 + 4 / 16777216) * (1 / f * (1 - 1 / 16777216))" by simp
  also have "\<dots> \<le> N * (1 + 4 / 16777216) * T" using assms(1,6) by (intro mult_left_mono) simp_all
  finally have "x \<le> N * (1 + 4 / 16777216) * T" using assms(5) by linarith
  then show "x / T \<le> N * (1 + 4 / 16777216)" using T by (simp add: pos_divide_le_eq)
qed

lemma inv_near:
  assumes "1 \<le> f" "f < 2 ^ 24"
  shows "isfinite (fdiv (Fin 1) (to_float f)) \<and> 1 / of_int f * (1 - 1 / 16777216) \<le> val (fdiv (Fin 1) (to_float f)) \<and>
    val (fdiv (Fin 1) (to_float f)) \<le> 1 / of_int f * (1 + 1 / 16777216)"
proof -
  have t: "to_float f = Fin (of_int f)" by (rule to_float_exact) (use assms in simp)
  have f: "1 \<le> rat_of_int f" "rat_of_int f \<le> 16777216" using assms by simp_all
  have "1 / 16777216 \<le> 1 / rat_of_int f" using f by (intro divide_left_mono) simp_all
  moreover have "pow2 (- 126) \<le> 1 / 16777216" "1 \<le> pow2 127" by (simp_all add: pow2_def)
  moreover have "1 / rat_of_int f \<le> 1" using f by simp
  ultimately have "pow2 (- 126) \<le> 1 / rat_of_int f" "1 / rat_of_int f \<le> pow2 127" by linarith+
  then show ?thesis using fdiv_rel [of "Fin 1" "to_float f"] f by (simp add: t pow2_m24)
qed

lemma stepSeconds_cycles:
  assumes "uint (step_freq fb s) = f" "1 \<le> f" "f < 2 ^ 24" "1 \<le> N" "N \<le> 2 ^ 20" "near (of_int N / of_int f) x"
  shows "stepSeconds m x fb s = Inr ((stepOneCycle m (step_period fb s) ^^ nat N) s)"
proof -
  let ?T = "step_period fb s"
  have T: "?T = fdiv (Fin 1) (to_float f)" by (simp add: step_period_def assms(1))
  note tb = inv_near [OF assms(2,3)]
  have x: "isfinite x" "of_int N / of_int f * (1 - 1 / 16777216) ^ 2 \<le> val x" "val x \<le> of_int N / of_int f * (1 + 1 / 16777216) ^ 2"
    using assms(6) by (simp_all add: near_def pow2_m24)
  have n: "1 \<le> rat_of_int N" "rat_of_int N \<le> 1048576" "1 \<le> rat_of_int f" using assms(2,4,5) by simp_all
  have r: "0 < val ?T" "of_int N * (1 - 4 / 16777216) \<le> val x / val ?T" "val x / val ?T \<le> of_int N * (1 + 4 / 16777216)"
    using ratio_bounds [OF n x(2,3)] tb unfolding T by blast+
  have "0 < rat_of_int N / of_int f * (1 - 1 / 16777216) ^ 2" using n by simp
  then have xpos: "0 < val x" using x(2) by linarith
  define q where "q = val x / val ?T"
  have "rat_of_int N * (1 - 4 / 16777216) = of_int N - of_int N / 4194304" "rat_of_int N * (1 + 4 / 16777216) = of_int N + of_int N / 4194304"
    by (simp_all add: algebra_simps)
  then have rq: "of_int N - of_int N / 4194304 \<le> q" "q \<le> of_int N + of_int N / 4194304" using r(2,3) unfolding q_def by simp_all
  then have "1 / 2 \<le> q" "q \<le> 2097152" using n by linarith+
  moreover have "pow2 (- 126) \<le> 1 / 2" "2097152 \<le> pow2 127" by (simp_all add: pow2_def)
  ultimately have qb: "pow2 (- 126) \<le> q" "q \<le> pow2 127" "q \<le> 2097152" by linarith+
  moreover have "isfinite ?T" using tb T by simp
  ultimately have "isfinite (fdiv x ?T) \<and> q * (1 - 1 / 16777216) \<le> val (fdiv x ?T) \<and> val (fdiv x ?T) \<le> q * (1 + 1 / 16777216)"
    using fdiv_rel [OF x(1) _ r(1)] unfolding q_def by (simp add: pow2_m24)
  then have d: "isfinite (fdiv x ?T)" "q - q / 16777216 \<le> val (fdiv x ?T)" "val (fdiv x ?T) \<le> q + q / 16777216"
    by (simp_all add: algebra_simps)
  have "rat_of_int N - 1 / 2 < val (fdiv x ?T)" "val (fdiv x ?T) < of_int N + 1 / 2"
    using d(2,3) rq qb(3) n by linarith+
  then have fl: "\<lfloor>val (fdiv x ?T) + 1 / 2\<rfloor> = N" "0 \<le> val (fdiv x ?T)" using n by (simp_all add: floor_eq_iff)
  then have "lround_long (fdiv x ?T) = Inr N" using d(1) assms(4,5) by (simp add: lround_long_def lround_int_def)
  moreover have "\<not> fle x (Fin 0)" using xpos x(1) by (cases x) (auto simp: fle_def)
  ultimately show ?thesis using assms(4) by (simp add: stepSeconds_def Let_def)
qed

lemma tick_near:
  assumes "1 \<le> a" "a < 2 ^ 24" "1 \<le> t" "t \<le> 8"
  shows "near (of_int t / of_int a) (fmul (fdiv (Fin 1) (to_float a)) (to_float t))"
proof -
  let ?d = "fdiv (Fin 1) (to_float a)"
  note d = inv_near [OF assms(1,2)]
  have t: "to_float t = Fin (of_int t)" by (rule to_float_exact) (use assms in simp)
  have b: "1 \<le> rat_of_int a" "rat_of_int a \<le> 16777216" "1 \<le> rat_of_int t" "rat_of_int t \<le> 8" using assms by simp_all
  have inv: "1 / 16777216 \<le> 1 / rat_of_int a" "1 / rat_of_int a \<le> 1" using b by (simp_all add: divide_left_mono)
  let ?p = "val ?d * of_int t"
  have dl: "1 / 33554432 \<le> val ?d" "val ?d \<le> 2" using d inv by (simp_all add: algebra_simps)
  have "val ?d * 1 \<le> ?p" "?p \<le> val ?d * 8" using b dl(1) by (intro mult_left_mono; simp)+
  then have pb: "1 / 33554432 \<le> ?p" "?p \<le> 16" using dl by linarith+
  have m: "fmul ?d (to_float t) = mk F32 False ?p" using d dl b(3) unfolding t by (cases ?d) (auto simp: gmul_def)
  have "pow2 (- 126) \<le> 1 / 33554432" by (simp add: pow2_def)
  then have r: "\<bar>rnd F32 ?p - ?p\<bar> \<le> ?p / 16777216" using rnd_rel [of ?p] pb(1) by (simp add: pow2_m24)
  have "?p / 16777216 \<le> 1" using pb(2) by simp
  then have "\<bar>rnd F32 ?p\<bar> < 18" using r pb by linarith
  moreover have "(18 :: rat) < pow2 (emax F32)" by (simp add: pow2_def)
  ultimately have f: "isfinite (fmul ?d (to_float t))" unfolding m isfinite_mk by (rule less_trans)
  then have v: "val (fmul ?d (to_float t)) = rnd F32 ?p" unfolding m by (rule val_mk)
  let ?x = "of_int t / of_int a :: rat"
  have e: "1 / of_int a * c * of_int t = ?x * c" for c :: rat by simp
  have "1 / of_int a * (1 - 1 / 16777216) * of_int t \<le> ?p" "?p \<le> 1 / of_int a * (1 + 1 / 16777216) * of_int t"
    using d b(3) by (intro mult_right_mono; simp)+
  then have p: "?x * (1 - 1 / 16777216) \<le> ?p" "?p \<le> ?x * (1 + 1 / 16777216)" unfolding e by blast+
  have "?x * (1 - 1 / 16777216) * (1 - 1 / 16777216) \<le> ?p * (1 - 1 / 16777216)" "?p * (1 + 1 / 16777216) \<le> ?x * (1 + 1 / 16777216) * (1 + 1 / 16777216)"
    using p by (intro mult_right_mono; simp)+
  moreover have "?p * (1 - 1 / 16777216) \<le> rnd F32 ?p" "rnd F32 ?p \<le> ?p * (1 + 1 / 16777216)"
  proof -
    have "?p - ?p / 16777216 \<le> rnd F32 ?p" "rnd F32 ?p \<le> ?p + ?p / 16777216" using r by linarith+
    moreover have "p * (1 - 1 / 16777216) = p - p / 16777216" "p * (1 + 1 / 16777216) = p + p / 16777216" for p :: rat
      by (simp_all add: algebra_simps)
    ultimately show "?p * (1 - 1 / 16777216) \<le> rnd F32 ?p" "rnd F32 ?p \<le> ?p * (1 + 1 / 16777216)" by (simp_all only:)
  qed
  ultimately show ?thesis using f v by (simp add: near_def pow2_m24 power2_eq_square mult.assoc)
qed

lemma hasData_cycles:
  assumes "uint (step_freq 39000 s) = k * uint (va_freq a)" "0 < uint (va_freq a)" "uint (step_freq 39000 s) < 2 ^ 24"
    "8 * k \<le> 2 ^ 20" "1 \<le> unat t" "unat t \<le> 8"
  shows "vadc_hasData m t a s = Inr (True, (stepOneCycle m (step_period 39000 s) ^^ (unat t * nat k)) s)"
proof -
  have f0: "0 < uint (step_freq 39000 s)" by (auto simp: step_freq_def Let_def word_less_def word_le_def)
  then have k: "1 \<le> k" using assms(1,2) by (metis int_one_le_iff_zero_less zero_less_mult_pos2)
  have "1 * uint (va_freq a) \<le> k * uint (va_freq a)" using k assms(2) by (intro mult_right_mono) simp_all
  then have a: "1 \<le> uint (va_freq a)" "uint (va_freq a) < 2 ^ 24" using assms(1-3) by linarith+
  have t: "1 \<le> uint t" "uint t \<le> 8" "t \<noteq> 0" "\<not> kMaxCatchupTicks < t"
  proof -
    have "uint t = int (unat t)" by simp
    then show "1 \<le> uint t" "uint t \<le> 8" using assms(5,6) by linarith+
    show "t \<noteq> 0" using assms(5) by auto
    show "\<not> kMaxCatchupTicks < t" using assms(6) by (simp add: kMaxCatchupTicks_def word_less_nat_alt)
  qed
  have e: "rat_of_int (uint t * k) / of_int (k * uint (va_freq a)) = of_int (uint t) / of_int (uint (va_freq a))" using k by simp
  have "uint t * k \<le> 8 * k" using t(2) k by (intro mult_right_mono) simp_all
  moreover have "1 * 1 \<le> uint t * k" using t(1) k by (intro mult_mono) simp_all
  ultimately have N: "1 \<le> uint t * k" "uint t * k \<le> 2 ^ 20" using assms(4) by linarith+
  have n: "near (of_int (uint t * k) / of_int (k * uint (va_freq a))) (fmul (fdiv (Fin 1) (to_float (uint (va_freq a)))) (to_float (uint t)))"
    unfolding e by (rule tick_near [OF a t(1,2)])
  have "1 \<le> k * uint (va_freq a)" "k * uint (va_freq a) < 2 ^ 24" using f0 assms(1,3) by simp_all
  note stepSeconds_cycles [OF assms(1) this N n, of m]
  moreover have "nat (uint t * k) = unat t * nat k" by (simp add: nat_mult_distrib)
  ultimately show ?thesis using t(3,4) by (simp add: vadc_hasData_def Let_def)
qed

fun polls :: "libm \<Rightarrow> vadc \<Rightarrow> nat \<Rightarrow> vconv \<Rightarrow> vconv res" where
  "polls m a 0 s = Inr s"
| "polls m a (Suc n) s = bindE (vadc_hasData m 1 a s) (\<lambda>(_, s'). polls m a n s')"

lemma step_freq_cycles: "step_freq fb ((stepOneCycle m T ^^ n) s) = step_freq fb s"
  by (simp add: step_freq_def cycles_pwm)

lemma polls_cycles:
  assumes "uint (step_freq 39000 s) = k * uint (va_freq a)" "0 < uint (va_freq a)" "uint (step_freq 39000 s) < 2 ^ 24" "8 * k \<le> 2 ^ 20"
  shows "polls m a n s = Inr ((stepOneCycle m (step_period 39000 s) ^^ (n * nat k)) s)"
  using assms
proof (induction n arbitrary: s)
  case (Suc n)
  let ?T = "step_period 39000 s" and ?s = "(stepOneCycle m (step_period 39000 s) ^^ nat k) s"
  have "vadc_hasData m 1 a s = Inr (True, ?s)" using hasData_cycles [OF Suc.prems, of 1 m] by simp
  moreover have "polls m a n ?s = Inr ((stepOneCycle m (step_period 39000 ?s) ^^ (n * nat k)) ?s)"
    by (rule Suc.IH) (use Suc.prems in \<open>simp_all add: step_freq_cycles\<close>)
  moreover have "(stepOneCycle m ?T ^^ (Suc n * nat k)) s = (stepOneCycle m ?T ^^ (n * nat k)) ?s"
    unfolding mult_Suc add.commute [of "nat k"] funpow_add comp_apply ..
  ultimately show ?case by (simp add: cycles_period del: mult_Suc)
qed simp

text \<open>Coalesced ticks lose no time. When the switching frequency is a multiple of the ADC's (at most \<open>2 ^ 17\<close> cycles a
  tick), a poll that finds up to eight ticks at once leaves the plant exactly as that many polls with one tick each would,
  rounding of the times included.\<close>
theorem vconv_catchup:
  assumes "uint (step_freq 39000 s) = k * uint (va_freq a)" "0 < uint (va_freq a)" "uint (step_freq 39000 s) < 2 ^ 24"
    "8 * k \<le> 2 ^ 20" "1 \<le> unat t" "unat t \<le> 8"
  shows "vadc_hasData m t a s = bindE (polls m a (unat t) s) (\<lambda>s'. Inr (True, s'))"
  unfolding hasData_cycles [OF assms] polls_cycles [OF assms(1-4)] by simp

lemma vconv_catchup_witness:
  "vadc_hasData demo_libm 5 vadc_new (vconv_new\<lparr>vc_vOut := Fin 20\<rparr>) =
    bindE (polls demo_libm vadc_new 5 (vconv_new\<lparr>vc_vOut := Fin 20\<rparr>)) (\<lambda>s'. Inr (True, s'))"
proof -
  have "unat (5 :: u32) = 5" by simp
  moreover have "uint (step_freq 39000 (vconv_new\<lparr>vc_vOut := Fin 20\<rparr>)) = 39000" "uint (va_freq vadc_new) = 3000" by code_simp+
  ultimately show ?thesis using vconv_catchup [of "vconv_new\<lparr>vc_vOut := Fin 20\<rparr>" 13 vadc_new 5 demo_libm] by simp
qed

text \<open>The timer runs at whole microseconds, the plant steps by the requested period: at 3000 Hz the plant's clock is slow.\<close>
lemma vadc_rate_3000: "periodic_hz (va_freq vadc_new) = 3003"
  by code_simp

section \<open>Noise\<close>

lemma self_shift:
  assumes "(x :: u32) = push_bit n x" "0 < n" shows "x = 0"
proof -
  have p: "x = push_bit (n * k) x" for k
  proof (induction k)
    case (Suc k)
    have "push_bit (n * Suc k) x = push_bit n (push_bit (n * k) x)" by (simp add: push_bit_push_bit add.commute)
    then show ?case using Suc assms(1) by metis
  qed simp
  have "32 \<le> n * 32" using assms(2) by simp
  then have "push_bit (n * 32) x = 0" by (intro bit_eqI) (auto simp: bit_simps)
  then show ?thesis using p [of 32] by simp
qed

lemma self_drop:
  assumes "(x :: u32) = drop_bit 17 x" shows "x = 0"
proof -
  have "x = drop_bit 17 (drop_bit 17 x)" using assms by simp
  also have "\<dots> = 0" by (intro bit_eqI) (auto simp: bit_simps dest: bit_imp_le_length)
  finally show ?thesis .
qed

lemma xor_zero: "(a :: u32) XOR b = 0 \<longleftrightarrow> a = b"
  by (metis xor.assoc xor.left_neutral xor.right_neutral xor_self_eq)

lemma xorshift_nonzero:
  assumes "x \<noteq> 0" shows "xorshift32 x \<noteq> 0"
proof -
  have sh: "y XOR push_bit n y \<noteq> 0" if "y \<noteq> 0" "0 < n" for y :: u32 and n
    using self_shift [of y n] that unfolding xor_zero [of y] by blast
  have dr: "y XOR drop_bit 17 y \<noteq> 0" if "y \<noteq> 0" for y :: u32
    using self_drop [of y] that unfolding xor_zero [of y] by blast
  show ?thesis unfolding xorshift32_def Let_def by (intro sh dr assms) simp_all
qed

lemma xorshift_small:
  assumes "x \<noteq> 0" "x < 256"
  shows "256 \<le> xorshift32 x"
proof -
  have all: "list_all (\<lambda>k. 256 \<le> xorshift32 (word_of_nat k)) [1..<256]" by code_simp
  have "unat x \<in> set [1..<256]" using assms by (auto simp: word_less_nat_alt unat_gt_0 Suc_le_eq)
  then have "256 \<le> xorshift32 (word_of_nat (unat x))" using all unfolding list_all_iff by blast
  then show ?thesis by simp
qed

lemma uniform01_pos: "fle (uniform01 x) (Fin 0) \<longleftrightarrow> x < 256"
proof -
  define n where "n = uint (drop_bit 8 x)"
  have n: "n = uint x div 256" unfolding n_def by (simp add: drop_bit_eq_div uint_div)
  have x: "0 \<le> uint x" "uint x < 4294967296" using uint_lt2p [of x] by simp_all
  then have b: "0 \<le> n" "n < 16777216" unfolding n by linarith+
  have t: "to_float n = Fin (of_int n)" by (rule to_float_exact) (use b in simp)
  have v: "uniform01 x = mk F32 False (of_int n * pow2 (- 24))"
    using b by (simp add: uniform01_def n_def [symmetric] t gmul_def less_imp_not_less [OF pow2_pos])
  have z: "n = 0 \<longleftrightarrow> x < 256" 
  proof -
    have "0 \<le> i \<Longrightarrow> i div 256 = 0 \<longleftrightarrow> i < 256" for i :: int by presburger
    then show ?thesis using x unfolding n by (simp add: word_less_def)
  qed
  show ?thesis
  proof (cases "n = 0")
    case False
    have "mk F32 False (of_int n * pow2 (- 24)) = Fin (of_int n * pow2 (- 24))"
    proof (rule mk_exact)
      show "rnd F32 (of_int n * pow2 (- 24)) = of_int n * pow2 (- 24)" by (rule rnd_repr [OF HOL.refl]) (use b in simp_all)
      have "rat_of_int n \<le> 16777216" using b by simp
      then have "of_int n * pow2 (- 24) \<le> 1" by (simp add: pow2_m24)
      moreover have "(1 :: rat) < pow2 128" by (simp add: pow2_def)
      moreover have "0 \<le> of_int n * pow2 (- 24)" using b by simp
      ultimately show "\<bar>of_int n * pow2 (- 24)\<bar> < pow2 (emax F32)" by simp
    qed (use False in simp)
    then show ?thesis using False z b v by (simp add: mult_le_0_iff not_le)
  qed (use z v in simp)
qed

lemma draw_returns:
  assumes "x \<noteq> 0"
  shows "\<exists>u x'. draw_u1 2 x = Some (u, x') \<and> \<not> fle u (Fin 0) \<and> x' \<noteq> 0"
proof -
  let ?a = "xorshift32 x" and ?b = "xorshift32 (xorshift32 x)"
  have nz: "?a \<noteq> 0" "?b \<noteq> 0" using xorshift_nonzero assms by blast+
  have "\<not> fle (uniform01 ?b) (Fin 0)" if "fle (uniform01 ?a) (Fin 0)"
    using xorshift_small [OF nz(1)] that unfolding uniform01_pos by simp
  then show ?thesis using nz by (auto simp: numeral_2_eq_2 Let_def)
qed

text \<open>The noise generator always returns. The loop that draws a positive number takes at most two rounds, because a state
  that gives zero is followed by one that does not; the state never becomes zero, from which it could not recover. So
  every sample of the ADC is produced, with or without noise.\<close>
theorem vadc_sample_returns:
  assumes "va_rng a \<noteq> 0"
  shows "\<exists>x a'. vadc_getSample m 2 s a = Some (x, a') \<and> va_rng a' \<noteq> 0"
proof -
  have "\<exists>g a'. gaussian01 m 2 a = Some (g, a') \<and> va_rng a' \<noteq> 0"
  proof (cases "va_haveSpare a")
    case False
    obtain u x where "draw_u1 2 (va_rng a) = Some (u, x)" "x \<noteq> 0" using draw_returns [OF assms] by blast
    then show ?thesis using False xorshift_nonzero [of x] by (simp add: gaussian01_def Let_def)
  qed (use assms in \<open>simp add: gaussian01_def\<close>)
  then show ?thesis using assms by (auto simp: vadc_getSample_def split: prod.splits)
qed

lemma vadc_sample_returns_witness:
  "\<exists>x a'. vadc_getSample demo_libm 2 vconv_new (vadc_new\<lparr>va_noiseVin := Fin 1\<rparr>) = Some (x, a') \<and> va_rng a' \<noteq> 0"
  by (rule vadc_sample_returns) (simp add: vadc_new_def)

end
