(* ===== verification/Spec2Isabelle.thy ===== *)
theory Spec2Isabelle
  imports StatMath Glide Coulomb PdControl TrackerM CString Conf Charger Timing PwmDrv Converter ConverterNum
    Peripherals Noise Sampler Mppt RtLoop MpptSafe MpptProps SamplerProps Calibration SymLine SymLineProps
    Scope ScopeProps AdcDrivers AdcProps FwLoop Service ServiceProps BSync BSyncProps
    Float16 Float16Props Energy EnergyProps VConv VConvProps
begin

text \<open>
  Fugu MPPT firmware: a solar charge controller for the ESP32. A real-time loop reads the sensors,
  protects the synchronous converter, runs the voltage, current and power loops, sweeps for and tracks the
  maximum power point, and lets the battery charger set the output voltage limit.

  \<^bold>\<open>How the program is modelled.\<close> Every class is a record of its fields, every method a function on that
  record, in the order of the source and with its guards, early returns and side effects. Machine
  integers keep their width (\<open>u8\<close>, \<open>u16\<close>, \<open>u32\<close>, \<open>u64\<close>). \<open>float\<close> and \<open>double\<close> are the
  type \<open>fl\<close> of theory Floats: exact rationals with NaN, both infinities and the negative zero, rounded
  to nearest even after every operation (no fused multiply-add, which the build does not ask for).
  A result type carries what stops a function: a C++ exception (\<open>Throw\<close>), a failed assertion that
  panics the device (\<open>AssertFail\<close>), or a conversion the standard leaves undefined (\<open>Undefined\<close>). Clocks,
  sensor values, pin levels and file contents are arguments.

  \<^bold>\<open>Theories.\<close>
  \<^item> Prelude: word sizes, results, the \<open>constrain\<close> macro. Floats: binary32 and binary64 arithmetic with
    its order, rounding and error lemmas and the code equations that evaluate it.
  \<^item> StatMath (\<open>math/statmath.h\<close>): exponential filters, medians, mean and trapezoidal accumulators.
    The locales \<open>bounded_filter\<close> and \<open>nan_filter\<close> are the contract of the filters.
  \<^item> Glide (\<open>etc/linear_glide.h\<close>), Coulomb (\<open>etc/coulomb_counter.h\<close>), PdControl (\<open>pd_control.h\<close>).
  \<^item> TrackerM (\<open>tracker.h\<close>): the hill climbing tracker.
  \<^item> CString, Conf (\<open>conf.h\<close>): C string parsing and the configuration files, on file contents.
  \<^item> Charger (\<open>charger.h\<close>): parameters, BMS snapshot, charge termination, output voltage pinning.
  \<^item> Timing, PwmDrv (\<open>pwm/mcpwm_timing.h\<close>, \<open>pwm/mcpwm.h\<close>, \<open>pwm/ledc.h\<close>): the PWM
    time base and the two gate drivers as register state with the waveforms they produce.
  \<^item> Converter, ConverterNum (\<open>buck.h\<close>): the synchronous converter. Every driver call is a gate
    operation, so the order of register writes is explicit; ConverterNum bounds its arithmetic.
  \<^item> Peripherals (\<open>pwm/backflow.h\<close>, \<open>cooling.h\<close>, \<open>battery.h\<close>), Mppt (\<open>mppt.h\<close>,
    \<open>mppt.cpp\<close>): the MPPT controller; RtLoop (\<open>main.cpp\<close>): the real-time loop around it and the
    low-frequency control. MpptSafe and MpptProps hold their properties.
  \<^item> Noise (\<open>math/noise.h\<close>, \<open>math/ripple_freq.h\<close>), Sampler (\<open>adc/sampling.h\<close>): the sensors with
    their filters, the three ways the ADCs are read, calibration and the notch tuning. SamplerProps has the locales
    \<open>sampler_inv\<close> (what an update, a start and a cancellation of calibration must respect) and
    \<open>sensor_inv\<close> (the same for a predicate on each sensor, a sublocale of it) with their interpretations;
    Calibration has the results an update reports and the counting of calibration rounds.
  \<^item> SymLine (\<open>tele/sym_line_protocol.h\<close>): the binary telemetry protocol, its symbol table, point builder and decoder, on
    byte lists. SymLineProps: what the decoder makes of any part of a stream of points.
  \<^item> Scope (\<open>tele/scope.h\<close>): the double buffer between the sampling task and the network task, the stream's
    header and the decoder; the network task's send and clear are separate steps. ScopeProps: interleavings of the two tasks.
  \<^item> AdcDrivers (\<open>adc/adc_esp32_cont.*\<close>, \<open>adc/ina226*.h\<close>, \<open>adc/ads.h\<close>, \<open>adc/adc_esp32.h\<close>,
    \<open>adc/temperature.h\<close>): the ADC drivers, each ending in what the sampler reads of it. AdcProps: their averages, rates
    and gains. FwLoop composes the continuous ADC, the sampler and the loop with the restart the loop asks for.
  \<^item> Service (\<open>service.h\<close>, the \<open>svc\<close> command of \<open>cli.cpp\<close>): services, their manager and their settings; the
    hooks called are kept in a trace. ServiceProps: locale \<open>svc_inv\<close>, what every operation on a service must keep.
  \<^item> BSync (\<open>sync/bsync.*\<close>): the phase lock to WiFi beacons: clock bridge, estimator, servo, period dither.
    BSyncProps: interleavings of its callbacks.
  \<^item> Float16 (\<open>math/float16.*\<close>), Energy (\<open>store.h\<close>, \<open>metering.h\<close>): half precision numbers, values
    in flash files, the ring of days and the energy meters. Float16Props: what a value becomes; EnergyProps: restarts.
  \<^item> VConv (\<open>sim/vconv.*\<close>, \<open>pwm/vconv.h\<close>, \<open>adc/vconv.h\<close>): the virtual converter of the simulation builds
    with its driver, which takes the converter's gate operations, and its ADC. VConvProps: its cache, driver, clock and noise.

  \<^bold>\<open>How the parts interact.\<close> \<open>rt_loop\<close> is one pass of \<open>loopRT\<close> after
  \<open>sampler_update\<close>, whose result it is given: the stall watchdog, then
  \<open>rt_new_data\<close>, which runs \<open>protect\<close> and \<open>protectLf\<close> and then \<open>mppt_update\<close> or
  \<open>updateManual\<close>. These call the converter (\<open>sc_perturbFractional\<close>, \<open>sc_disable\<close>, ...), the tracker, the PD
  controllers and the charger's limits. The locale \<open>power_stage\<close> (MpptSafe) is the contract between the
  controller and the converter: allowed steps keep an invariant. It is interpreted on the moves
  \<open>conv_move\<close> (the operations that do not wake a disabled converter) and the invariant \<open>conv_inv\<close>
  (duty limits, registers that match the counters, bounded arithmetic), and every tick of the loop is shown to
  consist of such moves.

  \<^bold>\<open>What the lemma groups show.\<close> Filters: bounds, equivalence of the medians with sorting. Charger:
  release and ceiling of the termination as history properties, the fallback when the BMS falls silent. Conf: a
  write followed by a read returns the value and keeps every other key. Converter: duty limits, refinement of the duty
  counters by both gate drivers, safe order of register writes, no undefined conversion, exact carry of fractional
  steps. Timing: the prescaler search returns for every frequency. MPPT: a fault switches the power stage
  off within its tick, every run of the loop keeps the refinement of the gates, derating bounds, expiry of the
  backoff, the sweep's target is the best sample, manual mode reaches its target. Sampler: samples are credited to the
  sensor whose channel was converted, offsets stay within their limits, calibration never panics but counts rounds,
  and a NaN sample stops the converter in the same pass of the loop. Telemetry: a stream decodes to exactly its points, with
  losses to a part of them, and a late receiver catches up within 200 points. Scope: under any interleaving of the tasks
  the bytes sent are the samples accepted, in order, and decode to them. ADC drivers and FwLoop: what the continuous ADC
  delivers are means of consecutive samples; when no ADC delivers the converter is stopped, but with a second ADC
  that still delivers a dead one is never handled. Services: the hooks of each service are called in the order of one state machine in any
  run, and a persisted setting is what the next boot reads. Beacon sync: the period register is the nominal
  period or one tick more whatever the callbacks do, its mean follows the servo, and bursts of bad beacons do not step the estimate. Energy: a restart keeps the count to 5 Wh, the ring is the last sixty days,
  and half precision is exact to its last bit except where a carry is lost. Virtual converter: a cycle with cached
  reciprocals equals one that recomputes them, coalesced ticks equal single ones, and the noise generator returns.

  \<^bold>\<open>Assumptions.\<close> Both gate drivers are compiled in and one is chosen by configuration. The clock values
  stay below \<open>2 ^ 63\<close> microseconds where a deadline is computed. A pass of the real-time loop sees one clock value
  and one set of sensor values, as the code caches the clock per pass and reads the sensors in the same task. After
  \<open>systemRestart\<close> the model goes on with the event recorded. The build does not define
  \<open>FUGU_FORCE_BFLOW_OFF\<close>. Loops are total functions (no fuel is used): the file loops recurse on the content, the
  prescaler search on its range.

  \<^bold>\<open>Not modelled.\<close> The register-level set-up and self tests of the ADC chips and the biquad of the signal
  library (a parameter), the telemetry transport and its text encoding, the console, displays, logging and firmware update, the NVS
  strings; vendored queues and compression. Log output and profiling counters are left out
  everywhere. The functions of the mathematics library are parameters:
  \<open>sqrtf\<close> and \<open>cosf\<close> of the ripple detector, and those the virtual converter calls.
\<close>

end
